(* ===== verification/Prelude.thy ===== *)
theory Prelude
  imports Main "HOL-Library.Word" "HOL-Library.Monad_Syntax"
begin

text \<open>
  The vocabulary the component theories share: the widths of Go's integers, the
  error values, decimal text, and the facts about words and lists that the
  component proofs use again and again.

  Go's unsigned integers are words and wrap.  \<open>int\<close>, \<open>int64\<close> and
  \<open>time.Duration\<close> are mathematical integers; where the code can leave the
  64-bit range the result is written with \<open>i64\<close>, which wraps as the
  machine does.  An index out of range or a nil dereference panics in Go; the
  functions that can do so return \<open>None\<close> for the panic.
\<close>

unbundle bit_operations_syntax

section \<open>Machine integers\<close>

type_synonym u64 = "64 word"
type_synonym u32 = "32 word"
type_synonym u16 = "16 word"
type_synonym u8 = "8 word"

text \<open>The value of an integer expression of type \<open>int64\<close>: two's complement at 64 bits.\<close>

definition i64 :: "int \<Rightarrow> int" where
  "i64 x = sint (word_of_int x :: u64)"

text \<open>The conversion \<open>uint64(x)\<close> of a signed value.\<close>

definition to_u64 :: "int \<Rightarrow> u64" where
  "to_u64 x = word_of_int x"

text \<open>
  A \<open>time.Time\<close> is the number of nanoseconds since Go's zero time, so that
  \<open>IsZero\<close> is equality with 0; \<open>Time.Sub\<close> saturates at the ends of
  \<open>time.Duration\<close>.
\<close>

type_synonym Time = int
type_synonym Duration = int

definition max_duration :: Duration where
  "max_duration = 2 ^ 63 - 1"

definition min_duration :: Duration where
  "min_duration = - (2 ^ 63)"

definition time_sub :: "Time \<Rightarrow> Time \<Rightarrow> Duration" where
  "time_sub a b = max min_duration (min max_duration (a - b))"

abbreviation Nanosecond :: Duration where "Nanosecond \<equiv> 1"
abbreviation Millisecond :: Duration where "Millisecond \<equiv> 1000000"
abbreviation Second :: Duration where "Second \<equiv> 1000000000"
abbreviation Minute :: Duration where "Minute \<equiv> 60000000000"
abbreviation Hour :: Duration where "Hour \<equiv> 3600000000000"

section \<open>Errors\<close>

text \<open>
  The errors the modelled code makes: a formatted message, a message wrapped
  around another error, several errors joined, the typed error of an unreadable
  archive format, and errors that come from outside (the file system, the
  kernel, a cancelled context), of which the code only reads the class.
\<close>

datatype go_error =
    Errorf string
  | Wrapf string go_error
  | Joined "go_error list"
  | UnsupportedFormatError int
  | NotExist
  | Canceled
  | External string

section \<open>Decimal text\<close>

definition digit_char :: "nat \<Rightarrow> char" where
  "digit_char d = char_of (48 + d)"

fun show_nat :: "nat \<Rightarrow> string" where
  "show_nat n = (if n < 10 then [digit_char n] else show_nat (n div 10) @ [digit_char (n mod 10)])"

declare show_nat.simps [simp del]

definition show_u64 :: "u64 \<Rightarrow> string" where
  "show_u64 w = show_nat (unat w)"

definition show_u32 :: "u32 \<Rightarrow> string" where
  "show_u32 w = show_nat (unat w)"

definition show_int :: "int \<Rightarrow> string" where
  "show_int x = (if x < 0 then CHR ''-'' # show_nat (nat (- x)) else show_nat (nat x))"

text \<open>
  \<open>%q\<close>: the text in double quotes, with the escapes of \<open>strconv.Quote\<close>.  Bytes
  beyond ASCII stand for printable characters and stay as they are.
\<close>

definition hex_digit :: "nat \<Rightarrow> char" where
  "hex_digit d = (if d < 10 then char_of (48 + d) else char_of (87 + d))"

definition backslash :: char where "backslash = CHR 0x5C"

definition quote_char :: "char \<Rightarrow> string" where
  "quote_char c =
     (let n = of_char c :: nat
      in if c = CHR 0x22 \<or> c = backslash then [backslash, c]
         else if n = 7 then [backslash, CHR ''a'']
         else if n = 8 then [backslash, CHR ''b'']
         else if n = 12 then [backslash, CHR ''f'']
         else if n = 10 then [backslash, CHR ''n'']
         else if n = 13 then [backslash, CHR ''r'']
         else if n = 9 then [backslash, CHR ''t'']
         else if n = 11 then [backslash, CHR ''v'']
         else if n < 32 \<or> n = 127 then [backslash, CHR ''x'', hex_digit (n div 16), hex_digit (n mod 16)]
         else [c])"

definition Quote :: "string \<Rightarrow> string" where
  "Quote s = [CHR 0x22] @ concat (map quote_char s) @ [CHR 0x22]"

text \<open>\<open>strings.Join\<close>.\<close>

fun join_with :: "string \<Rightarrow> string list \<Rightarrow> string" where
  "join_with sep [] = []"
| "join_with sep [x] = x"
| "join_with sep (x # y # zs) = x @ sep @ join_with sep (y # zs)"

text \<open>The text of an error, as \<open>Error()\<close> gives it.\<close>

fun error_text :: "go_error \<Rightarrow> string" where
  "error_text (Errorf s) = s"
| "error_text (Wrapf s e) = s @ '': '' @ error_text e"
| "error_text (Joined es) = join_with [CHR 0x0A] (map error_text es)"
| "error_text (UnsupportedFormatError v) =
     ''unsupported capture format '' @ show_int v
     @ ''; this binary reads and writes format 1; use a compatible analyzer (application version is independent)''"
| "error_text NotExist = ''file does not exist''"
| "error_text Canceled = ''context canceled''"
| "error_text (External s) = s"

section \<open>Collections of facts\<close>

named_theorems model_defs "definitions of the model that its proofs unfold"
named_theorems u64_arith "facts about 64-bit values that do not wrap"

section \<open>Words\<close>

lemma u64_diff_le [u64_arith]: "(a::u64) \<le> b \<Longrightarrow> b - a \<le> b"
  by unat_arith

lemma u64_add_diff [u64_arith]: "(a::u64) \<le> b \<Longrightarrow> d \<le> b - a \<Longrightarrow> a + d \<le> b"
  by unat_arith

lemma u64_le_add_diff [u64_arith]: "(a::u64) \<le> b \<Longrightarrow> d \<le> b - a \<Longrightarrow> a \<le> a + d"
  by unat_arith

lemma u64_less_add_diff [u64_arith]:
  "(a::u64) \<le> b \<Longrightarrow> d \<le> b - a \<Longrightarrow> 0 < d \<Longrightarrow> a < a + d"
  by unat_arith

lemma u64_lt_add_of_diff_lt [u64_arith]:
  "(a::u64) \<le> x \<Longrightarrow> x - a < d \<Longrightarrow> a \<le> b \<Longrightarrow> d \<le> b - a \<Longrightarrow> x < a + d"
  by unat_arith

lemma u64_le_add_of_diff_le [u64_arith]:
  "(a::u64) \<le> x \<Longrightarrow> x - a \<le> d \<Longrightarrow> a \<le> a + d \<Longrightarrow> x \<le> a + d"
  by unat_arith

lemma u64_diff_eq_0 [u64_arith]: "(a::u64) \<le> b \<Longrightarrow> b - a = 0 \<longleftrightarrow> b = a"
  by unat_arith

lemma i64_in_range: "- (2 ^ 63) \<le> x \<Longrightarrow> x < 2 ^ 63 \<Longrightarrow> i64 x = x"
  by (simp add: i64_def signed_of_int signed_take_bit_int_eq_self)

lemma i64_range: "- (2 ^ 63) \<le> i64 x \<and> i64 x < 2 ^ 63"
  using sint_range_size [of "word_of_int x :: u64"]
  by (simp add: i64_def word_size)

lemma i64_sint_diff: "i64 (sint (a::u64) - sint b) = sint (a - b)"
  by (simp add: i64_def word_of_int_minus)

section \<open>Lists\<close>

lemma sum_list_nonneg_int: "(\<And>x. x \<in> set xs \<Longrightarrow> 0 \<le> f x) \<Longrightarrow> 0 \<le> sum_list (map f xs)"
  for f :: "'a \<Rightarrow> int"
  by (induction xs) auto

lemma dropWhile_eq_drop_length_takeWhile: "dropWhile P xs = drop (length (takeWhile P xs)) xs"
  by (induction xs) auto

lemma last_in_set_if: "xs \<noteq> [] \<Longrightarrow> last xs \<in> set xs"
  by simp

end
