(* ===== verification/Model.thy ===== *)
theory Model
  imports Prelude
begin

text \<open>
  The durable boundary shared by recording and offline analysis
  (\<open>internal/model\<close>): events, aggregate metrics, segments, the health of
  the recorder, the manifest and the capture, with the checks the package
  itself makes.  A field \<open>F\<close> of a struct is the selector \<open>p_F\<close>, where
  \<open>p\<close> abbreviates the struct.
\<close>

section \<open>Format constants\<close>

definition FormatVersion :: int where "FormatVersion = 1"
definition ProtocolVersion :: int where "ProtocolVersion = 1"
definition HistogramBuckets :: nat where "HistogramBuckets = 11"
definition HistogramMinNS :: u64 where "HistogramMinNS = to_u64 Millisecond"
definition LegacyPollIntervalNS :: u64 where "LegacyPollIntervalNS = to_u64 Second"

definition Families :: "string list" where
  "Families = [''block_io'', ''scheduler'', ''tcp'', ''oom'']"

section \<open>Observations\<close>

text \<open>\<open>[HistogramBuckets]uint64\<close>: a list of exactly eleven buckets.\<close>

type_synonym Histogram = "u64 list"

definition zero_histogram :: Histogram where
  "zero_histogram = replicate HistogramBuckets 0"

definition histogram_wf :: "Histogram \<Rightarrow> bool" where
  "histogram_wf h \<longleftrightarrow> length h = HistogramBuckets"

fun Histogram_Count :: "Histogram \<Rightarrow> u64" where
  "Histogram_Count h = foldl (+) 0 h"

record Event =
  ev_MonoNS :: u64
  ev_Type :: string
  ev_PID :: u32
  ev_PIDOnly :: bool
  ev_TGID :: u32
  ev_Comm :: string
  ev_ProcessStartNS :: u64
  ev_CgroupID :: u64
  ev_CPU :: u32
  ev_LatencyNS :: u64
  ev_Major :: u32
  ev_Minor :: u32
  ev_Bytes :: u64
  ev_Operation :: string
  ev_SourceIP :: string
  ev_DestinationIP :: string
  ev_SourcePort :: u16
  ev_DestinationPort :: u16
  ev_State :: u32
  ev_TCPDirection :: string
  ev_SocketContext :: string
  ev_EndpointSource :: string
  ev_CgroupPath :: string

record Counters =
  ct_RingFailures :: u64
  ct_Suppressed :: u64
  ct_DetailFailures :: u64
  ct_TrackingFailures :: u64
  ct_Unmatched :: u64
  ct_DecodeFailures :: u64

record Metric =
  mt_BookkeepingCompletions :: u64
  mt_Family :: string
  mt_StartMonoNS :: u64
  mt_EndMonoNS :: u64
  mt_Histogram :: Histogram
  mt_Count :: u64
  mt_Anomalies :: u64
  mt_Critical :: u64
  mt_Bytes :: u64
  mt_Retransmits :: u64
  mt_Resets :: u64
  mt_Loss :: Counters

record Segment =
  sg_StartMonoNS :: u64
  sg_EndMonoNS :: u64
  sg_Events :: "Event list"
  sg_Metrics :: "Metric list"

text \<open>Go's zero values.\<close>

definition zero_Event :: Event where
  "zero_Event = \<lparr>ev_MonoNS = 0, ev_Type = [], ev_PID = 0, ev_PIDOnly = False, ev_TGID = 0,
     ev_Comm = [], ev_ProcessStartNS = 0, ev_CgroupID = 0, ev_CPU = 0, ev_LatencyNS = 0,
     ev_Major = 0, ev_Minor = 0, ev_Bytes = 0, ev_Operation = [], ev_SourceIP = [],
     ev_DestinationIP = [], ev_SourcePort = 0, ev_DestinationPort = 0, ev_State = 0,
     ev_TCPDirection = [], ev_SocketContext = [], ev_EndpointSource = [], ev_CgroupPath = []\<rparr>"

definition zero_Counters :: Counters where
  "zero_Counters = \<lparr>ct_RingFailures = 0, ct_Suppressed = 0, ct_DetailFailures = 0,
     ct_TrackingFailures = 0, ct_Unmatched = 0, ct_DecodeFailures = 0\<rparr>"

definition zero_Metric :: Metric where
  "zero_Metric = \<lparr>mt_BookkeepingCompletions = 0, mt_Family = [], mt_StartMonoNS = 0,
     mt_EndMonoNS = 0, mt_Histogram = zero_histogram, mt_Count = 0, mt_Anomalies = 0,
     mt_Critical = 0, mt_Bytes = 0, mt_Retransmits = 0, mt_Resets = 0, mt_Loss = zero_Counters\<rparr>"

section \<open>Automatic incidents\<close>

record AutoTrigger =
  at_Family :: string
  at_Reason :: string
  at_Count :: u64
  at_ThresholdNS :: u64
  at_FirstIntervalStartNS :: u64
  at_LastIntervalEndNS :: u64

record AutoIncident =
  ai_DetectedMonoNS :: u64
  ai_EndMonoNS :: u64
  ai_BeforeNS :: u64
  ai_AfterNS :: u64
  ai_Triggers :: "AutoTrigger list"

record AutoCaptureHealth =
  ah_State :: string
  ah_Directory :: string
  ah_Sensors :: "string list"
  ah_Detected :: u64
  ah_Coalesced :: u64
  ah_Saved :: u64
  ah_Failures :: u64
  ah_LastPath :: string
  ah_LastSavedAt :: Time
  ah_LastError :: string
  ah_PendingUntilNS :: u64
  ah_PendingForNS :: u64
  ah_WritingForNS :: u64
  ah_WriteTimeoutNS :: u64
  ah_WriteOverdue :: bool

definition zero_AutoCaptureHealth :: AutoCaptureHealth where
  "zero_AutoCaptureHealth = \<lparr>ah_State = [], ah_Directory = [], ah_Sensors = [], ah_Detected = 0,
     ah_Coalesced = 0, ah_Saved = 0, ah_Failures = 0, ah_LastPath = [], ah_LastSavedAt = 0,
     ah_LastError = [], ah_PendingUntilNS = 0, ah_PendingForNS = 0, ah_WritingForNS = 0,
     ah_WriteTimeoutNS = 0, ah_WriteOverdue = False\<rparr>"

text \<open>
  The per-trigger test of \<open>Valid\<close>: the \<open>seen\<close> map and the loop are the
  recursion, the \<open>switch\<close> on the family is \<open>trigger_kind_ok\<close>.
\<close>

definition trigger_kind_ok :: "AutoTrigger \<Rightarrow> bool" where
  "trigger_kind_ok t =
     (if at_Family t = ''block_io'' \<or> at_Family t = ''scheduler'' then
        \<not> (at_Reason t \<noteq> ''critical_latency'' \<or> at_ThresholdNS t = 0)
      else if at_Family t = ''oom'' then
        \<not> (at_Reason t \<noteq> ''oom_victim'' \<or> at_ThresholdNS t \<noteq> 0)
      else False)"

fun triggers_valid :: "u64 \<Rightarrow> string list \<Rightarrow> AutoTrigger list \<Rightarrow> bool" where
  "triggers_valid end_ns seen [] = True"
| "triggers_valid end_ns seen (t # ts) =
     (if at_Family t \<in> set seen \<or> at_Count t = 0
         \<or> at_LastIntervalEndNS t \<le> at_FirstIntervalStartNS t \<or> end_ns < at_LastIntervalEndNS t
      then False
      else if \<not> trigger_kind_ok t then False
      else triggers_valid end_ns (at_Family t # seen) ts)"

fun AutoIncident_Valid :: "AutoIncident option \<Rightarrow> u64 \<Rightarrow> bool" where
  "AutoIncident_Valid None end_ns = True"
| "AutoIncident_Valid (Some a) end_ns =
     (if ai_BeforeNS a = 0 \<or> ai_EndMonoNS a < ai_DetectedMonoNS a \<or> ai_EndMonoNS a \<noteq> end_ns
         \<or> ai_EndMonoNS a - ai_DetectedMonoNS a \<noteq> ai_AfterNS a
         \<or> length (ai_Triggers a) = 0 \<or> 3 < length (ai_Triggers a)
      then False
      else triggers_valid (ai_EndMonoNS a) [] (ai_Triggers a))"

section \<open>Health, host and manifest\<close>

definition TCPResetCoverageSupported :: string where "TCPResetCoverageSupported = ''supported''"
definition TCPResetCoverageLimited :: string where "TCPResetCoverageLimited = ''limited''"
definition TCPResetCoverageUnknown :: string where "TCPResetCoverageUnknown = ''unknown''"

record SensorHealth =
  sh_BookkeepingCompletions :: u64
  sh_BudgetPruneFailures :: u64
  sh_TCPResetCoverage :: string
  sh_KernelBytes :: u64
  sh_KernelBytesKnown :: bool
  sh_Name :: string
  sh_State :: string
  sh_Reason :: string
  sh_Loss :: Counters

record ClockDiscontinuity =
  cd_DetectedBootNS :: u64
  cd_DetectedAt :: Time
  cd_OffsetChangeNS :: int

record Health =
  he_AutoCapture :: "AutoCaptureHealth option"
  he_ObservedAt :: "Time option"
  he_ClockChanges :: u64
  he_LastClockChange :: "ClockDiscontinuity option"
  he_Sensors :: "SensorHealth list"
  he_IngressDrops :: u64
  he_RecorderDrops :: u64
  he_EvictedSegments :: u64
  he_AggregateEvictions :: u64
  he_MetadataFailures :: u64
  he_SnapshotFailures :: u64
  he_RetainedBytes :: int
  he_MaxBytes :: int
  he_RetainedFromNS :: u64
  he_RetainedSpanNS :: u64
  he_DetailedFromNS :: u64
  he_DetailedSpanNS :: u64

definition zero_Health :: Health where
  "zero_Health = \<lparr>he_AutoCapture = None, he_ObservedAt = None, he_ClockChanges = 0,
     he_LastClockChange = None, he_Sensors = [], he_IngressDrops = 0, he_RecorderDrops = 0,
     he_EvictedSegments = 0, he_AggregateEvictions = 0, he_MetadataFailures = 0,
     he_SnapshotFailures = 0, he_RetainedBytes = 0, he_MaxBytes = 0, he_RetainedFromNS = 0,
     he_RetainedSpanNS = 0, he_DetailedFromNS = 0, he_DetailedSpanNS = 0\<rparr>"

record Host =
  ho_Hostname :: string
  ho_Kernel :: string
  ho_Architecture :: string
  ho_BootID :: string
  ho_ClockSource :: string
  ho_AnchorMonoNS :: u64
  ho_AnchorWall :: Time

record RecordingSettings =
  rs_PollIntervalNS :: u64
  rs_SegmentIntervalNS :: u64
  rs_IngressEvents :: int
  rs_MetadataEntries :: int
  rs_BlockTrackingEntries :: u32
  rs_SchedulerTrackingEntries :: u32
  rs_RingBytes :: u32
  rs_HistoryNS :: u64
  rs_MaxMemory :: int
  rs_BlockThresholdNS :: u64
  rs_SchedulerThresholdNS :: u64
  rs_BlockCriticalNS :: u64
  rs_SchedulerCriticalNS :: u64
  rs_DetailRate :: u32
  rs_Enabled :: "string list"
  rs_Strict :: bool

definition zero_RecordingSettings :: RecordingSettings where
  "zero_RecordingSettings = \<lparr>rs_PollIntervalNS = 0, rs_SegmentIntervalNS = 0,
     rs_IngressEvents = 0, rs_MetadataEntries = 0, rs_BlockTrackingEntries = 0,
     rs_SchedulerTrackingEntries = 0, rs_RingBytes = 0, rs_HistoryNS = 0, rs_MaxMemory = 0,
     rs_BlockThresholdNS = 0, rs_SchedulerThresholdNS = 0, rs_BlockCriticalNS = 0,
     rs_SchedulerCriticalNS = 0, rs_DetailRate = 0, rs_Enabled = [], rs_Strict = False\<rparr>"

record Manifest =
  mf_AutoIncident :: "AutoIncident option"
  mf_AggregateOnlyUntilNS :: u64
  mf_RecordingStartMonoNS :: u64
  mf_Settings :: RecordingSettings
  mf_FormatVersion :: int
  mf_ApplicationVersion :: string
  mf_StartMonoNS :: u64
  mf_EndMonoNS :: u64
  mf_RequestedStartMonoNS :: u64
  mf_Mode :: string
  mf_Health :: Health

record Capture =
  cp_Manifest :: Manifest
  cp_Host :: Host
  cp_Segments :: "Segment list"

definition CheckReadableFormat :: "int \<Rightarrow> go_error option" where
  "CheckReadableFormat v =
     (if v \<noteq> FormatVersion then Some (UnsupportedFormatError v) else None)"

definition Host_Wall :: "Host \<Rightarrow> u64 \<Rightarrow> Time" where
  "Host_Wall h ns = ho_AnchorWall h + i64 (sint ns - sint (ho_AnchorMonoNS h))"

text \<open>\<open>ValidateClock\<close> returns the error, if any.\<close>

definition ValidateClock :: "Host \<Rightarrow> go_error option" where
  "ValidateClock h =
     (if ho_ClockSource h = '''' then
        Some (Errorf ''capture clock source is missing; use the binary that wrote this capture'')
      else if ho_ClockSource h \<noteq> ''boottime'' \<and> ho_ClockSource h \<noteq> ''synthetic'' then
        Some (Errorf (''unsupported capture clock source '' @ Quote (ho_ClockSource h)))
      else if ho_AnchorWall h = 0 then
        Some (Errorf ''capture clock anchor is missing'')
      else None)"

end
