(* ===== verification/GoText.thy ===== *)
theory GoText
  imports Prelude "HOL-Library.List_Lexorder" "HOL-Library.Char_ord"
begin

text \<open>
  The parts of Go's standard library on text that the modelled code uses:
  prefixes and suffixes, decimal integers (\<open>strconv.ParseInt\<close>) and the text
  of a duration (\<open>time.Duration.String\<close>).  A Go string is its list of bytes;
  characters beyond ASCII are their UTF-8 bytes.
\<close>

section \<open>Prefixes and suffixes\<close>

definition HasPrefix :: "string \<Rightarrow> string \<Rightarrow> bool" where
  "HasPrefix s p \<longleftrightarrow> take (length p) s = p"

definition HasSuffix :: "string \<Rightarrow> string \<Rightarrow> bool" where
  "HasSuffix s p \<longleftrightarrow> length p \<le> length s \<and> drop (length s - length p) s = p"

definition TrimPrefix :: "string \<Rightarrow> string \<Rightarrow> string" where
  "TrimPrefix s p = (if HasPrefix s p then drop (length p) s else s)"

definition TrimSuffix :: "string \<Rightarrow> string \<Rightarrow> string" where
  "TrimSuffix s p = (if HasSuffix s p then take (length s - length p) s else s)"

lemma HasSuffix_append [simp]: "HasSuffix (s @ p) p"
  by (simp add: HasSuffix_def)

lemma TrimSuffix_append [simp]: "TrimSuffix (s @ p) p = s"
  by (simp add: TrimSuffix_def)

lemma HasSuffix_last:
  assumes "HasSuffix s p" and "p \<noteq> []"
  shows "s \<noteq> [] \<and> last s = last p"
proof -
  have "s = take (length s - length p) s @ drop (length s - length p) s" by simp
  also have "drop (length s - length p) s = p" using assms(1) by (simp add: HasSuffix_def)
  finally have "s = take (length s - length p) s @ p" .
  with assms(2) show ?thesis by (metis append_is_Nil_conv last_append)
qed

section \<open>Decimal integers\<close>

definition is_digit :: "char \<Rightarrow> bool" where
  "is_digit c \<longleftrightarrow> 48 \<le> (of_char c :: nat) \<and> (of_char c :: nat) \<le> 57"

definition digit_value :: "char \<Rightarrow> nat" where
  "digit_value c = of_char c - 48"

fun digits_value :: "nat \<Rightarrow> string \<Rightarrow> nat option" where
  "digits_value acc [] = Some acc"
| "digits_value acc (c # cs) =
     (if is_digit c then digits_value (10 * acc + digit_value c) cs else None)"

text \<open>\<open>strconv.ParseInt(s, 10, 64)\<close>: \<open>None\<close> is a syntax or range error.\<close>

definition ParseInt :: "string \<Rightarrow> int option" where
  "ParseInt s =
     (let (neg, ds) = (case s of [] \<Rightarrow> (False, [])
                       | c # cs \<Rightarrow> if c = CHR ''-'' then (True, cs)
                                 else if c = CHR ''+'' then (False, cs) else (False, s))
      in if ds = [] then None
         else case digits_value 0 ds of
             None \<Rightarrow> None
           | Some n \<Rightarrow>
               let v = (if neg then - int n else int n)
               in if - (2 ^ 63) \<le> v \<and> v < 2 ^ 63 then Some v else None)"

lemma digit_char_is_digit: "d < 10 \<Longrightarrow> is_digit (digit_char d)"
  by (simp add: is_digit_def digit_char_def)

lemma digit_value_digit_char: "d < 10 \<Longrightarrow> digit_value (digit_char d) = d"
  by (simp add: digit_value_def digit_char_def)

lemma show_nat_not_Nil: "show_nat n \<noteq> []"
  by (subst show_nat.simps) simp

lemma show_nat_digits: "c \<in> set (show_nat n) \<Longrightarrow> is_digit c"
proof (induction n rule: show_nat.induct)
  case (1 n)
  then show ?case
    by (subst (asm) show_nat.simps) (auto simp: digit_char_is_digit split: if_splits)
qed

lemma digits_value_append:
  "digits_value acc (xs @ ys) = Option.bind (digits_value acc xs) (\<lambda>v. digits_value v ys)"
  by (induction xs arbitrary: acc) auto

lemma digits_value_show_nat_0: "digits_value 0 (show_nat n) = Some n"
proof (induction n rule: show_nat.induct)
  case (1 n)
  show ?case
  proof (cases "n < 10")
    case True
    then show ?thesis
      by (subst show_nat.simps) (simp add: digit_char_is_digit digit_value_digit_char)
  next
    case False
    then have "n mod 10 < 10" by simp
    with False 1 show ?thesis
      by (subst show_nat.simps)
        (simp add: digits_value_append digit_char_is_digit digit_value_digit_char)
  qed
qed

lemma hd_show_nat_sign: "hd (show_nat n) \<noteq> CHR ''-''" "hd (show_nat n) \<noteq> CHR ''+''"
  using show_nat_digits [of "hd (show_nat n)" n] show_nat_not_Nil [of n]
  by (auto simp: is_digit_def)

lemma last_show_nat_digit: "is_digit (last (show_nat n))"
  using show_nat_digits show_nat_not_Nil last_in_set by blast

lemma ParseInt_show_nat:
  assumes "int n < 2 ^ 63"
  shows "ParseInt (show_nat n) = Some (int n)"
proof -
  obtain c cs where c: "show_nat n = c # cs"
    using show_nat_not_Nil by (cases "show_nat n") auto
  with hd_show_nat_sign [of n] have "c \<noteq> CHR ''-''" and "c \<noteq> CHR ''+''" by auto
  with c assms show ?thesis
    using digits_value_show_nat_0 [of n] by (simp add: ParseInt_def)
qed

section \<open>Durations\<close>

text \<open>
  \<open>fmtFrac\<close>: the fraction \<open>v / 10^prec\<close> without its trailing zeros, with no
  point when nothing is left.
\<close>

fun frac_digits :: "nat \<Rightarrow> nat \<Rightarrow> string" where
  "frac_digits v 0 = []"
| "frac_digits v (Suc prec) =
     (let rest = frac_digits (v div 10) prec; d = v mod 10
      in rest @ [digit_char d])"

definition trim_zeros :: "string \<Rightarrow> string" where
  "trim_zeros s = rev (dropWhile (\<lambda>c. c = CHR ''0'') (rev s))"

definition fmtFrac :: "nat \<Rightarrow> nat \<Rightarrow> string" where
  "fmtFrac v prec =
     (let ds = trim_zeros (frac_digits v prec) in if ds = [] then [] else CHR ''.'' # ds)"

definition Duration_abs_string :: "nat \<Rightarrow> string" where
  "Duration_abs_string u =
     (if u = 0 then ''0s''
      else if u < 1000 then show_nat u @ ''ns''
      else if u < 1000000 then
        show_nat (u div 1000) @ fmtFrac (u mod 1000) 3 @ [CHR 0xC2, CHR 0xB5] @ ''s''
      else if u < 1000000000 then
        show_nat (u div 1000000) @ fmtFrac (u mod 1000000) 6 @ ''ms''
      else
        let frac = fmtFrac (u mod 1000000000) 9; s = u div 1000000000;
            sec = show_nat (s mod 60) @ frac @ ''s''; m = s div 60
        in if m = 0 then sec
           else let mins = show_nat (m mod 60) @ ''m'' @ sec; h = m div 60
                in if h = 0 then mins else show_nat h @ ''h'' @ mins)"

text \<open>\<open>time.Duration.String\<close>.\<close>

definition Duration_String :: "Duration \<Rightarrow> string" where
  "Duration_String d =
     (if d < 0 then CHR ''-'' # Duration_abs_string (nat (- d)) else Duration_abs_string (nat d))"

end
