(* ===== verification/Config.thy ===== *)
theory Config
  imports Model GoText
begin

text \<open>
  The validated operational settings (\<open>internal/config\<close>): constants and
  defaults (\<open>defaults.go\<close>), the validation of a configuration and the binary
  byte quantities (\<open>config.go\<close>).  The operator's view of the settings and its
  conversion (\<open>settings.go\<close>) is the theory \<open>Settings\<close>.  Reading the YAML
  file and merging flags belong to third-party packages and are not modelled.
\<close>

section \<open>Constants\<close>

definition MinHistory :: Duration where "MinHistory = Second"
definition MaxHistory :: Duration where "MaxHistory = 24 * Hour"
definition MinMemory :: int where "MinMemory = 2 ^ 20"
definition RecorderBudgetBytes :: int where "RecorderBudgetBytes = 64 * 2 ^ 20"
definition RollupInterval :: Duration where "RollupInterval = Minute"
definition MaxDetailRate :: u32 where "MaxDetailRate = 10000"
definition MaxQueueEntries :: int where "MaxQueueEntries = 2 ^ 20"
definition MaxTrackingEntries :: u32 where "MaxTrackingEntries = 1048576"
definition MinRingBytes :: u32 where "MinRingBytes = 65536"
definition MaxRingBytes :: u32 where "MaxRingBytes = 67108864"
definition MaxControlClients :: int where "MaxControlClients = 1024"
definition MaxHeaderBytes :: int where "MaxHeaderBytes = 4 * 2 ^ 20"
definition MaxCaptureBytes :: int where "MaxCaptureBytes = 2 ^ 30"
definition MaxCaptureEntries :: int where "MaxCaptureEntries = 1000000"
definition MinCompressionWindowBytes :: u32 where "MinCompressionWindowBytes = 65536"
definition MaxCompressionWindowBytes :: u32 where "MaxCompressionWindowBytes = 67108864"
definition MaxReportEvents :: int where "MaxReportEvents = 100000"
definition MaxSocketBytes :: int where "MaxSocketBytes = 103"
definition MinHeaderBytes :: int where "MinHeaderBytes = 512"
definition MaxMetadataPathBytes :: int where "MaxMetadataPathBytes = 4096"
definition MinInterval :: Duration where "MinInterval = 100 * Millisecond"
definition MaxInterval :: Duration where "MaxInterval = Minute"
definition MinControlTimeout :: Duration where "MinControlTimeout = Second"
definition MaxControlTimeout :: Duration where "MaxControlTimeout = 10 * Minute"
definition MinAutoWriteTimeout :: Duration where "MinAutoWriteTimeout = Second"
definition MaxAutoWriteTimeout :: Duration where "MaxAutoWriteTimeout = 10 * Minute"
definition MaxAutoFiles :: int where "MaxAutoFiles = 10000"
definition AutoDirectoryEntries :: int where "AutoDirectoryEntries = 2 * MaxAutoFiles"
definition AutoRetryInterval :: Duration where "AutoRetryInterval = 100 * Millisecond"
definition AutoMinFreeBytes :: int where "AutoMinFreeBytes = 64 * 2 ^ 20"

lemmas limit_defs [model_defs] =
  MinHistory_def MaxHistory_def MinMemory_def RecorderBudgetBytes_def RollupInterval_def
  MaxDetailRate_def MaxQueueEntries_def MaxTrackingEntries_def MinRingBytes_def
  MaxRingBytes_def MaxControlClients_def MaxHeaderBytes_def MaxCaptureBytes_def
  MaxCaptureEntries_def MinCompressionWindowBytes_def MaxCompressionWindowBytes_def
  MaxReportEvents_def MaxSocketBytes_def MinHeaderBytes_def MaxMetadataPathBytes_def
  MinInterval_def MaxInterval_def MinControlTimeout_def MaxControlTimeout_def
  MinAutoWriteTimeout_def MaxAutoWriteTimeout_def MaxAutoFiles_def AutoDirectoryEntries_def
  AutoRetryInterval_def AutoMinFreeBytes_def

section \<open>Settings\<close>

record AutoCapture =
  ac_Enabled :: bool
  ac_Directory :: string
  ac_Sensors :: "string list"
  ac_Before :: Duration
  ac_After :: Duration
  ac_MaxFiles :: int
  ac_MaxStorage :: int
  ac_WriteTimeout :: Duration

record Resources =
  re_PollInterval :: Duration
  re_SegmentInterval :: Duration
  re_IngressEvents :: int
  re_QueryQueue :: int
  re_MetadataEntries :: int
  re_MetadataPathBytes :: int
  re_BlockTrackingEntries :: u32
  re_SchedulerTrackingEntries :: u32
  re_RingBytes :: u32

record Control =
  cn_MaxClients :: int
  cn_RequestBytes :: int
  cn_ResponseBytes :: int
  cn_Timeout :: Duration
  cn_QueryTimeout :: Duration
  cn_DialTimeout :: Duration
  cn_MaxCaptureBytes :: int

record CaptureLimits =
  cl_CompressionWindowBytes :: u32
  cl_MaxDecodedBytes :: int
  cl_MaxEntries :: int

record Report =
  rp_Events :: int
  rp_VerboseEvents :: int
  rp_Processes :: int
  rp_VerboseProcesses :: int

record Config =
  cf_LogLevel :: string
  cf_History :: Duration
  cf_RecorderBudgetBytes :: int
  cf_Socket :: string
  cf_BlockThreshold :: Duration
  cf_SchedulerThreshold :: Duration
  cf_BlockCritical :: Duration
  cf_SchedulerCritical :: Duration
  cf_DetailRate :: u32
  cf_Strict :: bool
  cf_Enabled :: "string list"
  cf_Resources :: Resources
  cf_Control :: Control
  cf_Capture :: CaptureLimits
  cf_Report :: Report
  cf_AutoCapture :: AutoCapture

definition Default :: Config where
  "Default = \<lparr>
     cf_LogLevel = ''info'', cf_History = 5 * Minute, cf_RecorderBudgetBytes = RecorderBudgetBytes,
     cf_Socket = ''/run/blackbox/blackbox.sock'',
     cf_BlockThreshold = 50 * Millisecond, cf_SchedulerThreshold = 20 * Millisecond,
     cf_BlockCritical = 250 * Millisecond, cf_SchedulerCritical = 100 * Millisecond,
     cf_DetailRate = 256, cf_Strict = False, cf_Enabled = Families,
     cf_Resources = \<lparr>re_PollInterval = Second, re_SegmentInterval = Second,
       re_IngressEvents = 1024, re_QueryQueue = 8, re_MetadataEntries = 1024,
       re_MetadataPathBytes = 512, re_BlockTrackingEntries = 8192,
       re_SchedulerTrackingEntries = 16384, re_RingBytes = 262144\<rparr>,
     cf_Control = \<lparr>cn_MaxClients = 8, cn_RequestBytes = 4096, cn_ResponseBytes = 65536,
       cn_Timeout = 30 * Second, cn_QueryTimeout = 30 * Second, cn_DialTimeout = Second,
       cn_MaxCaptureBytes = 512 * 2 ^ 20\<rparr>,
     cf_Capture = \<lparr>cl_CompressionWindowBytes = 1048576, cl_MaxDecodedBytes = 512 * 2 ^ 20,
       cl_MaxEntries = 100000\<rparr>,
     cf_Report = \<lparr>rp_Events = 20, rp_VerboseEvents = 100, rp_Processes = 5,
       rp_VerboseProcesses = 10\<rparr>,
     cf_AutoCapture = \<lparr>ac_Enabled = True, ac_Directory = ''/var/lib/blackbox/captures/auto'',
       ac_Sensors = [''block_io'', ''scheduler'', ''oom''], ac_Before = Minute,
       ac_After = 10 * Second, ac_MaxFiles = 1000, ac_MaxStorage = 2 ^ 30,
       ac_WriteTimeout = 2 * Minute\<rparr>\<rparr>"

section \<open>Byte quantities\<close>

definition memory_units :: "(string \<times> int) list" where
  "memory_units = [(''GiB'', 2 ^ 30), (''MiB'', 2 ^ 20), (''KiB'', 2 ^ 10), (''B'', 1)]"

fun Memory_units :: "(string \<times> int) list \<Rightarrow> string \<Rightarrow> go_error + int" where
  "Memory_units [] s = Inl (Errorf ''use a whole number with B, KiB, MiB or GiB'')"
| "Memory_units ((u, k) # us) s =
     (if HasSuffix s u then
        (case ParseInt (TrimSuffix s u) of
           None \<Rightarrow> Inl (Errorf (''invalid byte quantity '' @ Quote s))
         | Some n \<Rightarrow>
             if n < 0 \<or> (2 ^ 63 - 1) div k < n then Inl (Errorf (''invalid byte quantity '' @ Quote s))
             else Inr (n * k))
      else Memory_units us s)"

definition Memory :: "string \<Rightarrow> go_error + int" where
  "Memory s = Memory_units memory_units s"

fun MemoryText_units :: "(string \<times> int) list \<Rightarrow> int \<Rightarrow> string" where
  "MemoryText_units [] n = show_int n @ ''B''"
| "MemoryText_units ((u, k) # us) n =
     (if 0 < n \<and> n mod k = 0 then show_int (n div k) @ u else MemoryText_units us n)"

definition MemoryText :: "int \<Rightarrow> string" where
  "MemoryText n = MemoryText_units [(''GiB'', 2 ^ 30), (''MiB'', 2 ^ 20), (''KiB'', 2 ^ 10)] n"

section \<open>Validation\<close>

definition IsAbs :: "string \<Rightarrow> bool" where
  "IsAbs p \<longleftrightarrow> HasPrefix p ''/''"

definition contains_nul :: "string \<Rightarrow> bool" where
  "contains_nul s \<longleftrightarrow> CHR 0x00 \<in> set s"

text \<open>\<open>ordered\<close>: a map's entries by ascending key.\<close>

definition ordered :: "(string \<times> 'a) list \<Rightarrow> (string \<times> 'a) list" where
  "ordered kvs = sort_key fst kvs"

text \<open>The loops that return the first entry out of range.\<close>

fun first_bad :: "('a \<Rightarrow> bool) \<Rightarrow> (string \<Rightarrow> string) \<Rightarrow> (string \<times> 'a) list \<Rightarrow> go_error option" where
  "first_bad bad msg [] = None"
| "first_bad bad msg ((name, n) # kvs) =
     (if bad n then Some (Errorf (msg name)) else first_bad bad msg kvs)"

text \<open>The loops over sensor names with their \<open>seen\<close> map.\<close>

fun bad_sensor :: "string list \<Rightarrow> string list \<Rightarrow> string list \<Rightarrow> string option" where
  "bad_sensor supported seen [] = None"
| "bad_sensor supported seen (n # ns) =
     (if n \<notin> set supported \<or> n \<in> set seen then Some n else bad_sensor supported (n # seen) ns)"

text \<open>Checks in sequence, the first error is returned.\<close>

fun first_error :: "go_error option list \<Rightarrow> go_error option" where
  "first_error [] = None"
| "first_error (None # es) = first_error es"
| "first_error (Some e # es) = Some e"

abbreviation fails :: "bool \<Rightarrow> string \<Rightarrow> go_error option" where
  "fails b msg \<equiv> (if b then Some (Errorf msg) else None)"

definition power_of_two_in :: "u32 \<Rightarrow> u32 \<Rightarrow> u32 \<Rightarrow> bool" where
  "power_of_two_in lo hi w \<longleftrightarrow> lo \<le> w \<and> w \<le> hi \<and> w AND (w - 1) = 0"

text \<open>The dash of "1s--24h" is U+2013 in the message.\<close>

definition en_dash :: string where "en_dash = [CHR 0xE2, CHR 0x80, CHR 0x93]"

definition AutoCapture_Validate :: "AutoCapture \<Rightarrow> go_error option" where
  "AutoCapture_Validate a = first_error
     [fails (\<not> IsAbs (ac_Directory a) \<or> contains_nul (ac_Directory a)
        \<or> MaxMetadataPathBytes < int (length (ac_Directory a)))
        (''auto_capture.directory must be an absolute path of at most '' @ show_int MaxMetadataPathBytes @ '' bytes''),
      fails (ac_Before a < MinHistory \<or> MaxHistory < ac_Before a \<or> ac_After a < 0 \<or> MaxHistory < ac_After a)
        (''auto_capture.before must be 1s'' @ en_dash @ ''24h and after must be 0s'' @ en_dash @ ''24h''),
      fails (ac_MaxFiles a < 1 \<or> MaxAutoFiles < ac_MaxFiles a)
        (''auto_capture.max_files must be between 1 and '' @ show_int MaxAutoFiles @ '' (directory scan safety limit)''),
      fails (ac_MaxStorage a < MinMemory)
        (''auto_capture.max_storage must be at least '' @ MemoryText MinMemory),
      fails (ac_WriteTimeout a < MinAutoWriteTimeout \<or> MaxAutoWriteTimeout < ac_WriteTimeout a)
        (''auto_capture.write_timeout must be between '' @ Duration_String MinAutoWriteTimeout
           @ '' and '' @ Duration_String MaxAutoWriteTimeout),
      fails (length (ac_Sensors a) = 0)
        ''auto_capture.sensors must include at least one of block_io, scheduler, oom'',
      map_option (\<lambda>s. Errorf (''invalid or duplicate auto_capture sensor '' @ Quote s
          @ '' (supported: block_io, scheduler, oom)''))
        (bad_sensor [''block_io'', ''scheduler'', ''oom''] [] (ac_Sensors a))]"

definition Control_Validate :: "Control \<Rightarrow> go_error option" where
  "Control_Validate c = first_error
     [fails (cn_MaxClients c < 1 \<or> MaxControlClients < cn_MaxClients c)
        (''control.max_clients must be between 1 and '' @ show_int MaxControlClients),
      first_bad (\<lambda>n. n < MinHeaderBytes \<or> MaxHeaderBytes < n)
        (\<lambda>name. ''control.'' @ name @ '' must be between '' @ show_int MinHeaderBytes @ '' and '' @ show_int MaxHeaderBytes)
        (ordered [(''request_bytes'', cn_RequestBytes c), (''response_bytes'', cn_ResponseBytes c)]),
      fails (cn_Timeout c < MinControlTimeout \<or> MaxControlTimeout < cn_Timeout c)
        (''control.timeout must be between '' @ Duration_String MinControlTimeout @ '' and ''
           @ Duration_String MaxControlTimeout),
      first_bad (\<lambda>n. n < MinInterval \<or> cn_Timeout c < n)
        (\<lambda>name. ''control.'' @ name @ '' must be between '' @ Duration_String MinInterval @ '' and control.timeout'')
        (ordered [(''query_timeout'', cn_QueryTimeout c), (''dial_timeout'', cn_DialTimeout c)]),
      fails (cn_MaxCaptureBytes c < MinMemory \<or> MaxCaptureBytes < cn_MaxCaptureBytes c)
        (''control.max_capture_bytes must be between '' @ MemoryText MinMemory @ '' and '' @ MemoryText MaxCaptureBytes)]"

definition CaptureLimits_Validate :: "CaptureLimits \<Rightarrow> go_error option" where
  "CaptureLimits_Validate c = first_error
     [fails (cl_MaxDecodedBytes c < MinMemory \<or> MaxCaptureBytes < cl_MaxDecodedBytes c)
        (''capture.max_decoded_bytes must be between '' @ MemoryText MinMemory @ '' and '' @ MemoryText MaxCaptureBytes),
      fails (\<not> power_of_two_in MinCompressionWindowBytes MaxCompressionWindowBytes (cl_CompressionWindowBytes c)
          \<or> cl_MaxDecodedBytes c < uint (cl_CompressionWindowBytes c))
        (''capture.compression_window_bytes must be a power of two between '' @ show_u32 MinCompressionWindowBytes
           @ '' and '' @ show_u32 MaxCompressionWindowBytes @ '' and no larger than max_decoded_bytes''),
      fails (cl_MaxEntries c < 3 \<or> MaxCaptureEntries < cl_MaxEntries c)
        (''capture.max_entries must be between 3 and '' @ show_int MaxCaptureEntries)]"

definition Resources_error :: "Duration \<Rightarrow> Resources \<Rightarrow> go_error option" where
  "Resources_error history r = first_error
     [first_bad (\<lambda>n. n < 1 \<or> MaxQueueEntries < n)
        (\<lambda>name. ''resources.'' @ name @ '' must be between 1 and '' @ show_int MaxQueueEntries)
        (ordered [(''ingress_events'', re_IngressEvents r), (''query_queue'', re_QueryQueue r),
           (''metadata_entries'', re_MetadataEntries r)]),
      fails (re_MetadataPathBytes r < 1 \<or> MaxMetadataPathBytes < re_MetadataPathBytes r)
        (''resources.metadata_path_bytes must be between 1 and '' @ show_int MaxMetadataPathBytes),
      first_bad (\<lambda>n. n < 1 \<or> MaxTrackingEntries < n)
        (\<lambda>name. ''resources.'' @ name @ '' must be between 1 and '' @ show_u32 MaxTrackingEntries)
        (ordered [(''block_tracking_entries'', re_BlockTrackingEntries r),
           (''scheduler_tracking_entries'', re_SchedulerTrackingEntries r)]),
      fails (\<not> power_of_two_in MinRingBytes MaxRingBytes (re_RingBytes r))
        (''resources.ring_bytes must be a power of two between '' @ show_u32 MinRingBytes @ '' and '' @ show_u32 MaxRingBytes),
      first_bad (\<lambda>n. n < MinInterval \<or> MaxInterval < n \<or> history < n)
        (\<lambda>name. ''resources.'' @ name @ '' must be between '' @ Duration_String MinInterval @ '' and ''
           @ Duration_String MaxInterval @ '' and no longer than history'')
        (ordered [(''poll_interval'', re_PollInterval r), (''segment_interval'', re_SegmentInterval r)])]"

definition Config_Validate :: "Config \<Rightarrow> go_error option" where
  "Config_Validate c = first_error
     [fails (cf_LogLevel c \<notin> {''debug'', ''info'', ''warn'', ''error''})
        ''log_level must be debug, info, warn, or error'',
      fails (cf_History c < MinHistory \<or> MaxHistory < cf_History c)
        (''history must be between '' @ Duration_String MinHistory @ '' and '' @ Duration_String MaxHistory),
      fails (cf_RecorderBudgetBytes c \<noteq> RecorderBudgetBytes)
        (''internal recorder budget must be '' @ MemoryText RecorderBudgetBytes),
      fails (\<not> IsAbs (cf_Socket c) \<or> contains_nul (cf_Socket c) \<or> MaxSocketBytes < int (length (cf_Socket c)))
        (''socket must be an absolute Unix path of at most '' @ show_int MaxSocketBytes @ '' bytes''),
      fails (cf_BlockThreshold c \<le> 0 \<or> cf_SchedulerThreshold c \<le> 0) ''latency thresholds must be positive'',
      fails (cf_BlockCritical c \<le> cf_BlockThreshold c \<or> cf_SchedulerCritical c \<le> cf_SchedulerThreshold c)
        ''each critical latency threshold must be greater than its warn threshold'',
      fails (cf_DetailRate c < 1 \<or> MaxDetailRate < cf_DetailRate c)
        (''detail-rate must be between 1 and '' @ show_u32 MaxDetailRate @ '' per sensor per second''),
      fails (length (cf_Enabled c) = 0) ''at least one sensor must be enabled'',
      map_option (\<lambda>n. Errorf (''invalid or duplicate sensor '' @ Quote n)) (bad_sensor Families [] (cf_Enabled c)),
      Resources_error (cf_History c) (cf_Resources c),
      Control_Validate (cf_Control c),
      CaptureLimits_Validate (cf_Capture c),
      AutoCapture_Validate (cf_AutoCapture c),
      fails (cn_MaxCaptureBytes (cf_Control c) < cl_MaxDecodedBytes (cf_Capture c))
        ''control.max_capture_bytes must be at least capture.max_decoded_bytes'',
      first_bad (\<lambda>n. n < 1 \<or> MaxReportEvents < n)
        (\<lambda>name. ''report.'' @ name @ '' must be between 1 and '' @ show_int MaxReportEvents)
        (ordered [(''events'', rp_Events (cf_Report c)), (''verbose_events'', rp_VerboseEvents (cf_Report c)),
           (''processes'', rp_Processes (cf_Report c)),
           (''verbose_processes'', rp_VerboseProcesses (cf_Report c))])]"

lemma first_error_None: "first_error es = None \<longleftrightarrow> list_all (\<lambda>e. e = None) es"
  by (induction es rule: first_error.induct) auto

lemma first_bad_None: "first_bad bad msg kvs = None \<longleftrightarrow> (\<forall>(k, n) \<in> set kvs. \<not> bad n)"
  by (induction bad msg kvs rule: first_bad.induct) auto

lemma set_ordered [simp]: "set (ordered kvs) = set kvs"
  by (simp add: ordered_def)

lemma bad_sensor_None:
  "bad_sensor supported seen ns = None \<longleftrightarrow>
   set ns \<subseteq> set supported \<and> distinct ns \<and> set ns \<inter> set seen = {}"
  by (induction supported seen ns rule: bad_sensor.induct) auto

end
