(* ===== verification/Settings.thy ===== *)
theory Settings
  imports Config
begin

text \<open>
  The operator's view of the settings (\<open>internal/config/settings.go\<close>): the
  structure that YAML and flags fill, its conversion to a runtime configuration
  and back, and the texts of durations.  The YAML parser and the merge of flags
  are third-party code; what they fill is the argument of \<open>runtime\<close>.
\<close>

record latencyLevels =
  ll_Warn :: Duration
  ll_Critical :: Duration

record thresholds =
  th_BlockIO :: latencyLevels
  th_Scheduler :: latencyLevels

record autoCaptureSettings =
  as_Enabled :: bool
  as_Directory :: string
  as_Sensors :: "string list"
  as_Before :: Duration
  as_After :: Duration
  as_MaxFiles :: int
  as_MaxStorage :: string
  as_WriteTimeout :: Duration

record fileConfig =
  fc_LogLevel :: string
  fc_History :: Duration
  fc_Sensors :: "string list"
  fc_Strict :: bool
  fc_PollInterval :: Duration
  fc_Timeout :: Duration
  fc_Socket :: string
  fc_Thresholds :: thresholds
  fc_AutoCapture :: autoCaptureSettings

definition operatorSettings :: "Config \<Rightarrow> fileConfig" where
  "operatorSettings c =
     \<lparr>fc_LogLevel = cf_LogLevel c, fc_History = cf_History c, fc_Sensors = cf_Enabled c,
      fc_Strict = cf_Strict c, fc_PollInterval = re_PollInterval (cf_Resources c),
      fc_Timeout = cn_Timeout (cf_Control c), fc_Socket = cf_Socket c,
      fc_Thresholds = \<lparr>th_BlockIO = \<lparr>ll_Warn = cf_BlockThreshold c, ll_Critical = cf_BlockCritical c\<rparr>,
        th_Scheduler = \<lparr>ll_Warn = cf_SchedulerThreshold c, ll_Critical = cf_SchedulerCritical c\<rparr>\<rparr>,
      fc_AutoCapture = (let a = cf_AutoCapture c in
        \<lparr>as_Enabled = ac_Enabled a, as_Directory = ac_Directory a, as_Sensors = ac_Sensors a,
         as_Before = ac_Before a, as_After = ac_After a, as_MaxFiles = ac_MaxFiles a,
         as_MaxStorage = MemoryText (ac_MaxStorage a), as_WriteTimeout = ac_WriteTimeout a\<rparr>)\<rparr>"

text \<open>\<open>runtime\<close>; the configuration that accompanies an error is discarded by \<open>Load\<close>.\<close>

definition runtime_config :: "fileConfig \<Rightarrow> int \<Rightarrow> Config" where
  "runtime_config s storage =
     (let c = Default; a = fc_AutoCapture s
      in c\<lparr>cf_LogLevel := fc_LogLevel s, cf_History := fc_History s, cf_Enabled := fc_Sensors s,
           cf_Strict := fc_Strict s, cf_Socket := fc_Socket s,
           cf_Resources := (cf_Resources c)\<lparr>re_PollInterval := fc_PollInterval s\<rparr>,
           cf_Control := (cf_Control c)\<lparr>cn_Timeout := fc_Timeout s, cn_QueryTimeout := fc_Timeout s,
             cn_DialTimeout := min (cn_DialTimeout (cf_Control c)) (fc_Timeout s)\<rparr>,
           cf_BlockThreshold := ll_Warn (th_BlockIO (fc_Thresholds s)),
           cf_BlockCritical := ll_Critical (th_BlockIO (fc_Thresholds s)),
           cf_SchedulerThreshold := ll_Warn (th_Scheduler (fc_Thresholds s)),
           cf_SchedulerCritical := ll_Critical (th_Scheduler (fc_Thresholds s)),
           cf_AutoCapture := \<lparr>ac_Enabled = as_Enabled a, ac_Directory = as_Directory a,
             ac_Sensors = as_Sensors a, ac_Before = as_Before a, ac_After = as_After a,
             ac_MaxFiles = as_MaxFiles a, ac_MaxStorage = storage,
             ac_WriteTimeout = as_WriteTimeout a\<rparr>\<rparr>)"

definition runtime :: "fileConfig \<Rightarrow> go_error + Config" where
  "runtime s =
     (case Memory (as_MaxStorage (fc_AutoCapture s)) of
        Inl e \<Rightarrow> Inl e
      | Inr storage \<Rightarrow>
          (let c = runtime_config s storage
           in case Config_Validate c of Some e \<Rightarrow> Inl e | None \<Rightarrow> Inr c))"

fun DurationText_units :: "(Duration \<times> string) list \<Rightarrow> Duration \<Rightarrow> string" where
  "DurationText_units [] d = Duration_String d"
| "DurationText_units ((unit, suffix) # us) d =
     (if d \<noteq> 0 \<and> d mod unit = 0 then
        show_int (d div unit) @ suffix
      else DurationText_units us d)"

definition DurationText :: "Duration \<Rightarrow> string" where
  "DurationText d = DurationText_units [(Hour, ''h''), (Minute, ''m''), (Second, ''s'')] d"

section \<open>Byte quantities\<close>

lemma HasSuffix_shorter:
  assumes "HasSuffix (s @ u) v" and "length v \<le> length u" shows "HasSuffix u v"
  using assms by (simp add: HasSuffix_def)

lemma HasSuffix_unit:
  assumes "HasSuffix (s @ ''B'') v" and "v \<in> {''GiB'', ''MiB'', ''KiB''}"
  shows "s \<noteq> [] \<and> last s = CHR ''i''"
proof -
  from assms(2) obtain x where v: "v = [x, CHR ''i''] @ ''B''" by auto
  have "drop (length (s @ ''B'') - length v) (s @ ''B'') = v" and len: "length v \<le> length (s @ ''B'')"
    using assms(1) by (simp_all add: HasSuffix_def)
  then have "drop (length s - 2) s @ ''B'' = [x, CHR ''i''] @ ''B''" by (simp add: v numeral_2_eq_2)
  then have d: "drop (length s - 2) s = [x, CHR ''i'']" by simp
  from len have "s \<noteq> []" by (auto simp: v)
  then show ?thesis using d by (metis append_take_drop_id last.simps last_append list.discI)
qed

lemma not_unit_of_digits:
  assumes "is_digit (last s)" and "v \<in> {''GiB'', ''MiB'', ''KiB''}"
  shows "\<not> HasSuffix (s @ ''B'') v"
  using HasSuffix_unit [of s v] assms by (auto simp: is_digit_def)

lemma Memory_of_unit:
  assumes "0 \<le> n" and "n * k < 2 ^ 63" and "(u, k) \<in> set memory_units"
  shows "Memory (show_int n @ u) = Inr (n * k)"
proof -
  have k: "0 < k" using assms(3) by (auto simp: memory_units_def)
  have le: "n \<le> (2 ^ 63 - 1) div k"
    using assms(2) k by (simp add: zdiv_mono1 [of "n * k" "2 ^ 63 - 1" k, simplified])
  have "n \<le> n * k" using assms(1) k by (simp add: mult_le_cancel_left1)
  then have small: "n < 2 ^ 63" using assms(2) by simp
  have s: "show_int n = show_nat (nat n)" using assms(1) by (simp add: show_int_def)
  have p: "ParseInt (show_int n) = Some n"
    unfolding s using ParseInt_show_nat [of "nat n"] assms(1) small by simp
  note nu = not_unit_of_digits [OF last_show_nat_digit [of "nat n"], folded s]
  have longer: "\<not> HasSuffix (show_int n @ u) v" if "length v \<le> length u" "\<not> HasSuffix u v" for v
    using HasSuffix_shorter that by blast
  have good: "\<not> (n < 0 \<or> (2 ^ 63 - 1) div k < n)" using assms(1) le by simp
  from assms(3) consider "u = ''GiB''" "k = 2 ^ 30" | "u = ''MiB''" "k = 2 ^ 20"
    | "u = ''KiB''" "k = 2 ^ 10" | "u = ''B''" "k = 1" by (auto simp: memory_units_def)
  then show ?thesis
  proof cases
    case 1
    then show ?thesis using p good by (simp add: Memory_def memory_units_def)
  next
    case 2
    then show ?thesis using p good longer [of "''GiB''"]
      by (simp add: Memory_def memory_units_def HasSuffix_def)
  next
    case 3
    then show ?thesis using p good longer [of "''GiB''"] longer [of "''MiB''"]
      by (simp add: Memory_def memory_units_def HasSuffix_def)
  next
    case 4
    then show ?thesis using p good nu by (simp add: Memory_def memory_units_def del: not_less)
  qed
qed

lemma MemoryText_shape:
  obtains u k where "(u, k) \<in> set memory_units" and "MemoryText n = show_int (n div k) @ u"
    and "n div k * k = n"
proof -
  consider "0 < n \<and> n mod 2 ^ 30 = 0" | "\<not> (0 < n \<and> n mod 2 ^ 30 = 0)" "0 < n \<and> n mod 2 ^ 20 = 0"
    | "\<not> (0 < n \<and> n mod 2 ^ 30 = 0)" "\<not> (0 < n \<and> n mod 2 ^ 20 = 0)" "0 < n \<and> n mod 2 ^ 10 = 0"
    | "\<not> (0 < n \<and> n mod 2 ^ 30 = 0)" "\<not> (0 < n \<and> n mod 2 ^ 20 = 0)" "\<not> (0 < n \<and> n mod 2 ^ 10 = 0)"
    by blast
  then show thesis
  proof cases
    case 1
    then show thesis by (intro that [of "''GiB''" "2 ^ 30"])
      (auto simp: memory_units_def MemoryText_def)
  next
    case 2
    then show thesis by (intro that [of "''MiB''" "2 ^ 20"])
      (auto simp: memory_units_def MemoryText_def)
  next
    case 3
    then show thesis by (intro that [of "''KiB''" "2 ^ 10"])
      (auto simp: memory_units_def MemoryText_def)
  next
    case 4
    then show thesis by (intro that [of "''B''" 1])
      (auto simp: memory_units_def MemoryText_def)
  qed
qed

lemma Memory_MemoryText:
  assumes "0 \<le> n" and "n < 2 ^ 63"
  shows "Memory (MemoryText n) = Inr n"
proof -
  obtain u k where u: "(u, k) \<in> set memory_units" "MemoryText n = show_int (n div k) @ u"
    "n div k * k = n" by (rule MemoryText_shape)
  moreover have "0 < k" using u(1) by (auto simp: memory_units_def)
  then have "0 \<le> n div k" using assms(1) by (simp add: pos_imp_zdiv_nonneg_iff)
  ultimately show ?thesis using Memory_of_unit [of "n div k" k u] assms(2) by simp
qed

lemma Memory_range:
  assumes "Memory s = Inr n" shows "0 \<le> n \<and> n < 2 ^ 63"
proof -
  have "0 \<le> n \<and> n < 2 ^ 63" if "Memory_units us s = Inr n" "\<forall>(u, k) \<in> set us. 0 < k" for us
    using that
  proof (induction us s rule: Memory_units.induct)
    case (2 u k us s)
    show ?case
    proof (cases "HasSuffix s u")
      case True
      with 2(2) obtain m where "ParseInt (TrimSuffix s u) = Some m" by (auto split: option.splits)
      with True 2(2) have m: "n = m * k" "0 \<le> m" "m \<le> (2 ^ 63 - 1) div k"
        by (auto split: if_splits)
      have k: "0 < k" using 2(3) by simp
      have "m * k \<le> (2 ^ 63 - 1) div k * k" using m(3) k by (intro mult_right_mono) auto
      also have "\<dots> \<le> 2 ^ 63 - 1" using div_mult_mod_eq [of "2 ^ 63 - 1" k] pos_mod_sign [OF k, of "2 ^ 63 - 1"]
        by linarith
      finally show ?thesis using m k by simp
    next
      case False
      with 2 show ?thesis by simp
    qed
  qed simp
  from this [of memory_units] assms show ?thesis by (auto simp: Memory_def memory_units_def)
qed

section \<open>What a runtime configuration is made of\<close>

lemma runtime_Inr:
  assumes "runtime s = Inr c"
  obtains storage where "Memory (as_MaxStorage (fc_AutoCapture s)) = Inr storage"
    and "c = runtime_config s storage" and "Config_Validate c = None"
  using assms by (auto simp: runtime_def Let_def split: sum.splits option.splits)

lemma runtime_config_operator:
  "runtime_config (operatorSettings (runtime_config s storage)) storage = runtime_config s storage"
  by (simp add: runtime_config_def operatorSettings_def Let_def)

lemma operatorSettings_runtime_config:
  "operatorSettings (runtime_config s storage) =
     s\<lparr>fc_AutoCapture := (fc_AutoCapture s)\<lparr>as_MaxStorage := MemoryText storage\<rparr>\<rparr>"
  by (simp add: runtime_config_def operatorSettings_def Let_def)

section \<open>Which settings are accepted\<close>

definition operator_ok :: "fileConfig \<Rightarrow> bool" where
  "operator_ok s \<longleftrightarrow> fc_LogLevel s \<in> {''debug'', ''info'', ''warn'', ''error''}
     \<and> MinHistory \<le> fc_History s \<and> fc_History s \<le> MaxHistory
     \<and> IsAbs (fc_Socket s) \<and> \<not> contains_nul (fc_Socket s) \<and> int (length (fc_Socket s)) \<le> MaxSocketBytes
     \<and> 0 < ll_Warn (th_BlockIO (fc_Thresholds s))
     \<and> ll_Warn (th_BlockIO (fc_Thresholds s)) < ll_Critical (th_BlockIO (fc_Thresholds s))
     \<and> 0 < ll_Warn (th_Scheduler (fc_Thresholds s))
     \<and> ll_Warn (th_Scheduler (fc_Thresholds s)) < ll_Critical (th_Scheduler (fc_Thresholds s))
     \<and> fc_Sensors s \<noteq> [] \<and> distinct (fc_Sensors s) \<and> set (fc_Sensors s) \<subseteq> set Families
     \<and> MinInterval \<le> fc_PollInterval s \<and> fc_PollInterval s \<le> min MaxInterval (fc_History s)
     \<and> MinControlTimeout \<le> fc_Timeout s \<and> fc_Timeout s \<le> MaxControlTimeout"

definition auto_ok :: "autoCaptureSettings \<Rightarrow> int \<Rightarrow> bool" where
  "auto_ok a storage \<longleftrightarrow> IsAbs (as_Directory a) \<and> \<not> contains_nul (as_Directory a)
     \<and> int (length (as_Directory a)) \<le> MaxMetadataPathBytes
     \<and> MinHistory \<le> as_Before a \<and> as_Before a \<le> MaxHistory \<and> 0 \<le> as_After a \<and> as_After a \<le> MaxHistory
     \<and> 1 \<le> as_MaxFiles a \<and> as_MaxFiles a \<le> MaxAutoFiles \<and> MinMemory \<le> storage
     \<and> MinAutoWriteTimeout \<le> as_WriteTimeout a \<and> as_WriteTimeout a \<le> MaxAutoWriteTimeout
     \<and> as_Sensors a \<noteq> [] \<and> distinct (as_Sensors a) \<and> set (as_Sensors a) \<subseteq> {''block_io'', ''scheduler'', ''oom''}"

lemma AutoCapture_Validate_runtime:
  "AutoCapture_Validate (cf_AutoCapture (runtime_config s storage)) = None
   \<longleftrightarrow> auto_ok (fc_AutoCapture s) storage"
  by (auto simp: AutoCapture_Validate_def first_error_None bad_sensor_None runtime_config_def Let_def
      auto_ok_def not_less)

lemma Control_Validate_runtime:
  "Control_Validate (cf_Control (runtime_config s storage)) = None
   \<longleftrightarrow> MinControlTimeout \<le> fc_Timeout s \<and> fc_Timeout s \<le> MaxControlTimeout"
  by (auto simp: Control_Validate_def first_error_None first_bad_None runtime_config_def Let_def
      Default_def limit_defs)

lemma CaptureLimits_Validate_runtime:
  "CaptureLimits_Validate (cf_Capture (runtime_config s storage)) = None"
  by (simp add: CaptureLimits_Validate_def runtime_config_def Let_def Default_def limit_defs
      power_of_two_in_def)

lemma Resources_error_runtime:
  assumes "MinHistory \<le> fc_History s"
  shows "Resources_error (fc_History s) (cf_Resources (runtime_config s storage)) = None
   \<longleftrightarrow> MinInterval \<le> fc_PollInterval s \<and> fc_PollInterval s \<le> min MaxInterval (fc_History s)"
  using assms
  by (auto simp: Resources_error_def first_error_None first_bad_None runtime_config_def Let_def
      Default_def limit_defs power_of_two_in_def)

lemma Config_Validate_runtime:
  "Config_Validate (runtime_config s storage) = None
   \<longleftrightarrow> operator_ok s \<and> auto_ok (fc_AutoCapture s) storage"
proof (cases "MinHistory \<le> fc_History s")
  case True
  have c: "cf_LogLevel (runtime_config s storage) = fc_LogLevel s"
    "cf_History (runtime_config s storage) = fc_History s"
    "cf_RecorderBudgetBytes (runtime_config s storage) = RecorderBudgetBytes"
    "cf_Socket (runtime_config s storage) = fc_Socket s"
    "cf_BlockThreshold (runtime_config s storage) = ll_Warn (th_BlockIO (fc_Thresholds s))"
    "cf_BlockCritical (runtime_config s storage) = ll_Critical (th_BlockIO (fc_Thresholds s))"
    "cf_SchedulerThreshold (runtime_config s storage) = ll_Warn (th_Scheduler (fc_Thresholds s))"
    "cf_SchedulerCritical (runtime_config s storage) = ll_Critical (th_Scheduler (fc_Thresholds s))"
    "cf_DetailRate (runtime_config s storage) = 256" "cf_Enabled (runtime_config s storage) = fc_Sensors s"
    "cf_Report (runtime_config s storage) = cf_Report Default"
    "cn_MaxCaptureBytes (cf_Control (runtime_config s storage)) = 512 * 2 ^ 20"
    "cl_MaxDecodedBytes (cf_Capture (runtime_config s storage)) = 512 * 2 ^ 20"
    by (simp_all add: runtime_config_def Let_def Default_def)
  have r: "first_bad (\<lambda>n. n < 1 \<or> MaxReportEvents < n) msg
      (ordered [(''events'', rp_Events (cf_Report Default)), (''verbose_events'', rp_VerboseEvents (cf_Report Default)),
       (''processes'', rp_Processes (cf_Report Default)),
       (''verbose_processes'', rp_VerboseProcesses (cf_Report Default))]) = None" for msg
    by (simp add: first_bad_None Default_def MaxReportEvents_def)
  show ?thesis
    unfolding Config_Validate_def first_error_None c r
    using True
    by (auto simp: operator_ok_def bad_sensor_None MaxDetailRate_def not_less not_le
        Resources_error_runtime [OF True] Control_Validate_runtime CaptureLimits_Validate_runtime
        AutoCapture_Validate_runtime)
next
  case False
  have "cf_History (runtime_config s storage) = fc_History s"
    by (simp add: runtime_config_def Let_def)
  with False show ?thesis
    by (simp add: Config_Validate_def first_error_None operator_ok_def)
qed

section \<open>Properties\<close>

text \<open>Printing and parsing of byte quantities are inverse.  Every \<open>int64\<close> from 0 up, in the
  text \<open>MemoryText\<close> gives it, is read back by \<open>Memory\<close> as the same number.\<close>
theorem memory_roundtrip:
  assumes "0 \<le> n" and "n < 2 ^ 63"
  shows "Memory (MemoryText n) = Inr n"
  using assms by (rule Memory_MemoryText)

lemma memory_roundtrip_witness:
  "MemoryText 3145728 = ''3MiB'' \<and> Memory ''3MiB'' = Inr 3145728"
proof -
  have t: "MemoryText 3145728 = ''3MiB''" by code_simp
  from memory_roundtrip [of 3145728] show ?thesis unfolding t by simp
qed

text \<open>which settings start the program.  \<open>runtime\<close> returns a configuration exactly when the
  operator's values are in their documented ranges; no implementation budget of
  the defaults (queues, ring sizes, segment interval, control limits, capture
  limits) can make valid operator settings fail.\<close>
theorem settings_accepted:
  "(\<exists>c. runtime s = Inr c) \<longleftrightarrow>
   operator_ok s \<and> (\<exists>storage. Memory (as_MaxStorage (fc_AutoCapture s)) = Inr storage
                      \<and> auto_ok (fc_AutoCapture s) storage)"
proof (cases "Memory (as_MaxStorage (fc_AutoCapture s))")
  case (Inl e)
  then show ?thesis by (simp add: runtime_def)
next
  case (Inr storage)
  then show ?thesis
    by (cases "Config_Validate (runtime_config s storage)")
      (simp_all add: runtime_def Let_def flip: Config_Validate_runtime)
qed

text \<open>C40: the effective configuration, shown to the operator, is read back as itself.  If
  settings \<open>s\<close> give the configuration \<open>c\<close>, the settings \<open>operatorSettings c\<close>
  give \<open>c\<close> again.\<close>
theorem settings_roundtrip:
  assumes "runtime s = Inr c"
  shows "runtime (operatorSettings c) = Inr c"
proof -
  obtain storage where st: "Memory (as_MaxStorage (fc_AutoCapture s)) = Inr storage"
    and c: "c = runtime_config s storage" and v: "Config_Validate c = None"
    using assms by (rule runtime_Inr)
  have "Memory (as_MaxStorage (fc_AutoCapture (operatorSettings c))) = Inr storage"
    using Memory_MemoryText Memory_range [OF st]
    by (simp add: c operatorSettings_runtime_config)
  then show ?thesis using v by (simp add: runtime_def c runtime_config_operator)
qed

lemma settings_roundtrip_witness:
  "runtime (operatorSettings Default) = Inr Default \<and> fc_History (operatorSettings Default) = 5 * Minute"
proof -
  have s: "runtime_config (operatorSettings Default) (2 ^ 30) = Default"
    by (simp add: runtime_config_def operatorSettings_def Let_def Default_def)
  have "Config_Validate (runtime_config (operatorSettings Default) (2 ^ 30)) = None"
    by (simp add: Config_Validate_runtime operator_ok_def auto_ok_def operatorSettings_def Default_def
        limit_defs Families_def IsAbs_def HasPrefix_def contains_nul_def)
  then have "runtime (operatorSettings Default) = Inr Default"
    unfolding s using Memory_MemoryText [of "2 ^ 30"] s
    by (simp add: runtime_def operatorSettings_def Default_def)
  from settings_roundtrip [OF this] show ?thesis by (simp add: operatorSettings_def Default_def)
qed

end
