(* ===== verification/Recorder.thy ===== *)
theory Recorder
  imports Config
begin

text \<open>
  The bounded rolling history (\<open>internal/recorder/recorder.go\<close>): the state of
  \<open>Recorder\<close>, retention (\<open>Advance\<close>), folding of the oldest details into
  aggregate-only rollups (\<open>compactOldest\<close>), the admission of events and metrics
  under the byte budget, and health.  Selection of a window is in the theory
  of snapshots.

  The recorder has one writer and sealed segments are never mutated, so values
  stand for the slices and pointers of the code.  The capacities of the two
  slices of a segment are fields, because the code charges capacity, not
  length.  A removal from an empty slice and the use of a nil rollup panic in
  Go and are \<open>None\<close> here.
\<close>

section \<open>State\<close>

definition segmentCost :: int where "segmentCost = 512"
definition initialEventCapacity :: nat where "initialEventCapacity = 64"

text \<open>
  \<open>unsafe.Sizeof\<close> of the two structs on the supported 64-bit architectures: the
  fields in order, each string 16 bytes, padded to their alignment.
\<close>

definition sizeof_Event :: int where "sizeof_Event = 224"
definition sizeof_Metric :: int where "sizeof_Metric = 224"

record retained =
  rt_segment :: Segment
  rt_eventsCap :: nat
  rt_metricsCap :: nat
  rt_bytes :: int
  rt_minNS :: u64
  rt_maxNS :: u64

abbreviation rt_events :: "retained \<Rightarrow> Event list" where
  "rt_events s \<equiv> sg_Events (rt_segment s)"

abbreviation rt_metrics :: "retained \<Rightarrow> Metric list" where
  "rt_metrics s \<equiv> sg_Metrics (rt_segment s)"

abbreviation rt_start :: "retained \<Rightarrow> u64" where
  "rt_start s \<equiv> sg_StartMonoNS (rt_segment s)"

abbreviation rt_end :: "retained \<Rightarrow> u64" where
  "rt_end s \<equiv> sg_EndMonoNS (rt_segment s)"

definition observe :: "u64 \<Rightarrow> u64 \<Rightarrow> retained \<Rightarrow> retained" where
  "observe start end_ns s =
     s\<lparr>rt_minNS := (if start < rt_minNS s then start else rt_minNS s),
       rt_maxNS := (if rt_maxNS s < end_ns then end_ns else rt_maxNS s)\<rparr>"

record Recorder =
  rc_started :: u64
  rc_segmentInterval :: u64
  rc_history :: u64
  rc_max :: int
  rc_bytes :: int
  rc_rollups :: "retained list"
  rc_rollupActive :: "retained option"
  rc_rollupBucket :: u64
  rc_sealed :: "retained list"
  rc_active :: retained
  rc_drops :: u64
  rc_evictions :: u64
  rc_aggregateEvictions :: u64

definition fresh_segment :: "u64 \<Rightarrow> retained" where
  "fresh_segment now =
     \<lparr>rt_segment = \<lparr>sg_StartMonoNS = now, sg_EndMonoNS = now, sg_Events = [], sg_Metrics = []\<rparr>,
      rt_eventsCap = 0, rt_metricsCap = 0, rt_bytes = segmentCost, rt_minNS = now, rt_maxNS = now\<rparr>"

definition open_active :: "u64 \<Rightarrow> Recorder \<Rightarrow> Recorder" where
  "open_active now r = r\<lparr>rc_active := fresh_segment now, rc_bytes := rc_bytes r + segmentCost\<rparr>"

definition NewWithSegmentInterval :: "Duration \<Rightarrow> int \<Rightarrow> Duration \<Rightarrow> u64 \<Rightarrow> Recorder" where
  "NewWithSegmentInterval history max_bytes segmentInterval now =
     open_active now
       \<lparr>rc_started = now, rc_segmentInterval = to_u64 segmentInterval, rc_history = to_u64 history,
        rc_max = max_bytes, rc_bytes = 0, rc_rollups = [], rc_rollupActive = None,
        rc_rollupBucket = 0, rc_sealed = [], rc_active = fresh_segment 0, rc_drops = 0,
        rc_evictions = 0, rc_aggregateEvictions = 0\<rparr>"

definition NewRecorder :: "Duration \<Rightarrow> int \<Rightarrow> u64 \<Rightarrow> Recorder" where
  "NewRecorder history max_bytes now =
     NewWithSegmentInterval history max_bytes (re_SegmentInterval (cf_Resources Default)) now"

section \<open>Removal\<close>

definition dropRaw :: "bool \<Rightarrow> Recorder \<Rightarrow> Recorder option" where
  "dropRaw memory r =
     (case rc_sealed r of
        [] \<Rightarrow> None
      | s # rest \<Rightarrow>
          let r1 = r\<lparr>rc_bytes := rc_bytes r - rt_bytes s, rc_sealed := rest\<rparr>
          in Some (if memory then r1\<lparr>rc_evictions := rc_evictions r1 + 1\<rparr> else r1))"

definition hasRollup :: "Recorder \<Rightarrow> bool" where
  "hasRollup r \<longleftrightarrow> 0 < length (rc_rollups r) \<or> rc_rollupActive r \<noteq> None"

definition dropRollup :: "bool \<Rightarrow> Recorder \<Rightarrow> Recorder option" where
  "dropRollup memory r =
     (let r1 = (if memory then r\<lparr>rc_aggregateEvictions := rc_aggregateEvictions r + 1\<rparr> else r)
      in case rc_rollups r1 of
           s # rest \<Rightarrow> Some (r1\<lparr>rc_bytes := rc_bytes r1 - rt_bytes s, rc_rollups := rest\<rparr>)
         | [] \<Rightarrow>
             (case rc_rollupActive r1 of
                None \<Rightarrow> None
              | Some a \<Rightarrow>
                  Some (r1\<lparr>rc_bytes := rc_bytes r1 - rt_bytes a, rc_rollupActive := None\<rparr>)))"

section \<open>Folding the oldest details into rollups\<close>

definition histogram_add :: "Histogram \<Rightarrow> Histogram \<Rightarrow> Histogram" where
  "histogram_add h g = map2 (+) h g"

definition counters_add :: "Counters \<Rightarrow> Counters \<Rightarrow> Counters" where
  "counters_add a b =
     \<lparr>ct_RingFailures = ct_RingFailures a + ct_RingFailures b,
      ct_Suppressed = ct_Suppressed a + ct_Suppressed b,
      ct_DetailFailures = ct_DetailFailures a + ct_DetailFailures b,
      ct_TrackingFailures = ct_TrackingFailures a + ct_TrackingFailures b,
      ct_Unmatched = ct_Unmatched a + ct_Unmatched b,
      ct_DecodeFailures = ct_DecodeFailures a + ct_DecodeFailures b\<rparr>"

text \<open>The update of \<open>*prev\<close> in the loop of \<open>addRollupMetric\<close>.\<close>

definition merge_metric :: "Metric \<Rightarrow> Metric \<Rightarrow> Metric" where
  "merge_metric prev m =
     prev\<lparr>mt_EndMonoNS := mt_EndMonoNS m,
          mt_Histogram := histogram_add (mt_Histogram prev) (mt_Histogram m),
          mt_Count := mt_Count prev + mt_Count m,
          mt_Anomalies := mt_Anomalies prev + mt_Anomalies m,
          mt_Critical := mt_Critical prev + mt_Critical m,
          mt_Bytes := mt_Bytes prev + mt_Bytes m,
          mt_Retransmits := mt_Retransmits prev + mt_Retransmits m,
          mt_Resets := mt_Resets prev + mt_Resets m,
          mt_BookkeepingCompletions := mt_BookkeepingCompletions prev + mt_BookkeepingCompletions m,
          mt_Loss := counters_add (mt_Loss prev) (mt_Loss m)\<rparr>"

text \<open>The loop: the first adjacent interval of the same family takes the metric.\<close>

fun merge_into :: "Metric list \<Rightarrow> Metric \<Rightarrow> Metric list option" where
  "merge_into [] m = None"
| "merge_into (prev # ms) m =
     (if mt_Family prev \<noteq> mt_Family m \<or> mt_EndMonoNS prev \<noteq> mt_StartMonoNS m
      then map_option ((#) prev) (merge_into ms m)
      else Some (merge_metric prev m # ms))"

text \<open>
  \<open>addRollupMetric\<close> on the active rollup, with the number of bytes it adds to the
  recorder's account.
\<close>

definition widen_rollup :: "Metric \<Rightarrow> retained \<Rightarrow> retained" where
  "widen_rollup m a =
     (let a1 = observe (mt_StartMonoNS m) (mt_EndMonoNS m) a; s = rt_segment a1
      in a1\<lparr>rt_segment := s\<lparr>sg_StartMonoNS := min (sg_StartMonoNS s) (mt_StartMonoNS m),
                           sg_EndMonoNS := max (sg_EndMonoNS s) (mt_EndMonoNS m)\<rparr>\<rparr>)"

definition append_rollup :: "Metric \<Rightarrow> retained \<Rightarrow> retained \<times> int" where
  "append_rollup m a =
     (let ms = rt_metrics a; s = rt_segment a
      in if length ms = rt_metricsCap a then
           let capacity = max 4 (rt_metricsCap a * 2);
               cost = int (capacity - rt_metricsCap a) * sizeof_Metric
           in (a\<lparr>rt_segment := s\<lparr>sg_Metrics := ms @ [m]\<rparr>, rt_metricsCap := capacity,
                 rt_bytes := rt_bytes a + cost\<rparr>, cost)
         else (a\<lparr>rt_segment := s\<lparr>sg_Metrics := ms @ [m]\<rparr>\<rparr>, 0))"

definition fold_metric :: "Metric \<Rightarrow> retained \<Rightarrow> retained \<times> int" where
  "fold_metric m a0 =
     (let a = widen_rollup m a0
      in case merge_into (rt_metrics a) m of
           Some ms \<Rightarrow> (a\<lparr>rt_segment := (rt_segment a)\<lparr>sg_Metrics := ms\<rparr>\<rparr>, 0)
         | None \<Rightarrow> append_rollup m a)"

definition addRollupMetric :: "Metric \<Rightarrow> Recorder \<Rightarrow> Recorder option" where
  "addRollupMetric m r =
     (case rc_rollupActive r of
        None \<Rightarrow> None
      | Some a0 \<Rightarrow>
          (case fold_metric m a0 of
             (a, cost) \<Rightarrow> Some (r\<lparr>rc_rollupActive := Some a, rc_bytes := rc_bytes r + cost\<rparr>)))"

fun addRollupMetrics :: "Metric list \<Rightarrow> Recorder \<Rightarrow> Recorder option" where
  "addRollupMetrics [] r = Some r"
| "addRollupMetrics (m # ms) r =
     (case addRollupMetric m r of None \<Rightarrow> None | Some r' \<Rightarrow> addRollupMetrics ms r')"

text \<open>The two \<open>if\<close>s of \<open>compactOldest\<close> that select the minute bucket.\<close>

definition close_bucket :: "u64 \<Rightarrow> Recorder \<Rightarrow> Recorder" where
  "close_bucket bucket r =
     (case rc_rollupActive r of
        None \<Rightarrow> r
      | Some a \<Rightarrow>
          if bucket \<noteq> rc_rollupBucket r
          then r\<lparr>rc_rollups := rc_rollups r @ [a], rc_rollupActive := None\<rparr> else r)"

definition fresh_rollup :: "Metric \<Rightarrow> retained" where
  "fresh_rollup m =
     \<lparr>rt_segment = \<lparr>sg_StartMonoNS = mt_StartMonoNS m, sg_EndMonoNS = mt_EndMonoNS m,
                    sg_Events = [], sg_Metrics = []\<rparr>,
      rt_eventsCap = 0, rt_metricsCap = 0, rt_bytes = segmentCost,
      rt_minNS = mt_StartMonoNS m, rt_maxNS = mt_EndMonoNS m\<rparr>"

definition open_bucket :: "u64 \<Rightarrow> Metric \<Rightarrow> Recorder \<Rightarrow> Recorder" where
  "open_bucket bucket first r =
     (case rc_rollupActive r of
        Some _ \<Rightarrow> r
      | None \<Rightarrow> r\<lparr>rc_rollupBucket := bucket, rc_rollupActive := Some (fresh_rollup first),
                  rc_bytes := rc_bytes r + segmentCost\<rparr>)"

definition compactOldest :: "Recorder \<Rightarrow> Recorder option" where
  "compactOldest r =
     (case rc_sealed r of
        [] \<Rightarrow> None
      | old # _ \<Rightarrow>
          (case dropRaw True r of
             None \<Rightarrow> None
           | Some r1 \<Rightarrow>
               (case rt_metrics old of
                  [] \<Rightarrow> Some r1
                | first # _ \<Rightarrow>
                    let bucket = rt_start old div to_u64 RollupInterval
                    in addRollupMetrics (rt_metrics old)
                         (open_bucket bucket first (close_bucket bucket r1)))))"

section \<open>The loops of retention\<close>

text \<open>Every loop removes an element of a finite slice in each round.\<close>

lemma dropRaw_sealed: "dropRaw memory r = Some r' \<Longrightarrow> length (rc_sealed r) = Suc (length (rc_sealed r'))"
  by (auto simp: dropRaw_def Let_def split: list.splits if_splits)

lemma addRollupMetric_sealed: "addRollupMetric m r = Some r' \<Longrightarrow> rc_sealed r' = rc_sealed r"
  by (auto simp: addRollupMetric_def split: option.splits prod.splits)

lemma addRollupMetrics_sealed: "addRollupMetrics ms r = Some r' \<Longrightarrow> rc_sealed r' = rc_sealed r"
  by (induction ms arbitrary: r) (auto dest: addRollupMetric_sealed split: option.splits)

lemma close_open_bucket_sealed [simp]:
  "rc_sealed (close_bucket b r) = rc_sealed r" "rc_sealed (open_bucket b m r) = rc_sealed r"
  by (simp_all add: close_bucket_def open_bucket_def split: option.splits)

lemma compactOldest_sealed:
  "compactOldest r = Some r' \<Longrightarrow> length (rc_sealed r) = Suc (length (rc_sealed r'))"
  by (auto simp: compactOldest_def Let_def dest!: addRollupMetric_sealed addRollupMetrics_sealed dropRaw_sealed
      split: list.splits option.splits)

definition rollup_count :: "Recorder \<Rightarrow> nat" where
  "rollup_count r = length (rc_rollups r) + (if rc_rollupActive r = None then 0 else 1)"

lemma dropRollup_count: "dropRollup memory r = Some r' \<Longrightarrow> rollup_count r = Suc (rollup_count r')"
  by (auto simp: dropRollup_def rollup_count_def Let_def split: list.splits option.splits if_splits)

definition expired :: "u64 \<Rightarrow> Recorder \<Rightarrow> retained \<Rightarrow> bool" where
  "expired now r s \<longleftrightarrow> rt_end s \<le> now \<and> rc_history r \<le> now - rt_end s"

function expireRaw :: "u64 \<Rightarrow> Recorder \<Rightarrow> Recorder option" where
  "expireRaw now r =
     (case rc_sealed r of
        [] \<Rightarrow> Some r
      | s # _ \<Rightarrow>
          if expired now r s then
            (case dropRaw False r of None \<Rightarrow> None | Some r' \<Rightarrow> expireRaw now r')
          else Some r)"
  by pat_completeness auto
termination
  by (relation "measure (\<lambda>(now, r). length (rc_sealed r))") (auto dest: dropRaw_sealed)

function expireRollups :: "u64 \<Rightarrow> Recorder \<Rightarrow> Recorder option" where
  "expireRollups now r =
     (case rc_rollups r of
        [] \<Rightarrow> Some r
      | s # _ \<Rightarrow>
          if expired now r s then
            (case dropRollup False r of None \<Rightarrow> None | Some r' \<Rightarrow> expireRollups now r')
          else Some r)"
  by pat_completeness auto
termination
  by (relation "measure (\<lambda>(now, r). rollup_count r)") (auto dest: dropRollup_count)

definition expireRollupActive :: "u64 \<Rightarrow> Recorder \<Rightarrow> Recorder option" where
  "expireRollupActive now r =
     (case rc_rollupActive r of
        None \<Rightarrow> Some r
      | Some a \<Rightarrow> if expired now r a then dropRollup False r else Some r)"

text \<open>
  \<open>for r.bytes+cost > r.max && len(r.sealed) > 0\<close> and
  \<open>for r.bytes+cost > r.max && r.hasRollup()\<close>; \<open>Advance\<close> runs them with no cost.
\<close>

function compactWhile :: "int \<Rightarrow> Recorder \<Rightarrow> Recorder option" where
  "compactWhile cost r =
     (if rc_max r < rc_bytes r + cost \<and> 0 < length (rc_sealed r) then
        (case compactOldest r of None \<Rightarrow> None | Some r' \<Rightarrow> compactWhile cost r')
      else Some r)"
  by pat_completeness auto
termination
  by (relation "measure (\<lambda>(cost, r). length (rc_sealed r))") (auto dest: compactOldest_sealed)

function evictWhile :: "int \<Rightarrow> Recorder \<Rightarrow> Recorder option" where
  "evictWhile cost r =
     (if rc_max r < rc_bytes r + cost \<and> hasRollup r then
        (case dropRollup True r of None \<Rightarrow> None | Some r' \<Rightarrow> evictWhile cost r')
      else Some r)"
  by pat_completeness auto
termination
  by (relation "measure (\<lambda>(cost, r). rollup_count r)") (auto dest: dropRollup_count)

declare expireRaw.simps [simp del] expireRollups.simps [simp del]
  compactWhile.simps [simp del] evictWhile.simps [simp del]

section \<open>Operations\<close>

definition seal_active :: "u64 \<Rightarrow> Recorder \<Rightarrow> Recorder" where
  "seal_active now r =
     (let a = rc_active r
      in if rc_segmentInterval r \<le> now - rt_start a then
           let a' = a\<lparr>rt_segment := (rt_segment a)\<lparr>sg_EndMonoNS := rt_start a + rc_segmentInterval r\<rparr>\<rparr>
           in open_active now (r\<lparr>rc_active := a', rc_sealed := rc_sealed r @ [a']\<rparr>)
         else r)"

definition touch_active :: "u64 \<Rightarrow> Recorder \<Rightarrow> Recorder" where
  "touch_active now r =
     r\<lparr>rc_active := (rc_active r)\<lparr>rt_segment := (rt_segment (rc_active r))\<lparr>sg_EndMonoNS := now\<rparr>\<rparr>\<rparr>"

definition Advance :: "u64 \<Rightarrow> Recorder \<Rightarrow> Recorder option" where
  "Advance now r =
     (if now < rt_start (rc_active r) then Some r
      else do {
        r1 \<leftarrow> expireRaw now (touch_active now (seal_active now r));
        r2 \<leftarrow> expireRollups now r1;
        r3 \<leftarrow> expireRollupActive now r2;
        r4 \<leftarrow> compactWhile 0 r3;
        evictWhile 0 r4
      })"

definition room :: "int \<Rightarrow> bool \<Rightarrow> Recorder \<Rightarrow> (bool \<times> Recorder) option" where
  "room cost metric r = do {
     r1 \<leftarrow> compactWhile cost r;
     r2 \<leftarrow> (if metric then evictWhile cost r1 else Some r1);
     Some (rc_bytes r2 + cost \<le> rc_max r2, r2)
   }"

definition stringCost :: "Event \<Rightarrow> int" where
  "stringCost e = int (length (ev_Type e) + length (ev_Comm e) + length (ev_Operation e)
     + length (ev_SourceIP e) + length (ev_DestinationIP e) + length (ev_CgroupPath e)
     + length (ev_TCPDirection e) + length (ev_SocketContext e) + length (ev_EndpointSource e))"

definition grown_cap :: "nat \<Rightarrow> nat \<Rightarrow> nat \<Rightarrow> nat" where
  "grown_cap initial len c = (if len = c then (if c = 0 then initial else c * 2) else c)"

definition add_drop :: "Recorder \<Rightarrow> Recorder" where
  "add_drop r = r\<lparr>rc_drops := rc_drops r + 1\<rparr>"

definition append_event :: "Event \<Rightarrow> nat \<Rightarrow> int \<Rightarrow> Recorder \<Rightarrow> Recorder" where
  "append_event e newCap cost r =
     (let a = rc_active r;
          a1 = a\<lparr>rt_segment := (rt_segment a)\<lparr>sg_Events := rt_events a @ [e]\<rparr>,
                 rt_eventsCap := newCap\<rparr>;
          a2 = observe (ev_MonoNS e) (ev_MonoNS e) a1
      in r\<lparr>rc_active := a2\<lparr>rt_bytes := rt_bytes a2 + cost\<rparr>, rc_bytes := rc_bytes r + cost\<rparr>)"

definition Recorder_Event :: "Event \<Rightarrow> u64 \<Rightarrow> Recorder \<Rightarrow> (bool \<times> Recorder) option" where
  "Recorder_Event e now r = do {
     r1 \<leftarrow> Advance now r;
     if now < ev_MonoNS e \<or> rc_history r1 < now - ev_MonoNS e then Some (False, add_drop r1)
     else do {
       let a = rc_active r1;
       let newCap = grown_cap initialEventCapacity (length (rt_events a)) (rt_eventsCap a);
       let cost = stringCost e + int (newCap - rt_eventsCap a) * sizeof_Event;
       (ok, r2) \<leftarrow> room cost False r1;
       if \<not> ok then Some (False, add_drop r2)
       else Some (True, append_event e newCap cost r2)
     }
   }"

definition append_metric :: "Metric \<Rightarrow> nat \<Rightarrow> int \<Rightarrow> Recorder \<Rightarrow> Recorder" where
  "append_metric m newCap cost r =
     (let a = rc_active r;
          a1 = a\<lparr>rt_segment := (rt_segment a)\<lparr>sg_Metrics := rt_metrics a @ [m]\<rparr>,
                 rt_metricsCap := newCap\<rparr>;
          a2 = observe (mt_StartMonoNS m) (mt_EndMonoNS m) a1
      in r\<lparr>rc_active := a2\<lparr>rt_bytes := rt_bytes a2 + cost\<rparr>, rc_bytes := rc_bytes r + cost\<rparr>)"

definition Recorder_Metric :: "Metric \<Rightarrow> u64 \<Rightarrow> Recorder \<Rightarrow> (bool \<times> Recorder) option" where
  "Recorder_Metric m now r = do {
     r1 \<leftarrow> Advance now r;
     let a = rc_active r1;
     let newCap = grown_cap 4 (length (rt_metrics a)) (rt_metricsCap a);
     let cost = int (length (mt_Family m)) + int (newCap - rt_metricsCap a) * sizeof_Metric;
     (ok, r2) \<leftarrow> room cost True r1;
     if \<not> ok then Some (False, add_drop r2)
     else Some (True, append_metric m newCap cost r2)
   }"

definition detailFrom :: "Recorder \<Rightarrow> u64" where
  "detailFrom r = (case rc_sealed r of [] \<Rightarrow> rt_start (rc_active r) | s # _ \<Rightarrow> rt_start s)"

definition retainedFrom :: "Recorder \<Rightarrow> u64" where
  "retainedFrom r =
     (case rc_rollups r of
        s # _ \<Rightarrow> min (detailFrom r) (rt_minNS s)
      | [] \<Rightarrow> (case rc_rollupActive r of
                Some a \<Rightarrow> min (detailFrom r) (rt_minNS a)
              | None \<Rightarrow> detailFrom r))"

definition Recorder_Health :: "Recorder \<Rightarrow> Health" where
  "Recorder_Health r =
     zero_Health\<lparr>he_RetainedBytes := rc_bytes r, he_MaxBytes := rc_max r,
       he_RetainedFromNS := retainedFrom r, he_DetailedFromNS := detailFrom r,
       he_RecorderDrops := rc_drops r, he_EvictedSegments := rc_evictions r,
       he_AggregateEvictions := rc_aggregateEvictions r\<rparr>"

section \<open>How the recorder is driven\<close>

text \<open>
  The recordings a monotone clock produces: \<open>recording t p r\<close> says that the
  recorder is in state \<open>r\<close> after operations whose clock readings did not go back
  and ended at \<open>t\<close>, and that no metric interval recorded so far starts after
  \<open>p\<close>.  The event loop polls one interval after the other, so the intervals
  of later metrics do not start earlier, and none ends in the future.
\<close>

inductive recording :: "u64 \<Rightarrow> u64 \<Rightarrow> Recorder \<Rightarrow> bool" where
  start: "segmentCost \<le> max_bytes \<Longrightarrow> to_u64 interval \<noteq> 0 \<Longrightarrow>
    recording now now (NewWithSegmentInterval history max_bytes interval now)"
| advance: "recording t p r \<Longrightarrow> t \<le> now \<Longrightarrow> Advance now r = Some r' \<Longrightarrow> recording now p r'"
| event: "recording t p r \<Longrightarrow> t \<le> now \<Longrightarrow> Recorder_Event e now r = Some (ok, r') \<Longrightarrow>
    recording now p r'"
| metric: "recording t p r \<Longrightarrow> t \<le> now \<Longrightarrow> p \<le> mt_StartMonoNS m \<Longrightarrow>
    mt_StartMonoNS m \<le> mt_EndMonoNS m \<Longrightarrow> mt_EndMonoNS m \<le> now \<Longrightarrow>
    histogram_wf (mt_Histogram m) \<Longrightarrow> Recorder_Metric m now r = Some (ok, r') \<Longrightarrow>
    recording now (mt_StartMonoNS m) r'"

end
