(* ===== verification/Recorder_Inv.thy ===== *)
theory Recorder_Inv
  imports Recorder
begin

text \<open>
  What the recorder keeps true.  Retention never panics; the byte account is
  exact and stays under the budget; compaction conserves every aggregate; and
  under a clock that does not run backwards the retained containers stay in
  order, which is what the selection of a window relies on.

  Retention is a composition of three removals (\<open>dropRaw\<close>, \<open>dropRollup\<close>,
  \<open>compactOldest\<close>) in loops.  The locale \<open>retention\<close> is the contract of an
  invariant with those removals: what is proved in it once holds of every loop
  and of \<open>room\<close>, and each invariant below is an interpretation.
\<close>

section \<open>The removals in closed form\<close>

lemma dropRaw_Cons [simp]:
  "rc_sealed r = s # rest \<Longrightarrow>
   dropRaw memory r = Some (r\<lparr>rc_bytes := rc_bytes r - rt_bytes s, rc_sealed := rest,
     rc_evictions := rc_evictions r + (if memory then 1 else 0)\<rparr>)"
  by (simp add: dropRaw_def)

lemma dropRaw_Nil [simp]: "rc_sealed r = [] \<Longrightarrow> dropRaw memory r = None"
  by (simp add: dropRaw_def)

lemma dropRaw_None [simp]: "dropRaw memory r = None \<longleftrightarrow> rc_sealed r = []"
  by (auto simp: dropRaw_def Let_def split: list.splits)

lemma dropRollup_None [simp]: "dropRollup memory r = None \<longleftrightarrow> \<not> hasRollup r"
  by (auto simp: dropRollup_def hasRollup_def Let_def split: list.splits option.splits)

fun fold_metrics :: "Metric list \<Rightarrow> retained \<Rightarrow> retained \<times> int" where
  "fold_metrics [] a = (a, 0)"
| "fold_metrics (m # ms) a =
     (let (a1, c1) = fold_metric m a; (a2, c2) = fold_metrics ms a1 in (a2, c1 + c2))"

lemma addRollupMetrics_Some:
  "rc_rollupActive r = Some a \<Longrightarrow>
   addRollupMetrics ms r = Some (r\<lparr>rc_rollupActive := Some (fst (fold_metrics ms a)),
     rc_bytes := rc_bytes r + snd (fold_metrics ms a)\<rparr>)"
proof (induction ms arbitrary: r a)
  case Nil
  then show ?case by simp
next
  case (Cons m ms)
  obtain a1 c1 where f: "fold_metric m a = (a1, c1)" by (cases "fold_metric m a")
  let ?r = "r\<lparr>rc_rollupActive := Some a1, rc_bytes := rc_bytes r + c1\<rparr>"
  have "addRollupMetric m r = Some ?r" using Cons.prems f by (simp add: addRollupMetric_def)
  moreover have "rc_rollupActive ?r = Some a1" by simp
  ultimately show ?case using Cons.IH [of ?r a1] f by (simp split: prod.splits)
qed

text \<open>The rollup that takes the metrics of the oldest segment, and the rollups closed before it.\<close>

definition rollup_target :: "u64 \<Rightarrow> Metric \<Rightarrow> Recorder \<Rightarrow> retained" where
  "rollup_target bucket first r =
     (case rc_rollupActive r of
        None \<Rightarrow> fresh_rollup first
      | Some a \<Rightarrow> if bucket \<noteq> rc_rollupBucket r then fresh_rollup first else a)"

definition rollups_closed :: "u64 \<Rightarrow> Recorder \<Rightarrow> retained list" where
  "rollups_closed bucket r =
     (case rc_rollupActive r of
        None \<Rightarrow> rc_rollups r
      | Some a \<Rightarrow> if bucket \<noteq> rc_rollupBucket r then rc_rollups r @ [a] else rc_rollups r)"

definition rollup_opened :: "u64 \<Rightarrow> Recorder \<Rightarrow> bool" where
  "rollup_opened bucket r \<longleftrightarrow>
     (case rc_rollupActive r of None \<Rightarrow> True | Some a \<Rightarrow> bucket \<noteq> rc_rollupBucket r)"

lemma open_close_bucket:
  "open_bucket b m (close_bucket b r) =
     r\<lparr>rc_rollups := rollups_closed b r, rc_rollupBucket := b,
       rc_rollupActive := Some (rollup_target b m r),
       rc_bytes := rc_bytes r + (if rollup_opened b r then segmentCost else 0)\<rparr>"
  by (auto simp: open_bucket_def close_bucket_def rollups_closed_def rollup_target_def
      rollup_opened_def split: option.splits)

lemma compactOldest_Cons:
  assumes "rc_sealed r = old # rest"
  shows "compactOldest r = Some
    (let b = rt_start old div to_u64 RollupInterval; ms = rt_metrics old;
         r1 = r\<lparr>rc_bytes := rc_bytes r - rt_bytes old, rc_sealed := rest,
                rc_evictions := rc_evictions r + 1\<rparr>
     in case ms of
          [] \<Rightarrow> r1
        | first # _ \<Rightarrow>
            let (a, cost) = fold_metrics ms (rollup_target b first r)
            in r1\<lparr>rc_rollups := rollups_closed b r, rc_rollupBucket := b,
                  rc_rollupActive := Some a,
                  rc_bytes := rc_bytes r - rt_bytes old
                    + (if rollup_opened b r then segmentCost else 0) + cost\<rparr>)"
proof -
  let ?r1 = "r\<lparr>rc_bytes := rc_bytes r - rt_bytes old, rc_sealed := rest,
                rc_evictions := rc_evictions r + 1\<rparr>"
  have t: "rollup_target b m ?r1 = rollup_target b m r" "rollups_closed b ?r1 = rollups_closed b r"
    "rollup_opened b ?r1 = rollup_opened b r" for b m
    by (simp_all add: rollup_target_def rollups_closed_def rollup_opened_def split: option.split)
  show ?thesis
  proof (cases "rt_metrics old")
    case Nil
    with assms show ?thesis by (simp add: compactOldest_def)
  next
    case (Cons m ms)
    with assms show ?thesis
      by (simp add: compactOldest_def Let_def open_close_bucket t addRollupMetrics_Some
          split: prod.splits del: fold_metrics.simps addRollupMetrics.simps)
  qed
qed

lemma compactOldest_Nil [simp]: "rc_sealed r = [] \<Longrightarrow> compactOldest r = None"
  by (simp add: compactOldest_def)

lemma compactOldest_None [simp]: "compactOldest r = None \<longleftrightarrow> rc_sealed r = []"
  by (cases "rc_sealed r") (simp_all add: compactOldest_Cons)

text \<open>Case analysis on a removal that happened.\<close>

lemma dropRaw_cases:
  assumes "dropRaw memory r = Some r'"
  obtains (head) s rest where "rc_sealed r = s # rest"
    and "r' = r\<lparr>rc_bytes := rc_bytes r - rt_bytes s, rc_sealed := rest,
           rc_evictions := rc_evictions r + (if memory then 1 else 0)\<rparr>"
  using assms by (cases "rc_sealed r") auto

lemma dropRollup_cases:
  assumes "dropRollup memory r = Some r'"
  obtains (closed) s rest where "rc_rollups r = s # rest"
    and "r' = r\<lparr>rc_aggregateEvictions := rc_aggregateEvictions r + (if memory then 1 else 0),
           rc_bytes := rc_bytes r - rt_bytes s, rc_rollups := rest\<rparr>"
  | (current) a where "rc_rollups r = []" and "rc_rollupActive r = Some a"
    and "r' = r\<lparr>rc_aggregateEvictions := rc_aggregateEvictions r + (if memory then 1 else 0),
           rc_bytes := rc_bytes r - rt_bytes a, rc_rollupActive := None\<rparr>"
proof (cases "rc_rollups r")
  case Nil
  with assms obtain a where a: "rc_rollupActive r = Some a"
    by (auto simp: dropRollup_def Let_def split: option.splits if_splits)
  with Nil assms show ?thesis
    by (intro current [of a]) (auto simp: dropRollup_def Let_def)
next
  case (Cons s rest)
  with assms show ?thesis
    by (intro closed [of s rest]) (auto simp: dropRollup_def Let_def)
qed

lemma compactOldest_cases:
  assumes "compactOldest r = Some r'"
  obtains (no_metrics) old rest where "rc_sealed r = old # rest" and "rt_metrics old = []"
    and "r' = r\<lparr>rc_bytes := rc_bytes r - rt_bytes old, rc_sealed := rest,
           rc_evictions := rc_evictions r + 1\<rparr>"
  | (folded) old rest first b a cost where "rc_sealed r = old # rest" and "rt_metrics old \<noteq> []"
    and "first = hd (rt_metrics old)"
    and "fold_metrics (rt_metrics old) (rollup_target b first r) = (a, cost)"
    and "r' = r\<lparr>rc_sealed := rest, rc_evictions := rc_evictions r + 1,
           rc_rollups := rollups_closed b r, rc_rollupBucket := b, rc_rollupActive := Some a,
           rc_bytes := rc_bytes r - rt_bytes old
             + (if rollup_opened b r then segmentCost else 0) + cost\<rparr>"
proof -
  from assms obtain old rest where s: "rc_sealed r = old # rest" by (cases "rc_sealed r") auto
  show ?thesis
  proof (cases "rt_metrics old")
    case Nil
    with s assms show ?thesis by (intro no_metrics) (auto simp: compactOldest_Cons)
  next
    case (Cons m ms)
    define b where "b = rt_start old div to_u64 RollupInterval"
    obtain a cost where f: "fold_metrics (m # ms) (rollup_target b m r) = (a, cost)"
      by (cases "fold_metrics (m # ms) (rollup_target b m r)")
    with s assms Cons show ?thesis
      by (intro folded [of old rest m b a cost])
        (simp_all add: compactOldest_Cons Let_def b_def del: fold_metrics.simps)
  qed
qed

section \<open>No loop of retention panics\<close>

lemma expireRaw_total: "expireRaw now r \<noteq> None"
proof (induction now r rule: expireRaw.induct)
  case (1 now r)
  then show ?case
    by (subst expireRaw.simps) (auto split: list.splits option.splits)
qed

lemma expireRollups_total: "expireRollups now r \<noteq> None"
proof (induction now r rule: expireRollups.induct)
  case (1 now r)
  then show ?case
    by (subst expireRollups.simps) (auto simp: hasRollup_def split: list.splits option.splits)
qed

lemma expireRollupActive_total: "expireRollupActive now r \<noteq> None"
  by (simp add: expireRollupActive_def hasRollup_def del: not_None_eq split: option.split)

lemma compactWhile_total: "compactWhile cost r \<noteq> None"
proof (induction cost r rule: compactWhile.induct)
  case (1 cost r)
  then show ?case
    by (subst compactWhile.simps) (auto split: option.splits)
qed

lemma evictWhile_total: "evictWhile cost r \<noteq> None"
proof (induction cost r rule: evictWhile.induct)
  case (1 cost r)
  then show ?case
    by (subst evictWhile.simps) (auto split: option.splits)
qed

lemma Advance_total: "Advance now r \<noteq> None"
  by (simp add: Advance_def Option.bind_eq_None_conv expireRaw_total expireRollups_total
      expireRollupActive_total compactWhile_total evictWhile_total del: not_None_eq)

lemma room_total: "room cost metric r \<noteq> None"
  by (simp add: room_def Option.bind_eq_None_conv compactWhile_total evictWhile_total
      del: not_None_eq)

section \<open>The contract of an invariant with retention\<close>

locale retention =
  fixes inv :: "Recorder \<Rightarrow> bool"
  assumes dropRaw_inv: "inv r \<Longrightarrow> dropRaw memory r = Some r' \<Longrightarrow> inv r'"
    and dropRollup_inv: "inv r \<Longrightarrow> dropRollup memory r = Some r' \<Longrightarrow> inv r'"
    and compactOldest_inv: "inv r \<Longrightarrow> compactOldest r = Some r' \<Longrightarrow> inv r'"
begin

lemma expireRaw_inv: "expireRaw now r = Some r' \<Longrightarrow> inv r \<Longrightarrow> inv r'"
proof (induction now r rule: expireRaw.induct)
  case (1 now r)
  show ?case
  proof (cases "\<exists>s rest. rc_sealed r = s # rest \<and> expired now r s")
    case True
    then obtain s rest r1 where s: "rc_sealed r = s # rest" "expired now r s"
      and r1: "dropRaw False r = Some r1" by auto
    with "1.prems"(1) have "expireRaw now r1 = Some r'" by (simp add: expireRaw.simps [of now r])
    with 1 s r1 dropRaw_inv show ?thesis by blast
  next
    case False
    with 1 show ?thesis by (simp add: expireRaw.simps [of now r] split: list.splits if_splits)
  qed
qed

lemma expireRollups_inv: "expireRollups now r = Some r' \<Longrightarrow> inv r \<Longrightarrow> inv r'"
proof (induction now r rule: expireRollups.induct)
  case (1 now r)
  show ?case
  proof (cases "\<exists>s rest. rc_rollups r = s # rest \<and> expired now r s")
    case True
    then obtain s rest where s: "rc_rollups r = s # rest" "expired now r s" by auto
    then obtain r1 where r1: "dropRollup False r = Some r1"
      by (cases "dropRollup False r") (auto simp: hasRollup_def)
    with "1.prems"(1) s have "expireRollups now r1 = Some r'"
      by (simp add: expireRollups.simps [of now r])
    with 1 s r1 dropRollup_inv show ?thesis by blast
  next
    case False
    with 1 show ?thesis by (simp add: expireRollups.simps [of now r] split: list.splits if_splits)
  qed
qed

lemma expireRollupActive_inv: "expireRollupActive now r = Some r' \<Longrightarrow> inv r \<Longrightarrow> inv r'"
  by (auto simp: expireRollupActive_def split: option.splits if_splits dest: dropRollup_inv)

lemma compactWhile_inv: "compactWhile cost r = Some r' \<Longrightarrow> inv r \<Longrightarrow> inv r'"
proof (induction cost r rule: compactWhile.induct)
  case (1 cost r)
  show ?case
  proof (cases "rc_max r < rc_bytes r + cost \<and> 0 < length (rc_sealed r)")
    case True
    then obtain r1 where r1: "compactOldest r = Some r1" by (cases "compactOldest r") auto
    with "1.prems"(1) True have "compactWhile cost r1 = Some r'"
      by (simp add: compactWhile.simps [of cost r])
    with 1 True r1 compactOldest_inv show ?thesis by blast
  next
    case False
    with 1 show ?thesis by (simp add: compactWhile.simps [of cost r] split: if_splits)
  qed
qed

lemma evictWhile_inv: "evictWhile cost r = Some r' \<Longrightarrow> inv r \<Longrightarrow> inv r'"
proof (induction cost r rule: evictWhile.induct)
  case (1 cost r)
  show ?case
  proof (cases "rc_max r < rc_bytes r + cost \<and> hasRollup r")
    case True
    then obtain r1 where r1: "dropRollup True r = Some r1" by (cases "dropRollup True r") auto
    with "1.prems"(1) True have "evictWhile cost r1 = Some r'"
      by (simp add: evictWhile.simps [of cost r])
    with 1 True r1 dropRollup_inv show ?thesis by blast
  next
    case False
    with 1 show ?thesis by (simp add: evictWhile.simps [of cost r] split: if_splits)
  qed
qed

lemma room_inv: "room cost metric r = Some (ok, r') \<Longrightarrow> inv r \<Longrightarrow> inv r'"
  by (auto simp: room_def Option.bind_eq_Some_conv split: if_splits
      dest: compactWhile_inv evictWhile_inv)

text \<open>\<open>Advance\<close> keeps the invariant if sealing and touching the active segment do.\<close>

lemma Advance_inv:
  assumes "Advance now r = Some r'" and "now < rt_start (rc_active r) \<Longrightarrow> inv r"
    and "rt_start (rc_active r) \<le> now \<Longrightarrow> inv (touch_active now (seal_active now r))"
  shows "inv r'"
proof (cases "now < rt_start (rc_active r)")
  case True
  with assms show ?thesis by (simp add: Advance_def)
next
  case False
  with assms(1) obtain r1 r2 r3 r4 where
    s: "expireRaw now (touch_active now (seal_active now r)) = Some r1"
      "expireRollups now r1 = Some r2" "expireRollupActive now r2 = Some r3"
      "compactWhile 0 r3 = Some r4" "evictWhile 0 r4 = Some r'"
    by (auto simp: Advance_def Option.bind_eq_Some_conv)
  from False assms(3) have "inv (touch_active now (seal_active now r))" by simp
  with s show ?thesis
    using expireRaw_inv expireRollups_inv expireRollupActive_inv compactWhile_inv evictWhile_inv
    by blast
qed

end

section \<open>What retention leaves alone\<close>

definition settings_kept :: "Recorder \<Rightarrow> Recorder \<Rightarrow> bool" where
  "settings_kept r0 r \<longleftrightarrow> rc_started r = rc_started r0 \<and> rc_max r = rc_max r0
     \<and> rc_history r = rc_history r0 \<and> rc_segmentInterval r = rc_segmentInterval r0"

lemma dropRaw_frame: "dropRaw memory r = Some r' \<Longrightarrow> rc_active r' = rc_active r \<and> settings_kept r0 r' = settings_kept r0 r"
  by (erule dropRaw_cases) (simp add: settings_kept_def)

lemma dropRollup_frame:
  "dropRollup memory r = Some r' \<Longrightarrow> rc_active r' = rc_active r \<and> settings_kept r0 r' = settings_kept r0 r"
  by (erule dropRollup_cases) (simp_all add: settings_kept_def)

lemma compactOldest_frame:
  "compactOldest r = Some r' \<Longrightarrow> rc_active r' = rc_active r \<and> settings_kept r0 r' = settings_kept r0 r"
  by (erule compactOldest_cases) (simp_all add: settings_kept_def)

interpretation frame: retention "\<lambda>r. rc_active r = a \<and> settings_kept r0 r" for a r0
  by unfold_locales (simp_all add: dropRaw_frame dropRollup_frame compactOldest_frame)

lemma settings_kept_refl [simp]: "settings_kept r r"
  by (simp add: settings_kept_def)

lemma settings_kept_trans: "settings_kept r0 r1 \<Longrightarrow> settings_kept r1 r2 \<Longrightarrow> settings_kept r0 r2"
  by (simp add: settings_kept_def)

lemma room_frame:
  assumes "room cost metric r = Some (ok, r')"
  shows "rc_active r' = rc_active r" and "settings_kept r r'"
    and "ok \<longleftrightarrow> rc_bytes r' + cost \<le> rc_max r'"
  using frame.room_inv [OF assms, of "rc_active r" r] assms
  by (auto simp: room_def Option.bind_eq_Some_conv)

lemma seal_touch_settings [simp]: "settings_kept r0 (touch_active now (seal_active now r)) = settings_kept r0 r"
  by (simp add: settings_kept_def touch_active_def seal_active_def open_active_def Let_def)

lemma Advance_active:
  assumes "Advance now r = Some r'"
  shows "rc_active r' = (if now < rt_start (rc_active r) then rc_active r
           else rc_active (touch_active now (seal_active now r)))"
    and "settings_kept r r'"
proof -
  let ?a = "if now < rt_start (rc_active r) then rc_active r
    else rc_active (touch_active now (seal_active now r))"
  have "rc_active r' = ?a \<and> settings_kept r r'"
    by (rule frame.Advance_inv [OF assms]) simp_all
  then show "rc_active r' = ?a" and "settings_kept r r'" by simp_all
qed

section \<open>Case analysis on an observation\<close>

lemma Recorder_Event_cases:
  assumes "Recorder_Event e now r = Some (ok, r')"
  obtains (late) r1 where "Advance now r = Some r1" and "\<not> ok" and "r' = add_drop r1"
    and "now < ev_MonoNS e \<or> rc_history r1 < now - ev_MonoNS e"
  | (full) r1 r2 cost where "Advance now r = Some r1" and "\<not> ok" and "r' = add_drop r2"
    and "room cost False r1 = Some (False, r2)"
  | (kept) r1 r2 newCap cost where "Advance now r = Some r1" and "ok"
    and "r' = append_event e newCap cost r2" and "room cost False r1 = Some (True, r2)"
    and "ev_MonoNS e \<le> now" and "now - ev_MonoNS e \<le> rc_history r1"
    and "newCap = grown_cap initialEventCapacity (length (rt_events (rc_active r2))) (rt_eventsCap (rc_active r2))"
    and "cost = stringCost e + int (newCap - rt_eventsCap (rc_active r2)) * sizeof_Event"
proof -
  from assms obtain r1 where r1: "Advance now r = Some r1"
    by (auto simp: Recorder_Event_def Option.bind_eq_Some_conv)
  show ?thesis
  proof (cases "now < ev_MonoNS e \<or> rc_history r1 < now - ev_MonoNS e")
    case True
    with r1 assms show ?thesis by (intro late [of r1]) (auto simp: Recorder_Event_def)
  next
    case False
    define newCap where "newCap = grown_cap initialEventCapacity
      (length (rt_events (rc_active r1))) (rt_eventsCap (rc_active r1))"
    define cost where "cost = stringCost e + int (newCap - rt_eventsCap (rc_active r1)) * sizeof_Event"
    obtain k r2 where r2: "room cost False r1 = Some (k, r2)"
      using room_total [of cost False r1] by auto
    have a: "rc_active r2 = rc_active r1" by (rule room_frame [OF r2])
    show ?thesis
    proof (cases k)
      case True
      with False r1 r2 a assms show ?thesis
        by (intro kept [of r1 newCap cost r2])
          (auto simp: Recorder_Event_def Let_def newCap_def cost_def not_less split: if_splits)
    next
      case k: False
      with False r1 r2 assms show ?thesis
        by (intro full [of r1 r2 cost]) (auto simp: Recorder_Event_def Let_def newCap_def cost_def)
    qed
  qed
qed

lemma Recorder_Metric_cases:
  assumes "Recorder_Metric m now r = Some (ok, r')"
  obtains (full) r1 r2 cost where "Advance now r = Some r1" and "\<not> ok" and "r' = add_drop r2"
    and "room cost True r1 = Some (False, r2)"
  | (kept) r1 r2 newCap cost where "Advance now r = Some r1" and "ok"
    and "r' = append_metric m newCap cost r2" and "room cost True r1 = Some (True, r2)"
    and "newCap = grown_cap 4 (length (rt_metrics (rc_active r2))) (rt_metricsCap (rc_active r2))"
    and "cost = int (length (mt_Family m)) + int (newCap - rt_metricsCap (rc_active r2)) * sizeof_Metric"
proof -
  from assms obtain r1 where r1: "Advance now r = Some r1"
    by (auto simp: Recorder_Metric_def Option.bind_eq_Some_conv)
  define newCap where "newCap = grown_cap 4
    (length (rt_metrics (rc_active r1))) (rt_metricsCap (rc_active r1))"
  define cost where
    "cost = int (length (mt_Family m)) + int (newCap - rt_metricsCap (rc_active r1)) * sizeof_Metric"
  obtain k r2 where r2: "room cost True r1 = Some (k, r2)"
    using room_total [of cost True r1] by auto
  have a: "rc_active r2 = rc_active r1" by (rule room_frame [OF r2])
  show ?thesis
  proof (cases k)
    case True
    with r1 r2 a assms show ?thesis
      by (intro kept [of r1 newCap cost r2])
        (auto simp: Recorder_Metric_def Let_def newCap_def cost_def)
  next
    case False
    with r1 r2 assms show ?thesis
      by (intro full [of r1 r2 cost]) (auto simp: Recorder_Metric_def Let_def newCap_def cost_def)
  qed
qed

text \<open>No operation panics.\<close>

lemma Recorder_Event_total: "Recorder_Event e now r \<noteq> None"
  by (simp add: Recorder_Event_def Let_def Option.bind_eq_None_conv Advance_total room_total
      split: prod.splits del: not_None_eq)

lemma Recorder_Metric_total: "Recorder_Metric m now r \<noteq> None"
  by (simp add: Recorder_Metric_def Let_def Option.bind_eq_None_conv Advance_total room_total
      split: prod.splits del: not_None_eq)

text \<open>
  What an invariant needs beyond its contract with retention to survive an
  observation: sealing, the drop counter and the appends.
\<close>

context retention
begin

lemma Recorder_Event_inv:
  assumes "Recorder_Event e now r = Some (ok, r')"
    and "\<And>r1. Advance now r = Some r1 \<Longrightarrow> inv r1"
    and "\<And>r. inv r \<Longrightarrow> inv (add_drop r)"
    and "\<And>r1 r2 newCap cost. Advance now r = Some r1 \<Longrightarrow> room cost False r1 = Some (True, r2) \<Longrightarrow>
      inv r2 \<Longrightarrow> ev_MonoNS e \<le> now \<Longrightarrow> now - ev_MonoNS e \<le> rc_history r1 \<Longrightarrow>
      newCap = grown_cap initialEventCapacity (length (rt_events (rc_active r2)))
        (rt_eventsCap (rc_active r2)) \<Longrightarrow>
      cost = stringCost e + int (newCap - rt_eventsCap (rc_active r2)) * sizeof_Event \<Longrightarrow>
      inv (append_event e newCap cost r2)"
  shows "inv r'"
  using assms(1)
proof (cases rule: Recorder_Event_cases)
  case (late r1)
  with assms(2,3) show ?thesis by simp
next
  case (full r1 r2 cost)
  with assms(2,3) room_inv show ?thesis by blast
next
  case (kept r1 r2 newCap cost)
  with assms(2,4) room_inv show ?thesis by blast
qed

lemma Recorder_Metric_inv:
  assumes "Recorder_Metric m now r = Some (ok, r')"
    and "\<And>r1. Advance now r = Some r1 \<Longrightarrow> inv r1"
    and "\<And>r. inv r \<Longrightarrow> inv (add_drop r)"
    and "\<And>r1 r2 newCap cost. Advance now r = Some r1 \<Longrightarrow> room cost True r1 = Some (True, r2) \<Longrightarrow>
      inv r2 \<Longrightarrow>
      newCap = grown_cap 4 (length (rt_metrics (rc_active r2))) (rt_metricsCap (rc_active r2)) \<Longrightarrow>
      cost = int (length (mt_Family m)) + int (newCap - rt_metricsCap (rc_active r2)) * sizeof_Metric \<Longrightarrow>
      inv (append_metric m newCap cost r2)"
  shows "inv r'"
  using assms(1)
proof (cases rule: Recorder_Metric_cases)
  case (full r1 r2 cost)
  with assms(2,3) room_inv show ?thesis by blast
next
  case (kept r1 r2 newCap cost)
  with assms(2,4) room_inv show ?thesis by blast
qed

end

end
