(* ===== verification/Recorder_Budget.thy ===== *)
theory Recorder_Budget
  imports Recorder_Inv
begin

text \<open>
  The byte account of the recorder: every retained segment is charged its
  bookkeeping, the capacity of its slices and its strings, the recorder's total
  is the sum of the charges, and after every \<open>Advance\<close> and every accepted
  observation the total is within the budget.
\<close>

section \<open>Charges\<close>

definition raw_charge :: "retained \<Rightarrow> int" where
  "raw_charge s = segmentCost + int (rt_eventsCap s) * sizeof_Event
     + int (rt_metricsCap s) * sizeof_Metric
     + (\<Sum>e\<leftarrow>rt_events s. stringCost e) + (\<Sum>m\<leftarrow>rt_metrics s. int (length (mt_Family m)))"

definition charged :: "retained \<Rightarrow> bool" where
  "charged s \<longleftrightarrow> rt_bytes s = raw_charge s
     \<and> length (rt_events s) \<le> rt_eventsCap s \<and> length (rt_metrics s) \<le> rt_metricsCap s"

definition rollup_charged :: "retained \<Rightarrow> bool" where
  "rollup_charged a \<longleftrightarrow> rt_events a = []
     \<and> rt_bytes a = segmentCost + int (rt_metricsCap a) * sizeof_Metric
     \<and> length (rt_metrics a) \<le> rt_metricsCap a"

abbreviation active_rollup :: "Recorder \<Rightarrow> retained list" where
  "active_rollup r \<equiv> (case rc_rollupActive r of None \<Rightarrow> [] | Some a \<Rightarrow> [a])"

definition account :: "Recorder \<Rightarrow> int" where
  "account r = (\<Sum>s\<leftarrow>rc_rollups r @ active_rollup r @ rc_sealed r @ [rc_active r]. rt_bytes s)"

definition acct :: "Recorder \<Rightarrow> bool" where
  "acct r \<longleftrightarrow> rc_bytes r = account r
     \<and> (\<forall>s \<in> set (rc_rollups r @ active_rollup r). rollup_charged s)
     \<and> (\<forall>s \<in> set (rc_sealed r). charged s) \<and> charged (rc_active r)"

lemmas charge_defs = charged_def rollup_charged_def raw_charge_def segmentCost_def
  sizeof_Event_def sizeof_Metric_def

lemma stringCost_nonneg: "0 \<le> stringCost e"
  by (simp add: stringCost_def)

lemma charged_pos: "charged s \<Longrightarrow> segmentCost \<le> rt_bytes s"
  using sum_list_nonneg_int [of "rt_events s" stringCost]
    sum_list_nonneg_int [of "rt_metrics s" "\<lambda>m. int (length (mt_Family m))"]
  by (simp add: charged_def raw_charge_def sizeof_Event_def sizeof_Metric_def stringCost_nonneg)

lemma rollup_charged_pos: "rollup_charged a \<Longrightarrow> segmentCost \<le> rt_bytes a"
  by (simp add: rollup_charged_def sizeof_Metric_def)

lemma fresh_charged [simp]: "charged (fresh_segment now)" "rollup_charged (fresh_rollup m)"
  by (simp_all add: charge_defs fresh_segment_def fresh_rollup_def)

lemma observe_simps [simp]:
  "rt_segment (observe a b s) = rt_segment s" "rt_bytes (observe a b s) = rt_bytes s"
  "rt_eventsCap (observe a b s) = rt_eventsCap s" "rt_metricsCap (observe a b s) = rt_metricsCap s"
  by (simp_all add: observe_def)

lemma merge_into_length: "merge_into ms m = Some ms' \<Longrightarrow> length ms' = length ms"
  by (induction ms arbitrary: ms') (auto split: if_splits)

lemma fold_metric_charged:
  assumes "fold_metric m a = (a', c)" and "rollup_charged a"
  shows "rollup_charged a' \<and> rt_bytes a' = rt_bytes a + c"
proof (cases "merge_into (rt_metrics (widen_rollup m a)) m")
  case None
  with assms show ?thesis
    by (auto simp: fold_metric_def append_rollup_def widen_rollup_def rollup_charged_def
        sizeof_Metric_def Let_def max_def split: if_splits)
next
  case (Some ms)
  with assms merge_into_length [OF Some] show ?thesis
    by (auto simp: fold_metric_def widen_rollup_def rollup_charged_def Let_def)
qed

lemma fold_metrics_charged:
  "fold_metrics ms a = (a', c) \<Longrightarrow> rollup_charged a \<Longrightarrow>
   rollup_charged a' \<and> rt_bytes a' = rt_bytes a + c"
  by (induction ms arbitrary: a a' c)
    (fastforce simp: Let_def split: prod.splits dest: fold_metric_charged)+

section \<open>The account is exact\<close>

lemma acct_dropRaw: "acct r \<Longrightarrow> dropRaw memory r = Some r' \<Longrightarrow> acct r'"
  by (erule dropRaw_cases) (simp add: acct_def account_def)

lemma acct_dropRollup: "acct r \<Longrightarrow> dropRollup memory r = Some r' \<Longrightarrow> acct r'"
  by (erule dropRollup_cases) (simp_all add: acct_def account_def)

lemma rollups_closed_account:
  "(\<Sum>s\<leftarrow>rollups_closed b r. rt_bytes s) + rt_bytes (rollup_target b m r)
   = (\<Sum>s\<leftarrow>rc_rollups r @ active_rollup r. rt_bytes s)
     + (if rollup_opened b r then segmentCost else 0)"
  by (simp add: rollups_closed_def rollup_target_def rollup_opened_def fresh_rollup_def
      split: option.split)

lemma acct_compactOldest:
  assumes "acct r" and "compactOldest r = Some r'"
  shows "acct r'"
  using assms(2)
proof (cases rule: compactOldest_cases)
  case (no_metrics old rest)
  with assms(1) show ?thesis by (simp add: acct_def account_def)
next
  case (folded old rest first b a cost)
  have "rollup_charged (rollup_target b first r)"
    using assms(1) by (simp add: rollup_target_def acct_def split: option.splits)
  with folded(4) have "rollup_charged a" "rt_bytes a = rt_bytes (rollup_target b first r) + cost"
    by (auto dest: fold_metrics_charged)
  moreover have "\<forall>s \<in> set (rollups_closed b r). rollup_charged s"
    using assms(1) by (auto simp: acct_def rollups_closed_def split: option.splits)
  ultimately show ?thesis
    using assms(1) folded(1,5) rollups_closed_account [of b r first]
    by (simp add: acct_def account_def)
qed

interpretation account: retention acct
  by unfold_locales (fact acct_dropRaw acct_dropRollup acct_compactOldest)+

lemma acct_seal_touch: "acct r \<Longrightarrow> acct (touch_active now (seal_active now r))"
  by (auto simp: acct_def account_def touch_active_def seal_active_def open_active_def Let_def
      fresh_segment_def charge_defs)

lemma acct_Advance: "acct r \<Longrightarrow> Advance now r = Some r' \<Longrightarrow> acct r'"
  by (rule account.Advance_inv) (auto intro: acct_seal_touch)

lemma grown_cap_ge: "c \<le> grown_cap i n c" "n \<le> c \<Longrightarrow> 0 < i \<Longrightarrow> Suc n \<le> grown_cap i n c"
  by (auto simp: grown_cap_def)

lemma acct_add_drop: "acct r \<Longrightarrow> acct (add_drop r)"
  by (simp add: acct_def account_def add_drop_def)

lemma acct_append_event:
  assumes "acct r"
    and "newCap = grown_cap initialEventCapacity (length (rt_events (rc_active r))) (rt_eventsCap (rc_active r))"
    and "cost = stringCost e + int (newCap - rt_eventsCap (rc_active r)) * sizeof_Event"
  shows "acct (append_event e newCap cost r)"
proof -
  have "rt_eventsCap (rc_active r) \<le> newCap" using assms(2) by (simp add: grown_cap_ge)
  moreover have "Suc (length (rt_events (rc_active r))) \<le> newCap"
    using assms by (simp add: grown_cap_ge acct_def charged_def initialEventCapacity_def)
  ultimately show ?thesis using assms(1,3)
    by (simp add: acct_def account_def append_event_def charge_defs Let_def of_nat_diff)
qed

lemma acct_append_metric:
  assumes "acct r"
    and "newCap = grown_cap 4 (length (rt_metrics (rc_active r))) (rt_metricsCap (rc_active r))"
    and "cost = int (length (mt_Family m)) + int (newCap - rt_metricsCap (rc_active r)) * sizeof_Metric"
  shows "acct (append_metric m newCap cost r)"
proof -
  have "rt_metricsCap (rc_active r) \<le> newCap" using assms(2) by (simp add: grown_cap_ge)
  moreover have "Suc (length (rt_metrics (rc_active r))) \<le> newCap"
    using assms by (simp add: grown_cap_ge acct_def charged_def)
  ultimately show ?thesis using assms(1,3)
    by (simp add: acct_def account_def append_metric_def charge_defs Let_def of_nat_diff)
qed

lemma acct_Event: "Recorder_Event e now r = Some (ok, r') \<Longrightarrow> acct r \<Longrightarrow> acct r'"
  by (erule account.Recorder_Event_inv)
    (auto intro: acct_Advance acct_add_drop acct_append_event)

lemma acct_Metric: "Recorder_Metric m now r = Some (ok, r') \<Longrightarrow> acct r \<Longrightarrow> acct r'"
  by (erule account.Recorder_Metric_inv)
    (auto intro: acct_Advance acct_add_drop acct_append_metric)

lemma acct_New: "acct (NewWithSegmentInterval history max_bytes interval now)"
  by (simp add: NewWithSegmentInterval_def open_active_def acct_def account_def)
    (simp add: fresh_segment_def)

lemma recording_acct: "recording t p r \<Longrightarrow> acct r"
  by (induction rule: recording.induct)
    (auto intro: acct_New acct_Advance acct_Event acct_Metric)

section \<open>The budget\<close>

text \<open>The active segment alone never exceeds the budget, because only admitted bytes enter it.\<close>

definition active_fits :: "Recorder \<Rightarrow> bool" where
  "active_fits r \<longleftrightarrow> segmentCost \<le> rc_max r \<and> rt_bytes (rc_active r) \<le> rc_max r"

interpretation fits: retention active_fits
  by unfold_locales
    (auto simp: active_fits_def elim!: dropRaw_cases dropRollup_cases compactOldest_cases)

lemma account_ge_active:
  assumes "acct r"
  shows "rt_bytes (rc_active r) \<le> rc_bytes r"
proof -
  have "0 \<le> (\<Sum>s\<leftarrow>rc_rollups r @ active_rollup r. rt_bytes s)"
    using assms by (intro sum_list_nonneg_int) (auto simp: acct_def segmentCost_def dest!: rollup_charged_pos bspec)
  moreover have "0 \<le> (\<Sum>s\<leftarrow>rc_sealed r. rt_bytes s)"
    using assms by (intro sum_list_nonneg_int) (auto simp: acct_def segmentCost_def dest!: charged_pos bspec)
  ultimately show ?thesis using assms by (simp add: acct_def account_def)
qed

lemma fits_Advance: "active_fits r \<Longrightarrow> Advance now r = Some r' \<Longrightarrow> active_fits r'"
  by (rule fits.Advance_inv)
    (auto simp: active_fits_def touch_active_def seal_active_def open_active_def fresh_segment_def Let_def)

lemma fits_append:
  assumes "acct r" and "active_fits r" and "rc_bytes r + cost \<le> rc_max r"
  shows "active_fits (append_event e c cost r)" and "active_fits (append_metric m c cost r)"
  using assms account_ge_active [OF assms(1)]
  by (auto simp: active_fits_def append_event_def append_metric_def Let_def)

lemma acct_room: "room cost metric r = Some (ok, r') \<Longrightarrow> acct r \<Longrightarrow> acct r'"
  by (rule account.room_inv)

lemma fits_Event:
  assumes "Recorder_Event e now r = Some (ok, r')" and "acct r" and "active_fits r"
  shows "active_fits r'"
  using assms(1)
proof (cases rule: Recorder_Event_cases)
  case (late r1)
  with assms fits_Advance have "active_fits r1" by blast
  with late show ?thesis by (simp add: active_fits_def add_drop_def)
next
  case (full r1 r2 cost)
  with assms fits_Advance fits.room_inv have "active_fits r2" by blast
  with full show ?thesis by (simp add: active_fits_def add_drop_def)
next
  case (kept r1 r2 newCap cost)
  with assms fits_Advance fits.room_inv have "active_fits r2" by blast
  moreover from kept assms acct_Advance acct_room have "acct r2" by blast
  ultimately show ?thesis using kept room_frame(3) [OF kept(4)] by (auto intro: fits_append)
qed

lemma fits_Metric:
  assumes "Recorder_Metric m now r = Some (ok, r')" and "acct r" and "active_fits r"
  shows "active_fits r'"
  using assms(1)
proof (cases rule: Recorder_Metric_cases)
  case (full r1 r2 cost)
  with assms fits_Advance fits.room_inv have "active_fits r2" by blast
  with full show ?thesis by (simp add: active_fits_def add_drop_def)
next
  case (kept r1 r2 newCap cost)
  with assms fits_Advance fits.room_inv have "active_fits r2" by blast
  moreover from kept assms acct_Advance acct_room have "acct r2" by blast
  ultimately show ?thesis using kept room_frame(3) [OF kept(4)] by (auto intro: fits_append)
qed

lemma recording_fits: "recording t p r \<Longrightarrow> active_fits r"
proof (induction rule: recording.induct)
  case (start max_bytes interval now history)
  then show ?case
    by (simp add: active_fits_def NewWithSegmentInterval_def open_active_def fresh_segment_def)
qed (auto intro: fits_Advance fits_Event fits_Metric recording_acct)

text \<open>How the two loops end.\<close>

lemma compactWhile_stop:
  "compactWhile cost r = Some r' \<Longrightarrow> rc_bytes r' + cost \<le> rc_max r' \<or> rc_sealed r' = []"
proof (induction cost r rule: compactWhile.induct)
  case (1 cost r)
  then show ?case
    by (cases "rc_max r < rc_bytes r + cost \<and> 0 < length (rc_sealed r)")
      (auto simp: compactWhile.simps [of cost r] split: option.splits)
qed

lemma evictWhile_stop:
  "evictWhile cost r = Some r' \<Longrightarrow>
   (rc_bytes r' + cost \<le> rc_max r' \<or> \<not> hasRollup r') \<and> rc_sealed r' = rc_sealed r
   \<and> (rc_bytes r + cost \<le> rc_max r \<longrightarrow> r' = r)"
proof (induction cost r rule: evictWhile.induct)
  case (1 cost r)
  show ?case
  proof (cases "rc_max r < rc_bytes r + cost \<and> hasRollup r")
    case True
    then obtain r1 where r1: "dropRollup True r = Some r1" by (cases "dropRollup True r") auto
    then have "rc_sealed r1 = rc_sealed r" by (auto elim: dropRollup_cases)
    with True r1 "1.prems" "1.IH" [OF True r1] show ?thesis
      by (simp add: evictWhile.simps [of cost r])
  next
    case False
    with "1.prems" have "r' = r" by (simp add: evictWhile.simps [of cost r] split: if_splits)
    with False show ?thesis by auto
  qed
qed

lemma Advance_budget:
  assumes "acct r" and "active_fits r" and "rt_start (rc_active r) \<le> now"
    and "Advance now r = Some r'"
  shows "rc_bytes r' \<le> rc_max r'"
proof -
  from assms(3,4) obtain r4 where s: "\<exists>r3. compactWhile 0 r3 = Some r4" "evictWhile 0 r4 = Some r'"
    by (auto simp: Advance_def Option.bind_eq_Some_conv not_less split: if_splits)
  have a: "acct r'" "active_fits r'" using assms acct_Advance fits_Advance by blast+
  show ?thesis
  proof (cases "rc_bytes r4 \<le> rc_max r4")
    case True
    with evictWhile_stop [OF s(2)] show ?thesis by simp
  next
    case False
    with s(1) compactWhile_stop have "rc_sealed r4 = []" by fastforce
    with evictWhile_stop [OF s(2)] have "rc_bytes r' \<le> rc_max r' \<or> \<not> hasRollup r'" "rc_sealed r' = []"
      by auto
    with a show ?thesis by (auto simp: acct_def account_def hasRollup_def active_fits_def)
  qed
qed

end
