(* ===== verification/Recorder_Fold.thy ===== *)
theory Recorder_Fold
  imports Recorder_Budget
begin

text \<open>
  Folding under memory pressure conserves the aggregates.  The locale
  \<open>rollup_counter\<close> is the contract between a counter of a metric and the merge
  of two adjacent intervals of one family; inside it the total of the counter
  over everything retained is shown invariant under \<open>compactOldest\<close> and its
  loops.  Every counter the recorder stores, every histogram bucket and the
  covered time are interpretations.
\<close>

section \<open>Totals\<close>

definition family_total :: "(Metric \<Rightarrow> u64) \<Rightarrow> string \<Rightarrow> Metric list \<Rightarrow> u64" where
  "family_total f fam ms = (\<Sum>m\<leftarrow>filter (\<lambda>m. mt_Family m = fam) ms. f m)"

definition containers :: "Recorder \<Rightarrow> retained list" where
  "containers r = rc_rollups r @ active_rollup r @ rc_sealed r @ [rc_active r]"

definition retained_metrics :: "Recorder \<Rightarrow> Metric list" where
  "retained_metrics r = concat (map rt_metrics (containers r))"

lemma family_total_simps [simp]:
  "family_total f fam [] = 0"
  "family_total f fam (m # ms) = (if mt_Family m = fam then f m else 0) + family_total f fam ms"
  "family_total f fam (xs @ ys) = family_total f fam xs + family_total f fam ys"
  by (simp_all add: family_total_def)

lemma widen_rollup_metrics [simp]: "rt_metrics (widen_rollup m a) = rt_metrics a"
  by (simp add: widen_rollup_def Let_def)

lemma append_rollup_metrics: "append_rollup m a = (a', c) \<Longrightarrow> rt_metrics a' = rt_metrics a @ [m]"
  by (auto simp: append_rollup_def Let_def split: if_splits)

lemma merge_metric_keys [simp]:
  "mt_Family (merge_metric p m) = mt_Family p"
  "mt_StartMonoNS (merge_metric p m) = mt_StartMonoNS p"
  "mt_EndMonoNS (merge_metric p m) = mt_EndMonoNS m"
  by (simp_all add: merge_metric_def)

lemma fresh_metrics [simp]: "rt_metrics (fresh_rollup m) = []" "rt_metrics (fresh_segment t) = []"
  by (simp_all add: fresh_rollup_def fresh_segment_def)

lemma rollups_closed_metrics:
  "concat (map rt_metrics (rollups_closed b r)) @ rt_metrics (rollup_target b m r)
   = concat (map rt_metrics (rc_rollups r @ active_rollup r))"
  by (simp add: rollups_closed_def rollup_target_def split: option.split)

section \<open>The contract of a counter\<close>

locale rollup_counter =
  fixes f :: "Metric \<Rightarrow> u64" and ok :: "Metric \<Rightarrow> bool"
  assumes merge_add: "ok p \<Longrightarrow> ok m \<Longrightarrow> mt_Family p = mt_Family m \<Longrightarrow>
      mt_EndMonoNS p = mt_StartMonoNS m \<Longrightarrow> f (merge_metric p m) = f p + f m"
    and merge_ok: "ok p \<Longrightarrow> ok m \<Longrightarrow> ok (merge_metric p m)"
begin

lemma merge_into_total:
  "merge_into ms m = Some ms' \<Longrightarrow> \<forall>x \<in> set ms. ok x \<Longrightarrow> ok m \<Longrightarrow>
   family_total f fam ms' = family_total f fam ms + family_total f fam [m] \<and> (\<forall>x \<in> set ms'. ok x)"
  by (induction ms arbitrary: ms') (auto simp: merge_add merge_ok split: if_splits)

lemma fold_metric_total:
  assumes "fold_metric m a = (a', c)" and "\<forall>x \<in> set (rt_metrics a). ok x" and "ok m"
  shows "family_total f fam (rt_metrics a') = family_total f fam (rt_metrics a @ [m])
    \<and> (\<forall>x \<in> set (rt_metrics a'). ok x)"
proof (cases "merge_into (rt_metrics a) m")
  case None
  with assms show ?thesis by (auto simp: fold_metric_def Let_def dest!: append_rollup_metrics)
next
  case (Some ms)
  with assms merge_into_total [OF Some] show ?thesis by (auto simp: fold_metric_def Let_def)
qed

lemma fold_metrics_total:
  "fold_metrics ms a = (a', c) \<Longrightarrow> \<forall>x \<in> set (rt_metrics a). ok x \<Longrightarrow> \<forall>x \<in> set ms. ok x \<Longrightarrow>
   family_total f fam (rt_metrics a') = family_total f fam (rt_metrics a @ ms)
   \<and> (\<forall>x \<in> set (rt_metrics a'). ok x)"
proof (induction ms arbitrary: a a' c)
  case Nil
  then show ?case by simp
next
  case (Cons m ms)
  obtain a1 c1 where f1: "fold_metric m a = (a1, c1)" by (cases "fold_metric m a")
  obtain c2 where f2: "fold_metrics ms a1 = (a', c2)"
    using Cons.prems(1) f1 by (auto split: prod.splits)
  from fold_metric_total [OF f1 Cons.prems(2), of fam] Cons.prems(3)
  have t: "family_total f fam (rt_metrics a1) = family_total f fam (rt_metrics a @ [m])"
    "\<forall>x \<in> set (rt_metrics a1). ok x" by auto
  from Cons.IH [OF f2 t(2)] Cons.prems(3) t(1) show ?case by simp
qed

lemma compactOldest_conserves:
  assumes "compactOldest r = Some r'" and "\<forall>m \<in> set (retained_metrics r). ok m"
  shows "family_total f fam (retained_metrics r') = family_total f fam (retained_metrics r)
    \<and> (\<forall>m \<in> set (retained_metrics r'). ok m)"
  using assms(1)
proof (cases rule: compactOldest_cases)
  case (no_metrics old rest)
  with assms(2) show ?thesis by (simp add: retained_metrics_def containers_def)
next
  case (folded old rest first b a cost)
  let ?t = "rollup_target b first r"
  have e: "concat (map rt_metrics (rollups_closed b r)) @ rt_metrics ?t
      = concat (map rt_metrics (rc_rollups r @ active_rollup r))"
    by (rule rollups_closed_metrics)
  have "retained_metrics r = concat (map rt_metrics (rollups_closed b r)) @ rt_metrics ?t
      @ rt_metrics old @ concat (map rt_metrics rest) @ rt_metrics (rc_active r)"
    using e folded(1) by (simp add: retained_metrics_def containers_def)
  with assms(2) have
    "\<forall>x \<in> set (rt_metrics ?t). ok x" "\<forall>x \<in> set (rt_metrics old). ok x"
    "\<forall>x \<in> set (concat (map rt_metrics (rollups_closed b r))). ok x"
    by (auto simp only: set_append ball_Un)
  moreover from fold_metrics_total [OF folded(4) this(1,2), of fam]
  have "family_total f fam (rt_metrics a) = family_total f fam (rt_metrics ?t @ rt_metrics old)"
    "\<forall>x \<in> set (rt_metrics a). ok x" by auto
  moreover have "family_total f fam (concat (map rt_metrics (rollups_closed b r)) @ rt_metrics ?t)
      = family_total f fam (concat (map rt_metrics (rc_rollups r @ active_rollup r)))"
    by (simp only: e)
  ultimately show ?thesis
    using assms(2) folded(1,5) by (auto simp: retained_metrics_def containers_def algebra_simps)
qed

lemma compactWhile_conserves:
  "compactWhile cost r = Some r' \<Longrightarrow> \<forall>m \<in> set (retained_metrics r). ok m \<Longrightarrow>
   family_total f fam (retained_metrics r') = family_total f fam (retained_metrics r)"
proof (induction cost r rule: compactWhile.induct)
  case (1 cost r)
  show ?case
  proof (cases "rc_max r < rc_bytes r + cost \<and> 0 < length (rc_sealed r)")
    case True
    then obtain r1 where r1: "compactOldest r = Some r1" by (cases "compactOldest r") auto
    with "1.prems"(1) True have "compactWhile cost r1 = Some r'"
      by (simp add: compactWhile.simps [of cost r])
    with "1.IH" [OF True r1] compactOldest_conserves [OF r1 "1.prems"(2)] show ?thesis by simp
  next
    case False
    with "1.prems" show ?thesis by (simp add: compactWhile.simps [of cost r] split: if_splits)
  qed
qed

end

text \<open>Everything retained stays well formed: an invariant in the sense of \<open>retention\<close>.\<close>

sublocale rollup_counter \<subseteq> wf: retention "\<lambda>r. \<forall>m \<in> set (retained_metrics r). ok m"
proof unfold_locales
  show "\<forall>m \<in> set (retained_metrics r'). ok m"
    if "\<forall>m \<in> set (retained_metrics r). ok m" "dropRaw memory r = Some r'" for r memory r'
    using that(2,1) by (cases rule: dropRaw_cases) (auto simp: retained_metrics_def containers_def)
  show "\<forall>m \<in> set (retained_metrics r'). ok m"
    if "\<forall>m \<in> set (retained_metrics r). ok m" "dropRollup memory r = Some r'" for r memory r'
    using that(2,1)
    by (cases rule: dropRollup_cases) (auto simp: retained_metrics_def containers_def)
  show "\<forall>m \<in> set (retained_metrics r'). ok m"
    if "\<forall>m \<in> set (retained_metrics r). ok m" "compactOldest r = Some r'" for r r'
    using compactOldest_conserves [OF that(2,1)] by blast
qed

section \<open>The counters of a metric\<close>

interpretation mt_count: rollup_counter mt_Count "\<lambda>_. True"
  by unfold_locales (simp_all add: merge_metric_def)
interpretation mt_anomalies: rollup_counter mt_Anomalies "\<lambda>_. True"
  by unfold_locales (simp_all add: merge_metric_def)
interpretation mt_critical: rollup_counter mt_Critical "\<lambda>_. True"
  by unfold_locales (simp_all add: merge_metric_def)
interpretation mt_bytes: rollup_counter mt_Bytes "\<lambda>_. True"
  by unfold_locales (simp_all add: merge_metric_def)
interpretation mt_retransmits: rollup_counter mt_Retransmits "\<lambda>_. True"
  by unfold_locales (simp_all add: merge_metric_def)
interpretation mt_resets: rollup_counter mt_Resets "\<lambda>_. True"
  by unfold_locales (simp_all add: merge_metric_def)
interpretation mt_bookkeeping: rollup_counter mt_BookkeepingCompletions "\<lambda>_. True"
  by unfold_locales (simp_all add: merge_metric_def)

lemma loss_counter:
  assumes "\<And>a b. g (counters_add a b) = g a + g b"
  shows "rollup_counter (\<lambda>m. g (mt_Loss m)) (\<lambda>_. True)"
  by unfold_locales (simp_all add: merge_metric_def assms)

interpretation ct_ring: rollup_counter "\<lambda>m. ct_RingFailures (mt_Loss m)" "\<lambda>_. True"
  by (rule loss_counter) (simp add: counters_add_def)
interpretation ct_suppressed: rollup_counter "\<lambda>m. ct_Suppressed (mt_Loss m)" "\<lambda>_. True"
  by (rule loss_counter) (simp add: counters_add_def)
interpretation ct_detail: rollup_counter "\<lambda>m. ct_DetailFailures (mt_Loss m)" "\<lambda>_. True"
  by (rule loss_counter) (simp add: counters_add_def)
interpretation ct_tracking: rollup_counter "\<lambda>m. ct_TrackingFailures (mt_Loss m)" "\<lambda>_. True"
  by (rule loss_counter) (simp add: counters_add_def)
interpretation ct_unmatched: rollup_counter "\<lambda>m. ct_Unmatched (mt_Loss m)" "\<lambda>_. True"
  by (rule loss_counter) (simp add: counters_add_def)
interpretation ct_decode: rollup_counter "\<lambda>m. ct_DecodeFailures (mt_Loss m)" "\<lambda>_. True"
  by (rule loss_counter) (simp add: counters_add_def)

interpretation bucket: rollup_counter "\<lambda>m. if i < HistogramBuckets then mt_Histogram m ! i else 0"
    "\<lambda>m. histogram_wf (mt_Histogram m)" for i
  by unfold_locales (simp_all add: merge_metric_def histogram_add_def histogram_wf_def)

interpretation covered: rollup_counter "\<lambda>m. mt_EndMonoNS m - mt_StartMonoNS m" "\<lambda>_. True"
  by unfold_locales simp_all

definition metric_counters :: "(Metric \<Rightarrow> u64) list" where
  "metric_counters =
     [mt_Count, mt_Anomalies, mt_Critical, mt_Bytes, mt_Retransmits, mt_Resets,
      mt_BookkeepingCompletions, \<lambda>m. ct_RingFailures (mt_Loss m), \<lambda>m. ct_Suppressed (mt_Loss m),
      \<lambda>m. ct_DetailFailures (mt_Loss m), \<lambda>m. ct_TrackingFailures (mt_Loss m),
      \<lambda>m. ct_Unmatched (mt_Loss m), \<lambda>m. ct_DecodeFailures (mt_Loss m),
      \<lambda>m. mt_EndMonoNS m - mt_StartMonoNS m]
     @ map (\<lambda>i m. if i < HistogramBuckets then mt_Histogram m ! i else 0) [0..<HistogramBuckets]"

text \<open>Every retained histogram keeps its eleven buckets.\<close>

abbreviation histograms_wf :: "Recorder \<Rightarrow> bool" where
  "histograms_wf r \<equiv> \<forall>m \<in> set (retained_metrics r). histogram_wf (mt_Histogram m)"

lemma retained_metrics_seal_touch [simp]:
  "retained_metrics (touch_active now (seal_active now r)) = retained_metrics r"
  by (simp add: retained_metrics_def containers_def touch_active_def seal_active_def
      open_active_def Let_def)

lemma retained_metrics_add_drop [simp]: "retained_metrics (add_drop r) = retained_metrics r"
  by (simp add: retained_metrics_def containers_def add_drop_def)

lemma retained_metrics_append [simp]:
  "retained_metrics (append_event e c k r) = retained_metrics r"
  "retained_metrics (append_metric m c k r) = retained_metrics r @ [m]"
  by (simp_all add: retained_metrics_def containers_def append_event_def append_metric_def Let_def)

lemma histograms_wf_Advance: "histograms_wf r \<Longrightarrow> Advance now r = Some r' \<Longrightarrow> histograms_wf r'"
  using bucket.wf.Advance_inv [of now r r'] by simp

lemma recording_histograms: "recording t p r \<Longrightarrow> histograms_wf r"
proof (induction rule: recording.induct)
  case (start max_bytes interval now history)
  show ?case
    by (simp add: NewWithSegmentInterval_def open_active_def retained_metrics_def containers_def)
next
  case (advance t p r now r')
  show ?case by (rule histograms_wf_Advance [OF advance.IH advance.hyps(3)])
next
  case (event t p r now e ok r')
  show ?case
    by (rule bucket.wf.Recorder_Event_inv [OF event.hyps(3)])
      (use histograms_wf_Advance [OF event.IH] in simp_all)
next
  case (metric t p r now m ok r')
  show ?case
    by (rule bucket.wf.Recorder_Metric_inv [OF metric.hyps(7)])
      (use histograms_wf_Advance [OF metric.IH] metric.hyps(6) in auto)
qed

end
