(* ===== verification/Recorder_Order.thy ===== *)
theory Recorder_Order
  imports Recorder_Fold
begin

text \<open>
  The order in time of what is retained.  Under a clock that does not run
  backwards, raw segments follow one another and contain what they claim to
  contain, rollups contain complete intervals inside their bounds, and the
  intervals of an older container do not start after those of a newer one.
  The selection of a window by binary search and by segment bounds is correct
  because of these facts.
\<close>

section \<open>Bounds of a container\<close>

definition metric_within :: "u64 \<Rightarrow> retained \<Rightarrow> Metric \<Rightarrow> bool" where
  "metric_within st s m \<longleftrightarrow> st \<le> mt_StartMonoNS m \<and> rt_minNS s \<le> mt_StartMonoNS m
     \<and> mt_StartMonoNS m \<le> mt_EndMonoNS m \<and> mt_EndMonoNS m \<le> rt_maxNS s"

definition event_within :: "retained \<Rightarrow> Event \<Rightarrow> bool" where
  "event_within s e \<longleftrightarrow> rt_minNS s \<le> ev_MonoNS e \<and> ev_MonoNS e \<le> rt_maxNS s"

definition raw_bounds :: "u64 \<Rightarrow> retained \<Rightarrow> bool" where
  "raw_bounds st s \<longleftrightarrow> st \<le> rt_start s \<and> rt_start s \<le> rt_end s \<and> rt_maxNS s \<le> rt_end s
     \<and> (\<forall>e \<in> set (rt_events s). event_within s e) \<and> (\<forall>m \<in> set (rt_metrics s). metric_within st s m)"

definition rollup_bounds :: "u64 \<Rightarrow> retained \<Rightarrow> bool" where
  "rollup_bounds st a \<longleftrightarrow> rt_events a = [] \<and> st \<le> rt_minNS a
     \<and> (\<forall>m \<in> set (rt_metrics a). metric_within st a m)"

abbreviation starts :: "retained \<Rightarrow> u64 set" where
  "starts s \<equiv> mt_StartMonoNS ` set (rt_metrics s)"

definition starts_before :: "retained \<Rightarrow> retained \<Rightarrow> bool" where
  "starts_before a b \<longleftrightarrow> (\<forall>x \<in> starts a. \<forall>y \<in> starts b. x \<le> y)"

definition timed :: "u64 \<Rightarrow> u64 \<Rightarrow> Recorder \<Rightarrow> bool" where
  "timed t p r \<longleftrightarrow> rc_segmentInterval r \<noteq> 0 \<and> rc_started r \<le> p \<and> p \<le> t
     \<and> rt_end (rc_active r) \<le> t
     \<and> rt_end (rc_active r) - rt_start (rc_active r) < rc_segmentInterval r
     \<and> (\<forall>s \<in> set (rc_sealed r @ [rc_active r]). raw_bounds (rc_started r) s)
     \<and> (\<forall>a \<in> set (rc_rollups r @ active_rollup r). rollup_bounds (rc_started r) a \<and> rt_metrics a \<noteq> [])
     \<and> sorted_wrt (\<lambda>a b. rt_end a \<le> rt_start b) (rc_sealed r @ [rc_active r])
     \<and> sorted_wrt starts_before (containers r)
     \<and> (\<forall>m \<in> set (retained_metrics r). mt_StartMonoNS m \<le> p)"

lemma timed_mono: "timed t p r \<Longrightarrow> t \<le> t' \<Longrightarrow> timed t' p r"
  by (auto simp: timed_def)

section \<open>Folding keeps a rollup inside its bounds\<close>

lemma merge_into_bounds:
  "merge_into ms m = Some ms' \<Longrightarrow> \<forall>x \<in> set ms. metric_within st a x \<Longrightarrow> metric_within st a m \<Longrightarrow>
   (\<forall>x \<in> set ms'. metric_within st a x) \<and> ms' \<noteq> []
   \<and> mt_StartMonoNS ` set ms' \<subseteq> insert (mt_StartMonoNS m) (mt_StartMonoNS ` set ms)"
proof (induction ms arbitrary: ms')
  case Nil
  then show ?case by simp
next
  case (Cons prev ms)
  show ?case
  proof (cases "mt_Family prev \<noteq> mt_Family m \<or> mt_EndMonoNS prev \<noteq> mt_StartMonoNS m")
    case True
    with Cons.prems(1) obtain ms1 where "merge_into ms m = Some ms1" "ms' = prev # ms1" by auto
    with Cons.IH [of ms1] Cons.prems(2,3) show ?thesis by auto
  next
    case False
    with Cons.prems(1) have e: "ms' = merge_metric prev m # ms" by auto
    have "mt_StartMonoNS prev \<le> mt_EndMonoNS m"
      using False Cons.prems(2,3) by (auto simp: metric_within_def)
    with e Cons.prems(2,3) show ?thesis by (auto simp: metric_within_def)
  qed
qed

lemma widen_rollup_bounds:
  assumes "rollup_bounds st a" and "st \<le> mt_StartMonoNS m" and "mt_StartMonoNS m \<le> mt_EndMonoNS m"
  shows "rollup_bounds st (widen_rollup m a)" and "metric_within st (widen_rollup m a) m"
  using assms
  by (auto simp: rollup_bounds_def metric_within_def widen_rollup_def observe_def Let_def)

lemma metric_within_cong:
  "rt_minNS b = rt_minNS a \<Longrightarrow> rt_maxNS b = rt_maxNS a \<Longrightarrow> metric_within st b = metric_within st a"
  by (simp add: metric_within_def fun_eq_iff)

lemma append_rollup_bounds:
  assumes "append_rollup m a = (a', c)"
  shows "rt_metrics a' = rt_metrics a @ [m]" and "rt_minNS a' = rt_minNS a"
    and "rt_maxNS a' = rt_maxNS a" and "rt_events a' = rt_events a"
  using assms by (auto simp: append_rollup_def Let_def split: if_splits)

lemma fold_metric_bounds:
  assumes "fold_metric m a = (a', c)" and "rollup_bounds st a"
    and "st \<le> mt_StartMonoNS m" and "mt_StartMonoNS m \<le> mt_EndMonoNS m"
  shows "rollup_bounds st a' \<and> rt_metrics a' \<noteq> [] \<and> starts a' \<subseteq> insert (mt_StartMonoNS m) (starts a)"
proof -
  let ?w = "widen_rollup m a"
  have w: "rollup_bounds st ?w" "metric_within st ?w m"
    using assms(2-4) by (auto intro: widen_rollup_bounds)
  show ?thesis
  proof (cases "merge_into (rt_metrics a) m")
    case None
    with assms(1) have ap: "append_rollup m ?w = (a', c)" by (simp add: fold_metric_def Let_def)
    note b = append_rollup_bounds [OF ap]
    with w show ?thesis
      by (auto simp: rollup_bounds_def metric_within_cong [OF b(2,3)])
  next
    case (Some ms)
    with assms(1) have a': "a' = ?w\<lparr>rt_segment := (rt_segment ?w)\<lparr>sg_Metrics := ms\<rparr>\<rparr>"
      by (simp add: fold_metric_def Let_def)
    have c: "metric_within st a' = metric_within st ?w"
      by (rule metric_within_cong) (simp_all add: a')
    have "\<forall>x \<in> set (rt_metrics a). metric_within st ?w x" using w(1) by (simp add: rollup_bounds_def)
    from merge_into_bounds [OF Some this w(2)] w a' c show ?thesis
      by (simp add: rollup_bounds_def)
  qed
qed

lemma fold_metrics_bounds:
  "fold_metrics ms a = (a', c) \<Longrightarrow> rollup_bounds st a \<Longrightarrow>
   \<forall>m \<in> set ms. st \<le> mt_StartMonoNS m \<and> mt_StartMonoNS m \<le> mt_EndMonoNS m \<Longrightarrow>
   rollup_bounds st a' \<and> (ms \<noteq> [] \<or> rt_metrics a \<noteq> [] \<longrightarrow> rt_metrics a' \<noteq> [])
   \<and> starts a' \<subseteq> starts a \<union> mt_StartMonoNS ` set ms"
proof (induction ms arbitrary: a a' c)
  case Nil
  then show ?case by simp
next
  case (Cons m ms)
  obtain a1 c1 where f1: "fold_metric m a = (a1, c1)" by (cases "fold_metric m a")
  obtain c2 where f2: "fold_metrics ms a1 = (a', c2)"
    using Cons.prems(1) f1 by (auto split: prod.splits)
  have b1: "rollup_bounds st a1 \<and> rt_metrics a1 \<noteq> [] \<and> starts a1 \<subseteq> insert (mt_StartMonoNS m) (starts a)"
    using f1 Cons.prems(2,3) by (intro fold_metric_bounds [OF f1]) auto
  with Cons.IH [OF f2] Cons.prems(3) have
    b2: "rollup_bounds st a'" "rt_metrics a' \<noteq> []" "starts a' \<subseteq> starts a1 \<union> mt_StartMonoNS ` set ms"
    by auto
  with b1 have "starts a' \<subseteq> starts a \<union> mt_StartMonoNS ` set (m # ms)"
    unfolding list.set image_insert by blast
  with b2 show ?case by simp
qed

lemma fresh_rollup_bounds:
  "st \<le> mt_StartMonoNS m \<Longrightarrow> rollup_bounds st (fresh_rollup m)"
  by (simp add: rollup_bounds_def fresh_rollup_def)

section \<open>Order is an invariant of retention\<close>

lemma timed_dropRaw: "timed t p r \<Longrightarrow> dropRaw memory r = Some r' \<Longrightarrow> timed t p r'"
  by (erule dropRaw_cases)
    (auto simp: timed_def containers_def retained_metrics_def sorted_wrt_append)

lemma timed_dropRollup: "timed t p r \<Longrightarrow> dropRollup memory r = Some r' \<Longrightarrow> timed t p r'"
  by (erule dropRollup_cases)
    (auto simp: timed_def containers_def retained_metrics_def sorted_wrt_append)

lemma sorted_rollup_target:
  assumes "sorted_wrt starts_before (rc_rollups r @ active_rollup r @ ys)"
  shows "sorted_wrt starts_before (rollups_closed b r @ rollup_target b m r # ys)"
  using assms
  by (auto simp: rollups_closed_def rollup_target_def sorted_wrt_append starts_before_def
      split: option.splits)

lemma sorted_fold:
  assumes "sorted_wrt starts_before (xs @ s # old # ys)" and "starts a \<subseteq> starts s \<union> starts old"
  shows "sorted_wrt starts_before (xs @ a # ys)"
proof -
  have "\<forall>x \<in> set xs. starts_before x a" and "\<forall>y \<in> set ys. starts_before a y"
    using assms by (auto simp: sorted_wrt_append starts_before_def subset_iff)
  with assms(1) show ?thesis by (auto simp: sorted_wrt_append)
qed

lemma timed_compactOldest:
  assumes "timed t p r" and "compactOldest r = Some r'"
  shows "timed t p r'"
  using assms(2)
proof (cases rule: compactOldest_cases)
  case (no_metrics old rest)
  with assms(1) show ?thesis
    by (auto simp: timed_def containers_def retained_metrics_def sorted_wrt_append)
next
  case (folded old rest first b a cost)
  let ?st = "rc_started r" and ?t = "rollup_target b first r"
  have old: "\<forall>m \<in> set (rt_metrics old). ?st \<le> mt_StartMonoNS m \<and> mt_StartMonoNS m \<le> mt_EndMonoNS m"
    using assms(1) folded(1) by (simp add: timed_def raw_bounds_def metric_within_def)
  then have "rollup_bounds ?st (fresh_rollup first)"
    using folded(2,3) by (intro fresh_rollup_bounds) auto
  then have "rollup_bounds ?st ?t"
    using assms(1) by (auto simp: timed_def rollup_target_def split: option.splits)
  from fold_metrics_bounds [OF folded(4) this old] folded(2)
  have a: "rollup_bounds ?st a" "rt_metrics a \<noteq> []" "starts a \<subseteq> starts ?t \<union> starts old" by auto
  have closed: "\<forall>c \<in> set (rollups_closed b r). rollup_bounds ?st c \<and> rt_metrics c \<noteq> []"
    using assms(1) by (auto simp: timed_def rollups_closed_def split: option.splits)
  have "sorted_wrt starts_before (rollups_closed b r @ ?t # old # rest @ [rc_active r])"
    using assms(1) folded(1) by (intro sorted_rollup_target) (simp add: timed_def containers_def)
  from sorted_fold [OF this a(3)]
  have order: "sorted_wrt starts_before (rollups_closed b r @ a # rest @ [rc_active r])" .
  have "retained_metrics r = concat (map rt_metrics (rollups_closed b r)) @ rt_metrics ?t
      @ rt_metrics old @ concat (map rt_metrics rest) @ rt_metrics (rc_active r)"
    using rollups_closed_metrics [of b r first] folded(1)
    by (simp add: retained_metrics_def containers_def)
  then have p: "\<forall>x \<in> starts a. x \<le> p"
    "\<forall>m \<in> set (concat (map rt_metrics (rollups_closed b r))). mt_StartMonoNS m \<le> p"
    "\<forall>m \<in> set (concat (map rt_metrics rest)). mt_StartMonoNS m \<le> p"
    "\<forall>m \<in> set (rt_metrics (rc_active r)). mt_StartMonoNS m \<le> p"
    using assms(1) a(3) by (auto simp only: timed_def set_append ball_Un image_Un)
  show ?thesis
    using assms(1) folded(1,5) a(1,2) closed order p
    by (auto simp: timed_def containers_def retained_metrics_def)
qed

interpretation order: retention "timed t p" for t p
  by unfold_locales (fact timed_dropRaw timed_dropRollup timed_compactOldest)+

section \<open>Order survives every operation\<close>

lemma raw_bounds_fresh: "st \<le> now \<Longrightarrow> raw_bounds st (fresh_segment now)"
  by (simp add: raw_bounds_def fresh_segment_def)

lemma timed_active:
  assumes "timed t p r"
  shows "rt_start (rc_active r) \<le> rt_end (rc_active r)" and "rt_end (rc_active r) \<le> t"
    and "raw_bounds (rc_started r) (rc_active r)"
  using assms by (auto simp: timed_def raw_bounds_def)

lemma raw_bounds_end:
  assumes "raw_bounds st s" and "rt_maxNS s \<le> e" and "rt_start s \<le> e"
  shows "raw_bounds st (s\<lparr>rt_segment := (rt_segment s)\<lparr>sg_EndMonoNS := e\<rparr>\<rparr>)"
  using assms by (auto simp: raw_bounds_def event_within_def metric_within_def)

lemma timed_seal:
  assumes "timed t p r" and "t \<le> now" and "rc_segmentInterval r \<le> now - rt_start (rc_active r)"
  shows "timed now p (touch_active now (seal_active now r))"
proof -
  let ?a = "rc_active r" and ?i = "rc_segmentInterval r"
  let ?e = "rt_start ?a + ?i"
  let ?s = "?a\<lparr>rt_segment := (rt_segment ?a)\<lparr>sg_EndMonoNS := ?e\<rparr>\<rparr>"
  note a = timed_active [OF assms(1)]
  have le: "rt_start ?a \<le> now" using a(1,2) assms(2) by order
  have short: "rt_end ?a - rt_start ?a < ?i" and pos: "?i \<noteq> 0" using assms(1) by (auto simp: timed_def)
  have e: "?e \<le> now" "rt_start ?a \<le> ?e" using le assms(3) by (auto intro: u64_arith)
  have "rt_end ?a < ?e" using a(1) short le assms(3) by (rule u64_lt_add_of_diff_lt)
  then have max: "rt_maxNS ?a \<le> ?e" using a(3) by (auto simp: raw_bounds_def)
  have raw: "raw_bounds (rc_started r) ?s" using a(3) max e(2) by (rule raw_bounds_end)
  have fresh: "raw_bounds (rc_started r) (fresh_segment now)"
    using assms(1,2) by (intro raw_bounds_fresh) (auto simp: timed_def)
  have r': "touch_active now (seal_active now r) = r\<lparr>rc_active := fresh_segment now,
      rc_sealed := rc_sealed r @ [?s], rc_bytes := rc_bytes r + segmentCost\<rparr>"
    using assms(3) by (simp add: touch_active_def seal_active_def open_active_def Let_def fresh_segment_def)
  show ?thesis
    unfolding r' using assms(1,2) raw fresh e pos
    by (auto simp: timed_def containers_def retained_metrics_def sorted_wrt_append
        starts_before_def fresh_segment_def word_gt_0 raw_bounds_def)
qed

lemma timed_touch:
  assumes "timed t p r" and "t \<le> now" and "\<not> rc_segmentInterval r \<le> now - rt_start (rc_active r)"
  shows "timed now p (touch_active now (seal_active now r))"
proof -
  let ?a = "rc_active r"
  let ?s = "?a\<lparr>rt_segment := (rt_segment ?a)\<lparr>sg_EndMonoNS := now\<rparr>\<rparr>"
  note a = timed_active [OF assms(1)]
  have le: "rt_start ?a \<le> now" using a(1,2) assms(2) by order
  have "rt_maxNS ?a \<le> now" using a(2,3) assms(2) by (auto simp: raw_bounds_def)
  then have raw: "raw_bounds (rc_started r) ?s" using a(3) le by (intro raw_bounds_end)
  have r': "touch_active now (seal_active now r) = r\<lparr>rc_active := ?s\<rparr>"
    using assms(3) by (simp add: touch_active_def seal_active_def Let_def)
  show ?thesis
    unfolding r' using assms raw
    by (auto simp: timed_def containers_def retained_metrics_def sorted_wrt_append starts_before_def)
qed

lemma timed_Advance:
  assumes "timed t p r" and "t \<le> now" and "Advance now r = Some r'"
  shows "timed now p r'"
proof (rule order.Advance_inv [OF assms(3)])
  show "timed now p r" if "now < rt_start (rc_active r)"
    using timed_mono [OF assms(1,2)] .
  show "timed now p (touch_active now (seal_active now r))"
    using timed_seal [OF assms(1,2)] timed_touch [OF assms(1,2)] by blast
qed

lemma Advance_active_end:
  assumes "timed t p r" and "t \<le> now" and "Advance now r = Some r1"
  shows "rt_end (rc_active r1) = now" and "rt_start (rc_active r1) \<le> now"
proof -
  have "\<not> now < rt_start (rc_active r)" using timed_active(1,2) [OF assms(1)] assms(2) by order
  then show "rt_end (rc_active r1) = now"
    using Advance_active(1) [OF assms(3)] by (simp add: touch_active_def)
  then show "rt_start (rc_active r1) \<le> now"
    using timed_active(1) [OF timed_Advance [OF assms]] by simp
qed

lemma timed_add_drop: "timed t p r \<Longrightarrow> timed t p (add_drop r)"
  by (simp add: timed_def add_drop_def containers_def retained_metrics_def)

lemma timed_append_event:
  assumes "timed t p r" and "rt_end (rc_active r) = t" and "ev_MonoNS e \<le> t"
  shows "timed t p (append_event e c k r)"
  using assms
  by (auto simp: timed_def append_event_def observe_def Let_def containers_def retained_metrics_def
      sorted_wrt_append starts_before_def raw_bounds_def event_within_def metric_within_def)

lemma timed_append_metric:
  assumes "timed t p r" and "rt_end (rc_active r) = t" and "p \<le> mt_StartMonoNS m"
    and "mt_StartMonoNS m \<le> mt_EndMonoNS m" and "mt_EndMonoNS m \<le> t"
  shows "timed t (mt_StartMonoNS m) (append_metric m c k r)"
proof -
  have "raw_bounds (rc_started r) (rc_active (append_metric m c k r))"
    using assms
    by (auto simp: timed_def append_metric_def observe_def Let_def raw_bounds_def
        event_within_def metric_within_def)
  moreover have all: "\<forall>x \<in> set (retained_metrics r). mt_StartMonoNS x \<le> mt_StartMonoNS m"
    using assms(1,3) by (auto simp: timed_def intro: order_trans)
  then have "\<forall>s \<in> set (containers r). \<forall>x \<in> starts s. x \<le> mt_StartMonoNS m"
    by (simp add: retained_metrics_def)
  moreover have "rc_started r \<le> mt_StartMonoNS m" using assms(1,3) by (auto simp: timed_def)
  ultimately show ?thesis
    using assms
    by (auto simp: timed_def append_metric_def observe_def Let_def containers_def retained_metrics_def
        sorted_wrt_append starts_before_def)
qed

lemma timed_Event:
  assumes "timed t p r" and "t \<le> now" and "Recorder_Event e now r = Some (ok, r')"
  shows "timed now p r'"
proof (rule order.Recorder_Event_inv [OF assms(3)])
  show "timed now p r1" if "Advance now r = Some r1" for r1
    using timed_Advance [OF assms(1,2) that] .
  show "timed now p (append_event e newCap cost r2)"
    if "Advance now r = Some r1" "room cost False r1 = Some (True, r2)" "timed now p r2"
      "ev_MonoNS e \<le> now" for r1 r2 newCap cost
    using that Advance_active_end [OF assms(1,2) that(1)] room_frame(1) [OF that(2)]
    by (intro timed_append_event) simp_all
qed (rule timed_add_drop)

lemma timed_p_mono:
  assumes "timed t p r" and "p \<le> p'" and "p' \<le> t"
  shows "timed t p' r"
proof -
  have "\<forall>m \<in> set (retained_metrics r). mt_StartMonoNS m \<le> p'"
    using assms(1,2) by (fastforce simp: timed_def)
  moreover have "rc_started r \<le> p'" using assms(1,2) by (auto simp: timed_def)
  ultimately show ?thesis using assms(1,3) by (simp add: timed_def)
qed

lemma timed_Metric:
  assumes "timed t p r" and "t \<le> now" and "p \<le> mt_StartMonoNS m"
    and "mt_StartMonoNS m \<le> mt_EndMonoNS m" and "mt_EndMonoNS m \<le> now"
    and "Recorder_Metric m now r = Some (ok, r')"
  shows "timed now (mt_StartMonoNS m) r'"
  using assms(6)
proof (cases rule: Recorder_Metric_cases)
  case (full r1 r2 cost)
  have "timed now p r2" by (rule order.room_inv [OF full(4) timed_Advance [OF assms(1,2) full(1)]])
  moreover have "mt_StartMonoNS m \<le> now" using assms(4,5) by order
  ultimately have "timed now (mt_StartMonoNS m) r2" using assms(3) timed_p_mono by blast
  with full show ?thesis by (simp add: timed_add_drop)
next
  case (kept r1 r2 newCap cost)
  have "timed now p r2" by (rule order.room_inv [OF kept(4) timed_Advance [OF assms(1,2) kept(1)]])
  moreover have "rt_end (rc_active r2) = now"
    using Advance_active_end [OF assms(1,2) kept(1)] room_frame(1) [OF kept(4)] by simp
  ultimately show ?thesis
    unfolding kept(3) using assms(3-5) by (rule timed_append_metric)
qed

lemma timed_New:
  assumes "to_u64 interval \<noteq> 0"
  shows "timed now now (NewWithSegmentInterval history max_bytes interval now)"
  using assms
  by (simp add: timed_def NewWithSegmentInterval_def open_active_def fresh_segment_def
      containers_def retained_metrics_def raw_bounds_def word_gt_0)

lemma recording_timed: "recording t p r \<Longrightarrow> timed t p r"
proof (induction rule: recording.induct)
  case (start max_bytes interval now history)
  show ?case by (rule timed_New [OF start(2)])
next
  case (advance t p r now r')
  show ?case by (rule timed_Advance [OF advance.IH advance.hyps(2,3)])
next
  case (event t p r now e ok r')
  show ?case by (rule timed_Event [OF event.IH event.hyps(2,3)])
next
  case (metric t p r now m ok r')
  show ?case by (rule timed_Metric [OF metric.IH metric.hyps(2-5,7)])
qed

end
