(* ===== verification/CaptureCheck.thy ===== *)
theory CaptureCheck
  imports Config
begin

text \<open>
  The semantic validation at the end of \<open>Container.Read\<close>
  (\<open>internal/capture/capture.go\<close>): a decoded capture is accepted only if its
  format is readable, its clock is anchored, its window is consistent with the
  recording, the request and the aggregate-only part, its trigger metadata is
  valid, and every event and metric lies inside the window.  Publication reads
  the file it has written, so this is also what a capture must satisfy to be
  published.
\<close>

definition event_outside :: "u64 \<Rightarrow> u64 \<Rightarrow> Event \<Rightarrow> bool" where
  "event_outside start end_ns e \<longleftrightarrow> ev_MonoNS e < start \<or> end_ns < ev_MonoNS e"

definition metric_outside :: "u64 \<Rightarrow> u64 \<Rightarrow> Metric \<Rightarrow> bool" where
  "metric_outside start end_ns m \<longleftrightarrow> mt_EndMonoNS m < mt_StartMonoNS m
     \<or> mt_StartMonoNS m < start \<or> end_ns < mt_EndMonoNS m"

text \<open>The nested loops over segments: events before metrics, the first error is returned.\<close>

fun segments_error :: "u64 \<Rightarrow> u64 \<Rightarrow> Segment list \<Rightarrow> go_error option" where
  "segments_error start end_ns [] = None"
| "segments_error start end_ns (s # ss) =
     (if list_ex (event_outside start end_ns) (sg_Events s) then
        Some (Errorf ''event outside capture window'')
      else if list_ex (metric_outside start end_ns) (sg_Metrics s) then
        Some (Errorf ''metric outside capture window'')
      else segments_error start end_ns ss)"

definition window_error :: "Manifest \<Rightarrow> go_error option" where
  "window_error m =
     (if mf_EndMonoNS m < mf_StartMonoNS m \<or> mf_EndMonoNS m < mf_RequestedStartMonoNS m
         \<or> mf_StartMonoNS m < mf_RecordingStartMonoNS m
      then Some (Errorf ''invalid capture time window'')
      else if mf_StartMonoNS m < mf_RequestedStartMonoNS m
         \<and> mf_AggregateOnlyUntilNS m \<le> mf_RequestedStartMonoNS m
      then Some (Errorf ''expanded capture window lacks a boundary aggregate'')
      else if mf_AggregateOnlyUntilNS m \<noteq> 0
         \<and> (mf_AggregateOnlyUntilNS m < mf_StartMonoNS m \<or> mf_EndMonoNS m < mf_AggregateOnlyUntilNS m)
      then Some (Errorf ''invalid aggregate-only window'')
      else if \<not> AutoIncident_Valid (mf_AutoIncident m) (mf_EndMonoNS m)
      then Some (Errorf ''invalid automatic incident metadata'')
      else None)"

definition capture_error :: "Capture \<Rightarrow> go_error option" where
  "capture_error c =
     (let m = cp_Manifest c
      in case CheckReadableFormat (mf_FormatVersion m) of
           Some e \<Rightarrow> Some e
         | None \<Rightarrow>
             (case ValidateClock (cp_Host c) of
                Some e \<Rightarrow> Some e
              | None \<Rightarrow>
                  (case window_error m of
                     Some e \<Rightarrow> Some e
                   | None \<Rightarrow> segments_error (mf_StartMonoNS m) (mf_EndMonoNS m) (cp_Segments c))))"

lemma segments_error_None:
  "segments_error start end_ns ss = None \<longleftrightarrow>
   (\<forall>s \<in> set ss. (\<forall>e \<in> set (sg_Events s). \<not> event_outside start end_ns e)
      \<and> (\<forall>m \<in> set (sg_Metrics s). \<not> metric_outside start end_ns m))"
  by (induction ss) (auto simp: list_ex_iff)

lemma capture_error_None:
  "capture_error c = None \<longleftrightarrow>
   CheckReadableFormat (mf_FormatVersion (cp_Manifest c)) = None \<and> ValidateClock (cp_Host c) = None
   \<and> window_error (cp_Manifest c) = None
   \<and> segments_error (mf_StartMonoNS (cp_Manifest c)) (mf_EndMonoNS (cp_Manifest c)) (cp_Segments c) = None"
  by (auto simp: capture_error_def Let_def split: option.splits)

end
