(* ===== verification/Snapshot.thy ===== *)
theory Snapshot
  imports Recorder_Order CaptureCheck
begin

text \<open>
  Selection of a window from the rolling history (\<open>Snapshot\<close> and
  \<open>SnapshotWindow\<close> of \<open>internal/recorder/recorder.go\<close>).  The main results:
  the selection is exact (it keeps, in order, precisely the retained
  observations inside the window it announces), and the capture it returns
  passes every check the reader makes.
\<close>

section \<open>Binary search\<close>

text \<open>\<open>sort.Search\<close>: the smallest index at which a monotone predicate holds.\<close>

function search_between :: "(nat \<Rightarrow> bool) \<Rightarrow> nat \<Rightarrow> nat \<Rightarrow> nat" where
  "search_between f i j =
     (if i < j then
        let h = (i + j) div 2
        in if \<not> f h then search_between f (h + 1) j else search_between f i h
      else i)"
  by pat_completeness auto
termination
  by (relation "measure (\<lambda>(f, i, j). j - i)") auto

declare search_between.simps [simp del]

definition sort_Search :: "nat \<Rightarrow> (nat \<Rightarrow> bool) \<Rightarrow> nat" where
  "sort_Search n f = search_between f 0 n"

lemma search_between_spec:
  assumes "\<And>a b. a \<le> b \<Longrightarrow> b < n \<Longrightarrow> f a \<Longrightarrow> f b" and "i \<le> j" and "j \<le> n"
    and "\<And>a. a < i \<Longrightarrow> \<not> f a" and "\<And>a. j \<le> a \<Longrightarrow> a < n \<Longrightarrow> f a"
  shows "(\<forall>a < search_between f i j. \<not> f a)
    \<and> (\<forall>a. search_between f i j \<le> a \<and> a < n \<longrightarrow> f a) \<and> search_between f i j \<le> n"
  using assms(2-5)
proof (induction "j - i" arbitrary: i j rule: less_induct)
  case less
  let ?h = "(i + j) div 2"
  show ?case
  proof (cases "i < j")
    case False
    then have "search_between f i j = i" by (simp add: search_between.simps [of f i j])
    with False less.prems show ?thesis by auto
  next
    case ij: True
    then have h: "i \<le> ?h" "?h < j" by auto
    show ?thesis
    proof (cases "f ?h")
      case True
      then have up: "\<And>a. ?h \<le> a \<Longrightarrow> a < n \<Longrightarrow> f a" using assms(1) by blast
      have "search_between f i j = search_between f i ?h"
        using ij True by (simp add: search_between.simps [of f i j] Let_def)
      moreover have "?h - i < j - i" "i \<le> ?h" "?h \<le> n" using h less.prems(2) by auto
      ultimately show ?thesis
        using less.hyps [OF _ _ _ less.prems(3) up] by simp
    next
      case False
      then have down: "\<And>a. a < ?h + 1 \<Longrightarrow> \<not> f a"
        using assms(1) h(2) less.prems(2) by (metis Suc_eq_plus1 less_Suc_eq_le less_le_trans)
      have "search_between f i j = search_between f (?h + 1) j"
        using ij False by (simp add: search_between.simps [of f i j] Let_def)
      moreover have "j - (?h + 1) < j - i" "?h + 1 \<le> j" using h by auto
      ultimately show ?thesis
        using less.hyps [OF _ _ less.prems(2) down less.prems(4)] by simp
    qed
  qed
qed

lemma sort_Search_spec:
  assumes "\<And>a b. a \<le> b \<Longrightarrow> b < n \<Longrightarrow> f a \<Longrightarrow> f b"
  shows "sort_Search n f \<le> n" and "a < sort_Search n f \<Longrightarrow> \<not> f a"
    and "sort_Search n f \<le> a \<Longrightarrow> a < n \<Longrightarrow> f a"
  using search_between_spec [of n f 0 n] assms by (auto simp: sort_Search_def)

section \<open>The window\<close>

definition version_String :: string where "version_String = ''0.2.0''"

text \<open>The closure \<open>includeBoundary\<close>, which lowers \<open>actual\<close>, and the loop over the rollups.\<close>

definition crosses :: "u64 \<Rightarrow> u64 \<Rightarrow> Metric \<Rightarrow> bool" where
  "crosses boundary now m \<longleftrightarrow>
     mt_StartMonoNS m < boundary \<and> boundary < mt_EndMonoNS m \<and> mt_EndMonoNS m \<le> now"

fun includeBoundary :: "u64 \<Rightarrow> u64 \<Rightarrow> Metric list \<Rightarrow> u64 \<Rightarrow> u64" where
  "includeBoundary boundary now [] actual = actual"
| "includeBoundary boundary now (m # ms) actual =
     includeBoundary boundary now ms
       (if crosses boundary now m then min actual (mt_StartMonoNS m) else actual)"

fun includeRollups :: "u64 \<Rightarrow> u64 \<Rightarrow> retained list \<Rightarrow> u64 \<Rightarrow> u64" where
  "includeRollups boundary now [] actual = actual"
| "includeRollups boundary now (ret # rets) actual =
     includeRollups boundary now rets
       (if boundary < rt_maxNS ret \<and> rt_minNS ret < boundary
        then includeBoundary boundary now (rt_metrics ret) actual else actual)"

definition window_boundary :: "Recorder \<Rightarrow> u64 \<Rightarrow> u64 \<Rightarrow> u64" where
  "window_boundary r start now =
     (let oldest = he_RetainedFromNS (Recorder_Health r)
      in if start < oldest then min oldest now else start)"

definition window_actual :: "Recorder \<Rightarrow> u64 \<Rightarrow> u64 \<Rightarrow> u64" where
  "window_actual r start now =
     (let boundary = window_boundary r start now;
          actual = includeRollups boundary now (rc_rollups r) boundary
      in case rc_rollupActive r of
           None \<Rightarrow> actual
         | Some a \<Rightarrow> includeBoundary boundary now (rt_metrics a) actual)"

section \<open>Selection\<close>

definition event_selected :: "u64 \<Rightarrow> u64 \<Rightarrow> Event \<Rightarrow> bool" where
  "event_selected eventStart now e \<longleftrightarrow> eventStart \<le> ev_MonoNS e \<and> ev_MonoNS e \<le> now"

definition metric_selected :: "u64 \<Rightarrow> u64 \<Rightarrow> Metric \<Rightarrow> bool" where
  "metric_selected actual now m \<longleftrightarrow> actual \<le> mt_StartMonoNS m \<and> mt_EndMonoNS m \<le> now"

text \<open>
  The closure \<open>add\<close> on \<open>c.Segments\<close>.  An immutable contained segment is shared
  and a contained mutable one copied, which are the same value; the counting
  passes before the two filtering loops only size the new slices.
\<close>

definition add_segment :: "u64 \<Rightarrow> u64 \<Rightarrow> u64 \<Rightarrow> retained \<Rightarrow> bool \<Rightarrow> Segment list \<Rightarrow> Segment list" where
  "add_segment actual eventStart now ret immutable segs =
     (let s = rt_segment ret
      in if rt_maxNS ret < actual \<or> now < rt_minNS ret then segs
         else
           let contained = actual \<le> rt_minNS ret \<and> rt_maxNS ret \<le> now;
               eventsContained = length (sg_Events s) = 0 \<or> eventStart \<le> rt_minNS ret
           in if immutable \<and> contained \<and> eventsContained then segs @ [s]
              else
                let out = \<lparr>sg_StartMonoNS = sg_StartMonoNS s, sg_EndMonoNS = sg_EndMonoNS s,
                           sg_Events = [], sg_Metrics = []\<rparr>
                in if contained \<and> eventsContained
                   then segs @ [out\<lparr>sg_Events := sg_Events s, sg_Metrics := sg_Metrics s\<rparr>]
                   else segs @ [out\<lparr>sg_Events := filter (event_selected eventStart now) (sg_Events s),
                                    sg_Metrics := filter (metric_selected actual now) (sg_Metrics s)\<rparr>])"

text \<open>\<open>markAggregateOnly\<close> after the \<open>add\<close> of a rollup; the pair is \<open>c.Segments\<close> and
  \<open>c.Manifest.AggregateOnlyUntilNS\<close>.\<close>

definition markAggregateOnly :: "nat \<Rightarrow> Segment list \<Rightarrow> u64 \<Rightarrow> u64" where
  "markAggregateOnly before segs until =
     (if length segs = before then until
      else foldl (\<lambda>u m. max u (mt_EndMonoNS m)) until (sg_Metrics (last segs)))"

definition add_rollup :: "u64 \<Rightarrow> u64 \<Rightarrow> u64 \<Rightarrow> bool \<Rightarrow> retained \<Rightarrow> Segment list \<times> u64 \<Rightarrow> Segment list \<times> u64" where
  "add_rollup actual eventStart now immutable ret =
     (\<lambda>(segs, until).
        let segs' = add_segment actual eventStart now ret immutable segs
        in (segs', markAggregateOnly (length segs) segs' until))"

definition window_segments :: "Recorder \<Rightarrow> u64 \<Rightarrow> u64 \<Rightarrow> u64 \<Rightarrow> Segment list \<times> u64" where
  "window_segments r actual eventStart now =
     (let sealed = rc_sealed r;
          first = sort_Search (length sealed) (\<lambda>i. actual \<le> rt_end (sealed ! i));
          st1 = fold (add_rollup actual eventStart now True) (rc_rollups r) ([], 0);
          (segs, until) = (case rc_rollupActive r of
             None \<Rightarrow> st1 | Some a \<Rightarrow> add_rollup actual eventStart now False a st1);
          segs1 = fold (\<lambda>s. add_segment actual eventStart now s True) (drop first sealed) segs
      in (add_segment actual eventStart now (rc_active r) False segs1, until))"

definition SnapshotWindow :: "u64 \<Rightarrow> u64 \<Rightarrow> Host \<Rightarrow> Health \<Rightarrow> string \<Rightarrow> Recorder \<Rightarrow> Capture" where
  "SnapshotWindow start now host health mode r =
     (let actual = window_actual r start now;
          eventStart = max start actual;
          (segs, until) = window_segments r actual eventStart now
      in \<lparr>cp_Manifest = \<lparr>mf_AutoIncident = None, mf_AggregateOnlyUntilNS = until,
            mf_RecordingStartMonoNS = rc_started r, mf_Settings = zero_RecordingSettings,
            mf_FormatVersion = FormatVersion, mf_ApplicationVersion = version_String,
            mf_StartMonoNS = actual, mf_EndMonoNS = now, mf_RequestedStartMonoNS = start,
            mf_Mode = mode, mf_Health = health\<rparr>,
          cp_Host = host, cp_Segments = segs\<rparr>)"

definition Snapshot :: "Duration \<Rightarrow> u64 \<Rightarrow> Host \<Rightarrow> Health \<Rightarrow> string \<Rightarrow> Recorder
    \<Rightarrow> (Capture \<times> Recorder) option" where
  "Snapshot last_d now host health mode r =
     (case Advance now r of
        None \<Rightarrow> None
      | Some r1 \<Rightarrow>
          let start = (if to_u64 last_d < now then now - to_u64 last_d else 0)
          in Some (SnapshotWindow start now host health mode r1, r1))"

section \<open>The selection is exact\<close>

abbreviation seg_events :: "Segment list \<Rightarrow> Event list" where
  "seg_events ss \<equiv> concat (map sg_Events ss)"

abbreviation seg_metrics :: "Segment list \<Rightarrow> Metric list" where
  "seg_metrics ss \<equiv> concat (map sg_Metrics ss)"

definition retained_events :: "Recorder \<Rightarrow> Event list" where
  "retained_events r = concat (map rt_events (containers r))"

text \<open>A container whose bounds are true of its observations.\<close>

definition bounded :: "u64 \<Rightarrow> retained \<Rightarrow> bool" where
  "bounded st s \<longleftrightarrow> (\<forall>e \<in> set (rt_events s). event_within s e)
     \<and> (\<forall>m \<in> set (rt_metrics s). metric_within st s m)"

lemma timed_bounded: "timed t p r \<Longrightarrow> s \<in> set (containers r) \<Longrightarrow> bounded (rc_started r) s"
  by (auto simp: timed_def containers_def bounded_def raw_bounds_def rollup_bounds_def
      split: option.splits)

lemma bounded_skipped:
  assumes "bounded st s" and "rt_maxNS s < actual \<or> now < rt_minNS s" and "actual \<le> eventStart"
  shows "filter (event_selected eventStart now) (rt_events s) = []"
    and "filter (metric_selected actual now) (rt_metrics s) = []"
  using assms
  by (fastforce simp: bounded_def event_within_def metric_within_def filter_empty_conv
      event_selected_def metric_selected_def)+

lemma bounded_contained:
  assumes "bounded st s" and "actual \<le> rt_minNS s" and "rt_maxNS s \<le> now"
    and "length (rt_events s) = 0 \<or> eventStart \<le> rt_minNS s"
  shows "filter (event_selected eventStart now) (rt_events s) = rt_events s"
    and "filter (metric_selected actual now) (rt_metrics s) = rt_metrics s"
  using assms
  by (fastforce simp: bounded_def event_within_def metric_within_def filter_id_conv
      event_selected_def metric_selected_def)+

lemma add_segment_exact:
  assumes "bounded st ret" and "actual \<le> eventStart"
  obtains d where "add_segment actual eventStart now ret immutable segs = segs @ d" and "length d \<le> 1"
    and "seg_events d = filter (event_selected eventStart now) (rt_events ret)"
    and "seg_metrics d = filter (metric_selected actual now) (rt_metrics ret)"
proof (cases "rt_maxNS ret < actual \<or> now < rt_minNS ret")
  case True
  from bounded_skipped [OF assms(1) True assms(2)] True show ?thesis
    by (intro that [of "[]"]) (simp_all add: add_segment_def)
next
  case False
  show ?thesis
  proof (cases "actual \<le> rt_minNS ret \<and> rt_maxNS ret \<le> now
      \<and> (length (rt_events ret) = 0 \<or> eventStart \<le> rt_minNS ret)")
    case True
    then have k: "actual \<le> rt_minNS ret" "rt_maxNS ret \<le> now"
      "length (rt_events ret) = 0 \<or> eventStart \<le> rt_minNS ret" by simp_all
    note c = bounded_contained [OF assms(1) k]
    let ?out = "\<lparr>sg_StartMonoNS = rt_start ret, sg_EndMonoNS = rt_end ret,
      sg_Events = rt_events ret, sg_Metrics = rt_metrics ret\<rparr>"
    have "add_segment actual eventStart now ret immutable segs = segs @ [?out]"
      using False k by (cases "rt_segment ret") (simp add: add_segment_def Let_def)
    with c show ?thesis by (intro that [of "[?out]"]) simp_all
  next
    case split: False
    let ?out = "\<lparr>sg_StartMonoNS = rt_start ret, sg_EndMonoNS = rt_end ret,
      sg_Events = filter (event_selected eventStart now) (rt_events ret),
      sg_Metrics = filter (metric_selected actual now) (rt_metrics ret)\<rparr>"
    have "add_segment actual eventStart now ret immutable segs = segs @ [?out]"
      using False split by (auto simp: add_segment_def Let_def)
    then show ?thesis by (intro that [of "[?out]"]) simp_all
  qed
qed

lemma fold_add_segment_exact:
  assumes "\<forall>s \<in> set ss. bounded st s" and "actual \<le> eventStart"
  shows "seg_events (fold (\<lambda>s. add_segment actual eventStart now s imm) ss segs)
      = seg_events segs @ filter (event_selected eventStart now) (concat (map rt_events ss))"
    and "seg_metrics (fold (\<lambda>s. add_segment actual eventStart now s imm) ss segs)
      = seg_metrics segs @ filter (metric_selected actual now) (concat (map rt_metrics ss))"
proof -
  have "seg_events (fold (\<lambda>s. add_segment actual eventStart now s imm) ss segs)
      = seg_events segs @ filter (event_selected eventStart now) (concat (map rt_events ss))
    \<and> seg_metrics (fold (\<lambda>s. add_segment actual eventStart now s imm) ss segs)
      = seg_metrics segs @ filter (metric_selected actual now) (concat (map rt_metrics ss))"
    using assms(1)
  proof (induction ss arbitrary: segs)
    case (Cons s ss)
    then obtain d where "add_segment actual eventStart now s imm segs = segs @ d"
      "seg_events d = filter (event_selected eventStart now) (rt_events s)"
      "seg_metrics d = filter (metric_selected actual now) (rt_metrics s)"
      using add_segment_exact [OF _ assms(2)] by (metis list.set_intros(1))
    with Cons.IH [of "segs @ d"] Cons.prems show ?case by simp
  qed simp
  then show "seg_events (fold (\<lambda>s. add_segment actual eventStart now s imm) ss segs)
      = seg_events segs @ filter (event_selected eventStart now) (concat (map rt_events ss))"
    and "seg_metrics (fold (\<lambda>s. add_segment actual eventStart now s imm) ss segs)
      = seg_metrics segs @ filter (metric_selected actual now) (concat (map rt_metrics ss))"
    by simp_all
qed

text \<open>A rollup adds its complete intervals, and its ends to the aggregate-only part.\<close>

abbreviation max_end :: "u64 \<Rightarrow> Metric list \<Rightarrow> u64" where
  "max_end until ms \<equiv> foldl (\<lambda>u m. max u (mt_EndMonoNS m)) until ms"

lemma add_rollup_exact:
  assumes "bounded st ret" and "actual \<le> eventStart"
    and "add_rollup actual eventStart now imm ret (segs, until) = (segs', until')"
  shows "seg_events segs' = seg_events segs @ filter (event_selected eventStart now) (rt_events ret)"
    and "seg_metrics segs' = seg_metrics segs @ filter (metric_selected actual now) (rt_metrics ret)"
    and "until' = max_end until (filter (metric_selected actual now) (rt_metrics ret))"
proof -
  obtain d where d: "add_segment actual eventStart now ret imm segs = segs @ d" "length d \<le> 1"
    "seg_events d = filter (event_selected eventStart now) (rt_events ret)"
    "seg_metrics d = filter (metric_selected actual now) (rt_metrics ret)"
    using add_segment_exact [OF assms(1,2)] .
  have e: "segs' = segs @ d" using assms(3) by (simp add: add_rollup_def Let_def d(1))
  from d show "seg_events segs' = seg_events segs @ filter (event_selected eventStart now) (rt_events ret)"
    and "seg_metrics segs' = seg_metrics segs @ filter (metric_selected actual now) (rt_metrics ret)"
    using e by simp_all
  show "until' = max_end until (filter (metric_selected actual now) (rt_metrics ret))"
    unfolding d(4) [symmetric] using assms(3) d(1,2)
    by (cases d) (auto simp: add_rollup_def Let_def markAggregateOnly_def)
qed

lemma fold_add_rollup_exact:
  assumes "\<forall>s \<in> set ss. bounded st s" and "actual \<le> eventStart"
    and "fold (add_rollup actual eventStart now imm) ss (segs, until) = (segs', until')"
  shows "seg_events segs' = seg_events segs @ filter (event_selected eventStart now) (concat (map rt_events ss))"
    and "seg_metrics segs' = seg_metrics segs @ filter (metric_selected actual now) (concat (map rt_metrics ss))"
    and "until' = max_end until (filter (metric_selected actual now) (concat (map rt_metrics ss)))"
proof -
  have "seg_events segs' = seg_events segs @ filter (event_selected eventStart now) (concat (map rt_events ss))
    \<and> seg_metrics segs' = seg_metrics segs @ filter (metric_selected actual now) (concat (map rt_metrics ss))
    \<and> until' = max_end until (filter (metric_selected actual now) (concat (map rt_metrics ss)))"
    using assms(1,3)
  proof (induction ss arbitrary: segs until)
    case (Cons s ss)
    obtain segs1 until1 where 1: "add_rollup actual eventStart now imm s (segs, until) = (segs1, until1)"
      by fastforce
    have "bounded st s" using Cons.prems(1) by simp
    note e = add_rollup_exact [OF this assms(2) 1]
    show ?case using Cons.IH [of segs1 until1] Cons.prems 1 e by simp
  qed simp
  then show "seg_events segs' = seg_events segs @ filter (event_selected eventStart now) (concat (map rt_events ss))"
    and "seg_metrics segs' = seg_metrics segs @ filter (metric_selected actual now) (concat (map rt_metrics ss))"
    and "until' = max_end until (filter (metric_selected actual now) (concat (map rt_metrics ss)))"
    by simp_all
qed


section \<open>What the binary search passes over\<close>

lemma sealed_ends_sorted:
  assumes "timed t p r" and "i \<le> j" and "j < length (rc_sealed r)"
  shows "rt_end (rc_sealed r ! i) \<le> rt_end (rc_sealed r ! j)"
proof (cases "i = j")
  case False
  with assms have "i < j" by simp
  then have "rt_end (rc_sealed r ! i) \<le> rt_start (rc_sealed r ! j)"
    using assms(1,3) by (auto simp: timed_def sorted_wrt_append intro: sorted_wrt_nth_less)
  also have "\<dots> \<le> rt_end (rc_sealed r ! j)"
    using assms(1,3) by (auto simp: timed_def raw_bounds_def)
  finally show ?thesis .
qed simp

lemma passed_over:
  assumes "timed t p r" and "actual \<le> eventStart"
    and "first = sort_Search (length (rc_sealed r)) (\<lambda>i. actual \<le> rt_end (rc_sealed r ! i))"
  shows "filter (event_selected eventStart now) (concat (map rt_events (take first (rc_sealed r)))) = []"
    and "filter (metric_selected actual now) (concat (map rt_metrics (take first (rc_sealed r)))) = []"
proof -
  have below: "rt_end (rc_sealed r ! i) < actual" if "i < first" for i
    using sort_Search_spec(2) [of "length (rc_sealed r)" "\<lambda>i. actual \<le> rt_end (rc_sealed r ! i)" i]
      sealed_ends_sorted [OF assms(1)] that unfolding assms(3) by (meson not_le order_trans)
  have "bounded (rc_started r) s \<and> rt_maxNS s < actual" if s: "s \<in> set (take first (rc_sealed r))" for s
  proof -
    from s obtain i where i: "i < first" "i < length (rc_sealed r)" "s = rc_sealed r ! i"
      by (auto simp: in_set_conv_nth)
    then have "s \<in> set (rc_sealed r)" by simp
    then have "rt_maxNS s \<le> rt_end s" and "bounded (rc_started r) s"
      using assms(1) by (auto simp: timed_def raw_bounds_def bounded_def)
    with below [OF i(1)] i(3) show ?thesis by auto
  qed
  then have "filter (event_selected eventStart now) (rt_events s) = []
      \<and> filter (metric_selected actual now) (rt_metrics s) = []"
    if "s \<in> set (take first (rc_sealed r))" for s
    using bounded_skipped that assms(2) by blast
  then show "filter (event_selected eventStart now) (concat (map rt_events (take first (rc_sealed r)))) = []"
    and "filter (metric_selected actual now) (concat (map rt_metrics (take first (rc_sealed r)))) = []"
    by (auto simp: filter_concat filter_empty_conv)
qed

lemma filter_drop_passed:
  "filter P (concat (map f (take n xs))) = [] \<Longrightarrow>
   filter P (concat (map f (drop n xs))) = filter P (concat (map f xs))"
  by (metis append_Nil append_take_drop_id concat_append filter_append map_append)

definition rollup_metrics :: "Recorder \<Rightarrow> Metric list" where
  "rollup_metrics r = concat (map rt_metrics (rc_rollups r @ active_rollup r))"

lemma window_segments_exact:
  assumes "timed t p r" and "actual \<le> eventStart"
    and "window_segments r actual eventStart now = (segs, until)"
  shows "seg_events segs = filter (event_selected eventStart now) (retained_events r)"
    and "seg_metrics segs = filter (metric_selected actual now) (retained_metrics r)"
    and "until = max_end 0 (filter (metric_selected actual now) (rollup_metrics r))"
proof -
  let ?ev = "event_selected eventStart now" and ?mt = "metric_selected actual now"
  let ?first = "sort_Search (length (rc_sealed r)) (\<lambda>i. actual \<le> rt_end (rc_sealed r ! i))"
  let ?add = "\<lambda>s. add_segment actual eventStart now s True"
  have b: "\<forall>s \<in> set (rc_rollups r). bounded (rc_started r) s"
    "\<forall>s \<in> set (active_rollup r). bounded (rc_started r) s"
    "\<forall>s \<in> set (drop ?first (rc_sealed r)). bounded (rc_started r) s"
    "bounded (rc_started r) (rc_active r)"
    using timed_bounded [OF assms(1)] by (auto simp: containers_def dest: in_set_dropD)
  obtain s1 u1 where 1: "fold (add_rollup actual eventStart now True) (rc_rollups r) ([], 0) = (s1, u1)"
    by fastforce
  obtain s2 u2 where 2: "fold (add_rollup actual eventStart now False) (active_rollup r) (s1, u1) = (s2, u2)"
    by fastforce
  have w: "segs = add_segment actual eventStart now (rc_active r) False
      (fold ?add (drop ?first (rc_sealed r)) s2)" "until = u2"
  proof -
    have "(case rc_rollupActive r of None \<Rightarrow> (s1, u1)
        | Some a \<Rightarrow> add_rollup actual eventStart now False a (s1, u1)) = (s2, u2)"
      using 2 by (cases "rc_rollupActive r") simp_all
    then have "window_segments r actual eventStart now =
        (add_segment actual eventStart now (rc_active r) False
          (fold ?add (drop ?first (rc_sealed r)) s2), u2)"
      unfolding window_segments_def Let_def 1 by (simp only: prod.case)
    from iffD1 [OF prod.inject trans [OF assms(3) [symmetric] this]]
    show "segs = add_segment actual eventStart now (rc_active r) False
        (fold ?add (drop ?first (rc_sealed r)) s2)" and "until = u2"
      by (rule conjunct1, rule conjunct2)
  qed
  note e1 = fold_add_rollup_exact [OF b(1) assms(2) 1]
  note e2 = fold_add_rollup_exact [OF b(2) assms(2) 2]
  note e3 = fold_add_segment_exact [OF b(3) assms(2), of now True s2]
  obtain d where d: "segs = fold ?add (drop ?first (rc_sealed r)) s2 @ d"
    "seg_events d = filter ?ev (rt_events (rc_active r))"
    "seg_metrics d = filter ?mt (rt_metrics (rc_active r))"
    using add_segment_exact [OF b(4) assms(2), where now = now and immutable = False
        and segs = "fold ?add (drop ?first (rc_sealed r)) s2"] unfolding w(1) [symmetric] .
  note p = filter_drop_passed [OF passed_over(1) [OF assms(1,2) refl]]
    filter_drop_passed [OF passed_over(2) [OF assms(1,2) refl]]
  show "seg_events segs = filter ?ev (retained_events r)"
    unfolding d(1) using e1(1) e2(1) e3(1) d(2)
    by (simp add: retained_events_def containers_def p)
  show "seg_metrics segs = filter ?mt (retained_metrics r)"
    unfolding d(1) using e1(2) e2(2) e3(2) d(3)
    by (simp add: retained_metrics_def containers_def p)
  show "until = max_end 0 (filter ?mt (rollup_metrics r))"
    unfolding w(2) using e1(3) e2(3) by (simp add: rollup_metrics_def)
qed

section \<open>Where the window starts\<close>

text \<open>\<open>b\<close> is \<open>a\<close>, or the start of one of the intervals \<open>M\<close> below it.\<close>

definition lowered :: "Metric set \<Rightarrow> u64 \<Rightarrow> u64 \<Rightarrow> bool" where
  "lowered M a b \<longleftrightarrow> b \<le> a \<and> (b = a \<or> (\<exists>m \<in> M. mt_StartMonoNS m = b))"

lemma lowered_refl: "lowered M a a"
  by (simp add: lowered_def)

lemma lowered_trans:
  assumes "lowered M a b" and "lowered N b c"
  shows "lowered (M \<union> N) a c"
proof -
  have "c \<le> a" using assms order_trans by (auto simp: lowered_def)
  moreover have "c = a \<or> (\<exists>m \<in> M \<union> N. mt_StartMonoNS m = c)"
    using assms by (fastforce simp: lowered_def)
  ultimately show ?thesis by (simp add: lowered_def)
qed

abbreviation crossing :: "u64 \<Rightarrow> u64 \<Rightarrow> Metric list \<Rightarrow> Metric set" where
  "crossing boundary now ms \<equiv> set (filter (crosses boundary now) ms)"

lemma lowered_min: "lowered (crossing boundary now [m]) a
    (if crosses boundary now m then min a (mt_StartMonoNS m) else a)"
  by (auto simp: lowered_def min_def)

lemma includeBoundary_lowered:
  "lowered (crossing boundary now ms) actual (includeBoundary boundary now ms actual)"
proof (induction ms arbitrary: actual)
  case (Cons m ms)
  have "crossing boundary now (m # ms) = crossing boundary now [m] \<union> crossing boundary now ms"
    by auto
  with lowered_trans [OF lowered_min [of boundary now m actual] Cons.IH] show ?case
    by (simp only: includeBoundary.simps)
qed (simp add: lowered_refl)

lemma includeRollups_lowered:
  "lowered (crossing boundary now (concat (map rt_metrics rs))) actual
     (includeRollups boundary now rs actual)"
proof (induction rs arbitrary: actual)
  case (Cons ret rs)
  have "lowered (crossing boundary now (rt_metrics ret)) actual
      (if boundary < rt_maxNS ret \<and> rt_minNS ret < boundary
       then includeBoundary boundary now (rt_metrics ret) actual else actual)"
    by (simp add: lowered_refl includeBoundary_lowered del: set_filter)
  from lowered_trans [OF this Cons.IH] show ?case by (simp del: set_filter)
qed (simp add: lowered_refl)

lemma window_actual_lowered:
  "lowered (crossing (window_boundary r start now) now (rollup_metrics r))
     (window_boundary r start now) (window_actual r start now)"
proof (cases "rc_rollupActive r")
  case None
  with includeRollups_lowered [of "window_boundary r start now" now "rc_rollups r"] show ?thesis
    by (simp add: window_actual_def Let_def rollup_metrics_def del: set_filter)
next
  case (Some a)
  with lowered_trans [OF includeRollups_lowered [of "window_boundary r start now" now "rc_rollups r"]
      includeBoundary_lowered [of "window_boundary r start now" now "rt_metrics a"]]
  show ?thesis
    by (simp add: window_actual_def Let_def rollup_metrics_def del: set_filter)
qed

lemma max_end_mono: "until \<le> max_end until ms"
proof (induction ms arbitrary: until)
  case (Cons m ms)
  from order.trans [OF max.cobounded1 Cons.IH] show ?case by simp
qed simp

lemma max_end_ge: "m \<in> set ms \<Longrightarrow> mt_EndMonoNS m \<le> max_end until ms"
proof (induction ms arbitrary: until)
  case (Cons x ms)
  from order.trans [OF max.cobounded2 max_end_mono] Cons show ?case by auto
qed simp

lemma max_end_in: "max_end until ms = until \<or> (\<exists>m \<in> set ms. max_end until ms = mt_EndMonoNS m)"
proof (induction ms arbitrary: until)
  case (Cons x ms)
  from Cons [of "max until (mt_EndMonoNS x)"] show ?case by (auto simp: max_def split: if_splits)
qed simp

text \<open>What retention started with bounds what the window starts with.\<close>

lemma rollup_metric_bounds:
  assumes "timed t p r" and "m \<in> set (rollup_metrics r)"
  shows "rc_started r \<le> mt_StartMonoNS m" and "mt_StartMonoNS m \<le> mt_EndMonoNS m"
  using assms by (auto simp: timed_def rollup_metrics_def rollup_bounds_def metric_within_def
      split: option.splits)

lemma retainedFrom_started:
  assumes "timed t p r" shows "rc_started r \<le> retainedFrom r"
  using assms
  by (auto simp: timed_def retainedFrom_def detailFrom_def raw_bounds_def rollup_bounds_def
      split: list.splits option.splits)

lemma window_actual_started:
  assumes "timed t p r" and "rc_started r \<le> now"
  shows "rc_started r \<le> window_actual r start now"
proof -
  have "rc_started r \<le> window_boundary r start now"
    using assms retainedFrom_started [OF assms(1)]
    by (auto simp: window_boundary_def Let_def Recorder_Health_def)
  moreover have "rc_started r \<le> mt_StartMonoNS m"
    if "m \<in> crossing (window_boundary r start now) now (rollup_metrics r)" for m
    using rollup_metric_bounds(1) [OF assms(1)] that by simp
  ultimately show ?thesis
    using window_actual_lowered [of r start now] unfolding lowered_def by metis
qed

section \<open>The window passes the reader's checks\<close>

lemma SnapshotWindow_Manifest:
  assumes "window_segments r (window_actual r start now) (max start (window_actual r start now)) now
    = (segs, until)"
  shows "SnapshotWindow start now host health mode r =
    \<lparr>cp_Manifest = \<lparr>mf_AutoIncident = None, mf_AggregateOnlyUntilNS = until,
        mf_RecordingStartMonoNS = rc_started r, mf_Settings = zero_RecordingSettings,
        mf_FormatVersion = FormatVersion, mf_ApplicationVersion = version_String,
        mf_StartMonoNS = window_actual r start now, mf_EndMonoNS = now,
        mf_RequestedStartMonoNS = start, mf_Mode = mode, mf_Health = health\<rparr>,
      cp_Host = host, cp_Segments = segs\<rparr>"
  using assms by (simp add: SnapshotWindow_def Let_def)

lemma window_readable:
  assumes "timed t p r" and "rc_started r \<le> now" and "start \<le> now"
    and "window_segments r (window_actual r start now) (max start (window_actual r start now)) now
      = (segs, until)"
  shows "window_error (cp_Manifest (SnapshotWindow start now host health mode r)) = None"
proof -
  let ?a = "window_actual r start now" and ?b = "window_boundary r start now"
  let ?sel = "filter (metric_selected ?a now) (rollup_metrics r)"
  have until: "until = max_end 0 ?sel"
    by (rule window_segments_exact(3) [OF assms(1) _ assms(4)]) simp
  have le: "?a \<le> now"
    using window_actual_lowered [of r start now] assms(3)
    by (auto simp: lowered_def window_boundary_def Let_def Recorder_Health_def split: if_splits)
  have expanded: "start < until" if "?a < start"
  proof -
    have sb: "start \<le> ?b"
      using assms(3) by (auto simp: window_boundary_def Let_def Recorder_Health_def)
    with that have "?a \<noteq> ?b" by auto
    then obtain m where m: "m \<in> set (rollup_metrics r)" "crosses ?b now m" "mt_StartMonoNS m = ?a"
      using window_actual_lowered [of r start now] by (auto simp: lowered_def)
    then have "m \<in> set ?sel" by (simp add: metric_selected_def crosses_def)
    then have "mt_EndMonoNS m \<le> until" using max_end_ge until by blast
    with m(2) sb show ?thesis by (auto simp: crosses_def)
  qed
  have inside: "?a \<le> until \<and> until \<le> now" if nz: "until \<noteq> 0"
  proof -
    obtain m where "m \<in> set ?sel" "until = mt_EndMonoNS m"
      using max_end_in [of 0 ?sel] nz unfolding until by blast
    then show ?thesis
      using rollup_metric_bounds(2) [OF assms(1), of m] by (auto simp: metric_selected_def)
  qed
  have "start \<le> ?a \<or> start < until" using expanded by (cases "start \<le> ?a") simp_all
  then show ?thesis
    using le assms(3) window_actual_started [OF assms(1,2), of start] inside
    by (auto simp: SnapshotWindow_Manifest [OF assms(4)] window_error_def not_less not_le)
qed

lemma selected_inside:
  assumes "timed t p r" and "actual \<le> eventStart"
    and "seg_events segs = filter (event_selected eventStart now) (retained_events r)"
    and "seg_metrics segs = filter (metric_selected actual now) (retained_metrics r)"
  shows "segments_error actual now segs = None"
proof -
  have "\<not> event_outside actual now e" if "s \<in> set segs" "e \<in> set (sg_Events s)" for s e
  proof -
    have "e \<in> set (seg_events segs)" using that by auto
    with assms(2,3) show ?thesis by (auto simp: event_selected_def event_outside_def)
  qed
  moreover have "\<not> metric_outside actual now m" if "s \<in> set segs" "m \<in> set (sg_Metrics s)" for s m
  proof -
    have "m \<in> set (seg_metrics segs)" using that by auto
    with assms(4) have m: "m \<in> set (retained_metrics r)" "metric_selected actual now m" by auto
    then have "mt_StartMonoNS m \<le> mt_EndMonoNS m"
      using timed_bounded [OF assms(1)] by (fastforce simp: retained_metrics_def bounded_def metric_within_def)
    with m(2) show ?thesis by (auto simp: metric_selected_def metric_outside_def)
  qed
  ultimately show ?thesis by (simp add: segments_error_None)
qed

lemma SnapshotWindow_readable:
  assumes "timed t p r" and "rc_started r \<le> now" and "start \<le> now" and "ValidateClock host = None"
  shows "capture_error (SnapshotWindow start now host health mode r) = None"
proof -
  let ?a = "window_actual r start now"
  obtain segs until where w: "window_segments r ?a (max start ?a) now = (segs, until)" by fastforce
  have "?a \<le> max start ?a" by simp
  note e = window_segments_exact [OF assms(1) this w]
  have "segments_error ?a now segs = None"
    using assms(1) _ e(1,2) by (rule selected_inside) simp
  with assms(4) window_readable [OF assms(1-3) w] show ?thesis
    by (simp add: capture_error_None SnapshotWindow_Manifest [OF w] CheckReadableFormat_def)
qed

end
