(* ===== verification/Recorder_Theorems.thy ===== *)
theory Recorder_Theorems
  imports Snapshot
begin

text \<open>
  The properties of the recorder, each over every recording a monotone clock can
  produce, with a small recording (three metrics in a budget that forces two
  foldings) on which each of them is applied.
\<close>

section \<open>Drops are counted\<close>

lemma drops_frame:
  "dropRaw memory r = Some r' \<Longrightarrow> rc_drops r' = rc_drops r"
  "dropRollup memory r = Some r' \<Longrightarrow> rc_drops r' = rc_drops r"
  "compactOldest r = Some r' \<Longrightarrow> rc_drops r' = rc_drops r"
  by (auto elim!: dropRaw_cases dropRollup_cases compactOldest_cases)

interpretation drops: retention "\<lambda>r. rc_drops r = d" for d
  by unfold_locales (simp_all add: drops_frame)

lemma drops_seal_touch [simp]: "rc_drops (touch_active now (seal_active now r)) = rc_drops r"
  by (simp add: touch_active_def seal_active_def open_active_def Let_def)

lemma Advance_drops: "Advance now r = Some r' \<Longrightarrow> rc_drops r' = rc_drops r"
  by (rule drops.Advance_inv) simp_all

lemma room_drops: "room cost metric r = Some (ok, r') \<Longrightarrow> rc_drops r' = rc_drops r"
  by (rule drops.room_inv) simp_all

lemma append_frame [simp]:
  "rc_drops (append_event e c k r) = rc_drops r" "rc_drops (append_metric m c k r) = rc_drops r"
  "rc_bytes (append_event e c k r) = rc_bytes r + k" "rc_bytes (append_metric m c k r) = rc_bytes r + k"
  "rc_max (append_event e c k r) = rc_max r" "rc_max (append_metric m c k r) = rc_max r"
  "rt_events (rc_active (append_event e c k r)) = rt_events (rc_active r) @ [e]"
  "rt_metrics (rc_active (append_metric m c k r)) = rt_metrics (rc_active r) @ [m]"
  by (simp_all add: append_event_def append_metric_def Let_def)

lemma add_drop_frame [simp]:
  "rc_drops (add_drop r) = rc_drops r + 1" "rc_bytes (add_drop r) = rc_bytes r"
  "rc_max (add_drop r) = rc_max r" "rc_active (add_drop r) = rc_active r"
  by (simp_all add: add_drop_def)

lemma recording_started:
  assumes "recording t p r" and "t \<le> now" shows "rc_started r \<le> now"
  using recording_timed [OF assms(1)] assms(2) by (auto simp: timed_def)

lemma recording_active_start:
  assumes "recording t p r" and "t \<le> now" shows "rt_start (rc_active r) \<le> now"
  using recording_timed [OF assms(1)] assms(2) by (auto simp: timed_def raw_bounds_def)

lemma room_conserves:
  assumes "room cost False r = Some (ok, r')" and "histograms_wf r" and "f \<in> set metric_counters"
  shows "family_total f fam (retained_metrics r') = family_total f fam (retained_metrics r)"
proof -
  from assms(1) have "compactWhile cost r = Some r'"
    by (auto simp: room_def Option.bind_eq_Some_conv)
  moreover from bucket.compactWhile_conserves [OF this assms(2)]
  have "i < HistogramBuckets \<Longrightarrow> family_total (\<lambda>m. mt_Histogram m ! i) fam (retained_metrics r')
      = family_total (\<lambda>m. mt_Histogram m ! i) fam (retained_metrics r)" for i
    by (auto split: if_splits dest: meta_spec [of _ i])
  ultimately show ?thesis using assms(2,3)
    by (auto simp: metric_counters_def mt_count.compactWhile_conserves mt_anomalies.compactWhile_conserves
        mt_critical.compactWhile_conserves mt_bytes.compactWhile_conserves mt_retransmits.compactWhile_conserves
        mt_resets.compactWhile_conserves mt_bookkeeping.compactWhile_conserves ct_ring.compactWhile_conserves
        ct_suppressed.compactWhile_conserves ct_detail.compactWhile_conserves ct_tracking.compactWhile_conserves
        ct_unmatched.compactWhile_conserves ct_decode.compactWhile_conserves covered.compactWhile_conserves)
qed

section \<open>A small recording\<close>

definition ex_metric :: "u64 \<Rightarrow> u64 \<Rightarrow> u64 \<Rightarrow> Metric" where
  "ex_metric a b n = zero_Metric\<lparr>mt_Family := ''tcp'', mt_StartMonoNS := a, mt_EndMonoNS := b, mt_Count := n\<rparr>"

text \<open>Replays metrics with their clock readings, checking what \<open>recording\<close> asks of them.\<close>

fun replay :: "u64 \<Rightarrow> u64 \<Rightarrow> (Metric \<times> u64) list \<Rightarrow> Recorder \<Rightarrow> (u64 \<times> u64 \<times> Recorder) option" where
  "replay t p [] r = Some (t, p, r)"
| "replay t p ((m, now) # ops) r =
     (if t \<le> now \<and> p \<le> mt_StartMonoNS m \<and> mt_StartMonoNS m \<le> mt_EndMonoNS m
         \<and> mt_EndMonoNS m \<le> now \<and> histogram_wf (mt_Histogram m)
      then case Recorder_Metric m now r of
             None \<Rightarrow> None | Some (_, r') \<Rightarrow> replay now (mt_StartMonoNS m) ops r'
      else None)"

lemma replay_recording:
  "recording t p r \<Longrightarrow> replay t p ops r = Some (t', p', r') \<Longrightarrow> recording t' p' r'"
proof (induction t p ops r rule: replay.induct)
  case (2 t p m now ops r)
  obtain ok r1 where m: "Recorder_Metric m now r = Some (ok, r1)"
    using Recorder_Metric_total [of m now r] by auto
  have c: "t \<le> now" "p \<le> mt_StartMonoNS m" "mt_StartMonoNS m \<le> mt_EndMonoNS m"
    "mt_EndMonoNS m \<le> now" "histogram_wf (mt_Histogram m)"
    and rest: "replay now (mt_StartMonoNS m) ops r1 = Some (t', p', r')"
    using "2.prems"(2) m by (auto split: if_splits)
  from recording.metric [OF "2.prems"(1) c m] c m rest show ?case by (intro "2.IH") auto
qed simp

definition ex_start :: "int \<Rightarrow> Recorder" where
  "ex_start max_bytes = NewWithSegmentInterval 100 max_bytes 10 0"

lemma ex_start_recording: "segmentCost \<le> max_bytes \<Longrightarrow> recording 0 0 (ex_start max_bytes)"
  unfolding ex_start_def by (rule recording.start) (simp_all add: to_u64_def)

definition ex_recorder :: Recorder where
  "ex_recorder = snd (snd (the (replay 0 0
     [(ex_metric 0 5 2, 5), (ex_metric 5 12 3, 12), (ex_metric 12 23 1, 23)] (ex_start 3000))))"

lemma ex_recording: "recording 23 12 ex_recorder"
proof (rule replay_recording [OF ex_start_recording])
  show "segmentCost \<le> 3000" by code_simp
  show "replay 0 0 [(ex_metric 0 5 2, 5), (ex_metric 5 12 3, 12), (ex_metric 12 23 1, 23)]
      (ex_start 3000) = Some (23, 12, ex_recorder)" by code_simp
qed

text \<open>Ten metrics that leave gaps between their intervals, so that folding cannot merge them.\<close>

definition gap_ops :: "(Metric \<times> u64) list" where
  "gap_ops = map (\<lambda>n. (ex_metric (12 * of_nat n) (12 * of_nat n + 5) 1, 12 * of_nat n + 6)) [0..<10]"

definition gap_recorder :: Recorder where
  "gap_recorder = snd (snd (the (replay 0 0 gap_ops (ex_start 5200))))"

lemma gap_recording: "recording 114 108 gap_recorder"
proof (rule replay_recording [OF ex_start_recording])
  show "segmentCost \<le> 5200" by code_simp
  show "replay 0 0 gap_ops (ex_start 5200) = Some (114, 108, gap_recorder)" by code_simp
qed

section \<open>Properties\<close>

text \<open>C1: whatever was recorded, a saved window is readable.  At any clock reading not before
  the last one, \<open>Snapshot\<close> returns a capture that passes every semantic check
  \<open>Container.Read\<close> makes of a decoded archive.\<close>
theorem snapshot_readable:
  assumes "recording t p r" and "t \<le> now" and "ValidateClock host = None"
  shows "\<exists>c r'. Snapshot last_d now host health mode r = Some (c, r') \<and> capture_error c = None"
proof -
  obtain r1 where r1: "Advance now r = Some r1" using Advance_total by blast
  have "recording now p r1" using assms(1,2) r1 by (rule recording.advance)
  note w = SnapshotWindow_readable [OF recording_timed [OF this] recording_started [OF this order.refl]]
  show ?thesis using r1 assms(3)
    by (auto simp: Snapshot_def intro!: w u64_diff_le dest: order.strict_implies_order)
qed

definition ex_host :: Host where
  "ex_host = \<lparr>ho_Hostname = ''h'', ho_Kernel = ''6.8'', ho_Architecture = ''amd64'', ho_BootID = ''b'',
     ho_ClockSource = ''boottime'', ho_AnchorMonoNS = 0, ho_AnchorWall = 1000\<rparr>"

lemma snapshot_readable_witness:
  "\<exists>c r'. Snapshot 3 23 ex_host zero_Health ''live'' ex_recorder = Some (c, r') \<and> capture_error c = None"
  by (rule snapshot_readable [OF ex_recording]) code_simp+

text \<open>C2: the selection is exact.  The events of a window are, in recording order, exactly the
  retained events between the later of the requested and the actual start and
  the end; its metrics are exactly the retained intervals that lie completely
  inside the actual window.  Nothing is lost to the binary search over sealed
  segments or to the tests on segment bounds, and nothing is selected twice.\<close>
theorem snapshot_exact:
  assumes "recording t p r"
  shows "seg_events (cp_Segments (SnapshotWindow start now host health mode r)) =
      filter (\<lambda>e. max start (window_actual r start now) \<le> ev_MonoNS e \<and> ev_MonoNS e \<le> now)
        (retained_events r)
    \<and> seg_metrics (cp_Segments (SnapshotWindow start now host health mode r)) =
      filter (\<lambda>m. window_actual r start now \<le> mt_StartMonoNS m \<and> mt_EndMonoNS m \<le> now)
        (retained_metrics r)"
proof -
  let ?a = "window_actual r start now"
  obtain segs until where w: "window_segments r ?a (max start ?a) now = (segs, until)" by fastforce
  have "?a \<le> max start ?a" by simp
  from window_segments_exact(1,2) [OF recording_timed [OF assms] this w] show ?thesis
    by (simp add: SnapshotWindow_Manifest [OF w] event_selected_def [abs_def] metric_selected_def [abs_def])
qed

lemma snapshot_exact_witness:
  "seg_metrics (cp_Segments (SnapshotWindow 14 23 ex_host zero_Health ''live'' ex_recorder)) = []
   \<and> seg_metrics (cp_Segments (SnapshotWindow 7 23 ex_host zero_Health ''live'' ex_recorder))
     = [ex_metric 0 12 5, ex_metric 12 23 1]"
  using snapshot_exact [OF ex_recording, of 14 23 ex_host zero_Health "''live''"]
    snapshot_exact [OF ex_recording, of 7 23 ex_host zero_Health "''live''"]
  by (simp only:) code_simp

text \<open>C13: the budget.  After \<open>Advance\<close> at a clock reading not before the last one, the recorder's
  account is at most its maximum, and the account is the sum of the charges of
  everything it retains.\<close>
theorem advance_within_budget:
  assumes "recording t p r" and "t \<le> now" and "Advance now r = Some r'"
  shows "rc_bytes r' \<le> rc_max r' \<and> rc_bytes r' = account r'"
  using Advance_budget [OF recording_acct [OF assms(1)] recording_fits [OF assms(1)]
      recording_active_start [OF assms(1,2)] assms(3)]
    acct_Advance [OF recording_acct [OF assms(1)] assms(3)]
  by (simp add: acct_def)

lemma advance_within_budget_witness:
  "rc_bytes (the (Advance 40 ex_recorder)) \<le> 3000"
proof -
  have a: "Advance 40 ex_recorder = Some (the (Advance 40 ex_recorder))" by code_simp
  have "rc_max (the (Advance 40 ex_recorder)) = 3000" by code_simp
  with advance_within_budget [OF ex_recording _ a] show ?thesis by simp
qed

text \<open>an event is admitted or counted as dropped.  An admitted event is the last one of the
  active segment, is neither in the future nor older than the history, and the
  recorder is within its budget; a rejected one changes no retained
  event of the active segment and is counted once.\<close>
theorem event_admission:
  assumes "recording t p r" and "t \<le> now" and "Recorder_Event e now r = Some (ok, r')"
  shows "(ok \<longrightarrow> rc_bytes r' \<le> rc_max r' \<and> last (rt_events (rc_active r')) = e
            \<and> ev_MonoNS e \<le> now \<and> now - ev_MonoNS e \<le> rc_history r' \<and> rc_drops r' = rc_drops r)
    \<and> (\<not> ok \<longrightarrow> rc_drops r' = rc_drops r + 1
            \<and> rc_active r' = rc_active (the (Advance now r)))"
  using assms(3)
proof (cases rule: Recorder_Event_cases)
  case (late r1)
  then show ?thesis by (simp add: Advance_drops)
next
  case (full r1 r2 cost)
  then show ?thesis
    using Advance_drops [OF full(1)] room_drops [OF full(4)] room_frame(1) [OF full(4)] by simp
next
  case (kept r1 r2 newCap cost)
  have "rc_history r' = rc_history r1"
    using room_frame(2) [OF kept(4)] kept(3)
    by (simp add: settings_kept_def append_event_def Let_def)
  with kept show ?thesis
    using Advance_drops [OF kept(1)] room_drops [OF kept(4)] room_frame(3) [OF kept(4)] by simp
qed

definition ex_event :: "u64 \<Rightarrow> Event" where
  "ex_event t = zero_Event\<lparr>ev_MonoNS := t, ev_Type := ''tcp_retransmit''\<rparr>"

lemma event_admission_witness:
  "rc_drops (snd (the (Recorder_Event (ex_event 24) 25 ex_recorder))) = 1"
proof -
  have e: "Recorder_Event (ex_event 24) 25 ex_recorder
      = Some (False, snd (the (Recorder_Event (ex_event 24) 25 ex_recorder)))" by code_simp
  have "rc_drops ex_recorder = 0" by code_simp
  with event_admission [OF ex_recording _ e] show ?thesis by simp
qed

text \<open>C15: event detail never displaces aggregate evidence.  Whether an event is admitted or not,
  every counter, every histogram bucket and the covered time of every family,
  summed over everything retained, are what they were after \<open>Advance\<close>.\<close>
theorem event_conserves_aggregates:
  assumes "recording t p r" and "t \<le> now" and "Advance now r = Some r1"
    and "Recorder_Event e now r = Some (ok, r')" and "f \<in> set metric_counters"
  shows "family_total f fam (retained_metrics r') = family_total f fam (retained_metrics r1)"
proof -
  have wf: "histograms_wf r1"
    using recording_histograms [OF recording.advance [OF assms(1-3)]] .
  from assms(4) show ?thesis
    by (cases rule: Recorder_Event_cases)
      (use assms(3) room_conserves [OF _ wf assms(5)] in simp_all)
qed

lemma event_conserves_aggregates_witness:
  "family_total mt_Count ''tcp''
     (retained_metrics (snd (the (Recorder_Event (ex_event 24) 25 ex_recorder)))) = 6"
proof -
  let ?r1 = "the (Advance 25 ex_recorder)"
  have a: "Advance 25 ex_recorder = Some ?r1" by code_simp
  have e: "Recorder_Event (ex_event 24) 25 ex_recorder
      = Some (False, snd (the (Recorder_Event (ex_event 24) 25 ex_recorder)))" by code_simp
  have "family_total mt_Count ''tcp'' (retained_metrics ?r1) = 6" by code_simp
  with event_conserves_aggregates [OF ex_recording _ a e, of mt_Count "''tcp''"] show ?thesis
    by (simp add: metric_counters_def)
qed

text \<open>C32: retained time is ordered.  The containers of a recording (closed rollups, the open
  rollup, sealed segments, the active segment) hold intervals and events inside
  their own bounds, raw segments follow one another without overlap, and no
  interval starts before one of an older container.\<close>
theorem recording_ordered:
  assumes "recording t p r"
  shows "sorted_wrt (\<lambda>a b. rt_end a \<le> rt_start b) (rc_sealed r @ [rc_active r])
    \<and> sorted_wrt starts_before (containers r)
    \<and> list_all (\<lambda>s. list_all (event_within s) (rt_events s)
        \<and> list_all (metric_within (rc_started r) s) (rt_metrics s)) (containers r)"
  using recording_timed [OF assms] timed_bounded [OF recording_timed [OF assms]]
  by (auto simp: timed_def list_all_iff bounded_def)

lemma recording_ordered_witness: "sorted_wrt starts_before (containers ex_recorder)"
  using recording_ordered [OF ex_recording] by simp

text \<open>no operation of the recorder panics, in any state: no removal from an empty history
  and no use of a missing rollup.\<close>
theorem recorder_never_panics:
  "Advance now r \<noteq> None \<and> Recorder_Event e now r \<noteq> None \<and> Recorder_Metric m now r \<noteq> None
   \<and> Snapshot last_d now host health mode r \<noteq> None"
  using Advance_total Recorder_Event_total Recorder_Metric_total
  by (auto simp: Snapshot_def split: option.split)

text \<open>C39: the budget can be exceeded between two \<open>Advance\<close>s.  Making room for an event folds
  sealed segments, folding may double the capacity of the open rollup, and when
  the event is then rejected nothing evicts a rollup: a reachable recorder that
  is within its budget is 307 bytes above it after a rejected event.\<close>
theorem rejected_event_over_budget:
  "\<exists>r r' e. recording 114 108 r \<and> rc_bytes r \<le> rc_max r
     \<and> Recorder_Event e 116 r = Some (False, r') \<and> rc_bytes r' = rc_max r' + 307"
proof (intro exI conjI)
  let ?r' = "snd (the (Recorder_Event (ex_event 115) 116 gap_recorder))"
  show "recording 114 108 gap_recorder" by (rule gap_recording)
  show "rc_bytes gap_recorder \<le> rc_max gap_recorder" by code_simp
  show "Recorder_Event (ex_event 115) 116 gap_recorder = Some (False, ?r')" by code_simp
  show "rc_bytes ?r' = rc_max ?r' + 307" by code_simp
qed

end
