(* ===== verification/Controller.thy ===== *)
theory Controller
  imports Config
begin

text \<open>
  Scheduling of automatic incidents (\<open>internal/autocapture/controller.go\<close>).  The
  controller keeps the current window and at most one waiting window; triggers
  observed while a file is being written are merged into them.  The recorder
  loop owns the controller, so its methods are functions on the record; the
  pointers \<open>current\<close> and \<open>next\<close> never alias another incident, because
  \<open>Begin\<close> hands out a copy.  A nil dereference is \<open>None\<close>.
\<close>

section \<open>State\<close>

record Controller =
  co_config :: Config
  co_health :: AutoCaptureHealth
  co_current :: "AutoIncident option"
  co_next :: "AutoIncident option"
  co_currentReady :: u64
  co_nextReady :: u64
  co_writing :: bool
  co_writingEnd :: u64
  co_lastSavedEnd :: u64

definition NewController :: "Config \<Rightarrow> string list \<Rightarrow> Controller" where
  "NewController c available =
     (let sources = filter (\<lambda>s. s \<in> set (cf_Enabled c) \<and> s \<in> set available)
                      (ac_Sensors (cf_AutoCapture c))
      in \<lparr>co_config = c,
          co_health = zero_AutoCaptureHealth
            \<lparr>ah_Directory := ac_Directory (cf_AutoCapture c), ah_Sensors := sources\<rparr>,
          co_current = None, co_next = None, co_currentReady = 0, co_nextReady = 0,
          co_writing = False, co_writingEnd = 0, co_lastSavedEnd = 0\<rparr>)"

definition Controller_Health :: "Controller \<Rightarrow> AutoCaptureHealth" where
  "Controller_Health c =
     (let h = (co_health c)\<lparr>ah_State := ''armed''\<rparr>;
          h1 = (if length (ah_Sensors h) = 0 then h\<lparr>ah_State := ''inactive''\<rparr> else h);
          h2 = (case co_current c of
                  None \<Rightarrow> h1
                | Some i \<Rightarrow> h1\<lparr>ah_State := ''pending'', ah_PendingUntilNS := ai_EndMonoNS i\<rparr>)
      in if co_writing c then h2\<lparr>ah_State := ''writing''\<rparr> else h2)"

definition Unavailable :: "string \<Rightarrow> Controller \<Rightarrow> Controller" where
  "Unavailable family c =
     c\<lparr>co_health := (co_health c)\<lparr>ah_Sensors := filter (\<lambda>s. s \<noteq> family) (ah_Sensors (co_health c))\<rparr>\<rparr>"

section \<open>Triggers\<close>

text \<open>The \<open>switch\<close> on the family: how many triggers the interval holds, the threshold and the reason.\<close>

definition trigger_of :: "Config \<Rightarrow> Metric \<Rightarrow> (u64 \<times> u64 \<times> string) option" where
  "trigger_of c m =
     (if mt_Family m = ''block_io'' then
        Some (mt_Critical m, to_u64 (cf_BlockCritical c), ''critical_latency'')
      else if mt_Family m = ''scheduler'' then
        Some (mt_Critical m, to_u64 (cf_SchedulerCritical c), ''critical_latency'')
      else if mt_Family m = ''oom'' then Some (mt_Count m, 0, ''oom_victim'')
      else None)"

definition newIncident :: "Config \<Rightarrow> u64 \<Rightarrow> AutoIncident" where
  "newIncident c now =
     \<lparr>ai_DetectedMonoNS = now, ai_EndMonoNS = now + to_u64 (ac_After (cf_AutoCapture c)),
      ai_BeforeNS = to_u64 (ac_Before (cf_AutoCapture c)),
      ai_AfterNS = to_u64 (ac_After (cf_AutoCapture c)), ai_Triggers = []\<rparr>"

text \<open>The loop at the end of \<open>Observe\<close>: one trigger per family.\<close>

fun add_trigger :: "AutoTrigger \<Rightarrow> AutoTrigger list \<Rightarrow> AutoTrigger list" where
  "add_trigger t [] = [t]"
| "add_trigger t (r # rs) =
     (if at_Family r = at_Family t
      then r\<lparr>at_Count := at_Count r + at_Count t, at_LastIntervalEndNS := at_LastIntervalEndNS t\<rparr> # rs
      else r # add_trigger t rs)"

definition with_trigger :: "AutoTrigger \<Rightarrow> AutoIncident \<Rightarrow> AutoIncident" where
  "with_trigger t i = i\<lparr>ai_Triggers := add_trigger t (ai_Triggers i)\<rparr>"

definition coalesce :: "u64 \<Rightarrow> Controller \<Rightarrow> Controller" where
  "coalesce n c =
     c\<lparr>co_health := (co_health c)\<lparr>ah_Coalesced := ah_Coalesced (co_health c) + n\<rparr>\<rparr>"

text \<open>The branch that extends the waiting window while the writer is busy.\<close>

definition extend_next :: "u64 \<Rightarrow> AutoIncident \<Rightarrow> Controller \<Rightarrow> Controller" where
  "extend_next now nx c =
     (let end_ns = now + to_u64 (ac_After (cf_AutoCapture (co_config c)))
      in if ai_EndMonoNS nx < end_ns then
           c\<lparr>co_next := Some (nx\<lparr>ai_EndMonoNS := end_ns, ai_AfterNS := end_ns - ai_DetectedMonoNS nx\<rparr>),
             co_nextReady := 0\<rparr>
         else c)"

definition Observe :: "Metric \<Rightarrow> u64 \<Rightarrow> Controller \<Rightarrow> Controller" where
  "Observe m now c =
     (if mt_EndMonoNS m \<le> mt_StartMonoNS m \<or> mt_Family m \<notin> set (ah_Sensors (co_health c)) then c
      else
        (case trigger_of (co_config c) m of
           None \<Rightarrow> c
         | Some (n, threshold, reason) \<Rightarrow>
             if n = 0 then c
             else
               let c = c\<lparr>co_health := (co_health c)\<lparr>ah_Detected := ah_Detected (co_health c) + n\<rparr>\<rparr>;
                   t = \<lparr>at_Family = mt_Family m, at_Reason = reason, at_Count = n,
                        at_ThresholdNS = threshold, at_FirstIntervalStartNS = mt_StartMonoNS m,
                        at_LastIntervalEndNS = mt_EndMonoNS m\<rparr>
               in (case co_current c of
                     None \<Rightarrow>
                       coalesce (n - 1)
                         (c\<lparr>co_current := Some (with_trigger t (newIncident (co_config c) now))\<rparr>)
                   | Some i \<Rightarrow>
                       if ai_EndMonoNS i < now then
                         (case co_next c of
                            None \<Rightarrow>
                              coalesce (n - 1)
                                (c\<lparr>co_next := Some (with_trigger t (newIncident (co_config c) now))\<rparr>)
                          | Some nx \<Rightarrow>
                              (let c1 = coalesce n (extend_next now nx c)
                               in c1\<lparr>co_next := map_option (with_trigger t) (co_next c1)\<rparr>))
                       else coalesce n (c\<lparr>co_current := Some (with_trigger t i)\<rparr>))))"

section \<open>Windows\<close>

definition Deadline :: "Controller \<Rightarrow> u64 option" where
  "Deadline c =
     (case co_current c of
        None \<Rightarrow> None
      | Some i \<Rightarrow> if co_writing c then None else Some (ai_EndMonoNS i))"

definition CollectedThrough :: "u64 \<Rightarrow> Controller \<Rightarrow> Controller" where
  "CollectedThrough end_ns c =
     (let c1 = (case co_current c of
                  None \<Rightarrow> c
                | Some i \<Rightarrow> if co_currentReady c = 0 \<and> ai_EndMonoNS i \<le> end_ns
                            then c\<lparr>co_currentReady := end_ns\<rparr> else c)
      in case co_next c1 of
           None \<Rightarrow> c1
         | Some i \<Rightarrow> if co_nextReady c1 = 0 \<and> ai_EndMonoNS i \<le> end_ns
                     then c1\<lparr>co_nextReady := end_ns\<rparr> else c1)"

text \<open>The first part of \<open>Begin\<close>: the copy handed out, with the interval collected at the deadline.\<close>

definition closed_window :: "u64 \<Rightarrow> AutoIncident \<Rightarrow> AutoIncident" where
  "closed_window ready v =
     (if ai_EndMonoNS v < ready
      then v\<lparr>ai_EndMonoNS := ready, ai_AfterNS := ready - ai_DetectedMonoNS v\<rparr> else v)"

definition lookback :: "u64 \<Rightarrow> AutoIncident \<Rightarrow> u64" where
  "lookback lastSavedEnd v =
     (let start = (if ai_BeforeNS v < ai_DetectedMonoNS v
                   then ai_DetectedMonoNS v - ai_BeforeNS v else 0)
      in if start < lastSavedEnd then lastSavedEnd else start)"

fun straddling_start :: "u64 \<Rightarrow> AutoTrigger list \<Rightarrow> u64 \<Rightarrow> u64" where
  "straddling_start boundary [] start = start"
| "straddling_start boundary (t # ts) start =
     straddling_start boundary ts
       (if at_FirstIntervalStartNS t < boundary \<and> boundary \<le> at_LastIntervalEndNS t
        then min start (at_FirstIntervalStartNS t) else start)"

definition Begin :: "Controller \<Rightarrow> ((AutoIncident \<times> u64) \<times> Controller) option" where
  "Begin c =
     (case co_current c of
        None \<Rightarrow> None
      | Some i \<Rightarrow>
          let v = closed_window (co_currentReady c) i;
              boundary = lookback (co_lastSavedEnd c) v;
              start = straddling_start boundary (ai_Triggers v) boundary
          in Some ((v, start),
               c\<lparr>co_current := co_next c, co_next := None, co_currentReady := co_nextReady c,
                 co_nextReady := 0, co_writing := True, co_writingEnd := ai_EndMonoNS v\<rparr>))"

definition Finish :: "string \<Rightarrow> Time \<Rightarrow> go_error option \<Rightarrow> Controller \<Rightarrow> Controller" where
  "Finish path savedAt err c =
     (let c1 = c\<lparr>co_writing := False\<rparr>;
          h = co_health c1;
          c2 = (if path \<noteq> []
                then c1\<lparr>co_lastSavedEnd := co_writingEnd c1,
                  co_health := h\<lparr>ah_Saved := ah_Saved h + 1, ah_LastPath := path, ah_LastSavedAt := savedAt\<rparr>\<rparr>
                else c1);
          c3 = c2\<lparr>co_writingEnd := 0\<rparr>;
          h3 = co_health c3
      in case err of
           Some e \<Rightarrow> c3\<lparr>co_health := h3\<lparr>ah_Failures := ah_Failures h3 + 1, ah_LastError := error_text e\<rparr>\<rparr>
         | None \<Rightarrow> c3\<lparr>co_health := h3\<lparr>ah_LastError := []\<rparr>\<rparr>)"

section \<open>How the controller is driven\<close>

text \<open>
  The recorder loop polls at increasing clock readings; every poll observes
  intervals that end at its reading, and is followed by \<open>CollectedThrough\<close>
  with that reading before the next poll.  A window is begun only after a poll
  past its deadline, and the writer finishes at any time.
  \<open>scheduled cfg q t vs c\<close>: after such a history \<open>c\<close> is reached, the last poll
  was at \<open>t\<close>, the last one followed by \<open>CollectedThrough\<close> at \<open>q\<close>, and \<open>vs\<close> are
  the incidents \<open>Begin\<close> has handed out.
\<close>

text \<open>A clock reading after which the post-detection window still fits in 64 bits.\<close>

definition in_range :: "Config \<Rightarrow> u64 \<Rightarrow> bool" where
  "in_range cfg t \<longleftrightarrow> 0 < t \<and> t \<le> t + to_u64 (ac_After (cf_AutoCapture cfg))"

text \<open>Fewer than \<open>2^64\<close> triggers of a family in one window.\<close>

definition counts_fit :: "Metric \<Rightarrow> Controller \<Rightarrow> bool" where
  "counts_fit m c \<longleftrightarrow>
     (case trigger_of (co_config c) m of
        None \<Rightarrow> True
      | Some (n, _, _) \<Rightarrow>
          (\<forall>i \<in> set_option (co_current c) \<union> set_option (co_next c). \<forall>t \<in> set (ai_Triggers i).
             at_Family t = mt_Family m \<longrightarrow> at_Count t \<le> at_Count t + n))"

text \<open>Durations of a configuration are \<open>int64\<close>s.\<close>

definition int64_thresholds :: "Config \<Rightarrow> bool" where
  "int64_thresholds cfg \<longleftrightarrow> cf_BlockCritical cfg < 2 ^ 63 \<and> cf_SchedulerCritical cfg < 2 ^ 63"

inductive scheduled :: "Config \<Rightarrow> u64 \<Rightarrow> u64 \<Rightarrow> AutoIncident list \<Rightarrow> Controller \<Rightarrow> bool"
  for cfg :: Config where
  start: "Config_Validate cfg = None \<Longrightarrow> int64_thresholds cfg \<Longrightarrow> in_range cfg t \<Longrightarrow>
    scheduled cfg t t [] (NewController cfg available)"
| poll: "scheduled cfg t t vs c \<Longrightarrow> t \<le> now \<Longrightarrow> in_range cfg now \<Longrightarrow> scheduled cfg t now vs c"
| observe: "scheduled cfg q t vs c \<Longrightarrow> mt_EndMonoNS m = t \<Longrightarrow> counts_fit m c \<Longrightarrow>
    scheduled cfg q t vs (Observe m t c)"
| unavailable: "scheduled cfg q t vs c \<Longrightarrow> scheduled cfg q t vs (Unavailable family c)"
| collected: "scheduled cfg q t vs c \<Longrightarrow> scheduled cfg t t vs (CollectedThrough t c)"
| begin_window: "scheduled cfg t t vs c \<Longrightarrow> Deadline c = Some e \<Longrightarrow> e \<le> t \<Longrightarrow>
    Begin c = Some ((v, start), c') \<Longrightarrow> scheduled cfg t t (vs @ [v]) c'"
| finish: "scheduled cfg q t vs c \<Longrightarrow> co_writing c \<Longrightarrow>
    scheduled cfg q t vs (Finish path savedAt err c)"

end
