(* ===== verification/Controller_Inv.thy ===== *)
theory Controller_Inv
  imports Controller
begin

text \<open>
  The invariant of automatic scheduling: what is true of the current and the
  waiting window after every history of the recorder loop, and that every
  incident handed out is well formed.
\<close>

section \<open>Configuration\<close>

definition auto_config :: "Config \<Rightarrow> bool" where
  "auto_config cfg \<longleftrightarrow> to_u64 (ac_Before (cf_AutoCapture cfg)) \<noteq> 0
     \<and> to_u64 (cf_BlockCritical cfg) \<noteq> 0 \<and> to_u64 (cf_SchedulerCritical cfg) \<noteq> 0"

lemma to_u64_nonzero: "0 < x \<Longrightarrow> x < 2 ^ 63 \<Longrightarrow> to_u64 x \<noteq> 0"
  by (simp add: to_u64_def word_of_int_eq_0_iff dvd_imp_le zdvd_not_zless)

lemma Config_Validate_auto:
  assumes "Config_Validate cfg = None" and "int64_thresholds cfg" shows "auto_config cfg"
proof -
  have "Second \<le> ac_Before (cf_AutoCapture cfg)" and "ac_Before (cf_AutoCapture cfg) \<le> 24 * Hour"
    and "0 < cf_BlockCritical cfg" and "0 < cf_SchedulerCritical cfg"
    using assms(1)
    by (auto simp: Config_Validate_def AutoCapture_Validate_def first_error_None limit_defs
        split: if_splits)
  with assms(2) show ?thesis
    by (simp add: auto_config_def int64_thresholds_def to_u64_nonzero)
qed

section \<open>Windows\<close>

definition trigger_ok :: "u64 \<Rightarrow> AutoTrigger \<Rightarrow> bool" where
  "trigger_ok end_ns t \<longleftrightarrow> trigger_kind_ok t \<and> at_Count t \<noteq> 0
     \<and> at_FirstIntervalStartNS t < at_LastIntervalEndNS t \<and> at_LastIntervalEndNS t \<le> end_ns"

definition window_ok :: "Config \<Rightarrow> u64 \<Rightarrow> AutoIncident \<Rightarrow> bool" where
  "window_ok cfg t i \<longleftrightarrow> ai_BeforeNS i = to_u64 (ac_Before (cf_AutoCapture cfg))
     \<and> ai_DetectedMonoNS i \<le> t \<and> ai_DetectedMonoNS i \<le> ai_EndMonoNS i
     \<and> ai_AfterNS i = ai_EndMonoNS i - ai_DetectedMonoNS i
     \<and> ai_Triggers i \<noteq> [] \<and> distinct (map at_Family (ai_Triggers i))
     \<and> (\<forall>r \<in> set (ai_Triggers i). trigger_ok (ai_EndMonoNS i) r \<and> at_LastIntervalEndNS r \<le> t)"

lemma trigger_ok_mono: "trigger_ok e t \<Longrightarrow> e \<le> e' \<Longrightarrow> trigger_ok e' t"
  by (auto simp: trigger_ok_def)

lemma window_ok_later: "window_ok cfg t i \<Longrightarrow> t \<le> t' \<Longrightarrow> window_ok cfg t' i"
  by (auto simp: window_ok_def)

lemma window_ok_end:
  assumes "window_ok cfg t i" and "ai_EndMonoNS i \<le> e"
  shows "window_ok cfg t (i\<lparr>ai_EndMonoNS := e, ai_AfterNS := e - ai_DetectedMonoNS i\<rparr>)"
  using assms trigger_ok_mono by (auto simp: window_ok_def)

lemma trigger_kind_family: "trigger_kind_ok t \<Longrightarrow> at_Family t \<in> {''block_io'', ''scheduler'', ''oom''}"
  by (auto simp: trigger_kind_ok_def split: if_splits)

lemma triggers_valid_ok:
  "distinct (map at_Family ts) \<Longrightarrow> at_Family ` set ts \<inter> set seen = {} \<Longrightarrow>
   \<forall>t \<in> set ts. trigger_ok end_ns t \<Longrightarrow> triggers_valid end_ns seen ts"
  by (induction end_ns seen ts rule: triggers_valid.induct) (auto simp: trigger_ok_def)

lemma window_ok_Valid:
  assumes "window_ok cfg t i" and "auto_config cfg"
  shows "AutoIncident_Valid (Some i) (ai_EndMonoNS i)"
proof -
  have d: "distinct (map at_Family (ai_Triggers i))"
    and k: "set (map at_Family (ai_Triggers i)) \<subseteq> {''block_io'', ''scheduler'', ''oom''}"
    using assms(1) trigger_kind_family by (fastforce simp: window_ok_def trigger_ok_def)+
  have "card {''block_io'', ''scheduler'', ''oom''} = 3" by simp
  with k have "length (ai_Triggers i) \<le> 3"
    using distinct_card [OF d] card_mono [OF _ k] by simp
  moreover have "triggers_valid (ai_EndMonoNS i) [] (ai_Triggers i)"
    using assms(1) by (intro triggers_valid_ok) (auto simp: window_ok_def)
  ultimately show ?thesis
    using assms by (auto simp: window_ok_def auto_config_def)
qed

section \<open>Adding a trigger\<close>

lemma add_trigger_families:
  "map at_Family (add_trigger t rs) =
     (if at_Family t \<in> at_Family ` set rs then map at_Family rs else map at_Family rs @ [at_Family t])"
  by (induction rs) auto

lemma add_trigger_not_Nil [simp]: "add_trigger t rs \<noteq> []"
  by (cases rs) auto

lemma trigger_kind_ok_update [simp]:
  "trigger_kind_ok (r\<lparr>at_Count := n, at_LastIntervalEndNS := e\<rparr>) = trigger_kind_ok r"
  by (simp add: trigger_kind_ok_def)

lemma add_trigger_ok:
  assumes "\<forall>r \<in> set rs. trigger_ok e r \<and> at_LastIntervalEndNS r \<le> now"
    and "trigger_ok e t" and "at_LastIntervalEndNS t = now"
    and "\<forall>r \<in> set rs. at_Family r = at_Family t \<longrightarrow> at_Count r \<le> at_Count r + at_Count t"
  shows "\<forall>r \<in> set (add_trigger t rs). trigger_ok e r \<and> at_LastIntervalEndNS r \<le> now"
  using assms
proof (induction rs)
  case Nil
  then show ?case by simp
next
  case (Cons r rs)
  show ?case
  proof (cases "at_Family r = at_Family t")
    case True
    have "at_Count r \<noteq> 0" "at_Count r \<le> at_Count r + at_Count t" using Cons.prems(1,4) True
      by (auto simp: trigger_ok_def)
    then have "at_Count r + at_Count t \<noteq> 0" by auto
    moreover have "at_FirstIntervalStartNS r < now" using Cons.prems(1) by (auto simp: trigger_ok_def)
    ultimately show ?thesis
      using Cons.prems(1,2,3) True by (auto simp: trigger_ok_def)
  next
    case False
    with Cons show ?thesis by simp
  qed
qed

lemma with_trigger_ok:
  assumes "window_ok cfg now i" and "trigger_ok (ai_EndMonoNS i) t" and "at_LastIntervalEndNS t = now"
    and "\<forall>r \<in> set (ai_Triggers i). at_Family r = at_Family t \<longrightarrow> at_Count r \<le> at_Count r + at_Count t"
  shows "window_ok cfg now (with_trigger t i)"
proof -
  have "\<forall>r \<in> set (add_trigger t (ai_Triggers i)).
      trigger_ok (ai_EndMonoNS i) r \<and> at_LastIntervalEndNS r \<le> now"
    using assms by (intro add_trigger_ok) (auto simp: window_ok_def)
  with assms(1) show ?thesis
    by (auto simp: window_ok_def with_trigger_def add_trigger_families)
qed

lemma newIncident_ok:
  assumes "in_range cfg now" and "trigger_ok now t" and "at_LastIntervalEndNS t = now"
  shows "window_ok cfg now (with_trigger t (newIncident cfg now))"
  using assms
  by (auto simp: window_ok_def with_trigger_def newIncident_def in_range_def trigger_ok_def)

text \<open>What one observation does, with the trigger it stands for.\<close>

definition trigger_at :: "Config \<Rightarrow> Metric \<Rightarrow> AutoTrigger \<Rightarrow> bool" where
  "trigger_at cfg m t \<longleftrightarrow> (\<exists>n threshold reason. trigger_of cfg m = Some (n, threshold, reason) \<and> n \<noteq> 0
     \<and> mt_StartMonoNS m < mt_EndMonoNS m
     \<and> t = \<lparr>at_Family = mt_Family m, at_Reason = reason, at_Count = n, at_ThresholdNS = threshold,
            at_FirstIntervalStartNS = mt_StartMonoNS m, at_LastIntervalEndNS = mt_EndMonoNS m\<rparr>)"

definition detect :: "u64 \<Rightarrow> Controller \<Rightarrow> Controller" where
  "detect n c = c\<lparr>co_health := (co_health c)\<lparr>ah_Detected := ah_Detected (co_health c) + n\<rparr>\<rparr>"

lemma Observe_cases:
  obtains (ignored) "Observe m now c = c"
  | (opened) t where "trigger_at (co_config c) m t" and "co_current c = None"
      and "Observe m now c = coalesce (at_Count t - 1) ((detect (at_Count t) c)
        \<lparr>co_current := Some (with_trigger t (newIncident (co_config c) now))\<rparr>)"
  | (waiting) t i where "trigger_at (co_config c) m t" and "co_current c = Some i"
      and "ai_EndMonoNS i < now" and "co_next c = None"
      and "Observe m now c = coalesce (at_Count t - 1) ((detect (at_Count t) c)
        \<lparr>co_next := Some (with_trigger t (newIncident (co_config c) now))\<rparr>)"
  | (extended) t i nx end_ns where "trigger_at (co_config c) m t" and "co_current c = Some i"
      and "ai_EndMonoNS i < now" and "co_next c = Some nx"
      and "end_ns = now + to_u64 (ac_After (cf_AutoCapture (co_config c)))" and "ai_EndMonoNS nx < end_ns"
      and "Observe m now c = coalesce (at_Count t) ((detect (at_Count t) c)
        \<lparr>co_next := Some (with_trigger t (nx\<lparr>ai_EndMonoNS := end_ns,
             ai_AfterNS := end_ns - ai_DetectedMonoNS nx\<rparr>)), co_nextReady := 0\<rparr>)"
  | (next_merged) t i nx where "trigger_at (co_config c) m t" and "co_current c = Some i"
      and "ai_EndMonoNS i < now" and "co_next c = Some nx"
      and "now + to_u64 (ac_After (cf_AutoCapture (co_config c))) \<le> ai_EndMonoNS nx"
      and "Observe m now c = coalesce (at_Count t) ((detect (at_Count t) c)
        \<lparr>co_next := Some (with_trigger t nx)\<rparr>)"
  | (merged) t i where "trigger_at (co_config c) m t" and "co_current c = Some i"
      and "now \<le> ai_EndMonoNS i"
      and "Observe m now c = coalesce (at_Count t) ((detect (at_Count t) c)
        \<lparr>co_current := Some (with_trigger t i)\<rparr>)"
proof (cases "mt_EndMonoNS m \<le> mt_StartMonoNS m \<or> mt_Family m \<notin> set (ah_Sensors (co_health c))
    \<or> trigger_of (co_config c) m = None \<or> (\<exists>th re. trigger_of (co_config c) m = Some (0, th, re))")
  case True
  then have "Observe m now c = c" by (auto simp: Observe_def)
  then show thesis by (rule ignored)
next
  case False
  then obtain n th re where n: "trigger_of (co_config c) m = Some (n, th, re)" "n \<noteq> 0"
    by (cases "trigger_of (co_config c) m") auto
  define t where "t = \<lparr>at_Family = mt_Family m, at_Reason = re, at_Count = n, at_ThresholdNS = th,
      at_FirstIntervalStartNS = mt_StartMonoNS m, at_LastIntervalEndNS = mt_EndMonoNS m\<rparr>"
  have t: "trigger_at (co_config c) m t" and tn: "at_Count t = n"
    using n False by (auto simp: trigger_at_def t_def)
  note obs = Observe_def [of m now c, unfolded n option.case prod.case, folded t_def]
  show thesis
  proof (cases "co_current c")
    case None
    with False n tn t show thesis
      by (intro opened [of t]) (simp_all add: obs Let_def detect_def t_def [symmetric])
  next
    case i: (Some i)
    show thesis
    proof (cases "ai_EndMonoNS i < now")
      case le: True
      show thesis
      proof (cases "co_next c")
        case None
        with i le False n tn t show thesis
          by (intro waiting [of t i]) (simp_all add: obs Let_def detect_def t_def [symmetric])
      next
        case nx: (Some nx)
        show thesis
        proof (cases "ai_EndMonoNS nx < now + to_u64 (ac_After (cf_AutoCapture (co_config c)))")
          case True
          with i le nx False n tn t show thesis
            by (intro extended [of t i nx] Controller.equality)
              (simp_all add: obs Let_def detect_def extend_next_def coalesce_def t_def [symmetric])
        next
          case nolonger: False
          with i le nx False n tn t show thesis
            by (intro next_merged [of t i nx])
              (simp_all add: obs Let_def detect_def extend_next_def coalesce_def t_def [symmetric])
        qed
      qed
    next
      case False
      with i \<open>\<not> (mt_EndMonoNS m \<le> mt_StartMonoNS m \<or> _)\<close> n tn t show thesis
        by (intro merged [of t i]) (simp_all add: obs Let_def detect_def t_def [symmetric])
    qed
  qed
qed

section \<open>The invariant\<close>

text \<open>A window is either not yet collected through (\<open>ready = 0\<close>), or was at \<open>ready\<close>, past its end.\<close>

definition collected_ok :: "u64 \<Rightarrow> u64 \<Rightarrow> AutoIncident option \<Rightarrow> bool" where
  "collected_ok q ready w \<longleftrightarrow>
     (case w of
        None \<Rightarrow> ready = 0
      | Some i \<Rightarrow> if ready = 0 then q \<le> ai_EndMonoNS i else ai_EndMonoNS i \<le> ready \<and> ready \<le> q)"

abbreviation windows :: "Controller \<Rightarrow> AutoIncident set" where
  "windows c \<equiv> set_option (co_current c) \<union> set_option (co_next c)"

definition unsaved :: "Controller \<Rightarrow> AutoIncident \<Rightarrow> bool" where
  "unsaved c i \<longleftrightarrow> co_lastSavedEnd c \<le> ai_DetectedMonoNS i
     \<and> (co_writing c \<longrightarrow> co_writingEnd c \<le> ai_DetectedMonoNS i)"

definition waiting_ok :: "u64 \<Rightarrow> u64 \<Rightarrow> Controller \<Rightarrow> bool" where
  "waiting_ok q t c \<longleftrightarrow>
     (case co_next c of
        None \<Rightarrow> True
      | Some nx \<Rightarrow>
          (case co_current c of
             None \<Rightarrow> False
           | Some i \<Rightarrow> ai_EndMonoNS i < ai_DetectedMonoNS nx
               \<and> (if co_currentReady c = 0 then ai_DetectedMonoNS nx = t \<and> q < t
                  else co_currentReady c \<le> ai_DetectedMonoNS nx)))"

definition controller_inv :: "Config \<Rightarrow> u64 \<Rightarrow> u64 \<Rightarrow> Controller \<Rightarrow> bool" where
  "controller_inv cfg q t c \<longleftrightarrow> co_config c = cfg \<and> auto_config cfg \<and> in_range cfg t \<and> q \<le> t
     \<and> (\<forall>i \<in> windows c. window_ok cfg t i \<and> unsaved c i)
     \<and> collected_ok q (co_currentReady c) (co_current c)
     \<and> collected_ok q (co_nextReady c) (co_next c)
     \<and> co_lastSavedEnd c \<le> q \<and> (co_writing c \<longrightarrow> co_writingEnd c \<le> q)
     \<and> waiting_ok q t c"

lemma coalesce_simps [simp]:
  "co_config (coalesce n c) = co_config c" "co_current (coalesce n c) = co_current c"
  "co_next (coalesce n c) = co_next c" "co_currentReady (coalesce n c) = co_currentReady c"
  "co_nextReady (coalesce n c) = co_nextReady c" "co_writing (coalesce n c) = co_writing c"
  "co_writingEnd (coalesce n c) = co_writingEnd c" "co_lastSavedEnd (coalesce n c) = co_lastSavedEnd c"
  by (simp_all add: coalesce_def)

lemma detect_simps [simp]:
  "co_config (detect n c) = co_config c" "co_current (detect n c) = co_current c"
  "co_next (detect n c) = co_next c" "co_currentReady (detect n c) = co_currentReady c"
  "co_nextReady (detect n c) = co_nextReady c" "co_writing (detect n c) = co_writing c"
  "co_writingEnd (detect n c) = co_writingEnd c" "co_lastSavedEnd (detect n c) = co_lastSavedEnd c"
  by (simp_all add: detect_def)

lemma with_trigger_simps [simp]:
  "ai_EndMonoNS (with_trigger t i) = ai_EndMonoNS i"
  "ai_DetectedMonoNS (with_trigger t i) = ai_DetectedMonoNS i"
  by (simp_all add: with_trigger_def)

lemma newIncident_simps [simp]:
  "ai_DetectedMonoNS (newIncident cfg now) = now"
  "ai_EndMonoNS (newIncident cfg now) = now + to_u64 (ac_After (cf_AutoCapture cfg))"
  by (simp_all add: newIncident_def)

lemma trigger_at_ok:
  assumes "trigger_at cfg m t" and "auto_config cfg" and "mt_EndMonoNS m \<le> e"
  shows "trigger_ok e t" and "at_LastIntervalEndNS t = mt_EndMonoNS m" and "at_Family t = mt_Family m"
  using assms
  by (auto simp: trigger_at_def trigger_ok_def trigger_kind_ok_def trigger_of_def auto_config_def
      split: if_splits)

lemma trigger_at_fits:
  assumes "trigger_at (co_config c) m t" and "counts_fit m c" and "i \<in> windows c"
  shows "\<forall>r \<in> set (ai_Triggers i). at_Family r = at_Family t \<longrightarrow> at_Count r \<le> at_Count r + at_Count t"
  using assms by (auto simp: trigger_at_def counts_fit_def)

lemma NewController_inv:
  assumes "auto_config cfg" and "in_range cfg t"
  shows "controller_inv cfg t t (NewController cfg available)"
  using assms
  by (simp add: controller_inv_def NewController_def Let_def collected_ok_def waiting_ok_def)

lemma poll_inv:
  assumes "controller_inv cfg t t c" and "t \<le> now" and "in_range cfg now"
  shows "controller_inv cfg t now c"
  using assms window_ok_later [OF _ assms(2)]
  by (fastforce simp: controller_inv_def waiting_ok_def split: option.splits if_splits)

lemma Observe_inv:
  assumes "controller_inv cfg q t c" and "mt_EndMonoNS m = t" and "counts_fit m c"
  shows "controller_inv cfg q t (Observe m t c)"
proof -
  have cfg: "co_config c = cfg" "auto_config cfg" "in_range cfg t" "q \<le> t"
    and w: "\<And>i. i \<in> windows c \<Longrightarrow> window_ok cfg t i \<and> unsaved c i"
    using assms(1) by (auto simp: controller_inv_def)
  have fresh: "window_ok cfg t (with_trigger tr (newIncident cfg t))"
    if "trigger_at (co_config c) m tr" for tr
    using trigger_at_ok [OF that [unfolded cfg(1)] cfg(2), of t] assms(2) newIncident_ok [OF cfg(3)] by simp
  have more: "window_ok cfg t (with_trigger tr i)"
    if "trigger_at (co_config c) m tr" "i0 \<in> windows c" "window_ok cfg t i" "t \<le> ai_EndMonoNS i"
      "ai_Triggers i = ai_Triggers i0" for tr i i0
    using trigger_at_ok [OF that(1) [unfolded cfg(1)] cfg(2), of "ai_EndMonoNS i"] assms(2) that
      trigger_at_fits [OF that(1) assms(3) that(2)] by (intro with_trigger_ok) auto
  have end_ge: "t \<le> t + to_u64 (ac_After (cf_AutoCapture cfg))" using cfg(3) by (simp add: in_range_def)
  show ?thesis
  proof (cases rule: Observe_cases [of m t c])
    case ignored
    with assms(1) show ?thesis by simp
  next
    case (opened tr)
    then show ?thesis
      using assms(1) fresh [OF opened(1)] end_ge
      by (auto simp: controller_inv_def cfg(1) unsaved_def collected_ok_def waiting_ok_def split: option.splits)
  next
    case (waiting tr i)
    then show ?thesis
      using assms(1) fresh [OF waiting(1)] end_ge
      by (auto simp: controller_inv_def cfg(1) unsaved_def collected_ok_def waiting_ok_def split: option.splits if_splits)
  next
    case (extended tr i nx e)
    let ?nx = "nx\<lparr>ai_EndMonoNS := e, ai_AfterNS := e - ai_DetectedMonoNS nx\<rparr>"
    have "window_ok cfg t ?nx" using w [of nx] extended(4,6) by (intro window_ok_end) auto
    then have "window_ok cfg t (with_trigger tr ?nx)"
      using extended end_ge by (intro more [OF extended(1), of nx]) (auto simp: cfg(1))
    then show ?thesis
      using assms(1) extended end_ge
      by (auto simp: controller_inv_def cfg(1) unsaved_def collected_ok_def waiting_ok_def split: option.splits if_splits)
  next
    case (next_merged tr i nx)
    have "window_ok cfg t (with_trigger tr nx)"
      using w [of nx] next_merged end_ge by (intro more [OF next_merged(1), of nx]) (auto simp: cfg(1))
    then show ?thesis
      using assms(1) next_merged
      by (auto simp: controller_inv_def cfg(1) unsaved_def collected_ok_def waiting_ok_def split: option.splits if_splits)
  next
    case (merged tr i)
    have "window_ok cfg t (with_trigger tr i)"
      using w [of i] merged by (intro more [OF merged(1), of i]) auto
    then show ?thesis
      using assms(1) merged
      by (auto simp: controller_inv_def cfg(1) unsaved_def collected_ok_def waiting_ok_def split: option.splits if_splits)
  qed
qed

text \<open>The invariant does not depend on the health counters.\<close>

lemma controller_inv_health:
  "controller_inv cfg q t (c\<lparr>co_health := h\<rparr>) = controller_inv cfg q t c"
proof -
  have "waiting_ok q t (c\<lparr>co_health := h\<rparr>) = waiting_ok q t c"
    by (simp add: waiting_ok_def split: option.split)
  then show ?thesis by (simp add: controller_inv_def unsaved_def)
qed

lemma Unavailable_inv: "controller_inv cfg q t c \<Longrightarrow> controller_inv cfg q t (Unavailable family c)"
  by (simp add: Unavailable_def controller_inv_health)

lemma CollectedThrough_inv:
  assumes "controller_inv cfg q t c"
  shows "controller_inv cfg t t (CollectedThrough t c)"
proof -
  have t: "t \<noteq> 0" using assms by (auto simp: controller_inv_def in_range_def)
  have c1: "collected_ok t (if co_currentReady c = 0 \<and> (\<exists>i. co_current c = Some i \<and> ai_EndMonoNS i \<le> t)
      then t else co_currentReady c) (co_current c)"
    "collected_ok t (if co_nextReady c = 0 \<and> (\<exists>i. co_next c = Some i \<and> ai_EndMonoNS i \<le> t)
      then t else co_nextReady c) (co_next c)"
    using assms t by (auto simp: controller_inv_def collected_ok_def split: option.splits if_splits)
  show ?thesis
    using assms c1 t
    by (auto simp: controller_inv_def CollectedThrough_def Let_def unsaved_def waiting_ok_def
        split: option.splits if_splits)
qed

lemma Begin_Some:
  assumes "Begin c = Some ((v, start), c')"
  obtains i where "co_current c = Some i" and "v = closed_window (co_currentReady c) i"
    and "start = straddling_start (lookback (co_lastSavedEnd c) v) (ai_Triggers v) (lookback (co_lastSavedEnd c) v)"
    and "c' = c\<lparr>co_current := co_next c, co_next := None, co_currentReady := co_nextReady c,
      co_nextReady := 0, co_writing := True, co_writingEnd := ai_EndMonoNS v\<rparr>"
  using assms by (auto simp: Begin_def Let_def split: option.splits)

lemma closed_window_simps [simp]:
  "ai_DetectedMonoNS (closed_window ready i) = ai_DetectedMonoNS i"
  "ai_Triggers (closed_window ready i) = ai_Triggers i"
  "ai_BeforeNS (closed_window ready i) = ai_BeforeNS i"
  "ai_EndMonoNS (closed_window ready i) = max (ai_EndMonoNS i) ready"
  by (auto simp: closed_window_def max_def)

lemma closed_window_ok: "window_ok cfg t i \<Longrightarrow> window_ok cfg t (closed_window ready i)"
  by (auto simp: closed_window_def intro: window_ok_end)

lemma Begin_inv:
  assumes "controller_inv cfg t t c" and "Deadline c = Some e" and "e \<le> t"
    and "Begin c = Some ((v, start), c')"
  shows "controller_inv cfg t t c' \<and> window_ok cfg t v \<and> ai_EndMonoNS v \<le> t
    \<and> co_lastSavedEnd c \<le> ai_DetectedMonoNS v"
proof -
  obtain i where i: "co_current c = Some i" "v = closed_window (co_currentReady c) i"
    and c': "c' = c\<lparr>co_current := co_next c, co_next := None, co_currentReady := co_nextReady c,
      co_nextReady := 0, co_writing := True, co_writingEnd := ai_EndMonoNS v\<rparr>"
    using assms(4) by (rule Begin_Some) blast
  have e: "ai_EndMonoNS i \<le> t" and nw: "\<not> co_writing c"
    using assms(2,3) i(1) by (auto simp: Deadline_def split: if_splits)
  have v: "ai_EndMonoNS v \<le> t"
    using assms(1) i e by (auto simp: controller_inv_def collected_ok_def split: if_splits)
  have ok: "window_ok cfg t v"
    using assms(1) i by (auto simp: controller_inv_def intro: closed_window_ok)
  have nx: "ai_EndMonoNS v \<le> ai_DetectedMonoNS nx" if "co_next c = Some nx" for nx
    using assms(1) i that e by (auto simp: controller_inv_def waiting_ok_def split: if_splits)
  have "controller_inv cfg t t c'"
    using assms(1) v nx unfolding c'
    by (auto simp: controller_inv_def unsaved_def waiting_ok_def collected_ok_def split: option.splits)
  with v ok assms(1) i show ?thesis by (auto simp: controller_inv_def unsaved_def)
qed

lemma Finish_inv:
  assumes "controller_inv cfg q t c" and "co_writing c"
  shows "controller_inv cfg q t (Finish path savedAt err c)"
proof -
  let ?c = "(if path \<noteq> [] then c\<lparr>co_lastSavedEnd := co_writingEnd c\<rparr> else c)\<lparr>co_writing := False, co_writingEnd := 0\<rparr>"
  have f: "Finish path savedAt err c = ?c\<lparr>co_health := co_health (Finish path savedAt err c)\<rparr>"
    by (cases err) (simp_all add: Finish_def Let_def)
  have "controller_inv cfg q t ?c"
    using assms
    by (auto simp: controller_inv_def unsaved_def waiting_ok_def split: option.splits)
  then show ?thesis by (subst f) (simp only: controller_inv_health)
qed

lemma scheduled_inv: "scheduled cfg q t vs c \<Longrightarrow> controller_inv cfg q t c"
proof (induction rule: scheduled.induct)
  case (start t available)
  show ?case by (rule NewController_inv [OF Config_Validate_auto [OF start(1,2)] start(3)])
next
  case (poll t vs c now)
  show ?case by (rule poll_inv [OF poll.IH poll.hyps(2,3)])
next
  case (observe q t vs c m)
  show ?case by (rule Observe_inv [OF observe.IH observe.hyps(2,3)])
next
  case (unavailable q t vs c family)
  show ?case by (rule Unavailable_inv [OF unavailable.IH])
next
  case (collected q t vs c)
  show ?case by (rule CollectedThrough_inv [OF collected.IH])
next
  case (begin_window t vs c e v start c')
  show ?case by (rule conjunct1 [OF Begin_inv [OF begin_window.IH begin_window.hyps(2-4)]])
next
  case (finish q t vs c path savedAt err)
  show ?case by (rule Finish_inv [OF finish.IH finish.hyps(2)])
qed

section \<open>No trigger is lost\<close>

definition incident_count :: "AutoIncident \<Rightarrow> u64" where
  "incident_count i = sum_list (map at_Count (ai_Triggers i))"

definition open_windows :: "Controller \<Rightarrow> AutoIncident list" where
  "open_windows c = (case co_current c of None \<Rightarrow> [] | Some i \<Rightarrow> [i])
     @ (case co_next c of None \<Rightarrow> [] | Some i \<Rightarrow> [i])"

lemma add_trigger_count: "sum_list (map at_Count (add_trigger t rs)) = at_Count t + sum_list (map at_Count rs)"
  by (induction rs) (auto simp: algebra_simps)

lemma incident_count_simps [simp]:
  "incident_count (with_trigger t i) = at_Count t + incident_count i"
  "incident_count (newIncident cfg now) = 0"
  "incident_count (i\<lparr>ai_EndMonoNS := e, ai_AfterNS := a\<rparr>) = incident_count i"
  "incident_count (closed_window ready i) = incident_count i"
  by (simp_all add: incident_count_def with_trigger_def add_trigger_count newIncident_def)

definition balanced :: "AutoIncident list \<Rightarrow> Controller \<Rightarrow> bool" where
  "balanced vs c \<longleftrightarrow> (co_next c \<noteq> None \<longrightarrow> co_current c \<noteq> None)
     \<and> ah_Detected (co_health c) = sum_list (map incident_count (vs @ open_windows c))
     \<and> ah_Detected (co_health c) = ah_Coalesced (co_health c) + of_nat (length (vs @ open_windows c))"

lemma Observe_balanced: "balanced vs c \<Longrightarrow> balanced vs (Observe m now c)"
  by (cases rule: Observe_cases [of m now c])
    (auto simp: balanced_def open_windows_def coalesce_def detect_def algebra_simps split: option.splits)

lemma CollectedThrough_balanced: "balanced vs c \<Longrightarrow> balanced vs (CollectedThrough t c)"
  by (auto simp: balanced_def open_windows_def CollectedThrough_def Let_def split: option.splits)

lemma Begin_balanced:
  assumes "balanced vs c" and "Begin c = Some ((v, start), c')"
  shows "balanced (vs @ [v]) c'"
  using assms(2)
proof (rule Begin_Some)
  fix i
  assume "co_current c = Some i" "v = closed_window (co_currentReady c) i"
    "c' = c\<lparr>co_current := co_next c, co_next := None, co_currentReady := co_nextReady c,
      co_nextReady := 0, co_writing := True, co_writingEnd := ai_EndMonoNS v\<rparr>"
  with assms(1) show ?thesis
    by (cases "co_next c") (auto simp: balanced_def open_windows_def algebra_simps)
qed

lemma balanced_cong:
  "co_current c' = co_current c \<Longrightarrow> co_next c' = co_next c \<Longrightarrow>
   ah_Detected (co_health c') = ah_Detected (co_health c) \<Longrightarrow>
   ah_Coalesced (co_health c') = ah_Coalesced (co_health c) \<Longrightarrow> balanced vs c' = balanced vs c"
  by (simp add: balanced_def open_windows_def)

lemma Finish_balanced: "balanced vs c \<Longrightarrow> balanced vs (Finish path savedAt err c)"
  by (subst balanced_cong [where c = c]) (cases err; simp add: Finish_def Let_def)+

lemma Unavailable_balanced: "balanced vs c \<Longrightarrow> balanced vs (Unavailable family c)"
  by (subst balanced_cong [where c = c]) (simp_all add: Unavailable_def)

lemma scheduled_balanced: "scheduled cfg q t vs c \<Longrightarrow> balanced vs c"
proof (induction rule: scheduled.induct)
  case (start t available)
  show ?case by (simp add: balanced_def open_windows_def NewController_def Let_def zero_AutoCaptureHealth_def)
next
  case (begin_window t vs c e v start c')
  show ?case by (rule Begin_balanced [OF begin_window.IH begin_window.hyps(4)])
qed (simp_all add: Observe_balanced CollectedThrough_balanced Finish_balanced Unavailable_balanced)

section \<open>The window handed out\<close>

lemma straddling_start_le: "straddling_start b ts s \<le> s"
proof (induction b ts s rule: straddling_start.induct)
  case (2 b t ts s)
  have "(if at_FirstIntervalStartNS t < b \<and> b \<le> at_LastIntervalEndNS t
      then min s (at_FirstIntervalStartNS t) else s) \<le> s" by simp
  with 2 show ?case by (simp only: straddling_start.simps)
qed simp

lemma straddling_start_cases:
  "straddling_start b ts s = s
   \<or> (\<exists>t \<in> set ts. straddling_start b ts s = at_FirstIntervalStartNS t
        \<and> at_FirstIntervalStartNS t < b \<and> b \<le> at_LastIntervalEndNS t)"
proof (induction b ts s rule: straddling_start.induct)
  case (2 b t ts s)
  then show ?case by (auto simp: min_def split: if_splits)
qed simp

lemma lookback_le:
  assumes "saved \<le> ai_DetectedMonoNS v" shows "lookback saved v \<le> ai_DetectedMonoNS v"
  using assms u64_diff_le [of "ai_BeforeNS v" "ai_DetectedMonoNS v"]
  by (auto simp: lookback_def Let_def)

lemma lookback_ge: "saved \<le> lookback saved v"
  by (simp add: lookback_def Let_def not_less)

text \<open>When a window may be begun, it is there, it is well formed and lies in the past.\<close>

lemma Begin_safe:
  assumes "scheduled cfg t t vs c" and "Deadline c = Some e" and "e \<le> t"
  obtains v start c' where "Begin c = Some ((v, start), c')"
    and "AutoIncident_Valid (Some v) (ai_EndMonoNS v)" and "start \<le> ai_EndMonoNS v"
    and "ai_DetectedMonoNS v \<le> ai_EndMonoNS v" and "ai_EndMonoNS v \<le> t"
proof -
  obtain v start c' where b: "Begin c = Some ((v, start), c')"
    using assms(2) by (auto simp: Deadline_def Begin_def Let_def split: option.splits)
  have inv: "controller_inv cfg t t c" by (rule scheduled_inv [OF assms(1)])
  note v = Begin_inv [OF inv assms(2,3) b]
  have "AutoIncident_Valid (Some v) (ai_EndMonoNS v)"
    using v window_ok_Valid [of cfg t v] inv unfolding controller_inv_def by blast
  moreover have "start \<le> lookback (co_lastSavedEnd c) v"
    using b by (rule Begin_Some) (simp add: straddling_start_le)
  then have "start \<le> ai_EndMonoNS v"
    using lookback_le [of "co_lastSavedEnd c" v] v by (auto simp: window_ok_def)
  ultimately show thesis using b v by (intro that) (auto simp: window_ok_def)
qed

section \<open>A history\<close>

text \<open>Two critical block requests are seen at 1000; the window closes ten seconds later.\<close>

definition ex_trigger :: Metric where
  "ex_trigger = zero_Metric\<lparr>mt_Family := ''block_io'', mt_StartMonoNS := 500, mt_EndMonoNS := 1000,
     mt_Critical := 2\<rparr>"

definition ex_detected :: Controller where
  "ex_detected = Observe ex_trigger 1000 (NewController Default [''block_io''])"

definition ex_closed :: Controller where
  "ex_closed = CollectedThrough 10000001500 (CollectedThrough 1000 ex_detected)"

lemma Default_valid: "Config_Validate Default = None"
  by (simp add: Config_Validate_def Resources_error_def Control_Validate_def CaptureLimits_Validate_def
      AutoCapture_Validate_def first_error_None first_bad_None bad_sensor_None Default_def limit_defs
      power_of_two_in_def IsAbs_def HasPrefix_def contains_nul_def Families_def)

lemma ex_detected_scheduled: "scheduled Default 1000 1000 [] ex_detected"
proof -
  have "in_range Default 1000" by code_simp
  moreover have "int64_thresholds Default" by code_simp
  ultimately have "scheduled Default 1000 1000 [] (NewController Default [''block_io''])"
    using Default_valid by (intro scheduled.start)
  then show ?thesis unfolding ex_detected_def
    by (rule scheduled.observe) code_simp+
qed

lemma ex_closed_scheduled: "scheduled Default 10000001500 10000001500 [] ex_closed"
proof -
  have "scheduled Default 1000 1000 [] (CollectedThrough 1000 ex_detected)"
    by (rule scheduled.collected [OF ex_detected_scheduled])
  then have "scheduled Default 1000 10000001500 [] (CollectedThrough 1000 ex_detected)"
    by (rule scheduled.poll) code_simp+
  then show ?thesis unfolding ex_closed_def by (rule scheduled.collected)
qed

section \<open>Properties\<close>

text \<open>C16: every automatic incident is well formed.  Whenever the recorder loop may begin a window
  (its deadline lies before the last complete poll), \<open>Begin\<close> does not
  dereference a missing window, the incident passes the reader's check
  \<open>Valid\<close> for the end of the capture, the window lies in the past, and the
  selected start is not after its end.\<close>
theorem begun_incident_valid:
  assumes "scheduled cfg t t vs c" and "Deadline c = Some e" and "e \<le> t"
  shows "\<exists>v start c'. Begin c = Some ((v, start), c') \<and> AutoIncident_Valid (Some v) (ai_EndMonoNS v)
    \<and> start \<le> ai_EndMonoNS v \<and> ai_EndMonoNS v \<le> t"
  using Begin_safe [OF assms] by metis

lemma begun_incident_valid_witness:
  "\<exists>v start c'. Begin ex_closed = Some ((v, start), c') \<and> AutoIncident_Valid (Some v) (ai_EndMonoNS v)
    \<and> start \<le> ai_EndMonoNS v \<and> ai_EndMonoNS v \<le> 10000001500"
  by (rule begun_incident_valid [OF ex_closed_scheduled, of 10000001000]) code_simp+

text \<open>C24: a saved window is not repeated.  The start \<open>Begin\<close> selects is not before the end of the
  last saved file, except to include one trigger interval that straddles the
  start it would otherwise have chosen.\<close>
theorem no_repeated_lookback:
  assumes "Begin c = Some ((v, start), c')"
  shows "start \<ge> co_lastSavedEnd c
    \<or> (\<exists>tr \<in> set (ai_Triggers v). start = at_FirstIntervalStartNS tr
         \<and> at_FirstIntervalStartNS tr < lookback (co_lastSavedEnd c) v
         \<and> lookback (co_lastSavedEnd c) v \<le> at_LastIntervalEndNS tr)"
  using assms
proof (rule Begin_Some)
  assume s: "start = straddling_start (lookback (co_lastSavedEnd c) v) (ai_Triggers v) (lookback (co_lastSavedEnd c) v)"
  show ?thesis
    using straddling_start_cases [of "lookback (co_lastSavedEnd c) v" "ai_Triggers v" "lookback (co_lastSavedEnd c) v"]
      lookback_ge [of "co_lastSavedEnd c" v]
    unfolding s by auto
qed

definition ex_repeat :: Controller where
  "ex_repeat = ex_closed\<lparr>co_lastSavedEnd := 700\<rparr>"

lemma no_repeated_lookback_witness:
  "snd (fst (the (Begin ex_repeat))) = 500"
proof -
  have "Begin ex_repeat = Some ((fst (fst (the (Begin ex_repeat))), 500), snd (the (Begin ex_repeat)))"
    by code_simp
  from no_repeated_lookback [OF this] show ?thesis by code_simp
qed

text \<open>C25: trigger evidence is conserved.  After any history the number of detected triggers is the
  sum of the counts in the incidents handed out and in the open windows, and
  the difference to the coalesced ones is the number of those incidents (both
  modulo \<open>2^64\<close>).\<close>
theorem triggers_conserved:
  assumes "scheduled cfg q t vs c"
  shows "ah_Detected (co_health c) = sum_list (map incident_count (vs @ open_windows c))
    \<and> ah_Detected (co_health c) - ah_Coalesced (co_health c) = of_nat (length (vs @ open_windows c))"
proof -
  let ?h = "co_health c" and ?n = "of_nat (length (vs @ open_windows c)) :: u64"
  have d: "ah_Detected ?h = sum_list (map incident_count (vs @ open_windows c))"
    and n: "ah_Detected ?h = ah_Coalesced ?h + ?n"
    using scheduled_balanced [OF assms] unfolding balanced_def by blast+
  have "ah_Detected ?h - ah_Coalesced ?h = ?n" unfolding n by (rule add_diff_cancel_left')
  with d show ?thesis by blast
qed

lemma triggers_conserved_witness:
  "ah_Detected (co_health ex_closed) = 2 \<and> ah_Detected (co_health ex_closed) - ah_Coalesced (co_health ex_closed) = 1"
proof -
  have "sum_list (map incident_count ([] @ open_windows ex_closed)) = 2"
    and "length ([] @ open_windows ex_closed) = 1" by code_simp+
  with triggers_conserved [OF ex_closed_scheduled] show ?thesis by (metis of_nat_1)
qed

text \<open>triggers inside the first window do not extend it.  Observing a metric leaves the
  detection time and the end of an existing current window, and the time it was
  collected through, as they are.\<close>
theorem window_not_extended:
  assumes "co_current c = Some i"
  shows "\<exists>i'. co_current (Observe m now c) = Some i' \<and> ai_EndMonoNS i' = ai_EndMonoNS i
    \<and> ai_DetectedMonoNS i' = ai_DetectedMonoNS i
    \<and> co_currentReady (Observe m now c) = co_currentReady c"
  using assms by (cases rule: Observe_cases [of m now c]) auto

lemma window_not_extended_witness:
  "\<exists>i'. co_current (Observe (ex_trigger\<lparr>mt_EndMonoNS := 2000\<rparr>) 2000 ex_detected) = Some i'
     \<and> ai_EndMonoNS i' = 10000001000"
proof -
  have "co_current ex_detected = Some (the (co_current ex_detected))"
    and "ai_EndMonoNS (the (co_current ex_detected)) = 10000001000" by code_simp+
  with window_not_extended [of ex_detected "the (co_current ex_detected)"] show ?thesis by metis
qed

end
