(* ===== verification/Clock.thy ===== *)
theory Clock
  imports Model
begin

text \<open>
  The recording clock (\<open>internal/app/clock.go\<close> and \<open>clock_linux.go\<close>): sampling of
  boot time and wall time together, and the tracker that anchors presentation
  to the last sample and reports jumps of the wall clock.  The kernel's clocks
  are parameters: \<open>boot n\<close> and \<open>real n\<close> are the results of the \<open>n\<close>-th read.
\<close>

section \<open>Tracking\<close>

definition clockDiscontinuityThreshold :: Duration where
  "clockDiscontinuityThreshold = 2 * Second"

record clockSample =
  cs_bootNS :: u64
  cs_wall :: Time

record clockTracker =
  ck_host :: Host
  ck_last :: clockSample
  ck_changes :: u64
  ck_latest :: "ClockDiscontinuity option"

definition newClockTracker :: "Host \<Rightarrow> clockTracker" where
  "newClockTracker host =
     \<lparr>ck_host = host, ck_last = \<lparr>cs_bootNS = ho_AnchorMonoNS host, cs_wall = ho_AnchorWall host\<rparr>,
      ck_changes = 0, ck_latest = None\<rparr>"

text \<open>The change of the wall clock against boot time, as \<open>time.Duration\<close>s.\<close>

definition offset_change :: "clockSample \<Rightarrow> clockSample \<Rightarrow> Duration" where
  "offset_change prev sample =
     (let bootElapsed = sint (cs_bootNS sample - cs_bootNS prev);
          wallElapsed = time_sub (cs_wall sample) (cs_wall prev)
      in i64 (wallElapsed - bootElapsed))"

definition clock_observe ::
  "clockSample \<Rightarrow> clockTracker \<Rightarrow> (go_error + ClockDiscontinuity option) \<times> clockTracker" where
  "clock_observe sample t =
     (if cs_bootNS sample < cs_bootNS (ck_last t) then
        (Inl (Errorf (''CLOCK_BOOTTIME moved backward from '' @ show_u64 (cs_bootNS (ck_last t))
           @ '' to '' @ show_u64 (cs_bootNS sample))), t)
      else
        let change = offset_change (ck_last t) sample;
            (discontinuity, t1) =
              (if clockDiscontinuityThreshold < change \<or> change < - clockDiscontinuityThreshold then
                 let step = \<lparr>cd_DetectedBootNS = cs_bootNS sample, cd_DetectedAt = cs_wall sample,
                             cd_OffsetChangeNS = change\<rparr>
                 in (Some step, t\<lparr>ck_changes := ck_changes t + 1, ck_latest := Some step\<rparr>)
               else (None, t))
        in (Inr discontinuity,
            t1\<lparr>ck_last := sample,
               ck_host := (ck_host t1)\<lparr>ho_AnchorMonoNS := cs_bootNS sample,
                 ho_AnchorWall := cs_wall sample\<rparr>\<rparr>))"

section \<open>Sampling\<close>

record sampling =
  sm_best :: clockSample
  sm_bestSpan :: u64

definition zero_sample :: clockSample where
  "zero_sample = \<lparr>cs_bootNS = 0, cs_wall = 0\<rparr>"

text \<open>
  One round of the loop of \<open>sampleClocks\<close> reads boot time, real time and boot
  time again; \<open>n\<close> is the number of rounds before it.
\<close>

definition sample_round ::
  "(nat \<Rightarrow> go_error + u64) \<Rightarrow> (nat \<Rightarrow> go_error + Time) \<Rightarrow> nat \<Rightarrow> sampling \<Rightarrow> go_error + sampling" where
  "sample_round boot real n st =
     (case boot (2 * n) of
        Inl e \<Rightarrow> Inl e
      | Inr first \<Rightarrow>
          (case real n of
             Inl e \<Rightarrow> Inl e
           | Inr wall \<Rightarrow>
               (case boot (2 * n + 1) of
                  Inl e \<Rightarrow> Inl e
                | Inr last_b \<Rightarrow>
                    if last_b < first then Inl (Errorf ''CLOCK_BOOTTIME moved backward during sampling'')
                    else
                      let span = last_b - first
                      in Inr (if span < sm_bestSpan st
                              then \<lparr>sm_best = \<lparr>cs_bootNS = first + span div 2, cs_wall = wall\<rparr>,
                                    sm_bestSpan = span\<rparr>
                              else st))))"

definition close_enough :: u64 where
  "close_enough = to_u64 (50 * Millisecond)"

fun sample_rounds ::
  "(nat \<Rightarrow> go_error + u64) \<Rightarrow> (nat \<Rightarrow> go_error + Time) \<Rightarrow> nat \<Rightarrow> nat \<Rightarrow> sampling
    \<Rightarrow> go_error + clockSample" where
  "sample_rounds boot real n 0 st = Inr (sm_best st)"
| "sample_rounds boot real n (Suc k) st =
     (case sample_round boot real n st of
        Inl e \<Rightarrow> Inl e
      | Inr st' \<Rightarrow>
          if sm_bestSpan st' \<le> close_enough then Inr (sm_best st')
          else sample_rounds boot real (Suc n) k st')"

definition sampleClocks ::
  "(nat \<Rightarrow> go_error + u64) \<Rightarrow> (nat \<Rightarrow> go_error + Time) \<Rightarrow> go_error + clockSample" where
  "sampleClocks boot real = sample_rounds boot real 0 3 \<lparr>sm_best = zero_sample, sm_bestSpan = - 1\<rparr>"

section \<open>Facts about the tracker\<close>

lemma clock_observe_ok:
  assumes "clock_observe sample t = (Inr d, t')"
  shows "cs_bootNS (ck_last t) \<le> cs_bootNS sample" and "ck_last t' = sample"
    and "ho_AnchorMonoNS (ck_host t') = cs_bootNS sample" and "ho_AnchorWall (ck_host t') = cs_wall sample"
    and "ho_ClockSource (ck_host t') = ho_ClockSource (ck_host t)"
  using assms by (auto simp: clock_observe_def Let_def not_less split: if_splits prod.splits)

text \<open>A host whose clock is anchored.\<close>

definition anchored :: "Host \<Rightarrow> bool" where
  "anchored h \<longleftrightarrow> ValidateClock h = None"

lemma clock_observe_anchored:
  assumes "clock_observe sample t = (Inr d, t')" and "anchored (ck_host t)" and "cs_wall sample \<noteq> 0"
  shows "anchored (ck_host t')"
  using clock_observe_ok [OF assms(1)] assms(2,3)
  by (auto simp: anchored_def ValidateClock_def split: if_splits)

section \<open>Facts about sampling\<close>

text \<open>
  A sample taken in a round before \<open>n\<close>, between its two boot-time reads and half
  their distance from the first, with the least distance of all these rounds.
\<close>

definition bracketed :: "(nat \<Rightarrow> go_error + u64) \<Rightarrow> (nat \<Rightarrow> go_error + Time) \<Rightarrow> nat \<Rightarrow> sampling \<Rightarrow> bool" where
  "bracketed boot real n st \<longleftrightarrow>
     (\<exists>k < n. \<exists>a b. boot (2 * k) = Inr a \<and> boot (2 * k + 1) = Inr b \<and> real k = Inr (cs_wall (sm_best st))
        \<and> sm_bestSpan st = b - a \<and> a \<le> cs_bootNS (sm_best st) \<and> cs_bootNS (sm_best st) \<le> b
        \<and> cs_bootNS (sm_best st) - a = (b - a) div 2)
   \<and> (\<forall>j < n. \<forall>a b. boot (2 * j) = Inr a \<longrightarrow> boot (2 * j + 1) = Inr b \<longrightarrow> sm_bestSpan st \<le> b - a)"

lemma u64_half_le: "(s::u64) div 2 \<le> s"
  by (simp add: word_le_nat_alt unat_div)

lemma u64_below_top: "(b::u64) < 2 ^ 63 \<Longrightarrow> a \<le> b \<Longrightarrow> b - a < - 1"
  using u64_diff_le [of a b] order.strict_trans1 [of "b - a" b "2 ^ 63"]
    order.strict_trans [of "b - a" "2 ^ 63 :: u64" "- 1"] by simp

lemma sample_round_bracketed:
  assumes "sample_round boot real n st = Inr st'"
    and "n = 0 \<and> sm_bestSpan st = - 1 \<or> bracketed boot real n st"
    and "\<And>i t. boot i = Inr t \<Longrightarrow> t < 2 ^ 63"
  shows "bracketed boot real (Suc n) st'"
proof -
  obtain a w b where r: "boot (2 * n) = Inr a" "real n = Inr w" "boot (2 * n + 1) = Inr b" "a \<le> b"
    using assms(1) by (auto simp: sample_round_def not_less split: sum.splits if_splits)
  have mid: "a \<le> a + (b - a) div 2" "a + (b - a) div 2 \<le> b"
    using r(4) u64_half_le [of "b - a"] by (auto intro: u64_arith)
  have top: "b - a < - 1" using u64_below_top assms(3) r(3,4) by blast
  show ?thesis
  proof (cases "b - a < sm_bestSpan st")
    case True
    with assms(1) r have st': "st' = \<lparr>sm_best = \<lparr>cs_bootNS = a + (b - a) div 2, cs_wall = w\<rparr>, sm_bestSpan = b - a\<rparr>"
      by (auto simp: sample_round_def Let_def split: if_splits)
    have least: "b - a \<le> y - x" if "j < Suc n" "boot (2 * j) = Inr x" "boot (2 * j + 1) = Inr y" for j x y
    proof (cases "j = n")
      case False
      with that assms(2) have "sm_bestSpan st \<le> y - x" unfolding bracketed_def by (metis less_SucE not_less0)
      with True show ?thesis by (rule order.strict_implies_order [OF order.strict_trans2])
    qed (use that r in simp)
    show ?thesis
      unfolding bracketed_def st' using r mid least by (intro conjI exI [of _ n]) auto
  next
    case False
    with assms(1) r have st': "st' = st" by (auto simp: sample_round_def Let_def split: if_splits)
    have "\<not> sm_bestSpan st = - 1" using False top by auto
    with assms(2) have old: "bracketed boot real n st" by blast
    have "sm_bestSpan st \<le> b - a" using False by simp
    with old r show ?thesis
      unfolding bracketed_def st' by (metis (no_types, opaque_lifting) Inr_inject less_SucE less_SucI)
  qed
qed

text \<open>The loop ends early when the span is small enough.\<close>

lemma sample_rounds_bracketed:
  "sample_rounds boot real n k st = Inr s \<Longrightarrow> 0 < n + k \<Longrightarrow>
   n = 0 \<and> sm_bestSpan st = - 1 \<or> bracketed boot real n st \<Longrightarrow>
   (\<And>i t. boot i = Inr t \<Longrightarrow> t < 2 ^ 63) \<Longrightarrow>
   \<exists>st' m. sm_best st' = s \<and> m \<le> n + k \<and> bracketed boot real m st' \<and> (m = n + k \<or> sm_bestSpan st' \<le> close_enough)"
proof (induction k arbitrary: n st)
  case 0
  then show ?case by (intro exI [of _ st] exI [of _ n]) auto
next
  case (Suc k)
  obtain st1 where r: "sample_round boot real n st = Inr st1"
    using Suc.prems(1) by (auto split: sum.splits)
  note b = sample_round_bracketed [OF r Suc.prems(3,4)]
  show ?case
  proof (cases "sm_bestSpan st1 \<le> close_enough")
    case True
    with Suc.prems(1) r have "sm_best st1 = s" by simp
    with b True show ?thesis by (intro exI [of _ st1] exI [of _ "Suc n"]) simp
  next
    case False
    with Suc.prems(1) r have "sample_rounds boot real (Suc n) k st1 = Inr s" by simp
    from Suc.IH [OF this] b Suc.prems(4) show ?thesis by simp
  qed
qed

section \<open>Properties\<close>

text \<open>the presentation anchor is the last sample.  After an accepted sample the boot time of
  the sample is presented as its wall time, whatever the clock did before; a
  sample that goes back in boot time is rejected and changes nothing.\<close>
theorem clock_anchor_tracks:
  "(\<forall>d t'. clock_observe sample t = (Inr d, t') \<longrightarrow>
      Host_Wall (ck_host t') (cs_bootNS sample) = cs_wall sample
      \<and> cs_bootNS (ck_last t) \<le> cs_bootNS (ck_last t')
      \<and> (d = None \<longrightarrow> ck_latest t' = ck_latest t \<and> ck_changes t' = ck_changes t)
      \<and> (d \<noteq> None \<longrightarrow> ck_latest t' = d \<and> ck_changes t' = ck_changes t + 1))
   \<and> (\<forall>e t'. clock_observe sample t = (Inl e, t') \<longrightarrow> t' = t)"
  by (auto simp: clock_observe_def Let_def Host_Wall_def i64_def not_less split: if_splits prod.splits)

definition ex_tracker :: clockTracker where
  "ex_tracker = newClockTracker \<lparr>ho_Hostname = ''h'', ho_Kernel = ''6.8'', ho_Architecture = ''amd64'',
     ho_BootID = ''b'', ho_ClockSource = ''boottime'', ho_AnchorMonoNS = 100, ho_AnchorWall = 5000\<rparr>"

text \<open>Three seconds of boot time and ten seconds of wall time later.\<close>

definition ex_step :: clockSample where
  "ex_step = \<lparr>cs_bootNS = 3000000100, cs_wall = 10000005000\<rparr>"

lemma clock_anchor_tracks_witness:
  "\<exists>d. clock_observe ex_step ex_tracker = (Inr (Some d), snd (clock_observe ex_step ex_tracker))
     \<and> cd_OffsetChangeNS d = 7 * Second
     \<and> Host_Wall (ck_host (snd (clock_observe ex_step ex_tracker))) 3000000100 = 10000005000"
proof -
  let ?d = "\<lparr>cd_DetectedBootNS = 3000000100, cd_DetectedAt = 10000005000, cd_OffsetChangeNS = 7 * Second\<rparr>"
  have e: "clock_observe ex_step ex_tracker = (Inr (Some ?d), snd (clock_observe ex_step ex_tracker))"
    by code_simp
  moreover have "Host_Wall (ck_host (snd (clock_observe ex_step ex_tracker))) (cs_bootNS ex_step) = cs_wall ex_step"
    using clock_anchor_tracks [of ex_step ex_tracker] e by blast
  ultimately show ?thesis by (intro exI [of _ ?d]) (simp add: ex_step_def)
qed

text \<open>a sampled pair of clocks is close.  When \<open>sampleClocks\<close> succeeds (boot time being an
  \<open>int64\<close> of nanoseconds, as the kernel returns it), one of at most three rounds read
  boot time \<open>a\<close>, the wall time of the result, and boot time \<open>b\<close>; the boot time
  of the result is \<open>a\<close> plus half their distance, and either that distance is at
  most 50 ms or no round of the three had a smaller one.\<close>
theorem sample_bracketed:
  assumes "sampleClocks boot real = Inr s" and "\<forall>i t. boot i = Inr t \<longrightarrow> t < 2 ^ 63"
  shows "\<exists>k < 3. \<exists>a b. boot (2 * k) = Inr a \<and> real k = Inr (cs_wall s) \<and> boot (2 * k + 1) = Inr b
      \<and> a \<le> cs_bootNS s \<and> cs_bootNS s \<le> b \<and> cs_bootNS s - a = (b - a) div 2
      \<and> (b - a \<le> to_u64 (50 * Millisecond)
         \<or> (\<forall>j < 3. \<forall>x y. boot (2 * j) = Inr x \<longrightarrow> boot (2 * j + 1) = Inr y \<longrightarrow> b - a \<le> y - x))"
proof -
  obtain st m where "sm_best st = s" "m \<le> 3" "bracketed boot real m st" "m = 3 \<or> sm_bestSpan st \<le> close_enough"
    using sample_rounds_bracketed [of boot real 0 3 "\<lparr>sm_best = zero_sample, sm_bestSpan = - 1\<rparr>" s] assms
    by (auto simp: sampleClocks_def)
  note st = this
  then obtain k a b where k: "k < m" "boot (2 * k) = Inr a" "boot (2 * k + 1) = Inr b" "real k = Inr (cs_wall s)"
    and span: "sm_bestSpan st = b - a" and "a \<le> cs_bootNS s" "cs_bootNS s \<le> b" "cs_bootNS s - a = (b - a) div 2"
    unfolding bracketed_def by blast
  moreover have "b - a \<le> to_u64 (50 * Millisecond)
      \<or> (\<forall>j < 3. \<forall>x y. boot (2 * j) = Inr x \<longrightarrow> boot (2 * j + 1) = Inr y \<longrightarrow> b - a \<le> y - x)"
    using st(3,4) unfolding bracketed_def span close_enough_def by blast
  moreover have "k < 3" using k(1) st(2) by simp
  ultimately show ?thesis by blast
qed

lemma sample_bracketed_witness:
  "\<exists>k < 3. \<exists>a b. Inr (of_nat (2 * k) * 10 mod 2 ^ 63) = (Inr a :: go_error + u64)
      \<and> Inr (of_nat (2 * k + 1) * 10 mod 2 ^ 63) = (Inr b :: go_error + u64) \<and> a \<le> 5 \<and> 5 \<le> b"
proof -
  let ?boot = "\<lambda>n. Inr (of_nat n * 10 mod 2 ^ 63) :: go_error + u64"
  let ?real = "\<lambda>n. Inr 77 :: go_error + Time"
  have r: "sampleClocks ?boot ?real = Inr \<lparr>cs_bootNS = 5, cs_wall = 77\<rparr>" by code_simp
  have "t < 2 ^ 63" if "?boot i = Inr t" for i t
  proof -
    have "t = of_nat i * 10 mod 2 ^ 63" using that by simp
    then show ?thesis using word_mod_less_divisor [of "2 ^ 63 :: u64" "of_nat i * 10"] by simp
  qed
  then have i: "\<forall>i t. ?boot i = Inr t \<longrightarrow> t < 2 ^ 63" by blast
  from sample_bracketed [OF r i] show ?thesis unfolding clockSample.simps by blast
qed

end
