(* ===== verification/Engine.thy ===== *)
theory Engine
  imports Recorder_Theorems Controller_Inv Clock Settings
begin

text \<open>
  The application event loop (\<open>internal/app/app.go\<close> and \<open>automatic.go\<close>): one
  goroutine owns the recorder, the clock tracker and the incident controller;
  sensor readers put events into a bounded queue, clients ask queries, and one
  writer goroutine saves automatic captures.  A round of the loop is one case of
  its \<open>select\<close> followed by the automatic progress; the goroutines around it are
  steps of the relation \<open>running\<close>.

  What the loop reads from outside in one round is a record \<open>Env\<close>: the results
  of the successive clock reads, the clock sample, and the \<open>Sensor\<close> interface
  (\<open>Health\<close> before and after, \<open>Snapshot\<close>).  Logging is not modelled.
\<close>

section \<open>State\<close>

record autoJob =
  jb_capture :: Capture

record autoResult =
  ar_path :: string
  ar_at :: Time
  ar_err :: "go_error option"

text \<open>
  \<open>automatic\<close>: the channels \<open>jobs\<close> and \<open>results\<close> have capacity one; \<open>au_writer\<close>
  is the job the writer goroutine holds, and \<open>au_sending\<close> the result it has
  after it released the job and before it sent the result.  The release of a
  job is the release of the engine's snapshot lease.
\<close>

record automatic =
  au_controller :: Controller
  au_timer :: "Duration option"
  au_jobs :: "autoJob list"
  au_writer :: "autoJob option"
  au_sending :: "autoResult option"
  au_results :: "autoResult list"
  au_retrying :: bool
  au_writingSince :: u64
  au_overdueLogged :: bool

record Engine =
  en_Config :: Config
  en_host :: Host
  en_sensors :: "string list"
  en_unavailable :: "SensorHealth list"
  en_ingress :: "Event list"
  en_ingressDrops :: u64
  en_SnapshotFailures :: u64
  en_snapshotBusy :: bool
  en_metadataFailures :: u64
  en_recorder :: Recorder
  en_tracker :: clockTracker
  en_now :: u64
  en_previous :: u64
  en_disabled :: "string list"
  en_auto :: "automatic option"

record Env =
  ev_clock :: "nat \<Rightarrow> go_error + u64"
  ev_sample :: "go_error + clockSample"
  ev_health :: "string \<Rightarrow> SensorHealth"
  ev_health_after :: "string \<Rightarrow> SensorHealth"
  ev_snapshot :: "string \<Rightarrow> u64 \<Rightarrow> u64 \<Rightarrow> go_error + Metric"

record Result =
  qr_Lease :: bool
  qr_Health :: Health
  qr_Capture :: "Capture option"
  qr_Err :: "go_error option"

definition error_result :: "go_error \<Rightarrow> Result" where
  "error_result err = \<lparr>qr_Lease = False, qr_Health = zero_Health, qr_Capture = None, qr_Err = Some err\<rparr>"

section \<open>Settings of the recording\<close>

definition Config_Settings :: "Config \<Rightarrow> RecordingSettings" where
  "Config_Settings c =
     (let r = cf_Resources c
      in \<lparr>rs_PollIntervalNS = to_u64 (re_PollInterval r), rs_SegmentIntervalNS = to_u64 (re_SegmentInterval r),
          rs_IngressEvents = re_IngressEvents r, rs_MetadataEntries = re_MetadataEntries r,
          rs_BlockTrackingEntries = re_BlockTrackingEntries r,
          rs_SchedulerTrackingEntries = re_SchedulerTrackingEntries r, rs_RingBytes = re_RingBytes r,
          rs_HistoryNS = to_u64 (cf_History c), rs_MaxMemory = cf_RecorderBudgetBytes c,
          rs_BlockThresholdNS = to_u64 (cf_BlockThreshold c),
          rs_SchedulerThresholdNS = to_u64 (cf_SchedulerThreshold c),
          rs_BlockCriticalNS = to_u64 (cf_BlockCritical c),
          rs_SchedulerCriticalNS = to_u64 (cf_SchedulerCritical c), rs_DetailRate = cf_DetailRate c,
          rs_Enabled = cf_Enabled c, rs_Strict = cf_Strict c\<rparr>)"

definition Engine_Settings :: "Engine \<Rightarrow> RecordingSettings" where
  "Engine_Settings e = Config_Settings (en_Config e)"

section \<open>Automatic writing\<close>

text \<open>\<open>beginSnapshot\<close> takes the lease, its closure gives it back.\<close>

definition beginSnapshot :: "Engine \<Rightarrow> (bool \<times> Engine)" where
  "beginSnapshot e = (if en_snapshotBusy e then (False, e) else (True, e\<lparr>en_snapshotBusy := True\<rparr>))"

definition releaseSnapshot :: "Engine \<Rightarrow> Engine" where
  "releaseSnapshot e = e\<lparr>en_snapshotBusy := False\<rparr>"

definition RecordSnapshotFailure :: "Engine \<Rightarrow> Engine" where
  "RecordSnapshotFailure e = e\<lparr>en_SnapshotFailures := en_SnapshotFailures e + 1\<rparr>"

definition observeWriter :: "Config \<Rightarrow> u64 \<Rightarrow> automatic \<Rightarrow> automatic" where
  "observeWriter c now a =
     (if au_writingSince a = 0 \<or> now < au_writingSince a \<or> au_overdueLogged a
         \<or> now - au_writingSince a < to_u64 (ac_WriteTimeout (cf_AutoCapture c)) then a
      else a\<lparr>au_overdueLogged := True\<rparr>)"

definition automatic_health :: "Config \<Rightarrow> u64 \<Rightarrow> automatic \<Rightarrow> AutoCaptureHealth \<times> automatic" where
  "automatic_health c now a0 =
     (let a = observeWriter c now a0; h = Controller_Health (au_controller a)
      in if au_writingSince a \<noteq> 0 \<and> au_writingSince a \<le> now then
           let w = now - au_writingSince a; t = to_u64 (ac_WriteTimeout (cf_AutoCapture c))
           in (h\<lparr>ah_WritingForNS := w, ah_WriteTimeoutNS := t, ah_WriteOverdue := t \<le> w\<rparr>, a)
         else (h, a))"

text \<open>\<open>finish\<close> on the result of the writer.\<close>

definition automatic_finish :: "autoResult \<Rightarrow> Engine \<Rightarrow> Engine" where
  "automatic_finish res e =
     (case en_auto e of
        None \<Rightarrow> e
      | Some a \<Rightarrow>
          let a' = a\<lparr>au_writingSince := 0, au_overdueLogged := False,
                     au_controller := Finish (ar_path res) (ar_at res) (ar_err res) (au_controller a)\<rparr>;
              e' = e\<lparr>en_auto := Some a'\<rparr>
          in if ar_err res \<noteq> None then RecordSnapshotFailure e' else e')"

section \<open>Health\<close>

text \<open>The closure \<open>health\<close>, with the state it updates (\<open>observeWriter\<close> marks an overdue writer).\<close>

definition span_since :: "u64 \<Rightarrow> u64 \<Rightarrow> u64" where
  "span_since now from_ns = (if from_ns \<le> now then now - from_ns else 0)"

definition loop_health :: "Env \<Rightarrow> Engine \<Rightarrow> Health \<times> Engine" where
  "loop_health env e =
     (let h = Recorder_Health (en_recorder e); now = en_now e;
          h = h\<lparr>he_RetainedSpanNS := span_since now (he_RetainedFromNS h),
                he_DetailedSpanNS := span_since now (he_DetailedFromNS h)\<rparr>;
          h = (if ho_ClockSource (en_host e) = ''boottime'' then
                 h\<lparr>he_ObservedAt := Some (cs_wall (ck_last (en_tracker e))),
                   he_ClockChanges := ck_changes (en_tracker e),
                   he_LastClockChange := ck_latest (en_tracker e)\<rparr>
               else h);
          (h, e) = (case en_auto e of
             None \<Rightarrow> (h, e)
           | Some a \<Rightarrow>
               let (ah, a') = automatic_health (en_Config e) now a;
                   ah = (if now < ah_PendingUntilNS ah
                         then ah\<lparr>ah_PendingForNS := ah_PendingUntilNS ah - now\<rparr> else ah)
               in (h\<lparr>he_AutoCapture := Some ah\<rparr>, e\<lparr>en_auto := Some a'\<rparr>))
      in (h\<lparr>he_MetadataFailures := en_metadataFailures e, he_IngressDrops := en_ingressDrops e,
            he_SnapshotFailures := en_SnapshotFailures e,
            he_Sensors := sort_key sh_Name (en_unavailable e @ map (ev_health_after env) (en_sensors e))\<rparr>, e))"

section \<open>Collecting\<close>

definition with_controller :: "(Controller \<Rightarrow> Controller) \<Rightarrow> Engine \<Rightarrow> Engine" where
  "with_controller f e =
     e\<lparr>en_auto := map_option (\<lambda>a. a\<lparr>au_controller := f (au_controller a)\<rparr>) (en_auto e)\<rparr>"

text \<open>A failed sensor: recorded as disabled, its triggers no longer expected, its maps closed.\<close>

definition disable :: "string \<Rightarrow> Engine \<Rightarrow> Engine" where
  "disable s e = with_controller (Unavailable s) (e\<lparr>en_disabled := s # en_disabled e\<rparr>)"

definition record_metric :: "Metric \<Rightarrow> u64 \<Rightarrow> Engine \<Rightarrow> Engine option" where
  "record_metric m end_ns e =
     map_option (\<lambda>(ok, r). (with_controller (Observe m end_ns) e)\<lparr>en_recorder := r\<rparr>)
       (Recorder_Metric m end_ns (en_recorder e))"

text \<open>One round of the loop of \<open>collect\<close>; \<open>None\<close> would be a panic of the recorder.\<close>

definition collect_sensor :: "Env \<Rightarrow> u64 \<Rightarrow> string \<Rightarrow> Engine \<Rightarrow> (go_error option \<times> Engine) option" where
  "collect_sensor env end_ns s e =
     (if s \<in> set (en_disabled e) then Some (None, e)
      else
        let h = ev_health env s; snap = ev_snapshot env s (en_previous e) end_ns
        in (case (case snap of Inr m \<Rightarrow> record_metric m end_ns e | Inl _ \<Rightarrow> Some e) of
              None \<Rightarrow> None
            | Some e1 \<Rightarrow>
                if sh_State h \<noteq> ''healthy'' then
                  Some (if cf_Strict (en_Config e)
                        then Some (Errorf (''strict mode: '' @ sh_Name h @ '' failed permanently: '' @ sh_Reason h))
                        else None, disable s e1)
                else
                  (case snap of
                     Inl er \<Rightarrow>
                       Some (if cf_Strict (en_Config e)
                             then Some (Wrapf (''strict mode: '' @ s @ '' failed permanently'') er)
                             else None, disable s e1)
                   | Inr _ \<Rightarrow> Some (None, e1))))"

fun collect_sensors :: "Env \<Rightarrow> u64 \<Rightarrow> string list \<Rightarrow> Engine \<Rightarrow> (go_error option \<times> Engine) option" where
  "collect_sensors env end_ns [] e = Some (None, e)"
| "collect_sensors env end_ns (s # ss) e =
     (case collect_sensor env end_ns s e of
        None \<Rightarrow> None
      | Some (Some err, e') \<Rightarrow> Some (Some err, e')
      | Some (None, e') \<Rightarrow> collect_sensors env end_ns ss e')"

definition collect :: "Env \<Rightarrow> u64 \<Rightarrow> Engine \<Rightarrow> (go_error option \<times> Engine) option" where
  "collect env end_ns e =
     (case collect_sensors env end_ns (en_sensors e) e of
        None \<Rightarrow> None
      | Some (Some err, e') \<Rightarrow> Some (Some err, e')
      | Some (None, e') \<Rightarrow>
          if length (en_disabled e') = length (en_sensors e')
          then Some (Some (Errorf ''no active sensors remain after permanent failure''), e')
          else Some (None, e'\<lparr>en_previous := end_ns\<rparr>))"

section \<open>Draining the queue\<close>

text \<open>The entries queued when the loop starts, each with a clock read of its own.  Read 0 is the one
  of \<open>observeClock\<close> and of the detail path, so the drain starts with read 1.\<close>

fun drain_events :: "Env \<Rightarrow> nat \<Rightarrow> Event list \<Rightarrow> Engine \<Rightarrow> (go_error option \<times> Engine) option" where
  "drain_events env n [] e =
     (case ev_clock env n of
        Inl err \<Rightarrow> Some (Some err, e) | Inr t \<Rightarrow> Some (None, e\<lparr>en_now := t\<rparr>))"
| "drain_events env n (v # vs) e =
     (case ev_clock env n of
        Inl err \<Rightarrow> Some (Some err, e\<lparr>en_ingress := vs\<rparr>)
      | Inr t \<Rightarrow>
          (case Recorder_Event v t (en_recorder e) of
             None \<Rightarrow> None
           | Some (ok, r) \<Rightarrow>
               drain_events env (Suc n) vs (e\<lparr>en_ingress := vs, en_now := t, en_recorder := r\<rparr>)))"

definition drain :: "Env \<Rightarrow> Engine \<Rightarrow> (go_error option \<times> Engine) option" where
  "drain env e = drain_events env 1 (en_ingress e) e"

text \<open>\<open>observeClock\<close>.\<close>

definition observeClock :: "Env \<Rightarrow> Engine \<Rightarrow> go_error option \<times> Engine" where
  "observeClock env e =
     (if ho_ClockSource (en_host e) \<noteq> ''boottime'' then
        (case ev_clock env 0 of Inl err \<Rightarrow> (Some err, e) | Inr t \<Rightarrow> (None, e\<lparr>en_now := t\<rparr>))
      else
        (case ev_sample env of
           Inl err \<Rightarrow> (Some err, e)
         | Inr s \<Rightarrow>
             (case clock_observe s (en_tracker e) of
                (Inl err, _) \<Rightarrow> (Some err, e)
              | (Inr _, t) \<Rightarrow> (None, e\<lparr>en_tracker := t, en_now := cs_bootNS s\<rparr>))))"

definition advance_recorder :: "Engine \<Rightarrow> Engine option" where
  "advance_recorder e = map_option (\<lambda>r. e\<lparr>en_recorder := r\<rparr>) (Advance (en_now e) (en_recorder e))"

section \<open>Automatic progress\<close>

text \<open>
  \<open>progress\<close>, run after every case of the loop but the detail path.  Sending the
  job cannot block: the channel is empty whenever the lease is free.
\<close>

definition automatic_capture :: "AutoIncident \<Rightarrow> u64 \<Rightarrow> Health \<Rightarrow> Engine \<Rightarrow> Capture" where
  "automatic_capture incident start h e =
     (let c = SnapshotWindow start (ai_EndMonoNS incident) (ck_host (en_tracker e))
                (h\<lparr>he_AutoCapture := None\<rparr>) ''ebpf'' (en_recorder e)
      in c\<lparr>cp_Manifest := (cp_Manifest c)\<lparr>mf_Settings := Engine_Settings e,
             mf_AutoIncident := Some incident\<rparr>\<rparr>)"

definition begin_writing :: "Env \<Rightarrow> automatic \<Rightarrow> Engine \<Rightarrow> Engine option" where
  "begin_writing env a e =
     (case Begin (au_controller a) of
        None \<Rightarrow> None
      | Some ((incident, start), ctl) \<Rightarrow>
          let e1 = e\<lparr>en_auto := Some (a\<lparr>au_retrying := False, au_controller := ctl,
                     au_writingSince := en_now e\<rparr>)\<rparr>;
              (h, e2) = loop_health env e1;
              c = automatic_capture incident start h e2
          in Some (e2\<lparr>en_auto := map_option (\<lambda>a. a\<lparr>au_jobs := au_jobs a @ [\<lparr>jb_capture = c\<rparr>]\<rparr>)
                    (en_auto e2)\<rparr>))"

definition progress :: "Env \<Rightarrow> Engine \<Rightarrow> Engine option" where
  "progress env e =
     (case en_auto e of
        None \<Rightarrow> Some e
      | Some a0 \<Rightarrow>
          let a1 = observeWriter (en_Config e) (en_now e) a0;
              a = a1\<lparr>au_controller := CollectedThrough (en_previous e) (au_controller a1)\<rparr>;
              put = (\<lambda>a. Some (e\<lparr>en_auto := Some a\<rparr>))
          in case Deadline (au_controller a) of
               None \<Rightarrow> put (a\<lparr>au_retrying := False\<rparr>)
             | Some end_ns \<Rightarrow>
                 if en_now e < end_ns then
                   put (a\<lparr>au_retrying := False, au_timer := Some (sint (end_ns - en_now e))\<rparr>)
                 else if en_previous e < end_ns then
                   put (a\<lparr>au_retrying := False, au_timer := Some 0\<rparr>)
                 else
                   (case beginSnapshot e of
                      (False, _) \<Rightarrow> put (a\<lparr>au_retrying := True, au_timer := Some AutoRetryInterval\<rparr>)
                    | (True, e1) \<Rightarrow> begin_writing env a e1))"

section \<open>The cases of the loop\<close>

datatype outcome = Loop | Return go_error

text \<open>A round: how it ends, what it replies to a query, and the state.\<close>

type_synonym round = "(outcome \<times> Result option \<times> Engine) option"

definition then_progress :: "Env \<Rightarrow> Result option \<Rightarrow> Engine \<Rightarrow> round" where
  "then_progress env reply e = map_option (\<lambda>e'. (Loop, reply, e')) (progress env e)"

definition handle_completed :: "Env \<Rightarrow> autoResult \<Rightarrow> Engine \<Rightarrow> round" where
  "handle_completed env res e =
     (case observeClock env e of
        (Some err, e1) \<Rightarrow> Some (Return err, None, e1)
      | (None, e1) \<Rightarrow> then_progress env None (automatic_finish res e1))"

definition handle_poll :: "Env \<Rightarrow> Engine \<Rightarrow> round" where
  "handle_poll env e =
     (case observeClock env e of
        (Some err, e1) \<Rightarrow> Some (Return err, None, e1)
      | (None, e1) \<Rightarrow>
          (case advance_recorder e1 of
             None \<Rightarrow> None
           | Some e2 \<Rightarrow>
               (case collect env (en_now e2) e2 of
                  None \<Rightarrow> None
                | Some (Some err, e3) \<Rightarrow> Some (Return err, None, e3)
                | Some (None, e3) \<Rightarrow> then_progress env None e3)))"

definition handle_tick :: "Env \<Rightarrow> Engine \<Rightarrow> round" where
  "handle_tick env e =
     (case observeClock env e of
        (Some err, e1) \<Rightarrow> Some (Return err, None, e1)
      | (None, e1) \<Rightarrow>
          if (case en_auto e1 of None \<Rightarrow> False | Some a \<Rightarrow> au_retrying a) then then_progress env None e1
          else
            (case drain env e1 of
               None \<Rightarrow> None
             | Some (Some err, e2) \<Rightarrow> Some (Return err, None, e2)
             | Some (None, e2) \<Rightarrow>
                 (case advance_recorder e2 of
                    None \<Rightarrow> None
                  | Some e3 \<Rightarrow>
                      (case collect env (en_now e3) e3 of
                         None \<Rightarrow> None
                       | Some (Some err, e4) \<Rightarrow> Some (Return err, None, e4)
                       | Some (None, e4) \<Rightarrow> then_progress env None e4))))"

text \<open>The detail path: no automatic progress.\<close>

definition handle_ingress :: "Env \<Rightarrow> Event \<Rightarrow> Engine \<Rightarrow> round" where
  "handle_ingress env v e =
     (case ev_clock env 0 of
        Inl err \<Rightarrow> Some (Return err, None, e)
      | Inr t \<Rightarrow>
          map_option (\<lambda>(ok, r). (Loop, None, e\<lparr>en_now := t, en_recorder := r\<rparr>))
            (Recorder_Event v t (en_recorder e)))"

text \<open>
  \<open>reply\<close>: when the client has gone (\<open>delivered\<close> is false) the lease of an
  undelivered capture comes back.
\<close>

definition reply :: "bool \<Rightarrow> Result \<Rightarrow> Engine \<Rightarrow> Result option \<times> Engine" where
  "reply delivered res e =
     (if delivered then (Some res, e)
      else (None, if qr_Lease res then releaseSnapshot e else e))"

definition query_error :: "Config \<Rightarrow> go_error" where
  "query_error c = Errorf (''snapshot window must be positive and at most configured history ''
     @ Duration_String (cf_History c))"

text \<open>The part of a query after the queue is drained and, for a capture, the sensors collected.\<close>

definition answer :: "Env \<Rightarrow> bool \<Rightarrow> Duration \<Rightarrow> Engine \<Rightarrow> round" where
  "answer env delivered last_d e =
     (let (h, e1) = loop_health env e
      in if last_d \<le> 0 then
           (let (res, e2) = reply delivered
                  \<lparr>qr_Lease = False, qr_Health = h, qr_Capture = None, qr_Err = None\<rparr> e1
            in then_progress env res e2)
         else
           (case beginSnapshot e1 of
              (False, _) \<Rightarrow>
                (let (res, e2) = reply delivered (error_result (Errorf ''a snapshot is already being written'')) e1
                 in then_progress env res e2)
            | (True, e2) \<Rightarrow>
                (case Snapshot last_d (en_now e2) (ck_host (en_tracker e2)) (h\<lparr>he_AutoCapture := None\<rparr>)
                        ''ebpf'' (en_recorder e2) of
                   None \<Rightarrow> None
                 | Some (c, r) \<Rightarrow>
                     let e3 = e2\<lparr>en_recorder := r\<rparr>;
                         c = c\<lparr>cp_Manifest := (cp_Manifest c)\<lparr>mf_Settings := Engine_Settings e3\<rparr>\<rparr>;
                         (res, e4) = reply delivered
                           \<lparr>qr_Lease = True, qr_Health = h, qr_Capture = Some c, qr_Err = None\<rparr> e3
                     in then_progress env res e4)))"

definition query_fails :: "bool \<Rightarrow> go_error \<Rightarrow> Engine \<Rightarrow> round" where
  "query_fails delivered err e =
     (let (res, e') = reply delivered (error_result err) e in Some (Return err, res, e'))"

definition handle_query :: "Env \<Rightarrow> bool \<Rightarrow> bool \<Rightarrow> Duration \<Rightarrow> Engine \<Rightarrow> round" where
  "handle_query env alive delivered last_d e =
     (if \<not> alive then Some (Loop, None, e)
      else
        (case observeClock env e of
           (Some err, e1) \<Rightarrow> Some (Return err, None, e1)
         | (None, e1) \<Rightarrow>
             (case advance_recorder e1 of
                None \<Rightarrow> None
              | Some e2 \<Rightarrow>
                  if last_d < 0 \<or> cf_History (en_Config e2) < last_d then
                    (let (res, e3) = reply delivered (error_result (query_error (en_Config e2))) e2
                     in Some (Loop, res, e3))
                  else
                    (case drain env e2 of
                       None \<Rightarrow> None
                     | Some (Some err, e3) \<Rightarrow> query_fails delivered err e3
                     | Some (None, e3) \<Rightarrow>
                         if 0 < last_d then
                           (case collect env (en_now e3) e3 of
                              None \<Rightarrow> None
                            | Some (Some err, e4) \<Rightarrow> query_fails delivered err e4
                            | Some (None, e4) \<Rightarrow> answer env delivered last_d e4)
                         else answer env delivered last_d e3))))"

text \<open>\<open>sink\<close>: the readers put details into the bounded queue or count a drop.\<close>

definition sink :: "Event \<Rightarrow> Engine \<Rightarrow> Engine" where
  "sink v e =
     (if int (length (en_ingress e)) < re_IngressEvents (cf_Resources (en_Config e))
      then e\<lparr>en_ingress := en_ingress e @ [v]\<rparr>
      else e\<lparr>en_ingressDrops := en_ingressDrops e + 1\<rparr>)"

section \<open>Start and end\<close>

definition newAutomatic :: "Config \<Rightarrow> string list \<Rightarrow> automatic option" where
  "newAutomatic c available =
     (if \<not> ac_Enabled (cf_AutoCapture c) then None
      else Some \<lparr>au_controller = NewController c available, au_timer = None, au_jobs = [],
             au_writer = None, au_sending = None, au_results = [], au_retrying = False, au_writingSince = 0,
             au_overdueLogged = False\<rparr>)"

text \<open>
  The loop over the opened sensors: a sensor is ready when its first \<open>Snapshot\<close>
  and its \<open>Start\<close> succeed (\<open>init s\<close> is the error of the two); strict mode returns
  the first failure, otherwise the sensor becomes unavailable.
\<close>

definition unavailable_sensor :: "string \<Rightarrow> go_error \<Rightarrow> SensorHealth" where
  "unavailable_sensor s err =
     \<lparr>sh_BookkeepingCompletions = 0, sh_BudgetPruneFailures = 0, sh_TCPResetCoverage = [], sh_KernelBytes = 0,
      sh_KernelBytesKnown = False, sh_Name = s, sh_State = ''unavailable'', sh_Reason = error_text err,
      sh_Loss = zero_Counters\<rparr>"

fun start_sensors :: "bool \<Rightarrow> (string \<Rightarrow> go_error option) \<Rightarrow> string list \<Rightarrow> SensorHealth list
    \<Rightarrow> go_error + string list \<times> SensorHealth list" where
  "start_sensors strict init [] missing = Inr ([], missing)"
| "start_sensors strict init (s # ss) missing =
     (case init s of
        None \<Rightarrow> map_sum id (map_prod ((#) s) id) (start_sensors strict init ss missing)
      | Some err \<Rightarrow>
          if strict then Inl (Wrapf (''strict mode: '' @ s @ '' failed initialization'') err)
          else start_sensors strict init ss (missing @ [unavailable_sensor s err]))"

text \<open>
  The state in which the loop starts: the clock is read first, then the sensors
  are started, and the recorder begins at that reading.
\<close>

definition start_loop :: "Config \<Rightarrow> Host \<Rightarrow> string list \<Rightarrow> SensorHealth list \<Rightarrow> clockTracker \<Rightarrow> u64 \<Rightarrow> Engine" where
  "start_loop c host ready unavailable tracker now =
     \<lparr>en_Config = c, en_host = host, en_sensors = ready, en_unavailable = unavailable,
      en_ingress = [], en_ingressDrops = 0, en_SnapshotFailures = 0, en_snapshotBusy = False,
      en_metadataFailures = 0,
      en_recorder = NewWithSegmentInterval (cf_History c) (cf_RecorderBudgetBytes c)
        (re_SegmentInterval (cf_Resources c)) now,
      en_tracker = tracker, en_now = now, en_previous = now, en_disabled = [],
      en_auto = newAutomatic c ready\<rparr>"

definition RunWithReady_start :: "Config \<Rightarrow> Host \<Rightarrow> string list \<Rightarrow> SensorHealth list \<Rightarrow> clockSample
    \<Rightarrow> (string \<Rightarrow> go_error option) \<Rightarrow> go_error + Engine" where
  "RunWithReady_start c host sensors missing sample init =
     (case clock_observe sample (newClockTracker host) of
        (Inl err, _) \<Rightarrow> Inl err
      | (Inr _, tracker) \<Rightarrow>
          (case start_sensors (cf_Strict c) init sensors missing of
             Inl err \<Rightarrow> Inl err
           | Inr (ready, unavailable) \<Rightarrow>
               if ready = [] then Inl (Errorf ''no sensor initialized successfully'')
               else Inr (start_loop c host ready unavailable tracker (cs_bootNS sample))))"

text \<open>
  \<open>close\<close>, after the writer goroutine has ended: a job it never received gives
  its lease back, and a result the loop never received is reported.
\<close>

definition automatic_close :: "Engine \<Rightarrow> Engine" where
  "automatic_close e =
     (case en_auto e of
        None \<Rightarrow> e
      | Some a \<Rightarrow>
          let e1 = (case au_jobs a of
                [] \<Rightarrow> e
              | j # js \<Rightarrow>
                  automatic_finish \<lparr>ar_path = [], ar_at = 0, ar_err = Some (Errorf ''context canceled'')\<rparr>
                    (releaseSnapshot (e\<lparr>en_auto := Some (a\<lparr>au_jobs := js\<rparr>)\<rparr>)))
          in (case au_results a of
                [] \<Rightarrow> e1
              | r # rs \<Rightarrow>
                  automatic_finish r (e1\<lparr>en_auto := map_option (\<lambda>a. a\<lparr>au_results := rs\<rparr>) (en_auto e1)\<rparr>)))"

section \<open>How the program runs\<close>

text \<open>
  What the environment promises in a round: boot time does not go backwards
  (within the round and against the last reading), wall time is after year 1,
  and a sensor's \<open>Snapshot\<close> is the metric of that sensor for exactly the
  interval asked for, with fewer than \<open>2^64\<close> triggers in an open window.
\<close>

definition clocks_ok :: "Config \<Rightarrow> Engine \<Rightarrow> Env \<Rightarrow> bool" where
  "clocks_ok cfg e env \<longleftrightarrow>
     (\<forall>s. ev_sample env = Inr s \<longrightarrow> en_now e \<le> cs_bootNS s \<and> cs_wall s \<noteq> 0 \<and> in_range cfg (cs_bootNS s))
   \<and> (\<forall>n t. ev_clock env n = Inr t \<longrightarrow> en_now e \<le> t \<and> in_range cfg t
        \<and> (\<forall>s. ev_sample env = Inr s \<longrightarrow> cs_bootNS s \<le> t)
        \<and> (\<forall>k u. n \<le> k \<longrightarrow> ev_clock env k = Inr u \<longrightarrow> t \<le> u))"

definition sensors_ok :: "Engine \<Rightarrow> Env \<Rightarrow> bool" where
  "sensors_ok e env \<longleftrightarrow>
     (\<forall>s a b m. ev_snapshot env s a b = Inr m \<longrightarrow> mt_Family m = s \<and> mt_StartMonoNS m = a
        \<and> mt_EndMonoNS m = b \<and> histogram_wf (mt_Histogram m)
        \<and> (\<forall>au. en_auto e = Some au \<longrightarrow> counts_fit m (au_controller au)))"

definition env_ok :: "Config \<Rightarrow> Engine \<Rightarrow> Env \<Rightarrow> bool" where
  "env_ok cfg e env \<longleftrightarrow> clocks_ok cfg e env \<and> sensors_ok e env"

definition set_automatic :: "automatic \<Rightarrow> Engine \<Rightarrow> Engine" where
  "set_automatic a e = e\<lparr>en_auto := Some a\<rparr>"

abbreviation leases :: "Result option \<Rightarrow> nat" where
  "leases res \<equiv> (case res of None \<Rightarrow> 0 | Some r \<Rightarrow> if qr_Lease r then 1 else 0)"

text \<open>
  \<open>running cfg e l\<close>: the loop has not returned and is between two rounds in
  state \<open>e\<close>, and clients hold \<open>l\<close> captures they have not released.
\<close>

inductive running :: "Config \<Rightarrow> Engine \<Rightarrow> nat \<Rightarrow> bool" for cfg :: Config where
  start: "Config_Validate cfg = None \<Longrightarrow> int64_thresholds cfg \<Longrightarrow> distinct sensors \<Longrightarrow>
    ho_ClockSource host = ''boottime'' \<Longrightarrow> ValidateClock host = None \<Longrightarrow>
    cs_wall sample \<noteq> 0 \<Longrightarrow> in_range cfg (cs_bootNS sample) \<Longrightarrow>
    RunWithReady_start cfg host sensors missing sample init = Inr e \<Longrightarrow> running cfg e 0"
| reader: "running cfg e l \<Longrightarrow> running cfg (sink v e) l"
| ingress: "running cfg e l \<Longrightarrow> env_ok cfg e env \<Longrightarrow> en_ingress e = v # vs \<Longrightarrow>
    handle_ingress env v (e\<lparr>en_ingress := vs\<rparr>) = Some (Loop, res, e') \<Longrightarrow> running cfg e' l"
| poll: "running cfg e l \<Longrightarrow> env_ok cfg e env \<Longrightarrow> handle_poll env e = Some (Loop, res, e') \<Longrightarrow>
    running cfg e' l"
| tick: "running cfg e l \<Longrightarrow> env_ok cfg e env \<Longrightarrow> handle_tick env e = Some (Loop, res, e') \<Longrightarrow>
    running cfg e' l"
| completed: "running cfg e l \<Longrightarrow> env_ok cfg e env \<Longrightarrow> en_auto e = Some a \<Longrightarrow>
    au_results a = r # rs \<Longrightarrow>
    handle_completed env r (set_automatic (a\<lparr>au_results := rs\<rparr>) e) = Some (Loop, res, e') \<Longrightarrow>
    running cfg e' l"
| query: "running cfg e l \<Longrightarrow> env_ok cfg e env \<Longrightarrow>
    handle_query env alive delivered last_d e = Some (Loop, res, e') \<Longrightarrow> running cfg e' (l + leases res)"
| release: "running cfg e (Suc l) \<Longrightarrow> running cfg (releaseSnapshot e) l"
| take_job: "running cfg e l \<Longrightarrow> en_auto e = Some a \<Longrightarrow> au_writer a = None \<Longrightarrow>
    au_sending a = None \<Longrightarrow> au_jobs a = j # js \<Longrightarrow>
    running cfg (set_automatic (a\<lparr>au_jobs := js, au_writer := Some j\<rparr>) e) l"
| saved: "running cfg e l \<Longrightarrow> en_auto e = Some a \<Longrightarrow> au_writer a = Some j \<Longrightarrow>
    running cfg (releaseSnapshot (set_automatic (a\<lparr>au_writer := None, au_sending := Some r\<rparr>) e)) l"
| sent: "running cfg e l \<Longrightarrow> en_auto e = Some a \<Longrightarrow> au_sending a = Some r \<Longrightarrow> au_results a = [] \<Longrightarrow>
    running cfg (set_automatic (a\<lparr>au_sending := None, au_results := [r]\<rparr>) e) l"

end
