(* ===== verification/Engine_Inv.thy ===== *)
theory Engine_Inv
  imports Engine
begin

text \<open>
  What is true between two rounds of the event loop: the recorder has been
  driven by a monotone clock, the incident controller has been driven as it
  requires, at most one selected capture is pinned at any time, and every
  capture handed to a client or to the writer is readable.
\<close>

section \<open>Detected after the recording started\<close>

definition detected_since :: "u64 \<Rightarrow> Controller \<Rightarrow> bool" where
  "detected_since s c \<longleftrightarrow> (\<forall>i \<in> windows c. s \<le> ai_DetectedMonoNS i)"

lemma detected_since_Observe:
  assumes "detected_since s c" and "s \<le> now" shows "detected_since s (Observe m now c)"
  using assms by (cases rule: Observe_cases [of m now c]) (auto simp: detected_since_def)

lemma detected_since_simple [simp]:
  "detected_since s (Unavailable f c) = detected_since s c"
  "detected_since s (CollectedThrough t c) = detected_since s c"
  by (auto simp: detected_since_def Unavailable_def CollectedThrough_def Let_def split: option.splits)

lemma detected_since_Finish [simp]: "detected_since s (Finish path at err c) = detected_since s c"
  by (cases err) (simp_all add: detected_since_def Finish_def Let_def)

lemma detected_since_New [simp]: "detected_since s (NewController cfg available)"
  by (simp add: detected_since_def NewController_def Let_def)

lemma detected_since_Begin:
  assumes "Begin c = Some ((v, start), c')" and "detected_since s c"
  shows "detected_since s c'" and "s \<le> ai_DetectedMonoNS v"
proof -
  obtain i where "co_current c = Some i" "v = closed_window (co_currentReady c) i"
    "c' = c\<lparr>co_current := co_next c, co_next := None, co_currentReady := co_nextReady c,
      co_nextReady := 0, co_writing := True, co_writingEnd := ai_EndMonoNS v\<rparr>"
    using assms(1) by (rule Begin_Some) blast
  with assms(2) show "detected_since s c'" and "s \<le> ai_DetectedMonoNS v"
    by (auto simp: detected_since_def)
qed

section \<open>Fewer than all triggers, sensor by sensor\<close>

lemma counts_fit_other:
  assumes "counts_fit m c" and "mt_Family m' \<noteq> mt_Family m"
  shows "counts_fit m (Observe m' now c)"
proof -
  have other: "\<forall>t \<in> set (ai_Triggers (with_trigger tr i)). at_Family t = mt_Family m \<longrightarrow> t \<in> set (ai_Triggers i)"
    if "at_Family tr \<noteq> mt_Family m" for tr i
  proof -
    have "\<forall>t \<in> set (add_trigger tr rs). at_Family t = mt_Family m \<longrightarrow> t \<in> set rs" for rs
      using that by (induction rs) auto
    then show ?thesis by (simp add: with_trigger_def)
  qed
  have fam: "at_Family tr \<noteq> mt_Family m" if "trigger_at (co_config c) m' tr" for tr
    using that assms(2) by (auto simp: trigger_at_def)
  have fresh: "ai_Triggers (newIncident cfg now) = []" for cfg by (simp add: newIncident_def)
  note o = other [OF fam]
  show ?thesis
  proof (cases rule: Observe_cases [of m' now c])
    case ignored
    with assms(1) show ?thesis by simp
  next
    case (opened tr)
    then show ?thesis using assms(1) o [of tr "newIncident (co_config c) now"]
      by (auto simp: counts_fit_def fresh split: option.splits)
  next
    case (waiting tr i)
    then show ?thesis using assms(1) o [of tr "newIncident (co_config c) now"]
      by (auto simp: counts_fit_def fresh split: option.splits)
  next
    case (extended tr i nx e)
    then show ?thesis
      using assms(1) o [of tr "nx\<lparr>ai_EndMonoNS := e, ai_AfterNS := e - ai_DetectedMonoNS nx\<rparr>"]
      by (auto simp: counts_fit_def split: option.splits)
  next
    case (next_merged tr i nx)
    then show ?thesis using assms(1) o [of tr nx] by (auto simp: counts_fit_def split: option.splits)
  next
    case (merged tr i)
    then show ?thesis using assms(1) o [of tr i] by (auto simp: counts_fit_def split: option.splits)
  qed
qed

lemma counts_fit_Unavailable [simp]: "counts_fit m (Unavailable f c) = counts_fit m c"
  by (simp add: counts_fit_def Unavailable_def cong: option.case_cong)

section \<open>What the invariants look at\<close>

definition auto_view :: "automatic \<Rightarrow> Controller \<times> autoJob list \<times> autoJob option \<times> nat" where
  "auto_view a = (au_controller a, au_jobs a, au_writer a,
     length (au_results a) + (if au_sending a = None then 0 else 1))"

abbreviation view :: "Engine \<Rightarrow> (Controller \<times> autoJob list \<times> autoJob option \<times> nat) option" where
  "view e \<equiv> map_option auto_view (en_auto e)"

lemma observeWriter_view [simp]: "auto_view (observeWriter c now a) = auto_view a"
  by (simp add: observeWriter_def auto_view_def)

lemma auto_view_simps [simp]:
  "auto_view (a\<lparr>au_retrying := b\<rparr>) = auto_view a" "auto_view (a\<lparr>au_timer := d\<rparr>) = auto_view a"
  "auto_view (a\<lparr>au_writingSince := w\<rparr>) = auto_view a" "auto_view (a\<lparr>au_overdueLogged := b\<rparr>) = auto_view a"
  by (simp_all add: auto_view_def)

text \<open>The health closure changes nothing the invariants look at.\<close>

lemma loop_health_frame:
  assumes "loop_health env e = (h, e')"
  obtains a where "e' = e\<lparr>en_auto := a\<rparr>" and "map_option auto_view a = view e"
proof (cases "en_auto e")
  case None
  with assms have "e' = e" by (auto simp: loop_health_def Let_def)
  then show thesis by (intro that [of "en_auto e"]) simp_all
next
  case (Some a)
  obtain ah a' where h: "automatic_health (en_Config e) (en_now e) a = (ah, a')" by fastforce
  have "e' = e\<lparr>en_auto := Some a'\<rparr>" using assms Some h by (auto simp: loop_health_def Let_def)
  moreover have "auto_view a' = auto_view a"
    using h by (auto simp: automatic_health_def Let_def split: if_splits)
  ultimately show thesis using Some by (intro that [of "Some a'"]) simp_all
qed

section \<open>The invariants\<close>

definition loop_inv :: "Config \<Rightarrow> Engine \<Rightarrow> bool" where
  "loop_inv cfg e \<longleftrightarrow> en_Config e = cfg \<and> Config_Validate cfg = None \<and> int64_thresholds cfg
     \<and> distinct (en_sensors e) \<and> ho_ClockSource (en_host e) = ''boottime''
     \<and> anchored (ck_host (en_tracker e)) \<and> in_range cfg (en_now e)
     \<and> en_previous e \<le> en_now e \<and> rc_started (en_recorder e) \<le> en_previous e
     \<and> (\<exists>t p. p \<le> en_previous e \<and> t \<le> en_now e \<and> recording t p (en_recorder e))"

text \<open>\<open>q\<close> is the poll in progress; between rounds it is the last one.\<close>

definition auto_inv :: "Config \<Rightarrow> u64 \<Rightarrow> Engine \<Rightarrow> bool" where
  "auto_inv cfg q e \<longleftrightarrow>
     (\<forall>c js w n. view e = Some (c, js, w, n) \<longrightarrow>
        (\<exists>vs. scheduled cfg (en_previous e) q vs c) \<and> detected_since (rc_started (en_recorder e)) c)"

definition writer_ok :: "Controller \<times> autoJob list \<times> autoJob option \<times> nat \<Rightarrow> bool" where
  "writer_ok = (\<lambda>(c, js, w, n).
     length js + (if w = None then 0 else 1) + n = (if co_writing c then 1 else 0)
     \<and> (\<forall>j \<in> set js \<union> set_option w. capture_error (jb_capture j) = None))"

definition pinned :: "Engine \<Rightarrow> nat" where
  "pinned e = (case view e of None \<Rightarrow> 0 | Some (c, js, w, n) \<Rightarrow> length js + (if w = None then 0 else 1))"

definition lease_inv :: "Engine \<Rightarrow> nat \<Rightarrow> bool" where
  "lease_inv e l \<longleftrightarrow> l + pinned e = (if en_snapshotBusy e then 1 else 0)
     \<and> (\<forall>v. view e = Some v \<longrightarrow> writer_ok v)"

lemma lease_inv_cong:
  "view e' = view e \<Longrightarrow> en_snapshotBusy e' = en_snapshotBusy e \<Longrightarrow> lease_inv e' l = lease_inv e l"
  by (simp add: lease_inv_def pinned_def)

lemma auto_inv_cong:
  "view e' = view e \<Longrightarrow> en_previous e' = en_previous e \<Longrightarrow>
   rc_started (en_recorder e') = rc_started (en_recorder e) \<Longrightarrow> auto_inv cfg q e' = auto_inv cfg q e"
  by (simp add: auto_inv_def)

lemma loop_inv_auto [simp]: "loop_inv cfg (e\<lparr>en_auto := a\<rparr>) = loop_inv cfg e"
  by (simp add: loop_inv_def)

lemma loop_inv_auto_recorder [simp]:
  "loop_inv cfg (e\<lparr>en_auto := a, en_recorder := r\<rparr>) = loop_inv cfg (e\<lparr>en_recorder := r\<rparr>)"
  by (simp add: loop_inv_def)

lemma loop_inv_busy [simp]: "loop_inv cfg (e\<lparr>en_snapshotBusy := b\<rparr>) = loop_inv cfg e"
  by (simp add: loop_inv_def)

section \<open>The recorder in the loop\<close>

lemma recorder_started:
  "Advance now r = Some r' \<Longrightarrow> rc_started r' = rc_started r"
  "Recorder_Event v now r = Some (ok, r') \<Longrightarrow> rc_started r' = rc_started r"
  "Recorder_Metric m now r = Some (ok, r') \<Longrightarrow> rc_started r' = rc_started r"
proof -
  have a: "rc_started r1 = rc_started r" if "Advance now r = Some r1" for r1
    using Advance_active(2) [OF that] by (simp add: settings_kept_def)
  have room: "rc_started r2 = rc_started r1" if "room k b r1 = Some (x, r2)" for k b r1 x r2
    using room_frame(2) [OF that] by (simp add: settings_kept_def)
  show "Advance now r = Some r' \<Longrightarrow> rc_started r' = rc_started r" by (rule a)
  show "rc_started r' = rc_started r" if e: "Recorder_Event v now r = Some (ok, r')"
    using e
    by (cases rule: Recorder_Event_cases)
      (auto simp: add_drop_def append_event_def Let_def dest!: a room)
  show "rc_started r' = rc_started r" if m: "Recorder_Metric m now r = Some (ok, r')"
    using m
    by (cases rule: Recorder_Metric_cases)
      (auto simp: add_drop_def append_metric_def Let_def dest!: a room)
qed

lemma loop_inv_recorder:
  assumes "loop_inv cfg e" and "p \<le> en_previous e" and "t \<le> en_now e" and "recording t p r"
    and "rc_started r = rc_started (en_recorder e)"
  shows "loop_inv cfg (e\<lparr>en_recorder := r\<rparr>)"
  using assms by (auto simp: loop_inv_def)

lemma loop_inv_obtain:
  assumes "loop_inv cfg e"
  obtains t p where "p \<le> en_previous e" and "t \<le> en_now e" and "recording t p (en_recorder e)"
  using assms by (auto simp: loop_inv_def)

lemma loop_inv_now:
  assumes "loop_inv cfg e" and "en_now e \<le> t" and "in_range cfg t"
  shows "loop_inv cfg (e\<lparr>en_now := t\<rparr>)"
proof -
  obtain t0 p where "p \<le> en_previous e" "t0 \<le> en_now e" "recording t0 p (en_recorder e)"
    using assms(1) by (rule loop_inv_obtain)
  moreover from this have "t0 \<le> t" using assms(2) by order
  moreover have "en_previous e \<le> t" using assms(1,2) by (auto simp: loop_inv_def)
  ultimately show ?thesis using assms(1,3) by (auto simp: loop_inv_def)
qed

lemma advance_recorder_inv:
  assumes "loop_inv cfg e" and "advance_recorder e = Some e'"
  shows "loop_inv cfg e'" and "\<exists>r. e' = e\<lparr>en_recorder := r\<rparr> \<and> rc_started r = rc_started (en_recorder e)"
proof -
  obtain r where r: "Advance (en_now e) (en_recorder e) = Some r" "e' = e\<lparr>en_recorder := r\<rparr>"
    using assms(2) by (auto simp: advance_recorder_def)
  note st = recorder_started(1) [OF r(1)]
  obtain t p where "p \<le> en_previous e" "t \<le> en_now e" "recording t p (en_recorder e)"
    using assms(1) by (rule loop_inv_obtain)
  with recording.advance [OF _ _ r(1)] st assms(1)
  show "loop_inv cfg e'" unfolding r(2) by (intro loop_inv_recorder [of cfg e p "en_now e"]) auto
  from st r(2) show "\<exists>r. e' = e\<lparr>en_recorder := r\<rparr> \<and> rc_started r = rc_started (en_recorder e)" by blast
qed

lemma record_event_inv:
  assumes "loop_inv cfg e" and "en_now e \<le> t" and "in_range cfg t"
    and "Recorder_Event v t (en_recorder e) = Some (ok, r)"
  shows "loop_inv cfg (e\<lparr>en_now := t, en_recorder := r\<rparr>)"
proof -
  have n: "loop_inv cfg (e\<lparr>en_now := t\<rparr>)" by (rule loop_inv_now [OF assms(1-3)])
  obtain t0 p where "p \<le> en_previous e" "t0 \<le> en_now e" "recording t0 p (en_recorder e)"
    using assms(1) by (rule loop_inv_obtain)
  moreover from this have "recording t p r"
    using assms(2,4) by (intro recording.event [of t0 p "en_recorder e" t v ok r]) auto
  ultimately show ?thesis
    using loop_inv_recorder [OF n, of p t r] recorder_started(2) [OF assms(4)] by simp
qed

text \<open>Steps that leave everything but the recorder, the queue and the clock as it is.\<close>

definition same_auto :: "Engine \<Rightarrow> Engine \<Rightarrow> bool" where
  "same_auto e e' \<longleftrightarrow> en_auto e' = en_auto e \<and> en_snapshotBusy e' = en_snapshotBusy e
     \<and> en_previous e' = en_previous e \<and> en_sensors e' = en_sensors e \<and> en_disabled e' = en_disabled e
     \<and> en_Config e' = en_Config e \<and> rc_started (en_recorder e') = rc_started (en_recorder e)
     \<and> en_now e \<le> en_now e'"

lemma same_auto_trans: "same_auto e e1 \<Longrightarrow> same_auto e1 e2 \<Longrightarrow> same_auto e e2"
  by (auto simp: same_auto_def)

lemma same_auto_inv:
  assumes "same_auto e e'"
  shows "auto_inv cfg q e' = auto_inv cfg q e" and "lease_inv e' l = lease_inv e l"
  using assms by - (rule auto_inv_cong lease_inv_cong; simp add: same_auto_def)+

lemma advance_same_auto: "loop_inv cfg e \<Longrightarrow> advance_recorder e = Some e' \<Longrightarrow> same_auto e e'"
  using advance_recorder_inv(2) by (fastforce simp: same_auto_def)

lemma drain_events_inv:
  assumes "drain_events env n vs e = Some (None, e')" and "loop_inv cfg e"
    and "\<forall>k t. n \<le> k \<longrightarrow> ev_clock env k = Inr t \<longrightarrow> en_now e \<le> t \<and> in_range cfg t
       \<and> (\<forall>j u. k \<le> j \<longrightarrow> ev_clock env j = Inr u \<longrightarrow> t \<le> u)"
  shows "loop_inv cfg e' \<and> same_auto e e'"
  using assms
proof (induction env n vs e rule: drain_events.induct)
  case (1 env n e)
  obtain t where t: "ev_clock env n = Inr t" "e' = e\<lparr>en_now := t\<rparr>"
    using "1.prems"(1) by (auto split: sum.splits)
  with "1.prems"(3) have "en_now e \<le> t" "in_range cfg t" by auto
  with "1.prems"(2) loop_inv_now t(2) show ?case by (auto simp: same_auto_def)
next
  case (2 env n v vs e)
  obtain t where t: "ev_clock env n = Inr t" using "2.prems"(1) by (auto split: sum.splits)
  obtain ok r where r: "Recorder_Event v t (en_recorder e) = Some (ok, r)"
    using Recorder_Event_total [of v t "en_recorder e"] by auto
  let ?e = "e\<lparr>en_ingress := vs, en_now := t, en_recorder := r\<rparr>"
  have rest: "drain_events env (Suc n) vs ?e = Some (None, e')" using "2.prems"(1) t r by simp
  have later: "en_now e \<le> t" "in_range cfg t" using "2.prems"(3) t by auto
  have "loop_inv cfg (e\<lparr>en_now := t, en_recorder := r\<rparr>)"
    by (rule record_event_inv [OF "2.prems"(2) later r])
  then have inv: "loop_inv cfg ?e" by (simp add: loop_inv_def)
  have "\<forall>k u. Suc n \<le> k \<longrightarrow> ev_clock env k = Inr u \<longrightarrow> en_now ?e \<le> u \<and> in_range cfg u
       \<and> (\<forall>j x. k \<le> j \<longrightarrow> ev_clock env j = Inr x \<longrightarrow> u \<le> x)"
    using "2.prems"(3) t by (simp add: Suc_le_eq) (meson less_imp_le order.refl)
  from "2.IH" [OF t r refl rest inv this] have "loop_inv cfg e' \<and> same_auto ?e e'" .
  moreover have "same_auto e ?e"
    using later recorder_started(2) [OF r] by (simp add: same_auto_def)
  ultimately show ?case using same_auto_trans by blast
qed

lemma observeClock_inv:
  assumes "observeClock env e = (None, e1)" and "loop_inv cfg e" and "clocks_ok cfg e env"
  shows "loop_inv cfg e1" and "same_auto e e1"
    and "\<forall>k t. 1 \<le> k \<longrightarrow> ev_clock env k = Inr t \<longrightarrow> en_now e1 \<le> t \<and> in_range cfg t
       \<and> (\<forall>j u. k \<le> j \<longrightarrow> ev_clock env j = Inr u \<longrightarrow> t \<le> u)"
proof -
  have b: "ho_ClockSource (en_host e) = ''boottime''" using assms(2) by (simp add: loop_inv_def)
  obtain s d tr where s: "ev_sample env = Inr s" "clock_observe s (en_tracker e) = (Inr d, tr)"
    "e1 = e\<lparr>en_tracker := tr, en_now := cs_bootNS s\<rparr>"
    using assms(1) b by (auto simp: observeClock_def split: sum.splits prod.splits)
  have ok: "en_now e \<le> cs_bootNS s" "cs_wall s \<noteq> 0" "in_range cfg (cs_bootNS s)"
    using assms(3) s(1) by (auto simp: clocks_ok_def)
  have "anchored (ck_host tr)"
    using clock_observe_anchored [OF s(2)] assms(2) ok(2) by (auto simp: loop_inv_def)
  with loop_inv_now [OF assms(2) ok(1,3)] show "loop_inv cfg e1"
    unfolding s(3) by (auto simp: loop_inv_def)
  show "same_auto e e1" unfolding s(3) using ok(1) by (simp add: same_auto_def)
  show "\<forall>k t. 1 \<le> k \<longrightarrow> ev_clock env k = Inr t \<longrightarrow> en_now e1 \<le> t \<and> in_range cfg t
       \<and> (\<forall>j u. k \<le> j \<longrightarrow> ev_clock env j = Inr u \<longrightarrow> t \<le> u)"
    using assms(3) s(1) unfolding s(3) clocks_ok_def by simp
qed

lemma drain_inv:
  assumes "drain env e = Some (None, e')" and "loop_inv cfg e"
    and "\<forall>k t. 1 \<le> k \<longrightarrow> ev_clock env k = Inr t \<longrightarrow> en_now e \<le> t \<and> in_range cfg t
       \<and> (\<forall>j u. k \<le> j \<longrightarrow> ev_clock env j = Inr u \<longrightarrow> t \<le> u)"
  shows "loop_inv cfg e'" and "same_auto e e'"
  using drain_events_inv [of env 1 "en_ingress e" e e' cfg] assms by (simp_all add: drain_def)

section \<open>Collecting\<close>

definition sensor_fits :: "Env \<Rightarrow> Engine \<Rightarrow> string \<Rightarrow> bool" where
  "sensor_fits env e s \<longleftrightarrow>
     (\<forall>m. ev_snapshot env s (en_previous e) (en_now e) = Inr m \<longrightarrow>
        mt_Family m = s \<and> mt_StartMonoNS m = en_previous e \<and> mt_EndMonoNS m = en_now e
        \<and> histogram_wf (mt_Histogram m)
        \<and> (\<forall>au. en_auto e = Some au \<longrightarrow> counts_fit m (au_controller au)))"

text \<open>What a step of collecting keeps.\<close>

definition collecting :: "Config \<Rightarrow> Engine \<Rightarrow> Engine \<Rightarrow> bool" where
  "collecting cfg e e' \<longleftrightarrow> en_now e' = en_now e \<and> en_previous e' = en_previous e
     \<and> en_sensors e' = en_sensors e \<and> en_snapshotBusy e' = en_snapshotBusy e
     \<and> en_Config e' = en_Config e \<and> rc_started (en_recorder e') = rc_started (en_recorder e)
     \<and> loop_inv cfg e' \<and> auto_inv cfg (en_now e') e'"

lemma co_writing_Observe [simp]: "co_writing (Observe m now c) = co_writing c"
  by (cases rule: Observe_cases [of m now c]) simp_all

lemma co_writing_Unavailable [simp]: "co_writing (Unavailable f c) = co_writing c"
  by (simp add: Unavailable_def)

lemma view_with_controller:
  "view (with_controller f e) = map_option (\<lambda>(c, js, w, n). (f c, js, w, n)) (view e)"
  by (cases "en_auto e") (simp_all add: with_controller_def auto_view_def)

lemma with_controller_fields [simp]:
  "en_now (with_controller f e) = en_now e" "en_previous (with_controller f e) = en_previous e"
  "en_sensors (with_controller f e) = en_sensors e" "en_recorder (with_controller f e) = en_recorder e"
  "en_snapshotBusy (with_controller f e) = en_snapshotBusy e" "en_Config (with_controller f e) = en_Config e"
  "en_disabled (with_controller f e) = en_disabled e" "loop_inv cfg (with_controller f e) = loop_inv cfg e"
  by (simp_all add: with_controller_def)

lemma lease_with_controller:
  assumes "lease_inv e l" and "\<And>c. co_writing (f c) = co_writing c"
  shows "lease_inv (with_controller f e) l"
proof (cases "en_auto e")
  case None
  with assms(1) show ?thesis by (simp add: lease_inv_def pinned_def with_controller_def)
next
  case (Some a)
  with assms show ?thesis
    by (simp add: lease_inv_def pinned_def with_controller_def auto_view_def writer_ok_def)
qed

lemma disable_inv:
  assumes "loop_inv cfg e" and "auto_inv cfg q e" and "lease_inv e l"
  shows "loop_inv cfg (disable s e)" and "auto_inv cfg q (disable s e)" and "lease_inv (disable s e) l"
proof -
  let ?e = "e\<lparr>en_disabled := s # en_disabled e\<rparr>"
  have "loop_inv cfg ?e" using assms(1) by (simp add: loop_inv_def)
  then show "loop_inv cfg (disable s e)" by (simp add: disable_def)
  have "lease_inv ?e l" using assms(3) by (simp add: lease_inv_def pinned_def)
  then show "lease_inv (disable s e) l" unfolding disable_def by (rule lease_with_controller) simp
  show "auto_inv cfg q (disable s e)"
    using assms(2)
    by (cases "en_auto e")
      (auto simp: auto_inv_def disable_def with_controller_def auto_view_def intro: scheduled.unavailable)
qed

lemma record_metric_inv:
  assumes "record_metric m (en_now e) e = Some e'" and "loop_inv cfg e" and "auto_inv cfg (en_now e) e"
    and "lease_inv e l" and "sensor_fits env e s"
    and "ev_snapshot env s (en_previous e) (en_now e) = Inr m"
  shows "loop_inv cfg e'" and "auto_inv cfg (en_now e) e'" and "lease_inv e' l"
    and "\<exists>r. e' = (with_controller (Observe m (en_now e)) e)\<lparr>en_recorder := r\<rparr>
      \<and> rc_started r = rc_started (en_recorder e)"
proof -
  obtain ok r where r: "Recorder_Metric m (en_now e) (en_recorder e) = Some (ok, r)"
    "e' = (with_controller (Observe m (en_now e)) e)\<lparr>en_recorder := r\<rparr>"
    using assms(1) by (auto simp: record_metric_def)
  note st = recorder_started(3) [OF r(1)]
  have m: "mt_StartMonoNS m = en_previous e" "mt_EndMonoNS m = en_now e" "histogram_wf (mt_Histogram m)"
    "\<And>au. en_auto e = Some au \<Longrightarrow> counts_fit m (au_controller au)"
    using assms(5,6) by (auto simp: sensor_fits_def)
  have prev: "en_previous e \<le> en_now e" using assms(2) by (simp add: loop_inv_def)
  obtain t p where "p \<le> en_previous e" "t \<le> en_now e" "recording t p (en_recorder e)"
    using assms(2) by (rule loop_inv_obtain)
  then have "recording (en_now e) (mt_StartMonoNS m) r"
    using m prev r(1) by (intro recording.metric) auto
  then have "loop_inv cfg (e\<lparr>en_recorder := r\<rparr>)"
    using st m(1) assms(2) by (intro loop_inv_recorder [of cfg e "en_previous e" "en_now e"]) auto
  then have "loop_inv cfg (with_controller (Observe m (en_now e)) (e\<lparr>en_recorder := r\<rparr>))" by simp
  then show "loop_inv cfg e'" unfolding r(2) by (simp add: with_controller_def)
  have "lease_inv (with_controller (Observe m (en_now e)) e) l"
    using assms(4) by (rule lease_with_controller) simp
  then show "lease_inv e' l" unfolding r(2) by (simp add: lease_inv_def pinned_def)
  have started: "rc_started (en_recorder e) \<le> en_now e" using assms(2) by (auto simp: loop_inv_def)
  have "auto_inv cfg (en_now e) (with_controller (Observe m (en_now e)) e)"
    using assms(3) m(2,4) started
    by (cases "en_auto e")
      (auto simp: auto_inv_def with_controller_def auto_view_def
        intro: scheduled.observe detected_since_Observe)
  then show "auto_inv cfg (en_now e) e'" unfolding r(2) using st by (simp add: auto_inv_def)
  show "\<exists>r. e' = (with_controller (Observe m (en_now e)) e)\<lparr>en_recorder := r\<rparr>
      \<and> rc_started r = rc_started (en_recorder e)"
    using r(2) st by blast
qed

lemma disable_fields [simp]:
  "en_now (disable s e) = en_now e" "en_previous (disable s e) = en_previous e"
  "en_sensors (disable s e) = en_sensors e" "en_recorder (disable s e) = en_recorder e"
  "en_snapshotBusy (disable s e) = en_snapshotBusy e" "en_Config (disable s e) = en_Config e"
  by (simp_all add: disable_def)

lemma collect_sensor_inv:
  assumes "collect_sensor env (en_now e) s e = Some (err, e')"
    and "loop_inv cfg e" and "auto_inv cfg (en_now e) e" and "lease_inv e l" and "sensor_fits env e s"
  shows "collecting cfg e e'" and "lease_inv e' l"
    and "\<And>s'. s' \<noteq> s \<Longrightarrow> sensor_fits env e s' \<Longrightarrow> sensor_fits env e' s'"
proof -
  let ?snap = "ev_snapshot env s (en_previous e) (en_now e)"
  have step: "collecting cfg e e' \<and> lease_inv e' l
      \<and> (\<forall>s'. s' \<noteq> s \<longrightarrow> sensor_fits env e s' \<longrightarrow> sensor_fits env e' s')"
  proof (cases "s \<in> set (en_disabled e)")
    case True
    with assms show ?thesis by (auto simp: collect_sensor_def collecting_def)
  next
    case enabled: False
    obtain e1 where e1: "(case ?snap of Inr m \<Rightarrow> record_metric m (en_now e) e | Inl _ \<Rightarrow> Some e) = Some e1"
      using assms(1) enabled by (auto simp: collect_sensor_def Let_def split: option.splits)
    have "loop_inv cfg e1 \<and> auto_inv cfg (en_now e) e1 \<and> lease_inv e1 l \<and> collecting cfg e e1
        \<and> (\<forall>s'. s' \<noteq> s \<longrightarrow> sensor_fits env e s' \<longrightarrow> sensor_fits env e1 s')"
    proof (cases ?snap)
      case (Inl er)
      with e1 assms show ?thesis by (auto simp: collecting_def)
    next
      case (Inr m)
      with e1 have rm: "record_metric m (en_now e) e = Some e1" by simp
      note i = record_metric_inv [OF rm assms(2-5) Inr]
      obtain r where r: "e1 = (with_controller (Observe m (en_now e)) e)\<lparr>en_recorder := r\<rparr>"
        "rc_started r = rc_started (en_recorder e)" using i(4) by blast
      have "mt_Family m = s" using assms(5) Inr by (simp add: sensor_fits_def)
      then have "sensor_fits env e1 s'" if "s' \<noteq> s" "sensor_fits env e s'" for s'
        using that unfolding r(1) sensor_fits_def
        by (auto simp: with_controller_def intro: counts_fit_other [OF _ not_sym])
      moreover have "collecting cfg e e1"
        using i(1,2) r(2) unfolding collecting_def r(1) by simp
      ultimately show ?thesis using i(1-3) by blast
    qed
    then have k: "loop_inv cfg e1" "auto_inv cfg (en_now e) e1" "lease_inv e1 l" "collecting cfg e e1"
      "\<And>s'. s' \<noteq> s \<Longrightarrow> sensor_fits env e s' \<Longrightarrow> sensor_fits env e1 s'" by blast+
    note d = disable_inv [OF k(1-3), of s]
    have "e' = e1 \<or> e' = disable s e1"
      using assms(1) enabled e1 by (auto simp: collect_sensor_def Let_def split: sum.splits if_splits)
    then show ?thesis
    proof
      assume "e' = e1" with k show ?thesis by blast
    next
      assume e': "e' = disable s e1"
      have "collecting cfg e e'" using k(4) d(1,2) unfolding e' collecting_def by simp
      moreover have "sensor_fits env e' s'" if "sensor_fits env e1 s'" for s'
        using that unfolding e' sensor_fits_def by (auto simp: disable_def with_controller_def)
      ultimately show ?thesis using k(5) d(3) e' by blast
    qed
  qed
  then show "collecting cfg e e'" and "lease_inv e' l"
    and "\<And>s'. s' \<noteq> s \<Longrightarrow> sensor_fits env e s' \<Longrightarrow> sensor_fits env e' s'" by blast+
qed

lemma collect_sensors_inv:
  "collect_sensors env end_ns ss e = Some (None, e') \<Longrightarrow> end_ns = en_now e \<Longrightarrow> loop_inv cfg e \<Longrightarrow>
   auto_inv cfg (en_now e) e \<Longrightarrow> lease_inv e l \<Longrightarrow> distinct ss \<Longrightarrow> \<forall>s \<in> set ss. sensor_fits env e s \<Longrightarrow>
   collecting cfg e e' \<and> lease_inv e' l"
proof (induction env end_ns ss e rule: collect_sensors.induct)
  case (1 env end_ns e)
  then show ?case by (simp add: collecting_def)
next
  case (2 env end_ns s ss e)
  obtain e1 where e1: "collect_sensor env (en_now e) s e = Some (None, e1)"
    using "2.prems"(1,2) by (auto split: option.splits prod.splits)
  have "sensor_fits env e s" using "2.prems"(7) by simp
  note i = collect_sensor_inv [OF e1 "2.prems"(3-5) this]
  have rest: "collect_sensors env end_ns ss e1 = Some (None, e')" using "2.prems"(1,2) e1 by simp
  have fits: "\<forall>s' \<in> set ss. sensor_fits env e1 s'" using "2.prems"(6,7) i(3) by (metis distinct.simps(2) list.set_intros(2))
  have "collecting cfg e1 e' \<and> lease_inv e' l"
    using "2.IH" [OF e1 [folded "2.prems"(2)] refl refl rest] i(1,2) "2.prems"(2,6) fits
    by (auto simp: collecting_def)
  with i(1) show ?case by (auto simp: collecting_def)
qed

text \<open>Before the progress of a round the last poll may not be marked as collected yet.\<close>

definition collected_auto :: "Config \<Rightarrow> Engine \<Rightarrow> bool" where
  "collected_auto cfg e \<longleftrightarrow>
     (\<forall>c js w n. view e = Some (c, js, w, n) \<longrightarrow>
        (\<exists>q vs. scheduled cfg q (en_previous e) vs c) \<and> detected_since (rc_started (en_recorder e)) c)"

lemma auto_inv_collected: "auto_inv cfg (en_previous e) e \<Longrightarrow> collected_auto cfg e"
  unfolding auto_inv_def collected_auto_def by blast

lemma collect_inv:
  assumes "collect env (en_now e) e = Some (None, e')" and "loop_inv cfg e"
    and "auto_inv cfg (en_previous e) e" and "lease_inv e l" and "sensors_ok e env"
  shows "loop_inv cfg e'" and "lease_inv e' l"
    and "collected_auto cfg e'" and "en_now e' = en_now e"
proof -
  obtain e1 where e1: "collect_sensors env (en_now e) (en_sensors e) e = Some (None, e1)"
    "e' = e1\<lparr>en_previous := en_now e\<rparr>"
    using assms(1) by (auto simp: collect_def split: option.splits prod.splits if_splits)
  have range: "en_previous e \<le> en_now e" "in_range cfg (en_now e)" "distinct (en_sensors e)"
    using assms(2) by (auto simp: loop_inv_def)
  have a: "auto_inv cfg (en_now e) e"
    using assms(3) range(1,2) unfolding auto_inv_def by (meson scheduled.poll)
  have f: "\<forall>s \<in> set (en_sensors e). sensor_fits env e s"
    using assms(5) by (auto simp: sensors_ok_def sensor_fits_def)
  from collect_sensors_inv [OF e1(1) refl assms(2) a assms(4) range(3) f]
  have c: "collecting cfg e e1" and l: "lease_inv e1 l" by auto
  from c have c': "en_now e1 = en_now e" "en_previous e1 = en_previous e" "loop_inv cfg e1"
    "auto_inv cfg (en_now e1) e1" by (auto simp: collecting_def)
  obtain t p where r: "p \<le> en_previous e1" "t \<le> en_now e1" "recording t p (en_recorder e1)"
    using c'(3) by (rule loop_inv_obtain)
  have "rc_started (en_recorder e1) \<le> en_previous e1" using c'(3) by (simp add: loop_inv_def)
  with r c' range show "loop_inv cfg e'"
    unfolding e1(2) by (auto simp: loop_inv_def intro: order.trans)
  show "lease_inv e' l" using l unfolding e1(2) by (simp add: lease_inv_def pinned_def)
  show "collected_auto cfg e'"
    using c'(1,4) unfolding e1(2) auto_inv_def collected_auto_def by (simp, blast)
  show "en_now e' = en_now e" using c' e1(2) by simp
qed

section \<open>Captures handed out\<close>

lemma window_error_settings: "window_error (m\<lparr>mf_Settings := s\<rparr>) = window_error m"
  by (simp add: window_error_def)

lemma window_error_incident:
  "window_error m = None \<Longrightarrow> AutoIncident_Valid inc (mf_EndMonoNS m) \<Longrightarrow>
   window_error (m\<lparr>mf_Settings := s, mf_AutoIncident := inc\<rparr>) = None"
  by (auto simp: window_error_def simp del: AutoIncident_Valid.simps split: if_split_asm)

lemma capture_error_settings:
  assumes "capture_error c = None"
  shows "capture_error (c\<lparr>cp_Manifest := (cp_Manifest c)\<lparr>mf_Settings := s\<rparr>\<rparr>) = None"
  using assms by (simp add: capture_error_None window_error_settings)

lemma capture_error_incident:
  assumes "capture_error c = None" and "AutoIncident_Valid inc (mf_EndMonoNS (cp_Manifest c))"
  shows "capture_error (c\<lparr>cp_Manifest := (cp_Manifest c)\<lparr>mf_Settings := s, mf_AutoIncident := inc\<rparr>\<rparr>) = None"
  using assms by (simp add: capture_error_None window_error_incident del: AutoIncident_Valid.simps)

lemma SnapshotWindow_end [simp]: "mf_EndMonoNS (cp_Manifest (SnapshotWindow start now host h mode r)) = now"
  by (simp add: SnapshotWindow_def Let_def split: prod.split)

lemma automatic_capture_readable:
  assumes "loop_inv cfg e" and "rc_started (en_recorder e) \<le> ai_EndMonoNS v" and "start \<le> ai_EndMonoNS v"
    and "AutoIncident_Valid (Some v) (ai_EndMonoNS v)"
  shows "capture_error (automatic_capture v start h e) = None"
proof -
  obtain t p where "recording t p (en_recorder e)" using assms(1) by (rule loop_inv_obtain)
  note r = SnapshotWindow_readable [OF recording_timed [OF this] assms(2,3)]
  have "ValidateClock (ck_host (en_tracker e)) = None" using assms(1) by (simp add: loop_inv_def anchored_def)
  with r assms(4) show ?thesis
    unfolding automatic_capture_def Let_def by (intro capture_error_incident) (simp_all del: AutoIncident_Valid.simps)
qed

lemma Snapshot_SomeD:
  assumes "Snapshot last_d now host h mode r0 = Some (c, r)"
  shows "Advance now r0 = Some r"
    and "c = SnapshotWindow (if to_u64 last_d < now then now - to_u64 last_d else 0) now host h mode r"
proof -
  obtain r1 where r1: "Advance now r0 = Some r1"
    using assms by (cases "Advance now r0") (simp_all add: Snapshot_def)
  have "Some (SnapshotWindow (if to_u64 last_d < now then now - to_u64 last_d else 0) now host h mode r1, r1)
      = Some (c, r)"
    using assms unfolding Snapshot_def Let_def r1 option.case .
  then have eq: "SnapshotWindow (if to_u64 last_d < now then now - to_u64 last_d else 0) now host h mode r1 = c
      \<and> r1 = r"
    unfolding option.inject prod.inject .
  show "Advance now r0 = Some r" using r1 unfolding conjunct2 [OF eq] .
  show "c = SnapshotWindow (if to_u64 last_d < now then now - to_u64 last_d else 0) now host h mode r"
    by (rule sym) (rule conjunct1 [OF eq, unfolded conjunct2 [OF eq]])
qed

lemma window_start_le: "(if d < now then now - d else 0) \<le> (now :: u64)"
proof (cases "d < now")
  case True
  then have "now - d \<le> now" by (simp add: word_sub_le)
  with True show ?thesis by (simp only: if_True)
qed simp

lemma Snapshot_loop_readable:
  assumes "loop_inv cfg e" and "Snapshot last_d (en_now e) (ck_host (en_tracker e)) h mode (en_recorder e) = Some (c, r)"
  shows "capture_error c = None" and "loop_inv cfg (e\<lparr>en_recorder := r\<rparr>)"
    and "rc_started r = rc_started (en_recorder e)"
proof -
  let ?start = "if to_u64 last_d < en_now e then en_now e - to_u64 last_d else 0"
  note a = Snapshot_SomeD [OF assms(2)]
  have start: "?start \<le> en_now e" by (rule window_start_le)
  obtain t p where t: "p \<le> en_previous e" "t \<le> en_now e" "recording t p (en_recorder e)"
    using assms(1) by (rule loop_inv_obtain)
  show st: "rc_started r = rc_started (en_recorder e)" by (rule recorder_started(1) [OF a(1)])
  have rec: "recording (en_now e) p r" by (rule recording.advance [OF t(3,2) a(1)])
  show "loop_inv cfg (e\<lparr>en_recorder := r\<rparr>)"
    by (rule loop_inv_recorder [OF assms(1) t(1) order.refl rec st])
  have "ValidateClock (ck_host (en_tracker e)) = None" "rc_started r \<le> en_now e"
    using assms(1) st by (auto simp: loop_inv_def anchored_def)
  then show "capture_error c = None"
    unfolding a(2) using SnapshotWindow_readable [OF recording_timed [OF rec]] start by blast
qed

section \<open>Progress\<close>

lemma lease_begin:
  assumes "lease_inv e l" and "\<not> en_snapshotBusy e" and "en_auto e = Some a0" and "\<not> co_writing (au_controller a0)"
    and "auto_view a1 = (c', [j], None, 0)" and "co_writing c'" and "capture_error (jb_capture j) = None"
    and "e' = e\<lparr>en_snapshotBusy := True, en_auto := Some a1\<rparr>"
  shows "lease_inv e' l"
  using assms by (simp add: lease_inv_def pinned_def auto_view_def writer_ok_def)

end
