(* ===== verification/Engine_Theorems.thy ===== *)
theory Engine_Theorems
  imports Engine_Inv
begin

text \<open>
  The rounds of the event loop keep the invariants of \<open>Engine_Inv\<close>, and what follows:
  the channels of the writer never block the loop, at most one selected capture
  is pinned, and every capture that leaves the loop is readable.
\<close>

section \<open>Progress\<close>

lemma CollectedThrough_writing [simp]: "co_writing (CollectedThrough t c) = co_writing c"
  by (auto simp: CollectedThrough_def Let_def split: option.splits)

text \<open>Results the loop has not received.\<close>

definition unread :: "automatic \<Rightarrow> nat" where
  "unread a = length (au_results a) + (if au_sending a = None then 0 else 1)"

text \<open>Putting back the automation with its controller told what has been collected.\<close>

lemma put_collected:
  assumes "loop_inv cfg e" and "collected_auto cfg e" and "lease_inv e l" and "en_auto e = Some a0"
    and "auto_view a = (CollectedThrough (en_previous e) (au_controller a0), au_jobs a0, au_writer a0, unread a0)"
  defines "e' \<equiv> e\<lparr>en_auto := Some a\<rparr>"
  shows "loop_inv cfg e' \<and> auto_inv cfg (en_previous e') e' \<and> lease_inv e' l"
proof -
  have v: "view e = Some (au_controller a0, au_jobs a0, au_writer a0, unread a0)"
    using assms(4) by (simp add: auto_view_def unread_def)
  obtain q vs where s: "scheduled cfg q (en_previous e) vs (au_controller a0)"
    and d: "detected_since (rc_started (en_recorder e)) (au_controller a0)"
    using assms(2) v unfolding collected_auto_def by blast
  have "\<exists>vs. scheduled cfg (en_previous e) (en_previous e) vs
      (CollectedThrough (en_previous e) (au_controller a0))"
    using scheduled.collected [OF s] by blast
  then have "auto_inv cfg (en_previous e') e'"
    using d assms(5) unfolding e'_def auto_inv_def by simp
  moreover have "lease_inv e' l"
    using assms(3) v assms(5) unfolding e'_def by (simp add: lease_inv_def pinned_def writer_ok_def)
  ultimately show ?thesis using assms(1) unfolding e'_def by simp
qed

text \<open>With the lease free nothing is under way in the writer.\<close>

lemma lease_free:
  assumes "lease_inv e l" and "\<not> en_snapshotBusy e" and "en_auto e = Some a" and "\<not> co_writing (au_controller a)"
  shows "au_jobs a = []" and "au_writer a = None" and "unread a = 0"
  using assms by (auto simp: lease_inv_def pinned_def auto_view_def writer_ok_def unread_def split: if_split_asm)

lemma beginSnapshot_case:
  "(case beginSnapshot e of (False, x) \<Rightarrow> g x | (True, x) \<Rightarrow> f x)
    = (if en_snapshotBusy e then g e else f (e\<lparr>en_snapshotBusy := True\<rparr>))"
  by (simp add: beginSnapshot_def)

lemma begin_writing_inv:
  assumes "loop_inv cfg e" and "lease_inv e l" and "\<not> en_snapshotBusy e"
    and a: "au_jobs a = []" "au_writer a = None" "unread a = 0"
    and e: "en_auto e = Some a0" "\<not> co_writing (au_controller a0)"
    and s: "scheduled cfg (en_previous e) (en_previous e) vs (au_controller a)"
    and d: "detected_since (rc_started (en_recorder e)) (au_controller a)"
    and dl: "Deadline (au_controller a) = Some end_ns" "end_ns \<le> en_previous e"
  shows "\<exists>e'. begin_writing env a (e\<lparr>en_snapshotBusy := True\<rparr>) = Some e' \<and> loop_inv cfg e'
    \<and> auto_inv cfg (en_previous e') e' \<and> lease_inv e' l"
proof -
  obtain v start c' where b: "Begin (au_controller a) = Some ((v, start), c')"
    and v: "AutoIncident_Valid (Some v) (ai_EndMonoNS v)" "start \<le> ai_EndMonoNS v"
      "ai_DetectedMonoNS v \<le> ai_EndMonoNS v" "ai_EndMonoNS v \<le> en_previous e"
    by (rule Begin_safe [OF s dl])
  have c': "co_writing c'" using b by (rule Begin_Some) simp
  let ?a1 = "a\<lparr>au_retrying := False, au_controller := c', au_writingSince := en_now e\<rparr>"
  let ?e1 = "e\<lparr>en_snapshotBusy := True, en_auto := Some ?a1\<rparr>"
  obtain h e2 where h: "loop_health env ?e1 = (h, e2)" by fastforce
  obtain a2 where a2: "e2 = ?e1\<lparr>en_auto := a2\<rparr>" "map_option auto_view a2 = Some (auto_view ?a1)"
    using h by (rule loop_health_frame) simp
  then obtain a3 where a3: "a2 = Some a3" "auto_view a3 = (c', [], None, 0)"
    using a by (auto simp: auto_view_def unread_def)
  let ?c = "automatic_capture v start h e2"
  let ?a4 = "a3\<lparr>au_jobs := [\<lparr>jb_capture = ?c\<rparr>]\<rparr>"
  let ?e' = "e\<lparr>en_snapshotBusy := True, en_auto := Some ?a4\<rparr>"
  have run: "begin_writing env a (e\<lparr>en_snapshotBusy := True\<rparr>) = Some ?e'"
    using b h a2(1) a3 by (simp add: begin_writing_def auto_view_def)
  have l2: "loop_inv cfg e2" using assms(1) a2(1) by simp
  have st: "rc_started (en_recorder e2) \<le> ai_EndMonoNS v"
    using detected_since_Begin(2) [OF b d] v(3) a2(1) by (simp add: order.trans)
  have ok: "capture_error ?c = None" by (rule automatic_capture_readable [OF l2 st v(2,1)])
  have av: "auto_view ?a4 = (c', [\<lparr>jb_capture = ?c\<rparr>], None, 0)" using a3(2) by (simp add: auto_view_def)
  have "lease_inv ?e' l" by (rule lease_begin [OF assms(2,3) e av c' _ refl]) (simp add: ok)
  moreover have "auto_inv cfg (en_previous ?e') ?e'"
    using scheduled.begin_window [OF s dl b] detected_since_Begin(1) [OF b d] av
    by (auto simp: auto_inv_def)
  ultimately show ?thesis using run assms(1) by simp
qed

lemma progress_inv:
  assumes "loop_inv cfg e" and "collected_auto cfg e" and "lease_inv e l"
  shows "\<exists>e'. progress env e = Some e' \<and> loop_inv cfg e' \<and> auto_inv cfg (en_previous e') e' \<and> lease_inv e' l"
proof (cases "en_auto e")
  case None
  with assms show ?thesis by (simp add: progress_def auto_inv_def)
next
  case (Some a0)
  define a1 where "a1 = observeWriter (en_Config e) (en_now e) a0"
  define a where "a = a1\<lparr>au_controller := CollectedThrough (en_previous e) (au_controller a1)\<rparr>"
  have v1: "auto_view a1 = auto_view a0" by (simp add: a1_def)
  have v: "auto_view a = (CollectedThrough (en_previous e) (au_controller a0), au_jobs a0, au_writer a0, unread a0)"
    using v1 by (simp add: a_def auto_view_def unread_def)
  have put: "loop_inv cfg (e\<lparr>en_auto := Some b\<rparr>) \<and> auto_inv cfg (en_previous (e\<lparr>en_auto := Some b\<rparr>)) (e\<lparr>en_auto := Some b\<rparr>)
      \<and> lease_inv (e\<lparr>en_auto := Some b\<rparr>) l" if "auto_view b = auto_view a" for b
    using put_collected [OF assms Some, of b] that v by simp
  have p: "progress env e =
     (case Deadline (au_controller a) of
        None \<Rightarrow> Some (e\<lparr>en_auto := Some (a\<lparr>au_retrying := False\<rparr>)\<rparr>)
      | Some end_ns \<Rightarrow>
          if en_now e < end_ns then
            Some (e\<lparr>en_auto := Some (a\<lparr>au_retrying := False, au_timer := Some (sint (end_ns - en_now e))\<rparr>)\<rparr>)
          else if en_previous e < end_ns then
            Some (e\<lparr>en_auto := Some (a\<lparr>au_retrying := False, au_timer := Some 0\<rparr>)\<rparr>)
          else if en_snapshotBusy e then
            Some (e\<lparr>en_auto := Some (a\<lparr>au_retrying := True, au_timer := Some AutoRetryInterval\<rparr>)\<rparr>)
          else begin_writing env a (e\<lparr>en_snapshotBusy := True\<rparr>))"
    unfolding progress_def Some option.case Let_def a1_def [symmetric] a_def [symmetric] beginSnapshot_case ..
  show ?thesis
  proof (cases "Deadline (au_controller a)")
    case None
    with put [of "a\<lparr>au_retrying := False\<rparr>"] show ?thesis unfolding p by simp
  next
    case dl: (Some end_ns)
    consider "en_now e < end_ns" | "\<not> en_now e < end_ns" "en_previous e < end_ns"
      | "\<not> en_now e < end_ns" "\<not> en_previous e < end_ns" "en_snapshotBusy e"
      | "\<not> en_now e < end_ns" "\<not> en_previous e < end_ns" "\<not> en_snapshotBusy e" by blast
    then show ?thesis
    proof cases
      case 1
      with dl put [of "a\<lparr>au_retrying := False, au_timer := Some (sint (end_ns - en_now e))\<rparr>"]
      show ?thesis unfolding p by simp
    next
      case 2
      with dl put [of "a\<lparr>au_retrying := False, au_timer := Some 0\<rparr>"] show ?thesis unfolding p by simp
    next
      case 3
      with dl put [of "a\<lparr>au_retrying := True, au_timer := Some AutoRetryInterval\<rparr>"]
      show ?thesis unfolding p by simp
    next
      case 4
      have ctl: "au_controller a = CollectedThrough (en_previous e) (au_controller a0)"
        and js: "au_jobs a = au_jobs a0" "au_writer a = au_writer a0"
          "unread a = unread a0" using v by (auto simp: auto_view_def unread_def)
      have "\<not> co_writing (au_controller a)" using dl by (auto simp: Deadline_def split: option.splits if_splits)
      then have nw: "\<not> co_writing (au_controller a0)" by (simp add: ctl)
      note f = lease_free [OF assms(3) 4(3) Some nw]
      have f': "au_jobs a = []" "au_writer a = None" "unread a = 0" using f js by simp_all
      obtain q vs where s: "scheduled cfg q (en_previous e) vs (au_controller a0)"
        and d: "detected_since (rc_started (en_recorder e)) (au_controller a0)"
        using assms(2) Some by (auto simp: collected_auto_def auto_view_def)
      have s': "scheduled cfg (en_previous e) (en_previous e) vs (au_controller a)"
        unfolding ctl by (rule scheduled.collected [OF s])
      have d': "detected_since (rc_started (en_recorder e)) (au_controller a)" using d by (simp add: ctl)
      have le: "end_ns \<le> en_previous e" using 4(2) by simp
      show ?thesis
        using begin_writing_inv [OF assms(1,3) 4(3) f' Some nw s' d' dl le, of env] dl 4 unfolding p by simp
    qed
  qed
qed

section \<open>Rounds\<close>

definition between :: "Config \<Rightarrow> Engine \<Rightarrow> nat \<Rightarrow> bool" where
  "between cfg e l \<longleftrightarrow> loop_inv cfg e \<and> auto_inv cfg (en_previous e) e \<and> lease_inv e l"

text \<open>Before the progress of a round.\<close>

definition before_progress :: "Config \<Rightarrow> Engine \<Rightarrow> nat \<Rightarrow> bool" where
  "before_progress cfg e l \<longleftrightarrow> loop_inv cfg e \<and> collected_auto cfg e \<and> lease_inv e l"

definition reply_ok :: "Result option \<Rightarrow> bool" where
  "reply_ok res \<longleftrightarrow> (\<forall>q c. res = Some q \<longrightarrow> qr_Capture q = Some c \<longrightarrow> qr_Lease q \<and> capture_error c = None)"

text \<open>A round does not panic; its reply is sound; and if the loop goes on, the invariants hold.\<close>

definition round_ok :: "Config \<Rightarrow> nat \<Rightarrow> round \<Rightarrow> bool" where
  "round_ok cfg l r \<longleftrightarrow>
     (\<exists>out res e'. r = Some (out, res, e') \<and> reply_ok res \<and> (out = Loop \<longrightarrow> between cfg e' (l + leases res)))"

lemma round_ok_return [simp]: "reply_ok res \<Longrightarrow> round_ok cfg l (Some (Return err, res, e))"
  by (simp add: round_ok_def)

lemma round_ok_loop: "reply_ok res \<Longrightarrow> between cfg e (l + leases res) \<Longrightarrow> round_ok cfg l (Some (Loop, res, e))"
  by (simp add: round_ok_def)

lemma reply_ok_None [simp]: "reply_ok None"
  by (simp add: reply_ok_def)

lemma between_before: "between cfg e l \<Longrightarrow> before_progress cfg e l"
  by (auto simp: between_def before_progress_def intro: auto_inv_collected)

lemma then_progress_ok:
  assumes "before_progress cfg e (l + leases res)" and "reply_ok res"
  shows "round_ok cfg l (then_progress env res e)"
  using assms progress_inv [of cfg e "l + leases res" env]
  by (auto simp: round_ok_def then_progress_def before_progress_def between_def)

lemma between_same_auto:
  assumes "between cfg e l" and "loop_inv cfg e'" and "same_auto e e'" shows "between cfg e' l"
proof -
  have "en_previous e' = en_previous e" using assms(3) by (simp add: same_auto_def)
  then show ?thesis using assms(1,2) same_auto_inv [OF assms(3)] by (simp add: between_def)
qed

lemma sensors_ok_same_auto: "same_auto e e' \<Longrightarrow> sensors_ok e env \<Longrightarrow> sensors_ok e' env"
  by (simp add: sensors_ok_def same_auto_def)

subsection \<open>The steps of a round\<close>

definition clock_follows :: "Config \<Rightarrow> Env \<Rightarrow> Engine \<Rightarrow> bool" where
  "clock_follows cfg env e \<longleftrightarrow>
     (\<forall>k t. 1 \<le> k \<longrightarrow> ev_clock env k = Inr t \<longrightarrow> en_now e \<le> t \<and> in_range cfg t
       \<and> (\<forall>j u. k \<le> j \<longrightarrow> ev_clock env j = Inr u \<longrightarrow> t \<le> u))"

lemma observeClock_ok:
  assumes "observeClock env e = (None, e1)" and "between cfg e l" and "env_ok cfg e env"
  shows "between cfg e1 l" and "sensors_ok e1 env" and "clock_follows cfg env e1"
proof -
  have l: "loop_inv cfg e" and c: "clocks_ok cfg e env" and s: "sensors_ok e env"
    using assms(2,3) by (simp_all add: between_def env_ok_def)
  note o = observeClock_inv [OF assms(1) l c]
  show "between cfg e1 l" by (rule between_same_auto [OF assms(2) o(1,2)])
  show "sensors_ok e1 env" by (rule sensors_ok_same_auto [OF o(2) s])
  show "clock_follows cfg env e1" using o(3) unfolding clock_follows_def .
qed

lemma advance_recorder_ok:
  assumes "between cfg e l" and "sensors_ok e env" and "clock_follows cfg env e"
  obtains e' where "advance_recorder e = Some e'" and "between cfg e' l" and "sensors_ok e' env"
    and "clock_follows cfg env e'"
proof -
  obtain r where "Advance (en_now e) (en_recorder e) = Some r" using Advance_total by blast
  then obtain e' where e': "advance_recorder e = Some e'" by (simp add: advance_recorder_def)
  have l: "loop_inv cfg e" using assms(1) by (simp add: between_def)
  note a = advance_recorder_inv [OF l e'] and s = advance_same_auto [OF l e']
  have "en_now e' = en_now e" using a(2) by auto
  then have "clock_follows cfg env e'" using assms(3) by (simp add: clock_follows_def)
  with e' show thesis
    by (rule that [OF _ between_same_auto [OF assms(1) a(1) s] sensors_ok_same_auto [OF s assms(2)]])
qed

lemma drain_events_total: "drain_events env n vs e \<noteq> None"
  by (induction env n vs e rule: drain_events.induct) (auto simp: Recorder_Event_total split: sum.split option.split)

lemma drain_ok:
  assumes "between cfg e l" and "sensors_ok e env" and "clock_follows cfg env e"
  obtains err e' where "drain env e = Some (Some err, e')"
  | e' where "drain env e = Some (None, e')" and "between cfg e' l" and "sensors_ok e' env"
proof -
  obtain r e' where d: "drain env e = Some (r, e')"
    using drain_events_total [of env 1 "en_ingress e" e] by (auto simp: drain_def)
  show thesis
  proof (cases r)
    case None
    have l: "loop_inv cfg e" using assms(1) by (simp add: between_def)
    note i = drain_inv [OF d [unfolded None] l assms(3) [unfolded clock_follows_def]]
    show thesis
      by (rule that(2) [OF d [unfolded None] between_same_auto [OF assms(1) i] sensors_ok_same_auto [OF i(2) assms(2)]])
  next
    case (Some err) with d that(1) show thesis by blast
  qed
qed

lemma collect_sensor_total: "collect_sensor env end_ns s e \<noteq> None"
  by (auto simp: collect_sensor_def Let_def record_metric_def Recorder_Metric_total
      split: sum.split option.split dest!: arg_cong [of _ None])

lemma collect_total: "collect env end_ns e \<noteq> None"
proof -
  have "collect_sensors env end_ns ss e \<noteq> None" for ss
    by (induction env end_ns ss e rule: collect_sensors.induct)
      (auto simp: collect_sensor_total split: option.split)
  then show ?thesis by (auto simp: collect_def split: option.split)
qed

lemma collect_ok:
  assumes "between cfg e l" and "sensors_ok e env"
  obtains err e' where "collect env (en_now e) e = Some (Some err, e')"
  | e' where "collect env (en_now e) e = Some (None, e')" and "before_progress cfg e' l"
proof -
  obtain r e' where c: "collect env (en_now e) e = Some (r, e')"
    using collect_total [of env "en_now e" e] by auto
  show thesis
  proof (cases r)
    case None
    have "loop_inv cfg e" "auto_inv cfg (en_previous e) e" "lease_inv e l"
      using assms(1) by (simp_all add: between_def)
    note i = collect_inv [OF c [unfolded None] this assms(2)]
    show thesis by (rule that(2) [OF c [unfolded None]]) (simp add: before_progress_def i)
  next
    case (Some err) with c that(1) show thesis by blast
  qed
qed

subsection \<open>The handlers\<close>

lemma collect_then_progress_ok:
  assumes "between cfg e l" and "sensors_ok e env"
  shows "round_ok cfg l (case collect env (en_now e) e of
       None \<Rightarrow> None
     | Some (Some err, e4) \<Rightarrow> Some (Return err, None, e4)
     | Some (None, e4) \<Rightarrow> then_progress env None e4)"
  using assms
proof (cases rule: collect_ok)
  case (2 e')
  then show ?thesis using then_progress_ok [of cfg e' l None env] by simp
qed simp

lemma handle_poll_ok:
  assumes "between cfg e l" and "env_ok cfg e env" shows "round_ok cfg l (handle_poll env e)"
proof (cases "observeClock env e")
  case (Pair r e1)
  show ?thesis
  proof (cases r)
    case None
    note o = observeClock_ok [OF Pair [unfolded None] assms]
    obtain e2 where a: "advance_recorder e1 = Some e2" "between cfg e2 l" "sensors_ok e2 env"
      using o by (rule advance_recorder_ok)
    show ?thesis
      using collect_then_progress_ok [OF a(2,3)] by (simp add: handle_poll_def Pair None a(1))
  qed (simp add: handle_poll_def Pair)
qed

lemma handle_tick_ok:
  assumes "between cfg e l" and "env_ok cfg e env" shows "round_ok cfg l (handle_tick env e)"
proof (cases "observeClock env e")
  case (Pair r e1)
  show ?thesis
  proof (cases r)
    case None
    note o = observeClock_ok [OF Pair [unfolded None] assms]
    show ?thesis
    proof (cases "case en_auto e1 of None \<Rightarrow> False | Some a \<Rightarrow> au_retrying a")
      case True
      then show ?thesis
        using then_progress_ok [of cfg e1 l None env] between_before [OF o(1)]
        by (simp add: handle_tick_def Pair None)
    next
      case False
      from o show ?thesis
      proof (cases rule: drain_ok)
        case (1 err e2)
        with False show ?thesis by (simp add: handle_tick_def Pair None)
      next
        case (2 e2)
        obtain r3 where "Advance (en_now e2) (en_recorder e2) = Some r3" using Advance_total by blast
        then obtain e3 where e3: "advance_recorder e2 = Some e3" by (simp add: advance_recorder_def)
        have l2: "loop_inv cfg e2" using 2(2) by (simp add: between_def)
        note s = advance_same_auto [OF l2 e3]
        have b3: "between cfg e3 l"
          by (rule between_same_auto [OF 2(2) advance_recorder_inv(1) [OF l2 e3] s])
        show ?thesis
          using collect_then_progress_ok [OF b3 sensors_ok_same_auto [OF s 2(3)]] False 2(1) e3
          by (simp add: handle_tick_def Pair None)
      qed
    qed
  qed (simp add: handle_tick_def Pair)
qed

lemma handle_ingress_ok:
  assumes "between cfg e l" and "env_ok cfg e env"
  shows "round_ok cfg l (handle_ingress env v (e\<lparr>en_ingress := vs\<rparr>))"
proof (cases "ev_clock env 0")
  case (Inr t)
  obtain ok r where r: "Recorder_Event v t (en_recorder e) = Some (ok, r)"
    using Recorder_Event_total [of v t "en_recorder e"] by auto
  have t: "en_now e \<le> t" "in_range cfg t" using assms(2) Inr by (auto simp: env_ok_def clocks_ok_def)
  have l: "loop_inv cfg e" using assms(1) by (simp add: between_def)
  let ?e' = "e\<lparr>en_ingress := vs, en_now := t, en_recorder := r\<rparr>"
  have "loop_inv cfg ?e'" using record_event_inv [OF l t r] by (simp add: loop_inv_def)
  moreover have "same_auto e ?e'" using t(1) recorder_started(2) [OF r] by (simp add: same_auto_def)
  ultimately have "between cfg ?e' l" by (rule between_same_auto [OF assms(1)])
  then show ?thesis by (simp add: handle_ingress_def Inr r round_ok_loop)
qed (simp add: handle_ingress_def)

lemma RecordSnapshotFailure_frame [simp]:
  "loop_inv cfg (RecordSnapshotFailure e) = loop_inv cfg e"
  "auto_inv cfg q (RecordSnapshotFailure e) = auto_inv cfg q e"
  "lease_inv (RecordSnapshotFailure e) l = lease_inv e l"
  "en_previous (RecordSnapshotFailure e) = en_previous e"
  by (simp_all add: RecordSnapshotFailure_def loop_inv_def auto_inv_def lease_inv_def pinned_def)

lemma automatic_finish_ok:
  assumes "loop_inv cfg e" and "en_auto e = Some a" and "au_jobs a = []" "au_writer a = None" "unread a = 0"
    and "co_writing (au_controller a)" and "l = (if en_snapshotBusy e then 1 else 0)"
    and "\<exists>vs. scheduled cfg (en_previous e) (en_previous e) vs (au_controller a)"
    and "detected_since (rc_started (en_recorder e)) (au_controller a)"
  shows "between cfg (automatic_finish res e) l"
proof -
  let ?c = "Finish (ar_path res) (ar_at res) (ar_err res) (au_controller a)"
  let ?e = "e\<lparr>en_auto := Some (a\<lparr>au_writingSince := 0, au_overdueLogged := False, au_controller := ?c\<rparr>)\<rparr>"
  have nw: "\<not> co_writing ?c" by (cases "ar_err res") (simp_all add: Finish_def Let_def)
  have "lease_inv ?e l" using assms(3-5,7) nw by (simp add: lease_inv_def pinned_def auto_view_def writer_ok_def unread_def)
  moreover have "auto_inv cfg (en_previous e) ?e"
    using assms(6,8,9) by (auto simp: auto_inv_def auto_view_def intro: scheduled.finish)
  ultimately show ?thesis
    using assms(1,2) by (cases "ar_err res") (simp_all add: automatic_finish_def Let_def between_def)
qed

lemma handle_completed_ok:
  assumes "between cfg e l" and "env_ok cfg e env" and "en_auto e = Some a" and "au_results a = r # rs"
  shows "round_ok cfg l (handle_completed env r (set_automatic (a\<lparr>au_results := rs\<rparr>) e))"
proof -
  let ?a = "a\<lparr>au_results := rs\<rparr>" and ?e = "set_automatic (a\<lparr>au_results := rs\<rparr>) e"
  have l: "loop_inv cfg ?e" using assms(1) by (simp add: between_def set_automatic_def)
  have c: "clocks_ok cfg ?e env" using assms(2) by (simp add: env_ok_def clocks_ok_def set_automatic_def)
  have w: "au_jobs a = []" "au_writer a = None" "unread ?a = 0" "co_writing (au_controller a)"
    and n: "l = (if en_snapshotBusy e then 1 else 0)"
    using assms(1,3,4)
    by (auto simp: between_def lease_inv_def pinned_def auto_view_def writer_ok_def unread_def split: if_split_asm)
  have s: "\<exists>vs. scheduled cfg (en_previous e) (en_previous e) vs (au_controller a)"
    "detected_since (rc_started (en_recorder e)) (au_controller a)"
    using assms(1,3) by (auto simp: between_def auto_inv_def auto_view_def)
  show ?thesis
  proof (cases "observeClock env ?e")
    case (Pair x e1)
    show ?thesis
    proof (cases x)
      case None
      note o = observeClock_inv [OF Pair [unfolded None] l c]
      have f: "en_auto e1 = Some ?a" "en_snapshotBusy e1 = en_snapshotBusy e" "en_previous e1 = en_previous e"
        "rc_started (en_recorder e1) = rc_started (en_recorder e)"
        using o(2) by (simp_all add: same_auto_def set_automatic_def)
      have "between cfg (automatic_finish r e1) l"
        by (rule automatic_finish_ok [OF o(1) f(1)]) (use w n s f in simp_all)
      then show ?thesis
        using then_progress_ok [of cfg "automatic_finish r e1" l None env]
        by (simp add: handle_completed_def Pair None between_before)
    qed (simp add: handle_completed_def Pair)
  qed
qed

text \<open>The lease comes back, or is passed on with the capture.\<close>

lemma lease_release: "lease_inv e (Suc l) \<Longrightarrow> lease_inv (releaseSnapshot e) l"
  by (auto simp: lease_inv_def pinned_def releaseSnapshot_def split: if_split_asm)

lemma releaseSnapshot_frame [simp]:
  "loop_inv cfg (releaseSnapshot e) = loop_inv cfg e"
  "auto_inv cfg q (releaseSnapshot e) = auto_inv cfg q e"
  "collected_auto cfg (releaseSnapshot e) = collected_auto cfg e"
  "en_previous (releaseSnapshot e) = en_previous e"
  by (simp_all add: releaseSnapshot_def loop_inv_def auto_inv_def collected_auto_def)

lemma reply_step:
  assumes "before_progress cfg e (l + (if qr_Lease q then 1 else 0))" and "reply_ok (Some q)"
    and "reply delivered q e = (res, e')"
  shows "before_progress cfg e' (l + leases res)" and "reply_ok res"
  using assms lease_release [of e l]
  by (auto simp: reply_def before_progress_def split: if_split_asm)

lemma reply_error_ok [simp]: "reply_ok (Some (error_result err))" "\<not> qr_Lease (error_result err)"
  by (simp_all add: reply_ok_def error_result_def)

lemma reply_error: "reply delivered (error_result err) e = (if delivered then Some (error_result err) else None, e)"
  by (simp add: reply_def)

lemma reply_progress_ok:
  assumes "before_progress cfg e (l + (if qr_Lease q then 1 else 0))" and "reply_ok (Some q)"
  shows "round_ok cfg l (let (res, e') = reply delivered q e in then_progress env res e')"
proof (cases "reply delivered q e")
  case (Pair res e')
  from reply_step [OF assms Pair] then_progress_ok [of cfg e' l res env] show ?thesis by (simp add: Pair)
qed

lemma before_progress_cong:
  assumes "before_progress cfg e l" and "loop_inv cfg e'" and "view e' = view e"
    and "en_previous e' = en_previous e" and "rc_started (en_recorder e') = rc_started (en_recorder e)"
  shows "collected_auto cfg e'"
    and "en_snapshotBusy e' = en_snapshotBusy e \<Longrightarrow> before_progress cfg e' l"
    and "\<not> en_snapshotBusy e \<Longrightarrow> en_snapshotBusy e' \<Longrightarrow> before_progress cfg e' (Suc l)"
  using assms by (auto simp: before_progress_def collected_auto_def lease_inv_def pinned_def)

lemma answer_ok:
  assumes "before_progress cfg e l" shows "round_ok cfg l (answer env delivered last_d e)"
proof -
  obtain h e1 where h: "loop_health env e = (h, e1)" by fastforce
  obtain a where e1: "e1 = e\<lparr>en_auto := a\<rparr>" "map_option auto_view a = view e"
    using h by (rule loop_health_frame)
  have l1: "loop_inv cfg e1" using assms e1 by (simp add: before_progress_def)
  have b1: "before_progress cfg e1 l"
    by (rule before_progress_cong(2) [OF assms l1]) (simp_all add: e1)
  consider "last_d \<le> 0" | "0 < last_d" "en_snapshotBusy e1" | "0 < last_d" "\<not> en_snapshotBusy e1" by fastforce
  then show ?thesis
  proof cases
    case 1
    with reply_progress_ok [of cfg e1 l "\<lparr>qr_Lease = False, qr_Health = h, qr_Capture = None, qr_Err = None\<rparr>" delivered env]
    show ?thesis using b1 h by (simp add: answer_def reply_ok_def)
  next
    case 2
    with reply_progress_ok [of cfg e1 l "error_result (Errorf ''a snapshot is already being written'')" delivered env]
    show ?thesis using b1 h by (simp add: answer_def beginSnapshot_def)
  next
    case 3
    let ?e2 = "e1\<lparr>en_snapshotBusy := True\<rparr>"
    have l2: "loop_inv cfg ?e2" using l1 by simp
    obtain r0 where "Advance (en_now ?e2) (en_recorder ?e2) = Some r0" using Advance_total by blast
    then obtain c r where s: "Snapshot last_d (en_now ?e2) (ck_host (en_tracker ?e2)) (h\<lparr>he_AutoCapture := None\<rparr>)
        ''ebpf'' (en_recorder ?e2) = Some (c, r)" by (simp add: Snapshot_def Let_def)
    note n = Snapshot_loop_readable [OF l2 s]
    let ?e3 = "?e2\<lparr>en_recorder := r\<rparr>"
    let ?c = "c\<lparr>cp_Manifest := (cp_Manifest c)\<lparr>mf_Settings := Engine_Settings ?e3\<rparr>\<rparr>"
    let ?q = "\<lparr>qr_Lease = True, qr_Health = h, qr_Capture = Some ?c, qr_Err = None\<rparr>"
    have "before_progress cfg ?e3 (Suc l)"
      by (rule before_progress_cong(3) [OF b1 n(2)]) (use 3 n(3) in simp_all)
    moreover have "reply_ok (Some ?q)" using n(1) by (simp add: reply_ok_def capture_error_settings)
    ultimately have "round_ok cfg l (let (res, e4) = reply delivered ?q ?e3 in then_progress env res e4)"
      by (intro reply_progress_ok) simp_all
    moreover have "answer env delivered last_d e = (let (res, e4) = reply delivered ?q ?e3 in then_progress env res e4)"
      unfolding answer_def h using 3 s by (simp add: beginSnapshot_def Let_def)
    ultimately show ?thesis by (simp only:)
  qed
qed

lemma query_fails_ok: "round_ok cfg l (query_fails delivered err e)"
  by (simp add: query_fails_def reply_error)

lemma handle_query_ok:
  assumes "between cfg e l" and "env_ok cfg e env"
  shows "round_ok cfg l (handle_query env alive delivered last_d e)"
proof (cases "observeClock env e")
  case (Pair x e1)
  consider "\<not> alive" | err where "alive" "x = Some err" | "alive" "x = None" by (cases x) blast+
  then show ?thesis
  proof cases
    case 1 with assms(1) show ?thesis by (simp add: handle_query_def round_ok_loop)
  next
    case 2 with Pair show ?thesis by (simp add: handle_query_def)
  next
    case 3
    note o = observeClock_ok [OF Pair [unfolded 3(2)] assms]
    obtain e2 where a: "advance_recorder e1 = Some e2" "between cfg e2 l" "sensors_ok e2 env" "clock_follows cfg env e2"
      using o by (rule advance_recorder_ok)
    show ?thesis
    proof (cases "last_d < 0 \<or> cf_History (en_Config e2) < last_d")
      case True
      with Pair 3 a show ?thesis by (simp add: handle_query_def reply_error round_ok_loop)
    next
      case False
      note start = Pair 3 a(1) False
      from a(2-4) show ?thesis
      proof (cases rule: drain_ok)
        case (1 err e3)
        with start query_fails_ok show ?thesis by (simp add: handle_query_def)
      next
        case (2 e3)
        show ?thesis
        proof (cases "0 < last_d")
          case False
          with start 2 answer_ok [OF between_before [OF 2(2)]] show ?thesis by (simp add: handle_query_def)
        next
          case True
          from 2(2,3) show ?thesis
          proof (cases rule: collect_ok)
            case (1 err e4)
            with start 2 True query_fails_ok show ?thesis by (simp add: handle_query_def)
          next
            case c: (2 e4)
            with start 2 True answer_ok [OF c(2)] show ?thesis by (simp add: handle_query_def)
          qed
        qed
      qed
    qed
  qed
qed

section \<open>Every reachable state\<close>

lemma Config_Validate_recorder:
  assumes "Config_Validate cfg = None"
  shows "segmentCost \<le> cf_RecorderBudgetBytes cfg" and "to_u64 (re_SegmentInterval (cf_Resources cfg)) \<noteq> 0"
proof -
  have "cf_RecorderBudgetBytes cfg = RecorderBudgetBytes"
    and "MinInterval \<le> re_SegmentInterval (cf_Resources cfg)" and "re_SegmentInterval (cf_Resources cfg) \<le> MaxInterval"
    using assms
    by (auto simp: Config_Validate_def Resources_error_def first_error_None ordered_def split: if_splits)
  then show "segmentCost \<le> cf_RecorderBudgetBytes cfg" and "to_u64 (re_SegmentInterval (cf_Resources cfg)) \<noteq> 0"
    using to_u64_nonzero [of "re_SegmentInterval (cf_Resources cfg)"] by (simp_all add: segmentCost_def limit_defs)
qed

lemma start_between:
  assumes "Config_Validate cfg = None" and "int64_thresholds cfg" and "in_range cfg now" and "distinct ready"
    and "ho_ClockSource host = ''boottime''" and "anchored (ck_host tracker)"
  shows "between cfg (start_loop cfg host ready unavailable tracker now) 0"
proof -
  let ?e = "start_loop cfg host ready unavailable tracker now"
  have r: "recording now now (en_recorder ?e)"
    using recording.start [OF Config_Validate_recorder [OF assms(1)]] by (simp add: start_loop_def)
  have "rc_started (en_recorder ?e) = now"
    by (simp add: start_loop_def NewWithSegmentInterval_def Let_def open_active_def)
  with r assms have "loop_inv cfg ?e" by (auto simp: loop_inv_def start_loop_def)
  moreover have "auto_inv cfg (en_previous ?e) ?e"
    using assms(1-3)
    by (auto simp: auto_inv_def start_loop_def newAutomatic_def auto_view_def intro: scheduled.start split: if_split_asm)
  moreover have "lease_inv ?e 0"
    by (auto simp: lease_inv_def pinned_def start_loop_def newAutomatic_def auto_view_def writer_ok_def
        NewController_def Let_def)
  ultimately show ?thesis by (simp add: between_def)
qed

lemma start_sensors_ready:
  "start_sensors strict init ss missing = Inr (ready, un) \<Longrightarrow> distinct ss \<Longrightarrow>
   distinct ready \<and> set ready \<subseteq> set ss"
proof (induction strict init ss missing arbitrary: ready un rule: start_sensors.induct)
  case (2 strict init s ss missing)
  show ?case
  proof (cases "init s")
    case None
    then obtain r u where "start_sensors strict init ss missing = Inr (r, u)" "ready = s # r"
      using "2.prems"(1) by (cases "start_sensors strict init ss missing") auto
    with "2.IH"(1) [OF None] "2.prems"(2) show ?thesis by auto
  next
    case (Some err)
    with "2.prems" "2.IH"(2) [OF Some] show ?thesis by (auto split: if_splits)
  qed
qed simp

lemma RunWithReady_start_between:
  assumes "Config_Validate cfg = None" and "int64_thresholds cfg" and "distinct sensors"
    and "ho_ClockSource host = ''boottime''" and "ValidateClock host = None"
    and "cs_wall sample \<noteq> 0" and "in_range cfg (cs_bootNS sample)"
    and "RunWithReady_start cfg host sensors missing sample init = Inr e"
  shows "between cfg e 0"
proof -
  obtain d tracker ready un where c: "clock_observe sample (newClockTracker host) = (Inr d, tracker)"
    and s: "start_sensors (cf_Strict cfg) init sensors missing = Inr (ready, un)"
    and e: "e = start_loop cfg host ready un tracker (cs_bootNS sample)"
    using assms(8) by (auto simp: RunWithReady_start_def split: sum.splits prod.splits if_splits)
  have "anchored (ck_host tracker)"
    by (rule clock_observe_anchored [OF c]) (use assms(5,6) in \<open>simp_all add: newClockTracker_def anchored_def\<close>)
  moreover have "distinct ready" using start_sensors_ready [OF s assms(3)] by blast
  ultimately show ?thesis unfolding e using assms(1,2,4,7) by (intro start_between)
qed

lemma between_auto:
  assumes "between cfg e l" and "en_auto e = Some a" and "au_controller a' = au_controller a"
  shows "loop_inv cfg (set_automatic a' e)" and "auto_inv cfg (en_previous (set_automatic a' e)) (set_automatic a' e)"
  using assms by (auto simp: between_def set_automatic_def auto_inv_def auto_view_def)

lemma round_between:
  assumes "round_ok cfg l (Some (Loop, res, e'))" shows "between cfg e' (l + leases res)" and "reply_ok res"
  using assms by (simp_all add: round_ok_def)

text \<open>Only a query replies to a client.\<close>

lemma no_reply:
  "then_progress env None e = Some (out, res, e') \<Longrightarrow> res = None"
  "handle_poll env e = Some (out, res, e') \<Longrightarrow> res = None"
  "handle_tick env e = Some (out, res, e') \<Longrightarrow> res = None"
  "handle_ingress env v e = Some (out, res, e') \<Longrightarrow> res = None"
  "handle_completed env r e = Some (out, res, e') \<Longrightarrow> res = None"
  by (auto simp: handle_poll_def handle_tick_def handle_ingress_def handle_completed_def then_progress_def
      split: prod.splits option.splits sum.splits if_splits)

lemma running_between: "running cfg e l \<Longrightarrow> between cfg e l"
proof (induction rule: running.induct)
  case (start sensors host sample missing init e)
  then show ?case by (rule RunWithReady_start_between)
next
  case (reader e l v)
  have "loop_inv cfg (sink v e) \<and> same_auto e (sink v e)"
    using reader.IH by (simp add: between_def loop_inv_def sink_def same_auto_def)
  then show ?case using between_same_auto [OF reader.IH] by blast
next
  case (ingress e l env v vs res e')
  from round_between(1) [OF handle_ingress_ok [OF ingress.IH ingress.hyps(2), of v vs, unfolded ingress.hyps(4)]]
  show ?case using no_reply(4) [OF ingress.hyps(4)] by simp
next
  case (poll e l env res e')
  from round_between(1) [OF handle_poll_ok [OF poll.IH poll.hyps(2), unfolded poll.hyps(3)]]
  show ?case using no_reply(2) [OF poll.hyps(3)] by simp
next
  case (tick e l env res e')
  from round_between(1) [OF handle_tick_ok [OF tick.IH tick.hyps(2), unfolded tick.hyps(3)]]
  show ?case using no_reply(3) [OF tick.hyps(3)] by simp
next
  case (completed e l env a r rs res e')
  from round_between(1) [OF handle_completed_ok [OF completed.IH completed.hyps(2-4), unfolded completed.hyps(5)]]
  show ?case using no_reply(5) [OF completed.hyps(5)] by simp
next
  case (query e l env alive delivered last_d res e')
  show ?case
    by (rule round_between(1) [OF handle_query_ok [OF query.IH query.hyps(2), of alive delivered last_d, unfolded query.hyps(3)]])
next
  case (release e l)
  then show ?case using lease_release by (simp add: between_def)
next
  case (take_job e l a j js)
  have "lease_inv (set_automatic (a\<lparr>au_jobs := js, au_writer := Some j\<rparr>) e) l"
    using take_job.IH take_job.hyps(2-5)
    by (auto simp: between_def lease_inv_def pinned_def set_automatic_def auto_view_def writer_ok_def)
  with between_auto [OF take_job.IH take_job.hyps(2), of "a\<lparr>au_jobs := js, au_writer := Some j\<rparr>"]
  show ?case by (simp add: between_def)
next
  case (saved e l a j r)
  let ?a = "a\<lparr>au_writer := None, au_sending := Some r\<rparr>"
  have "lease_inv (releaseSnapshot (set_automatic ?a e)) l"
    using saved.IH saved.hyps(2,3)
    by (auto simp: between_def lease_inv_def pinned_def set_automatic_def auto_view_def writer_ok_def
        releaseSnapshot_def split: if_split_asm)
  with between_auto [OF saved.IH saved.hyps(2), of ?a] show ?case by (simp add: between_def)
next
  case (sent e l a r)
  let ?a = "a\<lparr>au_sending := None, au_results := [r]\<rparr>"
  have "lease_inv (set_automatic ?a e) l"
    using sent.IH sent.hyps(2-4)
    by (auto simp: between_def lease_inv_def pinned_def set_automatic_def auto_view_def writer_ok_def)
  with between_auto [OF sent.IH sent.hyps(2), of ?a] show ?case by (simp add: between_def)
qed

section \<open>A run of the loop\<close>

text \<open>
  One block sensor with two critical requests in every interval.  The loop starts at
  100, polls at 1100 (the incident opens), and at 1100 + 10 s, when the window is
  complete and handed to the writer.
\<close>

definition ex_anchor :: Host where
  "ex_anchor = \<lparr>ho_Hostname = ''h'', ho_Kernel = ''6.8'', ho_Architecture = ''amd64'', ho_BootID = ''b'',
     ho_ClockSource = ''boottime'', ho_AnchorMonoNS = 50, ho_AnchorWall = 10 ^ 18\<rparr>"

definition ex_ready :: "string \<Rightarrow> SensorHealth" where
  "ex_ready s = \<lparr>sh_BookkeepingCompletions = 0, sh_BudgetPruneFailures = 0, sh_TCPResetCoverage = [],
     sh_KernelBytes = 0, sh_KernelBytesKnown = True, sh_Name = s, sh_State = ''healthy'', sh_Reason = [],
     sh_Loss = zero_Counters\<rparr>"

definition ex_env :: "u64 \<Rightarrow> Env" where
  "ex_env t = \<lparr>ev_clock = (\<lambda>n. Inr t), ev_sample = Inr \<lparr>cs_bootNS = t, cs_wall = 10 ^ 18 + uint t\<rparr>,
     ev_health = ex_ready,
     ev_health_after = ex_ready,
     ev_snapshot = (\<lambda>s a b. Inr (zero_Metric\<lparr>mt_Family := s, mt_StartMonoNS := a, mt_EndMonoNS := b,
       mt_Critical := 2, mt_Histogram := replicate HistogramBuckets 0\<rparr>))\<rparr>"

definition ex_open :: "go_error + Engine" where
  "ex_open = RunWithReady_start Default ex_anchor [''block_io'', ''tcp''] [] \<lparr>cs_bootNS = 100, cs_wall = 10 ^ 18 + 50\<rparr>
     (\<lambda>s. if s = ''tcp'' then Some (Errorf ''attach failed'') else None)"

definition ex_start :: Engine where
  "ex_start = projr ex_open"

definition ex_polled :: Engine where
  "ex_polled = snd (snd (the (handle_poll (ex_env 1100) ex_start)))"

definition ex_writing :: Engine where
  "ex_writing = snd (snd (the (handle_poll (ex_env 10000001100) ex_polled)))"

lemma ex_env_ok:
  assumes "en_now e \<le> t" and "in_range Default t"
    and "\<And>a i. en_auto e = Some a \<Longrightarrow> i \<in> set_option (co_current (au_controller a)) \<union> set_option (co_next (au_controller a))
      \<Longrightarrow> \<forall>x \<in> set (ai_Triggers i). at_Count x \<le> at_Count x + 2"
  shows "env_ok Default e (ex_env t)"
proof -
  have n: "(10 ^ 18 :: int) + uint t \<noteq> 0" by (rule less_imp_neq [symmetric], rule add_pos_nonneg) simp_all
  have c: "counts_fit m (au_controller a)" if "en_auto e = Some a" "mt_Critical m = 2" "mt_Count m = 0" for a m
    using assms(3) [OF that(1)] that(2,3)
    by (auto simp: counts_fit_def trigger_of_def split: option.splits if_splits)
  show ?thesis
    using assms(1,2) n c
    by (auto simp: env_ok_def clocks_ok_def sensors_ok_def ex_env_def histogram_wf_def zero_Metric_def)
qed

lemma ex_start_running: "running Default ex_start 0"
proof -
  have ok: "int64_thresholds Default" "in_range Default 100" "ValidateClock ex_anchor = None"
    "ho_ClockSource ex_anchor = ''boottime''" "isl ex_open = False" by code_simp+
  then have "ex_open = Inr ex_start" by (simp add: ex_start_def)
  then show ?thesis
    using ok unfolding ex_open_def by (intro running.start [OF Default_valid]) simp_all
qed

lemma handled: "fst (the r) = Loop \<Longrightarrow> r \<noteq> None \<Longrightarrow> r = Some (Loop, fst (snd (the r)), snd (snd (the r)))"
  by auto

lemma ex_polled_running: "running Default ex_polled 0"
proof -
  have "en_now ex_start \<le> 1100" "in_range Default 1100" by code_simp+
  moreover have "co_current (au_controller (the (en_auto ex_start))) = None"
    "co_next (au_controller (the (en_auto ex_start))) = None" by code_simp+
  ultimately have "env_ok Default ex_start (ex_env 1100)" by (intro ex_env_ok) auto
  then show ?thesis
    unfolding ex_polled_def by (rule running.poll [OF ex_start_running]) (rule handled, code_simp+)
qed

lemma ex_writing_running: "running Default ex_writing 0"
proof -
  have "en_now ex_polled \<le> 10000001100" "in_range Default 10000001100" by code_simp+
  moreover have "map at_Count (ai_Triggers (the (co_current (au_controller (the (en_auto ex_polled)))))) = [2]"
    "co_next (au_controller (the (en_auto ex_polled))) = None" by code_simp+
  ultimately have "env_ok Default ex_polled (ex_env 10000001100)" by (intro ex_env_ok) auto
  then show ?thesis
    unfolding ex_writing_def by (rule running.poll [OF ex_polled_running]) (rule handled, code_simp+)
qed

section \<open>Properties\<close>

text \<open>C6: at most one selected capture is pinned.  In every reachable state of the event loop the captures
  clients have not released and the jobs queued for or held by the writer are
  together one if the engine's snapshot lease is taken, and none if it is free;
  and at most one of the queued job, the writer's job, the result it is about to
  send and the unread result exists, so sending a job or a result never blocks.\<close>
theorem lease_exclusive:
  assumes "running cfg e l"
  shows "l + (case en_auto e of None \<Rightarrow> 0 | Some a \<Rightarrow> length (au_jobs a) + length (filter (\<lambda>w. w \<noteq> None) [au_writer a]))
      = (if en_snapshotBusy e then 1 else 0)
    \<and> (\<forall>a. en_auto e = Some a \<longrightarrow>
        length (au_jobs a) + length (filter (\<lambda>w. w \<noteq> None) [au_writer a])
          + length (filter (\<lambda>w. w \<noteq> None) [au_sending a]) + length (au_results a) \<le> 1)"
  using running_between [OF assms]
  by (auto simp: between_def lease_inv_def pinned_def auto_view_def writer_ok_def split: option.splits if_splits)

lemma lease_exclusive_witness:
  "length (au_jobs (the (en_auto ex_writing))) = 1 \<and> en_snapshotBusy ex_writing \<and> au_writer (the (en_auto ex_writing)) = None"
proof -
  have s: "en_auto ex_writing \<noteq> None" "length (au_jobs (the (en_auto ex_writing))) = 1" by code_simp+
  with lease_exclusive [OF ex_writing_running] show ?thesis by (auto split: if_splits)
qed

text \<open>C7: automatic captures are readable.  Every capture the loop hands to the writer, from any reachable
  state, passes all checks of the capture reader: window, segments, events,
  metrics, clock anchor and automatic incident.\<close>
theorem automatic_captures_readable:
  assumes "running cfg e l" and "en_auto e = Some a" and "j \<in> set (au_jobs a) \<or> au_writer a = Some j"
  shows "capture_error (jb_capture j) = None"
  using running_between [OF assms(1)] assms(2,3)
  by (auto simp: between_def lease_inv_def auto_view_def writer_ok_def)

lemma automatic_captures_readable_witness:
  "au_jobs (the (en_auto ex_writing)) \<noteq> [] \<and> capture_error (jb_capture (hd (au_jobs (the (en_auto ex_writing))))) = None
   \<and> length (concat (map sg_Metrics (cp_Segments (jb_capture (hd (au_jobs (the (en_auto ex_writing)))))))) = 2"
proof -
  have s: "en_auto ex_writing \<noteq> None" "au_jobs (the (en_auto ex_writing)) \<noteq> []"
    "length (concat (map sg_Metrics (cp_Segments (jb_capture (hd (au_jobs (the (en_auto ex_writing)))))))) = 2" by code_simp+
  then show ?thesis using automatic_captures_readable [OF ex_writing_running] by auto
qed

text \<open>C10: captures returned to clients are readable.  A query answered from any reachable state with a
  capture leaves the lease with the client, and the capture passes all checks of
  the capture reader.\<close>
theorem query_capture_readable:
  assumes "running cfg e l" and "env_ok cfg e env"
    and "handle_query env alive delivered last_d e = Some (out, Some q, e')" and "qr_Capture q = Some c"
  shows "qr_Lease q \<and> capture_error c = None"
  using handle_query_ok [OF running_between [OF assms(1)] assms(2), of alive delivered last_d] assms(3,4)
  by (auto simp: round_ok_def reply_ok_def)

definition ex_query :: "outcome \<times> Result option \<times> Engine" where
  "ex_query = the (handle_query (ex_env 1200) True True Second ex_polled)"

lemma query_capture_readable_witness:
  "capture_error (the (qr_Capture (the (fst (snd ex_query))))) = None \<and> qr_Lease (the (fst (snd ex_query)))"
proof -
  have "en_now ex_polled \<le> 1200" "in_range Default 1200" by code_simp+
  moreover have "map at_Count (ai_Triggers (the (co_current (au_controller (the (en_auto ex_polled)))))) = [2]"
    "co_next (au_controller (the (en_auto ex_polled))) = None" by code_simp+
  ultimately have e: "env_ok Default ex_polled (ex_env 1200)" by (intro ex_env_ok) auto
  have "handle_query (ex_env 1200) True True Second ex_polled \<noteq> None"
    "fst (snd ex_query) \<noteq> None" "qr_Capture (the (fst (snd ex_query))) \<noteq> None" by code_simp+
  then obtain out q e' c where "handle_query (ex_env 1200) True True Second ex_polled = Some (out, Some q, e')"
    "qr_Capture q = Some c" by (auto simp: ex_query_def)
  with query_capture_readable [OF ex_polled_running e] show ?thesis by (simp add: ex_query_def)
qed

text \<open>C38: no round of the event loop panics, and the loop goes on unless it returns an error: the recorder's
  index arithmetic, the window dereferenced by \<open>Begin\<close> and the rest of every
  case are total in every reachable state.\<close>
theorem rounds_never_panic:
  assumes "running cfg e l" and "env_ok cfg e env"
  shows "handle_poll env e \<noteq> None \<and> handle_tick env e \<noteq> None \<and> handle_query env alive delivered last_d e \<noteq> None
    \<and> handle_ingress env v (e\<lparr>en_ingress := vs\<rparr>) \<noteq> None
    \<and> (\<forall>a r rs. en_auto e = Some a \<longrightarrow> au_results a = r # rs \<longrightarrow>
        handle_completed env r (set_automatic (a\<lparr>au_results := rs\<rparr>) e) \<noteq> None)"
proof -
  note b = running_between [OF assms(1)]
  have n: "r \<noteq> None" if "round_ok cfg l r" for r using that by (auto simp: round_ok_def)
  show ?thesis
    using handle_poll_ok [OF b assms(2), THEN n] handle_tick_ok [OF b assms(2), THEN n]
      handle_query_ok [OF b assms(2), THEN n] handle_ingress_ok [OF b assms(2), THEN n]
      handle_completed_ok [OF b assms(2), THEN n] by blast
qed

lemma rounds_never_panic_witness: "handle_tick (ex_env 1100) ex_start \<noteq> None"
proof -
  have "en_now ex_start \<le> 1100" "in_range Default 1100" by code_simp+
  moreover have "co_current (au_controller (the (en_auto ex_start))) = None"
    "co_next (au_controller (the (en_auto ex_start))) = None" by code_simp+
  ultimately have "env_ok Default ex_start (ex_env 1100)" by (intro ex_env_ok) auto
  with rounds_never_panic [OF ex_start_running] show ?thesis by blast
qed

text \<open>C37: shutdown gives every lease back.  When the loop ends in a reachable state and the writer goroutine
  has ended, \<open>close\<close> leaves the snapshot lease taken exactly if a client still
  holds a capture, with no job queued, no result unread and no incident being written.\<close>
theorem shutdown_releases_lease:
  assumes "running cfg e l" and "en_auto e = Some a" and "au_writer a = None" and "au_sending a = None"
  shows "en_snapshotBusy (automatic_close e) = (0 < l)
    \<and> (\<exists>a'. en_auto (automatic_close e) = Some a' \<and> au_jobs a' = [] \<and> au_results a' = []
        \<and> \<not> co_writing (au_controller a'))"
proof -
  have f: "\<not> co_writing (Finish p t err c)" for p t err c
    by (cases err) (simp_all add: Finish_def Let_def)
  have fin: "en_snapshotBusy (automatic_finish r e') = en_snapshotBusy e'
      \<and> en_auto (automatic_finish r e') = Some (a'\<lparr>au_writingSince := 0, au_overdueLogged := False,
          au_controller := Finish (ar_path r) (ar_at r) (ar_err r) (au_controller a')\<rparr>)"
    if "en_auto e' = Some a'" for r e' a'
    using that by (simp add: automatic_finish_def Let_def RecordSnapshotFailure_def)
  have w: "writer_ok (auto_view a)" and n: "l + length (au_jobs a) = (if en_snapshotBusy e then 1 else 0)"
    using running_between [OF assms(1)] assms(2,3)
    by (auto simp: between_def lease_inv_def pinned_def auto_view_def)
  consider "au_jobs a = []" "au_results a = []" "\<not> co_writing (au_controller a)"
    | j where "au_jobs a = [j]" "au_results a = []" | r where "au_jobs a = []" "au_results a = [r]"
    using w assms(3,4) by (cases "au_jobs a"; cases "au_results a") (auto simp: writer_ok_def auto_view_def split: if_splits)
  then show ?thesis
  proof cases
    case 1
    with n assms(2) show ?thesis by (auto simp: automatic_close_def split: if_splits)
  next
    case (2 j)
    let ?e = "releaseSnapshot (e\<lparr>en_auto := Some (a\<lparr>au_jobs := []\<rparr>)\<rparr>)"
    have "en_auto ?e = Some (a\<lparr>au_jobs := []\<rparr>)" by (simp add: releaseSnapshot_def)
    from fin [OF this] n 2 f assms(2) show ?thesis
      by (auto simp: automatic_close_def Let_def releaseSnapshot_def split: if_splits)
  next
    case (3 r)
    have "en_auto (e\<lparr>en_auto := Some (a\<lparr>au_results := []\<rparr>)\<rparr>) = Some (a\<lparr>au_results := []\<rparr>)" by simp
    from fin [OF this, of r] n 3 f assms(2) show ?thesis
      by (auto simp: automatic_close_def Let_def split: if_splits)
  qed
qed

lemma shutdown_releases_lease_witness:
  "en_snapshotBusy ex_writing \<and> \<not> en_snapshotBusy (automatic_close ex_writing)"
proof -
  have s: "en_auto ex_writing \<noteq> None" "en_snapshotBusy ex_writing" "au_writer (the (en_auto ex_writing)) = None"
    "au_sending (the (en_auto ex_writing)) = None" by code_simp+
  have "en_auto ex_writing = Some (the (en_auto ex_writing))" by (rule option.collapse [OF s(1), symmetric])
  from shutdown_releases_lease [OF ex_writing_running this s(3,4)] s(2)
  show ?thesis by (simp only: less_irrefl simp_thms)
qed

end
