(* ===== verification/Decode.thy ===== *)
theory Decode
  imports Model GoText
begin

text \<open>
  Detail records (\<open>internal/sensor/sensor_linux.go\<close>: \<open>wireEvent\<close>,
  \<open>decodeWireEvent\<close>, \<open>normalize\<close>): the 128 bytes a BPF program puts into the
  ring, read in little-endian order, become an event of the model.  A slice
  \<open>[]byte\<close> is a list of bytes; a fixed array is a list of its length.
  The text of an address is that of \<open>netip.Addr.String\<close>.
\<close>

section \<open>The wire record\<close>

record wireEvent =
  we_MonoNS :: u64
  we_LatencyNS :: u64
  we_CgroupID :: u64
  we_ProcessStartNS :: u64
  we_Bytes :: u64
  we_PID :: u32
  we_TGID :: u32
  we_CPU :: u32
  we_Major :: u32
  we_Minor :: u32
  we_Kind :: u32
  we_State :: u32
  we_SourcePort :: u16
  we_DestinationPort :: u16
  we_Family :: u16
  we_Operation :: u16
  we_Comm :: "u8 list"
  we_SourceIP :: "u8 list"
  we_DestinationIP :: "u8 list"
  we_Padding :: "u8 list"

text \<open>\<open>binary.Size(wireEvent{})\<close>.\<close>

definition wireEventSize :: nat where
  "wireEventSize = 5 * 8 + 7 * 4 + 4 * 2 + 16 + 16 + 16 + 4"

definition le_nat :: "u8 list \<Rightarrow> nat" where
  "le_nat bs = foldr (\<lambda>b n. unat b + 256 * n) bs 0"

definition bytes_at :: "nat \<Rightarrow> nat \<Rightarrow> u8 list \<Rightarrow> u8 list" where
  "bytes_at off w raw = take w (drop off raw)"

definition le_at :: "nat \<Rightarrow> nat \<Rightarrow> u8 list \<Rightarrow> 'a::len word" where
  "le_at off w raw = of_nat (le_nat (bytes_at off w raw))"

text \<open>\<open>binary.Decode(raw, binary.LittleEndian, &w)\<close>: the fields one after the other.\<close>

definition binary_Decode :: "u8 list \<Rightarrow> wireEvent" where
  "binary_Decode raw =
     \<lparr>we_MonoNS = le_at 0 8 raw, we_LatencyNS = le_at 8 8 raw, we_CgroupID = le_at 16 8 raw,
      we_ProcessStartNS = le_at 24 8 raw, we_Bytes = le_at 32 8 raw,
      we_PID = le_at 40 4 raw, we_TGID = le_at 44 4 raw, we_CPU = le_at 48 4 raw,
      we_Major = le_at 52 4 raw, we_Minor = le_at 56 4 raw, we_Kind = le_at 60 4 raw,
      we_State = le_at 64 4 raw,
      we_SourcePort = le_at 68 2 raw, we_DestinationPort = le_at 70 2 raw,
      we_Family = le_at 72 2 raw, we_Operation = le_at 74 2 raw,
      we_Comm = bytes_at 76 16 raw, we_SourceIP = bytes_at 92 16 raw,
      we_DestinationIP = bytes_at 108 16 raw, we_Padding = bytes_at 124 4 raw\<rparr>"

section \<open>Addresses\<close>

definition ip4_text :: "u8 list \<Rightarrow> string" where
  "ip4_text bs = join_with ''.'' (map (\<lambda>b. show_nat (unat b)) bs)"

fun hex_text :: "nat \<Rightarrow> string" where
  "hex_text n = (if n < 16 then [hex_digit n] else hex_text (n div 16) @ [hex_digit (n mod 16)])"

declare hex_text.simps [simp del]

text \<open>The eight 16-bit groups, and the longest run of at least two zero groups (the first of them).\<close>

fun groups16 :: "u8 list \<Rightarrow> nat list" where
  "groups16 (a # b # bs) = (256 * unat a + unat b) # groups16 bs"
| "groups16 _ = []"

definition zero_run :: "nat list \<Rightarrow> nat \<times> nat" where
  "zero_run gs = foldl (\<lambda>(s, e) i.
       let l = length (takeWhile (\<lambda>g. g = 0) (drop i gs))
       in if 2 \<le> l \<and> e - s < l then (i, i + l) else (s, e)) (255, 255) [0..<8]"

definition ip6_text :: "u8 list \<Rightarrow> string" where
  "ip6_text bs =
     (let gs = groups16 bs; (s, e) = zero_run gs; part = (\<lambda>xs. join_with '':'' (map hex_text xs))
      in if s = 255 then part gs else part (take s gs) @ ''::'' @ part (drop e gs))"

definition Is4In6 :: "u8 list \<Rightarrow> bool" where
  "Is4In6 bs \<longleftrightarrow> take 12 bs = replicate 10 0 @ [0xFF, 0xFF]"

definition ip16_text :: "u8 list \<Rightarrow> string" where
  "ip16_text bs = (if Is4In6 bs then ''::ffff:'' @ ip4_text (drop 12 bs) else ip6_text bs)"

section \<open>Normalisation\<close>

definition bytes_string :: "u8 list \<Rightarrow> string" where
  "bytes_string bs = map (\<lambda>b. char_of (unat b)) bs"

definition TrimRight_nul :: "string \<Rightarrow> string" where
  "TrimRight_nul s = rev (dropWhile (\<lambda>c. c = CHR 0x00) (rev s))"

definition event_kind :: "u32 \<Rightarrow> string" where
  "event_kind k =
     (if k = 1 then ''block_io'' else if k = 2 then ''scheduler'' else if k = 3 then ''tcp_retransmit''
      else if k = 4 \<or> k = 6 then ''tcp_reset'' else if k = 5 then ''oom'' else [])"

definition block_operation :: "u16 \<Rightarrow> string" where
  "block_operation op =
     (if op = 0 then ''read'' else if op = 1 then ''write'' else if op = 2 then ''flush''
      else ''op:'' @ show_nat (unat op))"

definition endpoint_source :: "u16 \<Rightarrow> string" where
  "endpoint_source op =
     (if op AND 3 = 1 then ''socket'' else if op AND 3 = 2 then ''packet_header'' else ''unavailable'')"

text \<open>The block that reads the TCP provenance out of the operation slot.\<close>

definition tcp_provenance :: "wireEvent \<Rightarrow> Event \<Rightarrow> Event" where
  "tcp_provenance w e =
     (let e1 = e\<lparr>ev_TCPDirection := (if we_Kind w = 6 then ''received'' else ''sent''),
                 ev_SocketContext := (if we_Operation w AND 4 \<noteq> 0 then ''socket'' else ''none''),
                 ev_EndpointSource := endpoint_source (we_Operation w)\<rparr>
      in if we_Kind w = 6
         then e1\<lparr>ev_SourceIP := ev_DestinationIP e1, ev_DestinationIP := ev_SourceIP e1,
                 ev_SourcePort := ev_DestinationPort e1, ev_DestinationPort := ev_SourcePort e1\<rparr>
         else e1)"

definition normalize_event :: "wireEvent \<Rightarrow> Event" where
  "normalize_event w =
     (let e = zero_Event\<lparr>ev_MonoNS := we_MonoNS w, ev_Type := event_kind (we_Kind w), ev_PID := we_PID w,
            ev_TGID := we_TGID w, ev_Comm := TrimRight_nul (bytes_string (we_Comm w)),
            ev_ProcessStartNS := we_ProcessStartNS w, ev_CgroupID := we_CgroupID w, ev_CPU := we_CPU w,
            ev_LatencyNS := we_LatencyNS w, ev_Major := we_Major w, ev_Minor := we_Minor w,
            ev_Bytes := we_Bytes w, ev_SourcePort := we_SourcePort w,
            ev_DestinationPort := we_DestinationPort w, ev_State := we_State w\<rparr>;
          e = (if we_Kind w = 5 \<and> we_Operation w = 1 then e\<lparr>ev_PIDOnly := True\<rparr> else e);
          e = (if we_Kind w = 1 then e\<lparr>ev_Operation := block_operation (we_Operation w)\<rparr> else e);
          e = (if we_Family w = 2 then
                 e\<lparr>ev_SourceIP := ip4_text (take 4 (we_SourceIP w)),
                   ev_DestinationIP := ip4_text (take 4 (we_DestinationIP w))\<rparr>
               else if we_Family w = 10 then
                 e\<lparr>ev_SourceIP := ip16_text (we_SourceIP w), ev_DestinationIP := ip16_text (we_DestinationIP w)\<rparr>
               else e)
      in if (we_Kind w = 3 \<or> we_Kind w = 4 \<or> we_Kind w = 6) \<and> we_Operation w AND 8 \<noteq> 0
         then tcp_provenance w e else e)"

definition decodeWireEvent :: "u8 list \<Rightarrow> go_error + Event" where
  "decodeWireEvent raw =
     (if length raw \<noteq> wireEventSize then
        Inl (Errorf (''detail record size '' @ show_nat (length raw) @ '', want '' @ show_nat wireEventSize))
      else
        let w = binary_Decode raw; event = normalize_event w
        in if ev_Type event = [] then Inl (Errorf (''unknown detail event kind '' @ show_u32 (we_Kind w)))
           else Inr event)"

section \<open>The layout of the kernel\<close>

text \<open>
  What the BPF programs write: the fields of \<open>struct\<close> in order, each little-endian.
  This is the specification the decoder is proved against.
\<close>

fun le_bytes :: "nat \<Rightarrow> nat \<Rightarrow> u8 list" where
  "le_bytes 0 n = []"
| "le_bytes (Suc k) n = of_nat (n mod 256) # le_bytes k (n div 256)"

definition wire_parts :: "wireEvent \<Rightarrow> u8 list list" where
  "wire_parts w =
     map (\<lambda>x. le_bytes 8 (unat x)) [we_MonoNS w, we_LatencyNS w, we_CgroupID w, we_ProcessStartNS w, we_Bytes w]
   @ map (\<lambda>x. le_bytes 4 (unat x)) [we_PID w, we_TGID w, we_CPU w, we_Major w, we_Minor w, we_Kind w, we_State w]
   @ map (\<lambda>x. le_bytes 2 (unat x)) [we_SourcePort w, we_DestinationPort w, we_Family w, we_Operation w]
   @ [we_Comm w, we_SourceIP w, we_DestinationIP w, we_Padding w]"

definition wire_bytes :: "wireEvent \<Rightarrow> u8 list" where
  "wire_bytes w = concat (wire_parts w)"

definition wire_ok :: "wireEvent \<Rightarrow> bool" where
  "wire_ok w \<longleftrightarrow> length (we_Comm w) = 16 \<and> length (we_SourceIP w) = 16
     \<and> length (we_DestinationIP w) = 16 \<and> length (we_Padding w) = 4"

lemma length_le_bytes [simp]: "length (le_bytes k n) = k"
  by (induction k arbitrary: n) auto

lemma le_nat_simps [simp]: "le_nat [] = 0" "le_nat (b # bs) = unat b + 256 * le_nat bs"
  by (simp_all add: le_nat_def)

lemma unat_byte: "unat (of_nat (n mod 256) :: u8) = n mod 256"
  by (simp add: unat_of_nat)

lemma le_nat_le_bytes: "le_nat (le_bytes k n) = n mod 256 ^ k"
proof (induction k arbitrary: n)
  case (Suc k)
  have "n mod 256 ^ Suc k = n mod 256 + 256 * (n div 256 mod 256 ^ k)"
    by (simp add: mod_mult2_eq mult.commute)
  with Suc show ?case by (simp add: unat_byte)
qed simp

lemma le_bytes_le_nat: "length bs = k \<Longrightarrow> le_bytes k (le_nat bs) = bs"
proof (induction bs arbitrary: k)
  case (Cons b bs)
  have "unat b < 256" using unsigned_less [of b, where ?'a = nat] by simp
  then have "(unat b + 256 * le_nat bs) mod 256 = unat b" "(unat b + 256 * le_nat bs) div 256 = le_nat bs"
    by simp_all
  with Cons show ?case by (cases k) simp_all
qed simp

lemma le_at_field:
  assumes "bytes_at off w raw = le_bytes w (unat (x :: 'a::len word))" and "256 ^ w = (2::nat) ^ LENGTH('a)"
  shows "le_at off w raw = x"
proof -
  have "unat x < 256 ^ w" using unsigned_less [of x, where ?'a = nat] by (simp add: assms(2))
  then show ?thesis by (simp add: le_at_def assms(1) le_nat_le_bytes)
qed

section \<open>Decoding\<close>

lemma wire_bytes_length: "wire_ok w \<Longrightarrow> length (wire_bytes w) = wireEventSize"
  by (simp add: wire_bytes_def wire_parts_def wire_ok_def wireEventSize_def)

lemma binary_Decode_wire:
  assumes "wire_ok w" shows "binary_Decode (wire_bytes w) = w"
proof -
  note at = bytes_at_def wire_bytes_def wire_parts_def
  have "le_at 0 8 (wire_bytes w) = we_MonoNS w" "le_at 8 8 (wire_bytes w) = we_LatencyNS w"
    "le_at 16 8 (wire_bytes w) = we_CgroupID w" "le_at 24 8 (wire_bytes w) = we_ProcessStartNS w"
    "le_at 32 8 (wire_bytes w) = we_Bytes w"
    by (rule le_at_field; simp add: at)+
  moreover have "le_at 40 4 (wire_bytes w) = we_PID w" "le_at 44 4 (wire_bytes w) = we_TGID w"
    "le_at 48 4 (wire_bytes w) = we_CPU w" "le_at 52 4 (wire_bytes w) = we_Major w"
    "le_at 56 4 (wire_bytes w) = we_Minor w" "le_at 60 4 (wire_bytes w) = we_Kind w"
    "le_at 64 4 (wire_bytes w) = we_State w"
    by (rule le_at_field; simp add: at)+
  moreover have "le_at 68 2 (wire_bytes w) = we_SourcePort w" "le_at 70 2 (wire_bytes w) = we_DestinationPort w"
    "le_at 72 2 (wire_bytes w) = we_Family w" "le_at 74 2 (wire_bytes w) = we_Operation w"
    by (rule le_at_field; simp add: at)+
  moreover have "bytes_at 76 16 (wire_bytes w) = we_Comm w" "bytes_at 92 16 (wire_bytes w) = we_SourceIP w"
    "bytes_at 108 16 (wire_bytes w) = we_DestinationIP w" "bytes_at 124 4 (wire_bytes w) = we_Padding w"
    using assms by (simp_all add: at wire_ok_def)
  ultimately show ?thesis by (simp add: binary_Decode_def)
qed

lemma le_bytes_le_at:
  assumes "off + w \<le> length raw" and "256 ^ w = (2::nat) ^ LENGTH('a)"
  shows "le_bytes w (unat (le_at off w raw :: 'a::len word)) = bytes_at off w raw"
proof -
  have len: "length (bytes_at off w raw) = w" using assms(1) by (simp add: bytes_at_def)
  have "le_nat bs < 256 ^ length bs" for bs
  proof (induction bs)
    case (Cons b bs)
    have "unat b < 256" using unsigned_less [of b, where ?'a = nat] by simp
    with Cons show ?case by simp
  qed simp
  from this [of "bytes_at off w raw"] have "le_nat (bytes_at off w raw) < 2 ^ LENGTH('a)"
    by (simp add: len assms(2))
  then show ?thesis
    using le_bytes_le_nat [OF len] by (simp add: le_at_def unat_of_nat)
qed

lemma bytes_at_append: "bytes_at off w raw @ bytes_at (off + w) k raw = bytes_at off (w + k) raw"
  by (simp add: bytes_at_def take_add drop_drop add.commute [of w off])

lemma wire_bytes_Decode:
  assumes "length raw = wireEventSize" shows "wire_bytes (binary_Decode raw) = raw"
proof -
  have len: "length raw = 128" using assms by (simp add: wireEventSize_def)
  have "wire_bytes (binary_Decode raw) = concat [bytes_at 0 8 raw, bytes_at 8 8 raw, bytes_at 16 8 raw,
      bytes_at 24 8 raw, bytes_at 32 8 raw, bytes_at 40 4 raw, bytes_at 44 4 raw, bytes_at 48 4 raw,
      bytes_at 52 4 raw, bytes_at 56 4 raw, bytes_at 60 4 raw, bytes_at 64 4 raw, bytes_at 68 2 raw,
      bytes_at 70 2 raw, bytes_at 72 2 raw, bytes_at 74 2 raw, bytes_at 76 16 raw, bytes_at 92 16 raw,
      bytes_at 108 16 raw, bytes_at 124 4 raw]"
    using len by (simp add: wire_bytes_def wire_parts_def binary_Decode_def le_bytes_le_at)
  also have "\<dots> = bytes_at 0 128 raw"
    using bytes_at_append [of 0 8 raw "120"]
      bytes_at_append [of 8 8 raw "112"] bytes_at_append [of 16 8 raw "104"]
      bytes_at_append [of 24 8 raw "96"] bytes_at_append [of 32 8 raw "88"] bytes_at_append [of 40 4 raw "84"]
      bytes_at_append [of 44 4 raw "80"] bytes_at_append [of 48 4 raw "76"] bytes_at_append [of 52 4 raw "72"]
      bytes_at_append [of 56 4 raw "68"] bytes_at_append [of 60 4 raw "64"] bytes_at_append [of 64 4 raw "60"]
      bytes_at_append [of 68 2 raw "58"] bytes_at_append [of 70 2 raw "56"] bytes_at_append [of 72 2 raw "54"]
      bytes_at_append [of 74 2 raw "52"] bytes_at_append [of 76 16 raw "36"] bytes_at_append [of 92 16 raw "20"]
      bytes_at_append [of 108 16 raw 4]
    by simp
  also have "\<dots> = raw" using len by (simp add: bytes_at_def)
  finally show ?thesis .
qed

lemma normalize_Type [simp]: "ev_Type (normalize_event w) = event_kind (we_Kind w)"
  by (simp add: normalize_event_def tcp_provenance_def Let_def)

lemma event_kind_Nil: "event_kind k = [] \<longleftrightarrow> k \<notin> {1, 2, 3, 4, 5, 6}"
  by (simp add: event_kind_def)

text \<open>The event before its TCP provenance.\<close>

lemma normalize_base:
  "\<exists>e. normalize_event w = (if we_Kind w \<in> {3, 4, 6} \<and> we_Operation w AND 8 \<noteq> 0 then tcp_provenance w e else e)
     \<and> ev_TCPDirection e = [] \<and> ev_SocketContext e = [] \<and> ev_EndpointSource e = []
     \<and> ev_SourcePort e = we_SourcePort w \<and> ev_DestinationPort e = we_DestinationPort w
     \<and> (we_Family w = 2 \<longrightarrow> ev_SourceIP e = ip4_text (take 4 (we_SourceIP w))
          \<and> ev_DestinationIP e = ip4_text (take 4 (we_DestinationIP w)))"
  unfolding normalize_event_def Let_def insert_iff empty_iff simp_thms
  by (rule exI, rule conjI, rule refl, simp add: zero_Event_def)

section \<open>Properties\<close>

text \<open>C20: a detail record is decoded to what the kernel wrote.  For every record of the kernel's layout, the
  decoder yields its normalised event when the kind is one of the six known, and an
  error otherwise; and every 128-byte sample is the layout of exactly the record
  decoded from it, so no byte is read twice or skipped.\<close>
theorem decode_roundtrip:
  assumes "wire_ok w" and "length raw = wireEventSize"
  shows "decodeWireEvent (wire_bytes w) =
      (if we_Kind w \<in> {1, 2, 3, 4, 5, 6} then Inr (normalize_event w)
       else Inl (Errorf (''unknown detail event kind '' @ show_u32 (we_Kind w))))
    \<and> wire_bytes (binary_Decode raw) = raw"
proof -
  have d: "binary_Decode (wire_bytes w) = w" by (rule binary_Decode_wire [OF assms(1)])
  have l: "length (wire_bytes w) = wireEventSize" by (rule wire_bytes_length [OF assms(1)])
  have k: "(ev_Type (normalize_event w) = []) = (we_Kind w \<notin> {1, 2, 3, 4, 5, 6})"
    unfolding normalize_Type by (rule event_kind_Nil)
  show ?thesis unfolding decodeWireEvent_def l Let_def d k
    using wire_bytes_Decode [OF assms(2)] by simp
qed

definition ex_wire :: wireEvent where
  "ex_wire = \<lparr>we_MonoNS = 258, we_LatencyNS = 0, we_CgroupID = 7, we_ProcessStartNS = 9, we_Bytes = 0,
     we_PID = 10, we_TGID = 11, we_CPU = 1, we_Major = 0, we_Minor = 0, we_Kind = 6, we_State = 1,
     we_SourcePort = 443, we_DestinationPort = 50000, we_Family = 2, we_Operation = 13,
     we_Comm = [115, 104] @ replicate 14 0, we_SourceIP = [10, 0, 0, 1] @ replicate 12 0,
     we_DestinationIP = [192, 168, 1, 2] @ replicate 12 0, we_Padding = replicate 4 0\<rparr>"

lemma decode_roundtrip_witness:
  "decodeWireEvent (wire_bytes ex_wire) = Inr (normalize_event ex_wire)
   \<and> ev_SourceIP (normalize_event ex_wire) = ''192.168.1.2'' \<and> ev_Comm (normalize_event ex_wire) = ''sh''"
proof -
  have w: "wire_ok ex_wire" "we_Kind ex_wire \<in> {1, 2, 3, 4, 5, 6}"
    "ev_SourceIP (normalize_event ex_wire) = ''192.168.1.2''" "ev_Comm (normalize_event ex_wire) = ''sh''" by code_simp+
  from decode_roundtrip [OF w(1) wire_bytes_length [OF w(1)]] w(2-4) show ?thesis by (simp only: if_True simp_thms)
qed

text \<open>TCP provenance.  A decoded event has a direction, a socket context and an endpoint source exactly
  when it is a TCP event whose operation slot carries the marker bit; then the
  direction is \<open>received\<close> exactly for kind 6, and a received reset flows from the
  remote to the local end: source and destination are those of the wire, exchanged.\<close>
theorem tcp_flow:
  defines "marked \<equiv> \<lambda>w. we_Kind w \<in> {3, 4, 6} \<and> we_Operation w AND 8 \<noteq> 0"
  shows "(ev_TCPDirection (normalize_event w) = []) = (\<not> marked w)
    \<and> (ev_SocketContext (normalize_event w) = []) = (\<not> marked w)
    \<and> (ev_EndpointSource (normalize_event w) = []) = (\<not> marked w)
    \<and> (ev_TCPDirection (normalize_event w) = ''received'') = (marked w \<and> we_Kind w = 6)
    \<and> (ev_SourcePort (normalize_event w), ev_DestinationPort (normalize_event w)) =
        (if marked w \<and> we_Kind w = 6 then (we_DestinationPort w, we_SourcePort w)
         else (we_SourcePort w, we_DestinationPort w))
    \<and> (we_Family w = 2 \<longrightarrow> (ev_SourceIP (normalize_event w), ev_DestinationIP (normalize_event w)) =
        (if marked w \<and> we_Kind w = 6 then (ip4_text (take 4 (we_DestinationIP w)), ip4_text (take 4 (we_SourceIP w)))
         else (ip4_text (take 4 (we_SourceIP w)), ip4_text (take 4 (we_DestinationIP w)))))"
proof -
  obtain e where n: "normalize_event w = (if marked w then tcp_provenance w e else e)"
    and b: "ev_TCPDirection e = []" "ev_SocketContext e = []" "ev_EndpointSource e = []"
      "ev_SourcePort e = we_SourcePort w" "ev_DestinationPort e = we_DestinationPort w"
      "we_Family w = 2 \<Longrightarrow> ev_SourceIP e = ip4_text (take 4 (we_SourceIP w))"
      "we_Family w = 2 \<Longrightarrow> ev_DestinationIP e = ip4_text (take 4 (we_DestinationIP w))"
    using normalize_base [of w] unfolding marked_def by blast
  have src: "endpoint_source op \<noteq> []" for op by (simp add: endpoint_source_def)
  consider "\<not> marked w" | "marked w" "we_Kind w = 6" | "marked w" "we_Kind w \<noteq> 6" by blast
  then show ?thesis
  proof cases
    case 1
    then have "normalize_event w = e" by (simp only: n if_False)
    with 1 b show ?thesis by simp
  next
    case 2
    then have "normalize_event w = tcp_provenance w e" by (simp only: n if_True)
    with 2 b src show ?thesis by (simp add: tcp_provenance_def)
  next
    case 3
    then have "normalize_event w = tcp_provenance w e" by (simp only: n if_True)
    with 3 b src show ?thesis by (simp add: tcp_provenance_def)
  qed
qed

lemma tcp_flow_witness:
  "ev_SourcePort (normalize_event ex_wire) = 50000 \<and> ev_TCPDirection (normalize_event ex_wire) = ''received''"
proof -
  have k: "we_Kind ex_wire \<in> {3, 4, 6} \<and> we_Operation ex_wire AND 8 \<noteq> 0" "we_Kind ex_wire = 6"
    "we_DestinationPort ex_wire = 50000" by code_simp+
  with tcp_flow [of ex_wire] show ?thesis by simp
qed

end
