(* ===== verification/Sensor.thy ===== *)
theory Sensor
  imports Decode Config
begin

text \<open>
  The kernel sensors (\<open>internal/sensor/sensor_linux.go\<close>): what a sensor keeps
  between two polls, the interval metric it derives from the cumulative per-CPU
  counters, the clean-up of detail budgets, the reader of detail records, and
  the start of all sensors of a configuration.

  The BPF maps, programs and type information belong to the kernel and to
  \<open>github.com/cilium/ebpf\<close>; they are parameters: records of the results of the
  calls the code makes.
\<close>

section \<open>State\<close>

record wireStats =
  ws_Histogram :: Histogram
  ws_Count :: u64
  ws_Anomalies :: u64
  ws_Critical :: u64
  ws_Bytes :: u64
  ws_Retransmits :: u64
  ws_Resets :: u64
  ws_RingFailures :: u64
  ws_Suppressed :: u64
  ws_DetailFailures :: u64
  ws_TrackingFailures :: u64
  ws_Unmatched :: u64
  ws_BookkeepingCompletions :: u64

definition zero_wireStats :: wireStats where
  "zero_wireStats = \<lparr>ws_Histogram = zero_histogram, ws_Count = 0, ws_Anomalies = 0, ws_Critical = 0,
     ws_Bytes = 0, ws_Retransmits = 0, ws_Resets = 0, ws_RingFailures = 0, ws_Suppressed = 0,
     ws_DetailFailures = 0, ws_TrackingFailures = 0, ws_Unmatched = 0, ws_BookkeepingCompletions = 0\<rparr>"

record kernelSensor =
  ks_name :: string
  ks_previous :: wireStats
  ks_health :: SensorHealth
  ks_decodeFailures :: u64
  ks_previousDecode :: u64
  ks_lastBudgetSweepSec :: u64

definition fail :: "go_error \<Rightarrow> kernelSensor \<Rightarrow> kernelSensor" where
  "fail err s = s\<lparr>ks_health := (ks_health s)\<lparr>sh_State := ''error'', sh_Reason := error_text err\<rparr>\<rparr>"

section \<open>The reader of detail records\<close>

text \<open>
  One iteration of the goroutine of \<open>Start\<close>.  A read error other than
  \<open>ErrClosed\<close>, while the context is alive, is recorded; it ends the reader.
\<close>

datatype ring_read = Sample "u8 list" | RingClosed | ReadFailed go_error

definition reader_step :: "bool \<Rightarrow> ring_read \<Rightarrow> kernelSensor \<Rightarrow> (bool \<times> Event option) \<times> kernelSensor" where
  "reader_step cancelled rd s =
     (case rd of
        RingClosed \<Rightarrow> ((False, None), s)
      | ReadFailed e \<Rightarrow> ((False, None), if cancelled then s else fail e s)
      | Sample raw \<Rightarrow>
          (case decodeWireEvent raw of
             Inl _ \<Rightarrow> ((True, None), s\<lparr>ks_decodeFailures := ks_decodeFailures s + 1\<rparr>)
           | Inr event \<Rightarrow> ((True, Some event), s)))"

section \<open>Detail budgets\<close>

text \<open>
  The map of detail budgets as the code uses it: \<open>bm_NextKey i c\<close> is the result
  of the \<open>i\<close>-th call of \<open>NextKey\<close> with cursor \<open>c\<close> (\<open>nil\<close> at first), where
  \<open>Inr None\<close> is \<open>ErrKeyNotExist\<close>; concurrent programs may insert keys between the
  calls.  \<open>bm_Delete\<close> gives the error of \<open>Delete\<close>, \<open>NotExist\<close> for
  \<open>ErrKeyNotExist\<close>.
\<close>

record BudgetMap =
  bm_MaxEntries :: u32
  bm_NextKey :: "nat \<Rightarrow> u64 option \<Rightarrow> go_error + u64 option"
  bm_Delete :: "u64 \<Rightarrow> go_error option"

definition errDetailBudgetMapMissing :: go_error where
  "errDetailBudgetMapMissing = Errorf ''detail budget map is missing''"

definition stale_key :: "u64 \<Rightarrow> u64 \<Rightarrow> bool" where
  "stale_key sec k \<longleftrightarrow> 2 < sec \<and> k < sec - 2"

datatype sweep = SweepFailed go_error | Perturbed | Stale "u64 list"

text \<open>The loop over the keys: \<open>n\<close> calls are left of \<open>MaxEntries() + 1\<close>.\<close>

fun sweep_keys :: "BudgetMap \<Rightarrow> u64 \<Rightarrow> nat \<Rightarrow> u64 option \<Rightarrow> u64 list \<Rightarrow> sweep" where
  "sweep_keys m sec 0 cursor acc = Stale acc"
| "sweep_keys m sec (Suc n) cursor acc =
     (case bm_NextKey m (unat (bm_MaxEntries m) - n) cursor of
        Inl err \<Rightarrow> SweepFailed (Wrapf ''iterate detail budgets'' err)
      | Inr None \<Rightarrow> Stale acc
      | Inr (Some k) \<Rightarrow>
          if n = 0 then Perturbed
          else sweep_keys m sec n (Some k) (if stale_key sec k then acc @ [k] else acc))"

fun delete_keys :: "BudgetMap \<Rightarrow> u64 list \<Rightarrow> go_error option" where
  "delete_keys m [] = None"
| "delete_keys m (k # ks) =
     (case bm_Delete m k of
        None \<Rightarrow> delete_keys m ks
      | Some err \<Rightarrow>
          if err = NotExist then delete_keys m ks else Some (Wrapf ''remove expired detail budget'' err))"

text \<open>\<open>pruneDetailBudgets\<close>: the error, the keys it deletes when there is none, and the sensor.\<close>

definition pruneDetailBudgets ::
  "BudgetMap option \<Rightarrow> u64 \<Rightarrow> kernelSensor \<Rightarrow> (go_error option \<times> u64 list) \<times> kernelSensor" where
  "pruneDetailBudgets bm end_ns s =
     (let sec = end_ns div to_u64 Second
      in if sec = ks_lastBudgetSweepSec s then ((None, []), s)
         else
           (case bm of
              None \<Rightarrow> ((Some errDetailBudgetMapMissing, []), s)
            | Some m \<Rightarrow>
                (case sweep_keys m sec (Suc (unat (bm_MaxEntries m))) None [] of
                   SweepFailed err \<Rightarrow> ((Some err, []), s)
                 | Perturbed \<Rightarrow> ((None, []), s)
                 | Stale ks \<Rightarrow>
                     (case delete_keys m ks of
                        Some err \<Rightarrow> ((Some err, []), s)
                      | None \<Rightarrow> ((None, ks), s\<lparr>ks_lastBudgetSweepSec := sec\<rparr>)))))"

definition handleBudgetPruneError :: "go_error \<Rightarrow> kernelSensor \<Rightarrow> go_error option \<times> kernelSensor" where
  "handleBudgetPruneError err s =
     (if err = errDetailBudgetMapMissing then (Some err, fail err s)
      else (None, s\<lparr>ks_health := (ks_health s)\<lparr>sh_BudgetPruneFailures := sh_BudgetPruneFailures (ks_health s) + 1\<rparr>\<rparr>))"

section \<open>Snapshots\<close>

definition delta :: "u64 \<Rightarrow> u64 \<Rightarrow> u64" where
  "delta n p = (if n < p then 0 else n - p)"

definition wireStats_add :: "wireStats \<Rightarrow> wireStats \<Rightarrow> wireStats" where
  "wireStats_add s v =
     \<lparr>ws_Histogram = map2 (+) (ws_Histogram s) (ws_Histogram v), ws_Count = ws_Count s + ws_Count v,
      ws_Anomalies = ws_Anomalies s + ws_Anomalies v, ws_Critical = ws_Critical s + ws_Critical v,
      ws_Bytes = ws_Bytes s + ws_Bytes v, ws_Retransmits = ws_Retransmits s + ws_Retransmits v,
      ws_Resets = ws_Resets s + ws_Resets v, ws_RingFailures = ws_RingFailures s + ws_RingFailures v,
      ws_Suppressed = ws_Suppressed s + ws_Suppressed v,
      ws_DetailFailures = ws_DetailFailures s + ws_DetailFailures v,
      ws_TrackingFailures = ws_TrackingFailures s + ws_TrackingFailures v,
      ws_Unmatched = ws_Unmatched s + ws_Unmatched v,
      ws_BookkeepingCompletions = ws_BookkeepingCompletions s + ws_BookkeepingCompletions v\<rparr>"

definition sum_stats :: "wireStats list \<Rightarrow> wireStats" where
  "sum_stats vs = foldl wireStats_add zero_wireStats vs"

definition loss_of :: "wireStats \<Rightarrow> u64 \<Rightarrow> Counters" where
  "loss_of s d = \<lparr>ct_RingFailures = ws_RingFailures s, ct_Suppressed = ws_Suppressed s,
     ct_DetailFailures = ws_DetailFailures s, ct_TrackingFailures = ws_TrackingFailures s,
     ct_Unmatched = ws_Unmatched s, ct_DecodeFailures = d\<rparr>"

definition counters_delta :: "Counters \<Rightarrow> Counters \<Rightarrow> Counters" where
  "counters_delta n p =
     \<lparr>ct_RingFailures = delta (ct_RingFailures n) (ct_RingFailures p),
      ct_Suppressed = delta (ct_Suppressed n) (ct_Suppressed p),
      ct_DetailFailures = delta (ct_DetailFailures n) (ct_DetailFailures p),
      ct_TrackingFailures = delta (ct_TrackingFailures n) (ct_TrackingFailures p),
      ct_Unmatched = delta (ct_Unmatched n) (ct_Unmatched p),
      ct_DecodeFailures = delta (ct_DecodeFailures n) (ct_DecodeFailures p)\<rparr>"

definition interval_metric :: "kernelSensor \<Rightarrow> wireStats \<Rightarrow> u64 \<Rightarrow> u64 \<Rightarrow> Metric" where
  "interval_metric s cur start end_ns =
     (let p = ks_previous s
      in \<lparr>mt_BookkeepingCompletions = delta (ws_BookkeepingCompletions cur) (ws_BookkeepingCompletions p),
          mt_Family = ks_name s, mt_StartMonoNS = start, mt_EndMonoNS = end_ns,
          mt_Histogram = map2 delta (ws_Histogram cur) (ws_Histogram p),
          mt_Count = delta (ws_Count cur) (ws_Count p),
          mt_Anomalies = delta (ws_Anomalies cur) (ws_Anomalies p),
          mt_Critical = delta (ws_Critical cur) (ws_Critical p),
          mt_Bytes = delta (ws_Bytes cur) (ws_Bytes p),
          mt_Retransmits = delta (ws_Retransmits cur) (ws_Retransmits p),
          mt_Resets = delta (ws_Resets cur) (ws_Resets p),
          mt_Loss = counters_delta (loss_of cur (ks_decodeFailures s)) (loss_of p (ks_previousDecode s))\<rparr>)"

text \<open>\<open>Snapshot\<close>: \<open>agg\<close> is the result of the lookup of the per-CPU aggregates.\<close>

definition kernelSensor_Snapshot ::
  "go_error + wireStats list \<Rightarrow> BudgetMap option \<Rightarrow> u64 \<Rightarrow> u64 \<Rightarrow> kernelSensor
    \<Rightarrow> (go_error + Metric) \<times> kernelSensor" where
  "kernelSensor_Snapshot agg bm start end_ns s =
     (case agg of
        Inl e \<Rightarrow> (Inl e, fail e s)
      | Inr perCPU \<Rightarrow>
          let ((perr, _), s1) = pruneDetailBudgets bm end_ns s;
              (err, s2) = (case perr of None \<Rightarrow> (None, s1) | Some e \<Rightarrow> handleBudgetPruneError e s1)
          in (case err of
                Some e \<Rightarrow> (Inl e, s2)
              | None \<Rightarrow>
                  let cur = sum_stats perCPU
                  in (Inr (interval_metric s2 cur start end_ns),
                      s2\<lparr>ks_previous := cur, ks_previousDecode := ks_decodeFailures s2,
                         ks_health := (ks_health s2)\<lparr>sh_Loss := loss_of cur (ks_decodeFailures s2),
                           sh_BookkeepingCompletions := ws_BookkeepingCompletions cur\<rparr>\<rparr>)))"

section \<open>Type information\<close>

text \<open>
  The cases of \<open>btf.UnderlyingType\<close> the code distinguishes; \<open>'b\<close> are the types of
  the library, and the view of a type is a parameter.
\<close>

datatype 'b btf_view = Pointer 'b | Struct string | FuncProto "'b list" | IntType u32 | Enum | OtherType

definition request_pointer :: "('b \<Rightarrow> 'b btf_view) \<Rightarrow> 'b \<Rightarrow> bool" where
  "request_pointer view p =
     (case view p of Pointer t \<Rightarrow> (case view t of Struct n \<Rightarrow> n = ''request'' | _ \<Rightarrow> False) | _ \<Rightarrow> False)"

fun blockRequestIndexFromProto :: "('b \<Rightarrow> 'b btf_view) \<Rightarrow> nat \<Rightarrow> 'b list \<Rightarrow> go_error + u32" where
  "blockRequestIndexFromProto view i [] = Inl (Errorf ''unsupported block request tracepoint arguments'')"
| "blockRequestIndexFromProto view i (p # ps) =
     (if request_pointer view p \<and> (i = 1 \<or> i = 2) then Inr (of_nat (i - 1))
      else blockRequestIndexFromProto view (Suc i) ps)"

definition oomVictimTaskArgFromProto :: "('b \<Rightarrow> 'b btf_view) \<Rightarrow> 'b list \<Rightarrow> go_error + u32" where
  "oomVictimTaskArgFromProto view ps =
     (if length ps < 2 then Inl (Errorf ''unsupported OOM tracepoint arguments'')
      else
        (case view (ps ! 1) of
           IntType k \<Rightarrow> if k = 4 then Inr 0 else Inl (Errorf ''unsupported OOM victim argument type'')
         | Pointer t \<Rightarrow>
             (case view t of
                Struct n \<Rightarrow> if n = ''task_struct'' then Inr 1 else Inl (Errorf ''unsupported OOM victim argument type'')
              | _ \<Rightarrow> Inl (Errorf ''unsupported OOM victim argument type''))
         | _ \<Rightarrow> Inl (Errorf ''unsupported OOM victim argument type'')))"

definition tcpResetCoverageFromProto :: "('b \<Rightarrow> 'b btf_view) \<Rightarrow> 'b list \<Rightarrow> string" where
  "tcpResetCoverageFromProto view ps =
     (if length ps = 3 then TCPResetCoverageLimited
      else if length ps = 4 then
        (case view (ps ! 3) of
           Enum \<Rightarrow> TCPResetCoverageSupported | IntType _ \<Rightarrow> TCPResetCoverageSupported | _ \<Rightarrow> TCPResetCoverageUnknown)
      else TCPResetCoverageUnknown)"

definition tcpRetransmitHasErrorArgFromProto :: "('b \<Rightarrow> 'b btf_view) \<Rightarrow> 'b list \<Rightarrow> go_error + u32" where
  "tcpRetransmitHasErrorArgFromProto view ps =
     (if length ps = 3 then Inr 0
      else if length ps = 4 \<and> (case view (ps ! 3) of IntType k \<Rightarrow> k = 4 | _ \<Rightarrow> False) then Inr 1
      else Inl (Errorf ''unsupported TCP retransmit tracepoint arguments''))"

text \<open>
  The prototype of a raw tracepoint: the kernel's type information is loaded, the
  typedef found, and its target must be a pointer to a function prototype.
\<close>

record CollectionSpec =
  cs_Variables :: "string list"
  cs_Maps :: "(string \<times> u32) list"

record 'b KernelEnv =
  ke_Geteuid :: int
  ke_Stat_vmlinux :: "go_error option"
  ke_RemoveMemlock :: "go_error option"
  ke_PossibleCPU :: "go_error + int"
  ke_LoadKernelSpec :: "go_error option"
  ke_TypeByName :: "string \<Rightarrow> go_error + 'b"
  ke_UnderlyingType :: "'b \<Rightarrow> 'b btf_view"
  ke_load :: "string \<Rightarrow> go_error + CollectionSpec"
  ke_Set :: "string \<Rightarrow> string \<Rightarrow> u64 \<Rightarrow> go_error option"
  ke_NewCollection :: "string \<Rightarrow> CollectionSpec \<Rightarrow> go_error option"
  ke_AttachRawTracepoint :: "string \<Rightarrow> string \<Rightarrow> go_error option"
  ke_NewReader :: "string \<Rightarrow> go_error option"
  ke_Memlock :: "string \<Rightarrow> u64 option list"

definition trace_proto :: "'b KernelEnv \<Rightarrow> string \<Rightarrow> string \<Rightarrow> string \<Rightarrow> string \<Rightarrow> go_error + 'b list" where
  "trace_proto ke trace cannot no_pointer no_proto =
     (case ke_LoadKernelSpec ke of
        Some e \<Rightarrow> Inl e
      | None \<Rightarrow>
          (case ke_TypeByName ke (''btf_trace_'' @ trace) of
             Inl e \<Rightarrow> Inl (Wrapf cannot e)
           | Inr t \<Rightarrow>
               (case ke_UnderlyingType ke t of
                  Pointer p \<Rightarrow>
                    (case ke_UnderlyingType ke p of
                       FuncProto ps \<Rightarrow> Inr ps | _ \<Rightarrow> Inl (Errorf no_proto))
                | _ \<Rightarrow> Inl (Errorf no_pointer))))"

definition bind_result :: "'e + 'a \<Rightarrow> ('a \<Rightarrow> 'e + 'c) \<Rightarrow> 'e + 'c" where
  "bind_result r f = (case r of Inl e \<Rightarrow> Inl e | Inr x \<Rightarrow> f x)"

definition blockRequestIndex :: "'b KernelEnv \<Rightarrow> string \<Rightarrow> go_error + u32" where
  "blockRequestIndex ke tracepoint =
     bind_result (trace_proto ke tracepoint ''cannot establish block tracepoint argument layout''
         ''unexpected block tracepoint BTF'' ''unexpected block tracepoint prototype'')
       (blockRequestIndexFromProto (ke_UnderlyingType ke) 0)"

definition oomVictimTaskArg :: "'b KernelEnv \<Rightarrow> go_error + u32" where
  "oomVictimTaskArg ke =
     bind_result (trace_proto ke ''mark_victim'' ''cannot establish OOM tracepoint argument layout''
         ''unexpected OOM tracepoint BTF'' ''unexpected OOM tracepoint prototype'')
       (oomVictimTaskArgFromProto (ke_UnderlyingType ke))"

definition tcpResetCoverage :: "'b KernelEnv \<Rightarrow> string" where
  "tcpResetCoverage ke =
     (case trace_proto ke ''tcp_send_reset'' [] [] [] of
        Inl _ \<Rightarrow> TCPResetCoverageUnknown
      | Inr ps \<Rightarrow> tcpResetCoverageFromProto (ke_UnderlyingType ke) ps)"

definition tcpRetransmitHasErrorArg :: "'b KernelEnv \<Rightarrow> go_error + u32" where
  "tcpRetransmitHasErrorArg ke =
     bind_result (trace_proto ke ''tcp_retransmit_skb'' ''cannot establish TCP retransmit tracepoint arguments''
         ''unexpected TCP retransmit tracepoint BTF'' ''unexpected TCP retransmit tracepoint prototype'')
       (tcpRetransmitHasErrorArgFromProto (ke_UnderlyingType ke))"

section \<open>Opening the sensors\<close>

text \<open>The loader of a definition is found by its name (\<open>ke_load\<close>); the hooks are a Go map, so their order is free.\<close>

record sensor_definition =
  sd_name :: string
  sd_threshold :: u64
  sd_critical :: u64
  sd_hooks :: "(string \<times> string) list"

definition definitions :: "Config \<Rightarrow> sensor_definition list" where
  "definitions c =
     [\<lparr>sd_name = ''block_io'', sd_threshold = to_u64 (cf_BlockThreshold c), sd_critical = to_u64 (cf_BlockCritical c),
       sd_hooks = [(''issue'', ''block_rq_issue''), (''requeue'', ''block_rq_requeue''), (''complete'', ''block_rq_complete'')]\<rparr>,
      \<lparr>sd_name = ''scheduler'', sd_threshold = to_u64 (cf_SchedulerThreshold c),
       sd_critical = to_u64 (cf_SchedulerCritical c),
       sd_hooks = [(''wakeup'', ''sched_wakeup''), (''wakeup_new'', ''sched_wakeup_new''),
         (''switch_task'', ''sched_switch''), (''exit_task'', ''sched_process_exit'')]\<rparr>,
      \<lparr>sd_name = ''tcp'', sd_threshold = 0, sd_critical = 0,
       sd_hooks = [(''retransmit'', ''tcp_retransmit_skb''), (''send_reset'', ''tcp_send_reset''),
         (''receive_reset'', ''tcp_receive_reset'')]\<rparr>,
      \<lparr>sd_name = ''oom'', sd_threshold = 0, sd_critical = 0, sd_hooks = [(''victim'', ''mark_victim'')]\<rparr>]"

definition configureMaps :: "CollectionSpec \<Rightarrow> Resources \<Rightarrow> CollectionSpec" where
  "configureMaps spec r = spec\<lparr>cs_Maps := map (\<lambda>(n, k).
     (n, if n = ''details'' then re_RingBytes r
         else if n = ''starts'' then re_BlockTrackingEntries r
         else if n = ''runnable'' then re_SchedulerTrackingEntries r else k)) (cs_Maps spec)\<rparr>"

text \<open>The constants of a program that exist in it, and those its tracepoint arguments decide.\<close>

definition spec_constants :: "Config \<Rightarrow> sensor_definition \<Rightarrow> CollectionSpec \<Rightarrow> (string \<times> u64) list" where
  "spec_constants c d spec = filter (\<lambda>(n, v). n \<in> set (cs_Variables spec))
     [(''detail_rate'', ucast (cf_DetailRate c)), (''threshold_ns'', sd_threshold d),
      (''critical_threshold_ns'', sd_critical d)]"

definition argument_constants :: "'b KernelEnv \<Rightarrow> string \<Rightarrow> go_error + (string \<times> u64) list" where
  "argument_constants ke name =
     (if name = ''block_io'' then
        bind_result (blockRequestIndex ke ''block_rq_issue'') (\<lambda>i.
        bind_result (blockRequestIndex ke ''block_rq_requeue'') (\<lambda>j.
          Inr [(''rq_arg_index'', ucast i), (''requeue_arg_index'', ucast j)]))
      else if name = ''oom'' then
        bind_result (oomVictimTaskArg ke) (\<lambda>t. Inr [(''victim_task_arg'', ucast t)])
      else if name = ''tcp'' then
        bind_result (tcpRetransmitHasErrorArg ke) (\<lambda>h. Inr [(''retransmit_has_error'', ucast h)])
      else Inr [])"

fun first_failure :: "go_error option list \<Rightarrow> go_error option" where
  "first_failure [] = None"
| "first_failure (None # es) = first_failure es"
| "first_failure (Some e # es) = Some e"

text \<open>The bytes of the maps and programs of a sensor; one unknown size makes the total unknown.\<close>

definition kernel_bytes :: "u64 option list \<Rightarrow> u64 \<times> bool" where
  "kernel_bytes infos =
     (foldl (\<lambda>n i. case i of None \<Rightarrow> n | Some b \<Rightarrow> n + b) 0 infos, list_all (\<lambda>i. i \<noteq> None) infos)"

definition health_of :: "string \<Rightarrow> string \<Rightarrow> string \<Rightarrow> SensorHealth" where
  "health_of name state reason =
     \<lparr>sh_BookkeepingCompletions = 0, sh_BudgetPruneFailures = 0, sh_TCPResetCoverage = [], sh_KernelBytes = 0,
      sh_KernelBytesKnown = False, sh_Name = name, sh_State = state, sh_Reason = reason, sh_Loss = zero_Counters\<rparr>"

definition open_definition :: "'b KernelEnv \<Rightarrow> Config \<Rightarrow> sensor_definition \<Rightarrow> go_error + kernelSensor" where
  "open_definition ke c d =
     bind_result (ke_load ke (sd_name d)) (\<lambda>spec.
     bind_result (argument_constants ke (sd_name d)) (\<lambda>args.
       case first_failure (map (\<lambda>(n, v). ke_Set ke (sd_name d) n v) (spec_constants c d spec @ args)) of
         Some e \<Rightarrow> Inl e
       | None \<Rightarrow>
           (case ke_NewCollection ke (sd_name d) (configureMaps spec (cf_Resources c)) of
              Some e \<Rightarrow> Inl e
            | None \<Rightarrow>
                (case first_failure (map (\<lambda>(p, h). ke_AttachRawTracepoint ke p h) (sd_hooks d)) of
                   Some e \<Rightarrow> Inl e
                 | None \<Rightarrow>
                     (case ke_NewReader ke (sd_name d) of
                        Some e \<Rightarrow> Inl e
                      | None \<Rightarrow>
                          let (bytes, known) = kernel_bytes (ke_Memlock ke (sd_name d));
                              h = health_of (sd_name d) ''healthy'' []
                          in Inr \<lparr>ks_name = sd_name d, ks_previous = zero_wireStats,
                               ks_health = h\<lparr>sh_KernelBytes := bytes, sh_KernelBytesKnown := known,
                                 sh_TCPResetCoverage := (if sd_name d = ''tcp'' then tcpResetCoverage ke else [])\<rparr>,
                               ks_decodeFailures = 0, ks_previousDecode = 0, ks_lastBudgetSweepSec = 0\<rparr>)))))"

text \<open>The loop over the definitions: the sensors opened and those unavailable.\<close>

fun open_each :: "'b KernelEnv \<Rightarrow> Config \<Rightarrow> sensor_definition list \<Rightarrow> kernelSensor list \<times> SensorHealth list" where
  "open_each ke c [] = ([], [])"
| "open_each ke c (d # ds) =
     (let (ss, un) = open_each ke c ds
      in if sd_name d \<notin> set (cf_Enabled c) then
           (ss, health_of (sd_name d) ''disabled'' ''disabled by configuration'' # un)
         else
           (case open_definition ke c d of
              Inl e \<Rightarrow> (ss, health_of (sd_name d) ''unavailable'' (error_text e) # un)
            | Inr s \<Rightarrow> (s # ss, un)))"

text \<open>\<open>openDefinitions\<close>; the list of reasons in the last message is left out.\<close>

definition openDefinitions ::
  "'b KernelEnv \<Rightarrow> Config \<Rightarrow> sensor_definition list \<Rightarrow> go_error + kernelSensor list \<times> SensorHealth list" where
  "openDefinitions ke c defs =
     (if ke_Geteuid ke \<noteq> 0 then Inl (Errorf ''recording initially requires root'')
      else
        (case ke_Stat_vmlinux ke of
           Some e \<Rightarrow> Inl (Wrapf ''kernel BTF is required'' e)
         | None \<Rightarrow>
             (case ke_RemoveMemlock ke of
                Some e \<Rightarrow> Inl (Wrapf ''raise BPF memlock'' e)
              | None \<Rightarrow>
                  (case ke_PossibleCPU ke of
                     Inl e \<Rightarrow> Inl e
                   | Inr cpus \<Rightarrow>
                       let (ss, un) = open_each ke c defs
                       in (case (if cf_Strict c then find (\<lambda>h. sh_State h = ''unavailable'') un else None) of
                             Some h \<Rightarrow> Inl (Errorf (''strict mode: '' @ sh_Name h @ '' could not initialize: '' @ sh_Reason h))
                           | None \<Rightarrow>
                               if ss = [] then
                                 Inl (Errorf ''no kernel sensor could attach; check kernel hooks and BPF permissions'')
                               else Inr (ss, un))))))"

end
