(* ===== verification/Sensor_Theorems.thy ===== *)
theory Sensor_Theorems
  imports Sensor "HOL-Library.Multiset"
begin

text \<open>
  Properties of the kernel sensors: the contract of the \<open>Sensor\<close> interface
  towards the recorder loop and its discharge for \<open>kernelSensor\<close>, conservation of
  the kernel's counters over a run of polls, exactness and failure behaviour of
  the clean-up of detail budgets, and which sensors a configuration opens.
\<close>

section \<open>The contract of a sensor\<close>

text \<open>
  The recorder loop polls a sensor for consecutive intervals: each successful
  \<open>Snapshot\<close> starts where the last one ended; a failing sensor is not polled again.
\<close>

fun run_polls :: "('i \<Rightarrow> u64 \<Rightarrow> u64 \<Rightarrow> 's \<Rightarrow> (go_error + Metric) \<times> 's) \<Rightarrow> u64 \<Rightarrow> ('i \<times> u64) list \<Rightarrow> 's
    \<Rightarrow> Metric list \<times> 's" where
  "run_polls snap start [] s = ([], s)"
| "run_polls snap start ((i, t) # ps) s =
     (case snap i start t s of
        (Inl _, s') \<Rightarrow> ([], s')
      | (Inr m, s') \<Rightarrow> (let (ms, s'') = run_polls snap t ps s' in (m # ms, s'')))"

fun tiles :: "u64 \<Rightarrow> u64 list \<Rightarrow> Metric list \<Rightarrow> bool" where
  "tiles a ts [] = True"
| "tiles a [] (m # ms) = False"
| "tiles a (t # ts) (m # ms) = (mt_StartMonoNS m = a \<and> mt_EndMonoNS m = t \<and> tiles t ts ms)"

locale interval_sensor =
  fixes name :: string
    and snap :: "'i \<Rightarrow> u64 \<Rightarrow> u64 \<Rightarrow> 's \<Rightarrow> (go_error + Metric) \<times> 's"
    and readable :: "'i \<Rightarrow> bool"
    and ok :: "'s \<Rightarrow> bool"
  assumes keeps: "ok s \<Longrightarrow> readable i \<Longrightarrow> ok (snd (snap i a b s))"
    and interval: "ok s \<Longrightarrow> readable i \<Longrightarrow> fst (snap i a b s) = Inr m \<Longrightarrow>
      mt_Family m = name \<and> mt_StartMonoNS m = a \<and> mt_EndMonoNS m = b \<and> histogram_wf (mt_Histogram m)"
begin

lemma polls_tile:
  assumes "ok s" and "\<forall>p \<in> set ps. readable (fst p)"
  shows "tiles a (map snd ps) (fst (run_polls snap a ps s))
    \<and> (\<forall>m \<in> set (fst (run_polls snap a ps s)). mt_Family m = name \<and> histogram_wf (mt_Histogram m))"
  using assms
proof (induction ps arbitrary: a s)
  case (Cons p ps)
  obtain i t where p: "p = (i, t)" by fastforce
  obtain r s' where run: "snap i a t s = (r, s')" by fastforce
  show ?case
  proof (cases r)
    case (Inl e)
    with p run show ?thesis by simp
  next
    case (Inr m)
    have "ok s'" using keeps [OF Cons.prems(1), of i a t] Cons.prems(2) p run by simp
    with Cons.IH [of s' t] Cons.prems(2)
    have "tiles t (map snd ps) (fst (run_polls snap t ps s'))
        \<and> (\<forall>m \<in> set (fst (run_polls snap t ps s')). mt_Family m = name \<and> histogram_wf (mt_Histogram m))"
      by simp
    moreover have "mt_Family m = name \<and> mt_StartMonoNS m = a \<and> mt_EndMonoNS m = t \<and> histogram_wf (mt_Histogram m)"
      using interval [OF Cons.prems(1), of i a t m] Cons.prems(2) p run Inr by simp
    ultimately show ?thesis using p run Inr by (simp add: split_def Let_def)
  qed
qed simp

end

section \<open>The kernel sensor keeps the contract\<close>

type_synonym poll_input = "(go_error + wireStats list) \<times> BudgetMap option"

definition snap_kernel :: "poll_input \<Rightarrow> u64 \<Rightarrow> u64 \<Rightarrow> kernelSensor \<Rightarrow> (go_error + Metric) \<times> kernelSensor" where
  "snap_kernel i a b s = kernelSensor_Snapshot (fst i) (snd i) a b s"

definition stats_wf :: "wireStats \<Rightarrow> bool" where
  "stats_wf v \<longleftrightarrow> histogram_wf (ws_Histogram v)"

definition input_wf :: "poll_input \<Rightarrow> bool" where
  "input_wf i \<longleftrightarrow> (case fst i of Inl _ \<Rightarrow> True | Inr vs \<Rightarrow> \<forall>v \<in> set vs. stats_wf v)"

definition sensor_wf :: "string \<Rightarrow> kernelSensor \<Rightarrow> bool" where
  "sensor_wf n s \<longleftrightarrow> ks_name s = n \<and> stats_wf (ks_previous s)"

lemma sum_stats_wf:
  assumes "\<forall>v \<in> set vs. stats_wf v" shows "stats_wf (sum_stats vs)"
proof -
  have "stats_wf (foldl wireStats_add a vs)" if "stats_wf a" for a
    using assms that
    by (induction vs arbitrary: a) (auto simp: stats_wf_def wireStats_add_def histogram_wf_def)
  moreover have "stats_wf zero_wireStats"
    by (simp add: stats_wf_def zero_wireStats_def histogram_wf_def zero_histogram_def)
  ultimately show ?thesis by (simp add: sum_stats_def)
qed

text \<open>Cleaning up touches neither the name nor what the metric is computed from.\<close>

definition same_counters :: "kernelSensor \<Rightarrow> kernelSensor \<Rightarrow> bool" where
  "same_counters s s' \<longleftrightarrow> ks_name s' = ks_name s \<and> ks_previous s' = ks_previous s
     \<and> ks_decodeFailures s' = ks_decodeFailures s \<and> ks_previousDecode s' = ks_previousDecode s"

lemma same_counters_refl [simp]: "same_counters s s"
  by (simp add: same_counters_def)

lemma prune_same: "pruneDetailBudgets bm t s = (r, s') \<Longrightarrow> same_counters s s'"
  by (auto simp: pruneDetailBudgets_def same_counters_def Let_def split: option.splits sweep.splits if_splits)

lemma handle_same: "handleBudgetPruneError e s = (r, s') \<Longrightarrow> same_counters s s'"
  by (auto simp: handleBudgetPruneError_def fail_def same_counters_def split: if_splits)

lemma same_counters_trans: "same_counters s s1 \<Longrightarrow> same_counters s1 s2 \<Longrightarrow> same_counters s s2"
  by (simp add: same_counters_def)

lemma Snapshot_cases:
  assumes "kernelSensor_Snapshot agg bm a b s = (r, s')"
  obtains e where "r = Inl e" and "same_counters s s'"
  | vs s2 where "agg = Inr vs" and "same_counters s s2" and "r = Inr (interval_metric s2 (sum_stats vs) a b)"
    and "ks_name s' = ks_name s" and "ks_previous s' = sum_stats vs" and "ks_decodeFailures s' = ks_decodeFailures s"
    and "ks_previousDecode s' = ks_decodeFailures s"
proof (cases agg)
  case (Inl e)
  with assms have "r = Inl e" "same_counters s s'"
    by (auto simp: kernelSensor_Snapshot_def fail_def same_counters_def)
  then show thesis by (rule that(1))
next
  case (Inr vs)
  obtain perr ks s1 where p: "pruneDetailBudgets bm b s = ((perr, ks), s1)" by (metis surj_pair)
  obtain err s2 where h: "(case perr of None \<Rightarrow> (None, s1) | Some e \<Rightarrow> handleBudgetPruneError e s1) = (err, s2)"
    by fastforce
  have "same_counters s1 s2" using h by (cases perr) (auto dest: handle_same)
  with prune_same [OF p] have c: "same_counters s s2" by (rule same_counters_trans)
  show thesis
  proof (cases err)
    case None
    have "r = Inr (interval_metric s2 (sum_stats vs) a b)"
      "s' = s2\<lparr>ks_previous := sum_stats vs, ks_previousDecode := ks_decodeFailures s2,
         ks_health := (ks_health s2)\<lparr>sh_Loss := loss_of (sum_stats vs) (ks_decodeFailures s2),
           sh_BookkeepingCompletions := ws_BookkeepingCompletions (sum_stats vs)\<rparr>\<rparr>"
      using assms Inr p h None by (auto simp: kernelSensor_Snapshot_def Let_def)
    with c Inr show thesis by (intro that(2)) (simp_all add: same_counters_def)
  next
    case (Some e)
    have "r = Inl e" "s' = s2" using assms Inr p h Some by (auto simp: kernelSensor_Snapshot_def Let_def)
    with c show thesis by (intro that(1)) simp_all
  qed
qed

lemma interval_metric_fields [simp]:
  "mt_Family (interval_metric s v a b) = ks_name s" "mt_StartMonoNS (interval_metric s v a b) = a"
  "mt_EndMonoNS (interval_metric s v a b) = b"
  by (simp_all add: interval_metric_def Let_def)

interpretation kernel: interval_sensor n snap_kernel input_wf "sensor_wf n" for n
proof (unfold_locales)
  fix s i a b
  assume s: "sensor_wf n s" and i: "input_wf i"
  obtain r s' where k: "kernelSensor_Snapshot (fst i) (snd i) a b s = (r, s')" by fastforce
  have "sensor_wf n s'"
    using k s i by (cases rule: Snapshot_cases)
      (auto simp: sensor_wf_def same_counters_def input_wf_def intro: sum_stats_wf)
  with k show "sensor_wf n (snd (snap_kernel i a b s))"
    by (simp add: snap_kernel_def)
next
  fix s i a b m
  assume s: "sensor_wf n s" and i: "input_wf i" and m: "fst (snap_kernel i a b s) = Inr m"
  obtain s' where "kernelSensor_Snapshot (fst i) (snd i) a b s = (Inr m, s')"
    using m by (metis snap_kernel_def surjective_pairing)
  then show "mt_Family m = n \<and> mt_StartMonoNS m = a \<and> mt_EndMonoNS m = b \<and> histogram_wf (mt_Histogram m)"
  proof (cases rule: Snapshot_cases)
    case (2 vs s2)
    have "histogram_wf (map2 delta (ws_Histogram (sum_stats vs)) (ws_Histogram (ks_previous s2)))"
      using sum_stats_wf [of vs] i s 2(1,2)
      by (auto simp: input_wf_def stats_wf_def histogram_wf_def sensor_wf_def same_counters_def)
    with 2 s show ?thesis by (auto simp: sensor_wf_def same_counters_def interval_metric_def Let_def)
  qed simp
qed

section \<open>Conservation of the kernel's counters\<close>

definition counter_fields :: "((Metric \<Rightarrow> u64) \<times> (wireStats \<Rightarrow> u64)) list" where
  "counter_fields =
     [(mt_Count, ws_Count), (mt_Anomalies, ws_Anomalies), (mt_Critical, ws_Critical), (mt_Bytes, ws_Bytes),
      (mt_Retransmits, ws_Retransmits), (mt_Resets, ws_Resets),
      (mt_BookkeepingCompletions, ws_BookkeepingCompletions),
      (\<lambda>m. ct_RingFailures (mt_Loss m), ws_RingFailures), (\<lambda>m. ct_Suppressed (mt_Loss m), ws_Suppressed),
      (\<lambda>m. ct_DetailFailures (mt_Loss m), ws_DetailFailures),
      (\<lambda>m. ct_TrackingFailures (mt_Loss m), ws_TrackingFailures),
      (\<lambda>m. ct_Unmatched (mt_Loss m), ws_Unmatched)]
   @ map (\<lambda>k. (\<lambda>m. mt_Histogram m ! k, \<lambda>w. ws_Histogram w ! k)) [0..<HistogramBuckets]"

lemma counter_field_delta:
  assumes "(f, g) \<in> set counter_fields" and "stats_wf v" and "stats_wf (ks_previous s)"
  shows "f (interval_metric s v a b) = delta (g v) (g (ks_previous s))"
  using assms
  by (auto simp: counter_fields_def interval_metric_def Let_def counters_delta_def loss_of_def
      stats_wf_def histogram_wf_def)

text \<open>The cumulative value seen by the polls never goes back.\<close>

fun never_back :: "(wireStats \<Rightarrow> u64) \<Rightarrow> wireStats \<Rightarrow> (poll_input \<times> u64) list \<Rightarrow> bool" where
  "never_back g p [] = True"
| "never_back g p ((i, t) # ps) =
     (case fst i of Inl _ \<Rightarrow> True
      | Inr vs \<Rightarrow> g p \<le> g (sum_stats vs) \<and> never_back g (sum_stats vs) ps)"

lemma delta_exact: "p \<le> n \<Longrightarrow> unat (delta n p) + unat p = unat n"
  using unat_sub [of p n] by (auto simp: delta_def leD word_le_nat_alt dest: leD)

lemma polls_telescope:
  assumes "(f, g) \<in> set counter_fields" and "sensor_wf n s" and "\<forall>p \<in> set ps. input_wf (fst p)"
    and "never_back g (ks_previous s) ps"
  shows "(\<Sum>m\<leftarrow>fst (run_polls snap_kernel a ps s). unat (f m)) + unat (g (ks_previous s))
    = unat (g (ks_previous (snd (run_polls snap_kernel a ps s))))"
  using assms(2-)
proof (induction ps arbitrary: a s)
  case (Cons p ps)
  obtain i t where p: "p = (i, t)" by fastforce
  obtain r s' where k: "kernelSensor_Snapshot (fst i) (snd i) a t s = (r, s')" by fastforce
  have step: "snap_kernel i a t s = (r, s')" using k by (simp add: snap_kernel_def)
  from k show ?case
  proof (cases rule: Snapshot_cases)
    case (1 e)
    then show ?thesis using step p by (simp add: same_counters_def)
  next
    case (2 vs s2)
    have v: "stats_wf (sum_stats vs)" "stats_wf (ks_previous s)"
      using Cons.prems(1,2) 2(1) p by (auto simp: input_wf_def sensor_wf_def intro: sum_stats_wf)
    have le: "g (ks_previous s) \<le> g (sum_stats vs)" and rest: "never_back g (ks_previous s') ps"
      using Cons.prems(3) p 2(1,5) by auto
    have "sensor_wf n s'" using Cons.prems(1) 2(4,5) v by (simp add: sensor_wf_def)
    with Cons.IH [of s' t] Cons.prems(2) rest
    have ih: "(\<Sum>m\<leftarrow>fst (run_polls snap_kernel t ps s'). unat (f m)) + unat (g (ks_previous s'))
      = unat (g (ks_previous (snd (run_polls snap_kernel t ps s'))))" by simp
    have prev: "ks_previous s2 = ks_previous s" using 2(2) by (simp add: same_counters_def)
    have "f (interval_metric s2 (sum_stats vs) a t) = delta (g (sum_stats vs)) (g (ks_previous s))"
      using counter_field_delta [OF assms(1) v(1), of s2 a t] v(2) prev by simp
    with delta_exact [OF le] ih 2 show ?thesis using step p by (simp add: split_def Let_def)
  qed
qed simp

section \<open>Cleaning up detail budgets\<close>

text \<open>A map nobody else touches: \<open>NextKey\<close> walks its keys in a fixed order.\<close>

fun key_after :: "u64 \<Rightarrow> u64 list \<Rightarrow> u64 option" where
  "key_after k [] = None"
| "key_after k (x # xs) = (if x = k then (case xs of [] \<Rightarrow> None | y # _ \<Rightarrow> Some y) else key_after k xs)"

definition quiet_map :: "u32 \<Rightarrow> u64 list \<Rightarrow> BudgetMap" where
  "quiet_map max_entries keys =
     \<lparr>bm_MaxEntries = max_entries,
      bm_NextKey = (\<lambda>i c. Inr (case c of None \<Rightarrow> (case keys of [] \<Rightarrow> None | k # _ \<Rightarrow> Some k) | Some k \<Rightarrow> key_after k keys)),
      bm_Delete = (\<lambda>k. None)\<rparr>"

lemma key_after_append: "k \<notin> set pre \<Longrightarrow> key_after k (pre @ k # suf) = (case suf of [] \<Rightarrow> None | y # _ \<Rightarrow> Some y)"
  by (induction pre) auto

lemma sweep_quiet_from:
  assumes "distinct keys" and "keys = pre @ suf" and "length suf < n"
    and "cursor = (if pre = [] then None else Some (last pre))"
  shows "sweep_keys (quiet_map mx keys) sec n cursor acc = Stale (acc @ filter (stale_key sec) suf)"
  using assms(2-)
proof (induction suf arbitrary: pre n cursor acc)
  case Nil
  obtain n' where n: "n = Suc n'" using Nil.prems(2) by (cases n) auto
  have "key_after (last pre) keys = None" if "pre \<noteq> []"
  proof -
    have e: "keys = butlast pre @ last pre # []" using that Nil.prems(1) by simp
    moreover have "last pre \<notin> set (butlast pre)" using assms(1) e by (metis distinct_append distinct.simps(2) disjoint_iff list.set_intros(1))
    ultimately show ?thesis using key_after_append by fastforce
  qed
  with n Nil.prems show ?case by (auto simp: quiet_map_def)
next
  case (Cons k suf)
  obtain n' where n: "n = Suc n'" "n' \<noteq> 0" using Cons.prems(2) by (cases n) auto
  have "key_after (last pre) keys = Some k" if "pre \<noteq> []"
  proof -
    have e: "keys = butlast pre @ last pre # k # suf" using that Cons.prems(1) by simp
    moreover have "last pre \<notin> set (butlast pre)" using assms(1) e by (metis distinct_append distinct.simps(2) disjoint_iff list.set_intros(1))
    ultimately show ?thesis using key_after_append by fastforce
  qed
  moreover have "keys \<noteq> [] \<and> hd keys = k" if "pre = []" using that Cons.prems(1) by simp
  ultimately have nk: "bm_NextKey (quiet_map mx keys) i cursor = Inr (Some k)" for i
    using Cons.prems(1,3) by (auto simp: quiet_map_def)
  have "sweep_keys (quiet_map mx keys) sec n' (Some k) acc' = Stale (acc' @ filter (stale_key sec) suf)" for acc'
    using Cons.IH [of "pre @ [k]" n' "Some k" acc'] Cons.prems(1,2) n by simp
  with nk n show ?case by simp
qed

lemma delete_quiet [simp]: "delete_keys (quiet_map mx keys) ks = None"
  by (induction ks) (simp_all add: quiet_map_def)

section \<open>Opening\<close>

lemma open_definition_name: "open_definition ke c d = Inr s \<Longrightarrow> ks_name s = sd_name d \<and> sensor_wf (sd_name d) s"
  by (auto simp: open_definition_def bind_result_def Let_def sensor_wf_def stats_wf_def zero_wireStats_def
      histogram_wf_def zero_histogram_def split: sum.splits option.splits prod.splits)

lemma open_each_partition:
  "open_each ke c ds = (ss, un) \<Longrightarrow>
   mset (map ks_name ss) + mset (map sh_Name un) = mset (map sd_name ds)
   \<and> (\<forall>s \<in> set ss. ks_name s \<in> set (cf_Enabled c) \<and> sensor_wf (ks_name s) s)
   \<and> (\<forall>h \<in> set un. sh_State h = (if sh_Name h \<in> set (cf_Enabled c) then ''unavailable'' else ''disabled''))"
proof (induction ds arbitrary: ss un)
  case (Cons d ds)
  obtain ss' un' where r: "open_each ke c ds = (ss', un')" by fastforce
  note ih = Cons.IH [OF r]
  show ?case
  proof (cases "sd_name d \<in> set (cf_Enabled c)")
    case False
    with Cons.prems r have "ss = ss'" "un = health_of (sd_name d) ''disabled'' ''disabled by configuration'' # un'"
      by auto
    with ih False show ?thesis by (auto simp: health_of_def)
  next
    case True
    show ?thesis
    proof (cases "open_definition ke c d")
      case (Inl e)
      with Cons.prems r True have "ss = ss'" "un = health_of (sd_name d) ''unavailable'' (error_text e) # un'"
        by auto
      with ih True show ?thesis by (auto simp: health_of_def)
    next
      case (Inr s)
      with Cons.prems r True have "ss = s # ss'" "un = un'" by auto
      with ih True open_definition_name [OF Inr] show ?thesis by auto
    qed
  qed
qed simp

lemma definitions_names: "map sd_name (definitions c) = Families"
  by (simp add: definitions_def Families_def)

section \<open>Properties\<close>

text \<open>C19: a sensor reports consecutive, complete intervals and loses no count.  Over any run of polls of an
  opened sensor (stopping at the first failed one) the metrics belong to the
  sensor, cover the time from the start without gap or overlap up to the times
  polled, and have eleven buckets; and for every counter of the kernel, and every bucket of the
  histogram, whose cumulative value does not go back, the reported intervals add
  up, without wrapping, to the difference of the last and the first cumulative value.\<close>
theorem polls_conserve_counters:
  assumes "sensor_wf n s" and "\<forall>p \<in> set ps. input_wf (fst p)"
    and "run_polls snap_kernel start ps s = (ms, s')"
  shows "tiles start (map snd ps) ms \<and> (\<forall>m \<in> set ms. mt_Family m = n \<and> histogram_wf (mt_Histogram m))
    \<and> (\<forall>(f, g) \<in> set counter_fields. never_back g (ks_previous s) ps \<longrightarrow>
        (\<Sum>m\<leftarrow>ms. unat (f m)) + unat (g (ks_previous s)) = unat (g (ks_previous s')))"
  using kernel.polls_tile [OF assms(1,2), of start] polls_telescope [OF _ assms(1,2), of _ _ start] assms(3) by auto

definition ex_stats :: "u64 \<Rightarrow> wireStats" where
  "ex_stats n = zero_wireStats\<lparr>ws_Count := n, ws_Histogram := n # replicate 10 0\<rparr>"

definition ex_sensor :: kernelSensor where
  "ex_sensor = \<lparr>ks_name = ''block_io'', ks_previous = zero_wireStats, ks_health = health_of ''block_io'' ''healthy'' [],
     ks_decodeFailures = 0, ks_previousDecode = 0, ks_lastBudgetSweepSec = 0\<rparr>"

definition ex_polls :: "(poll_input \<times> u64) list" where
  "ex_polls = [((Inr [ex_stats 3, ex_stats 4], None), 1000), ((Inr [ex_stats 5, ex_stats 9], None), 2000)]"

lemma polls_conserve_counters_witness:
  "map mt_Count (fst (run_polls snap_kernel 500 ex_polls ex_sensor)) = [7, 7]
   \<and> tiles 500 [1000, 2000] (fst (run_polls snap_kernel 500 ex_polls ex_sensor))
   \<and> (\<Sum>m\<leftarrow>fst (run_polls snap_kernel 500 ex_polls ex_sensor). unat (mt_Count m)) = 14"
proof -
  let ?r = "run_polls snap_kernel 500 ex_polls ex_sensor"
  have w: "sensor_wf ''block_io'' ex_sensor"
    by (simp add: ex_sensor_def sensor_wf_def stats_wf_def zero_wireStats_def histogram_wf_def zero_histogram_def)
  have i: "\<forall>p \<in> set ex_polls. input_wf (fst p)"
    by (simp add: ex_polls_def input_wf_def ex_stats_def stats_wf_def histogram_wf_def HistogramBuckets_def)
  have f: "(mt_Count, ws_Count) \<in> set counter_fields" by (simp add: counter_fields_def)
  have v: "never_back ws_Count (ks_previous ex_sensor) ex_polls" "map mt_Count (fst ?r) = [7, 7]"
    "unat (ws_Count (ks_previous ex_sensor)) = 0" "unat (ws_Count (ks_previous (snd ?r))) = 14"
    "map snd ex_polls = [1000, 2000]" by code_simp+
  note c = polls_conserve_counters [OF w i prod.collapse [symmetric], of 500]
  have "tiles 500 [1000, 2000] (fst ?r)" using conjunct1 [OF c] by (simp only: v(5))
  moreover have "(\<Sum>m\<leftarrow>fst ?r. unat (mt_Count m)) + unat (ws_Count (ks_previous ex_sensor))
      = unat (ws_Count (ks_previous (snd ?r)))"
    using bspec [OF conjunct2 [OF conjunct2 [OF c]] f] v(1) by (simp only: prod.case simp_thms)
  ultimately show ?thesis using v(2-4) by (simp only: add_0_right simp_thms)
qed

text \<open>C35: the clean-up of detail budgets is exact.  On a map nobody else touches, with at most its maximum of
  entries, a sweep due at second \<open>sec\<close> removes exactly the keys older than two
  seconds and records the sweep; if a concurrent insertion exhausts the bound
  on \<open>NextKey\<close> calls, nothing is removed, no error is reported and the sweep stays due.\<close>
theorem prune_exact:
  assumes "distinct keys" and "length keys \<le> unat mx" and "end_ns div to_u64 Second \<noteq> ks_lastBudgetSweepSec s"
  defines "sec \<equiv> end_ns div to_u64 Second"
  shows "pruneDetailBudgets (Some (quiet_map mx keys)) end_ns s =
      ((None, filter (\<lambda>k. 2 < sec \<and> k < sec - 2) keys), s\<lparr>ks_lastBudgetSweepSec := sec\<rparr>)
    \<and> (\<forall>m. sweep_keys m sec (Suc (unat (bm_MaxEntries m))) None [] = Perturbed \<longrightarrow>
        pruneDetailBudgets (Some m) end_ns s = ((None, []), s))"
proof -
  have "sweep_keys (quiet_map mx keys) sec (Suc (unat mx)) None [] = Stale (filter (stale_key sec) keys)"
    using sweep_quiet_from [OF assms(1), of "[]" keys "Suc (unat mx)" None mx sec "[]"] assms(2) by simp
  moreover have "filter (stale_key sec) keys = filter (\<lambda>k. 2 < sec \<and> k < sec - 2) keys"
    by (rule filter_cong) (simp_all add: stale_key_def)
  moreover have "bm_MaxEntries (quiet_map mx keys) = mx" by (simp add: quiet_map_def)
  ultimately show ?thesis using assms(3)
    by (simp add: pruneDetailBudgets_def Let_def sec_def)
qed

lemma prune_exact_witness:
  "pruneDetailBudgets (Some (quiet_map 4 [1, 9, 7, 10])) 10000000000 ex_sensor
     = ((None, [1, 7]), ex_sensor\<lparr>ks_lastBudgetSweepSec := 10\<rparr>)"
proof -
  have s: "(10000000000 :: u64) div to_u64 Second = 10" "ks_lastBudgetSweepSec ex_sensor = 0"
    "filter (\<lambda>k. 2 < (10 :: u64) \<and> k < 10 - 2) [1, 9, 7, 10] = [1, 7 :: u64]" by code_simp+
  have k: "length [1, 9, 7, 10 :: u64] \<le> unat (4 :: u32)" "distinct [1, 9, 7, 10 :: u64]" by code_simp+
  have "(10000000000 :: u64) div to_u64 Second \<noteq> ks_lastBudgetSweepSec ex_sensor" using s by simp
  from prune_exact [OF k(2,1) this] show ?thesis unfolding s(1,3) by blast
qed


definition ex_faulty :: BudgetMap where
  "ex_faulty = (quiet_map 4 [])\<lparr>bm_NextKey := \<lambda>i c. Inl (External ''EPERM'')\<rparr>"


text \<open>which sensors run.  When opening succeeds, every sensor the code defines is either opened or
  reported once; those opened are distinct, enabled and well formed, at least
  one is; a sensor that is not enabled is \<open>disabled\<close>, an enabled one that failed is
  \<open>unavailable\<close>, and in strict mode none is unavailable.\<close>
theorem open_partition:
  assumes "openDefinitions ke c (definitions c) = Inr (ss, un)"
  shows "mset (map ks_name ss) + mset (map sh_Name un) = mset Families \<and> distinct (map ks_name ss) \<and> ss \<noteq> []
    \<and> (\<forall>s \<in> set ss. ks_name s \<in> set (cf_Enabled c) \<and> sensor_wf (ks_name s) s)
    \<and> (\<forall>h \<in> set un. sh_State h = (if sh_Name h \<in> set (cf_Enabled c) then ''unavailable'' else ''disabled'')
        \<and> (cf_Strict c \<longrightarrow> sh_Name h \<notin> set (cf_Enabled c)))"
proof -
  obtain o: "open_each ke c (definitions c) = (ss, un)" "ss \<noteq> []"
    "cf_Strict c \<Longrightarrow> find (\<lambda>h. sh_State h = ''unavailable'') un = None"
    using assms by (cases "open_each ke c (definitions c)")
      (auto simp: openDefinitions_def Let_def split: option.splits sum.splits if_splits)
  note p = open_each_partition [OF o(1)]
  have m: "mset (map ks_name ss) + mset (map sh_Name un) = mset Families"
    using p by (simp only: definitions_names)
  have "distinct Families" by (simp add: Families_def)
  then have "distinct (map ks_name ss @ map sh_Name un)"
    using m by (metis mset_append mset_eq_imp_distinct_iff)
  moreover have "sh_Name h \<notin> set (cf_Enabled c)" if "cf_Strict c" "h \<in> set un" for h
  proof
    assume "sh_Name h \<in> set (cf_Enabled c)"
    with p that(2) have "sh_State h = ''unavailable''" by simp
    with o(3) [OF that(1)] that(2) show False by (simp add: find_None_iff)
  qed
  ultimately show ?thesis using m p o(2) by simp
qed

definition ex_kernel :: "nat KernelEnv" where
  "ex_kernel = \<lparr>ke_Geteuid = 0, ke_Stat_vmlinux = None, ke_RemoveMemlock = None, ke_PossibleCPU = Inr 4,
     ke_LoadKernelSpec = None, ke_TypeByName = (\<lambda>n. Inr 0),
     ke_UnderlyingType = (\<lambda>t. if t = 0 then Pointer 1 else if t = 1 then FuncProto [2, 3, 3] else OtherType),
     ke_load = (\<lambda>n. Inr \<lparr>cs_Variables = [''detail_rate''], cs_Maps = []\<rparr>), ke_Set = (\<lambda>s n v. None),
     ke_NewCollection = (\<lambda>s c. None), ke_AttachRawTracepoint = (\<lambda>p h. None), ke_NewReader = (\<lambda>s. None),
     ke_Memlock = (\<lambda>s. [Some 4096])\<rparr>"

lemma open_partition_witness:
  "map ks_name (fst (projr (openDefinitions ex_kernel Default (definitions Default)))) = [''scheduler'', ''tcp'']
   \<and> distinct (map ks_name (fst (projr (openDefinitions ex_kernel Default (definitions Default)))))"
proof -
  let ?r = "openDefinitions ex_kernel Default (definitions Default)"
  have v: "isl ?r = False" "map ks_name (fst (projr ?r)) = [''scheduler'', ''tcp'']" by code_simp+
  then have "?r = Inr (fst (projr ?r), snd (projr ?r))" by (cases ?r) auto
  from open_partition [OF this] v(2) show ?thesis by blast
qed

end
