(* ===== verification/Process.thy ===== *)
theory Process
  imports Model GoText
begin

text \<open>
  Process metadata (\<open>internal/process/metadata.go\<close>): the cgroup path of the
  process of an event, read from \<open>/proc\<close> and kept in a bounded cache.

  The cache is a Go map from identities to elements of a linked list; an element
  is a handle, so that \<open>MoveToFront\<close> and \<open>Remove\<close> act on the element the map
  names.  The files are a parameter: \<open>read n path\<close> is the result of the \<open>n\<close>-th
  \<open>os.ReadFile\<close> of a call, so that a file may change between two reads.
\<close>

section \<open>State\<close>

definition procStartTickNS :: u64 where "procStartTickNS = 10000000"

record identity =
  id_pid :: u32
  id_start :: u64
  id_cgroup :: u64

record entry =
  en_key :: identity
  en_path :: string

record Resolver =
  rv_root :: string
  rv_limit :: int
  rv_pathLimit :: int
  rv_items :: "identity \<Rightarrow> nat option"
  rv_lru :: "(nat \<times> entry) list"
  rv_fresh :: nat
  rv_Failures :: u64

definition NewWithPathLimit :: "string \<Rightarrow> int \<Rightarrow> int \<Rightarrow> Resolver" where
  "NewWithPathLimit root limit pathLimit =
     \<lparr>rv_root = root, rv_limit = limit, rv_pathLimit = pathLimit, rv_items = (\<lambda>_. None), rv_lru = [],
      rv_fresh = 0, rv_Failures = 0\<rparr>"

section \<open>Reading \<open>/proc\<close>\<close>

type_synonym files = "nat \<Rightarrow> string \<Rightarrow> go_error + string"

definition is_space :: "char \<Rightarrow> bool" where
  "is_space c \<longleftrightarrow> of_char c \<in> {9, 10, 11, 12, 13, 32 :: nat}"

text \<open>\<open>strings.Fields\<close> on ASCII text.\<close>

function Fields :: "string \<Rightarrow> string list" where
  "Fields s =
     (let t = dropWhile is_space s
      in if t = [] then [] else takeWhile (\<lambda>c. \<not> is_space c) t # Fields (dropWhile (\<lambda>c. \<not> is_space c) t))"
  by pat_completeness auto

lemma dropWhile_shorter: "t \<noteq> [] \<Longrightarrow> P (hd t) \<Longrightarrow> length (dropWhile P t) < length t"
  by (cases t) (auto simp: length_dropWhile_le le_imp_less_Suc)

termination Fields
proof (relation "measure length")
  fix s t :: string
  assume t: "t = dropWhile is_space s" "t \<noteq> []"
  then have "\<not> is_space (hd t)" using hd_dropWhile [of is_space s] by simp
  then have "length (dropWhile (\<lambda>c. \<not> is_space c) t) < length t" by (intro dropWhile_shorter t(2))
  also have "length t \<le> length s" unfolding t(1) by (rule length_dropWhile_le)
  finally show "(dropWhile (\<lambda>c. \<not> is_space c) t, s) \<in> measure length" by simp
qed simp

declare Fields.simps [simp del]

text \<open>\<open>strconv.ParseUint(s, 10, 64)\<close>.\<close>

definition ParseUint :: "string \<Rightarrow> u64 option" where
  "ParseUint s =
     (if s = [] then None
      else case digits_value 0 s of None \<Rightarrow> None | Some n \<Rightarrow> if int n < 2 ^ 64 then Some (of_nat n) else None)"

text \<open>What follows the last closing parenthesis, if there is one.\<close>

definition after_last_paren :: "string \<Rightarrow> string option" where
  "after_last_paren b =
     (if CHR '')'' \<in> set b then Some (rev (takeWhile (\<lambda>c. c \<noteq> CHR '')'') (rev b))) else None)"

definition parse_start :: "string \<Rightarrow> go_error + u64" where
  "parse_start b =
     (case after_last_paren b of
        None \<Rightarrow> Inl (Errorf ''invalid proc stat'')
      | Some rest \<Rightarrow>
          let f = Fields rest
          in if length f < 20 then Inl (Errorf ''short proc stat'')
             else (case ParseUint (f ! 19) of
                     None \<Rightarrow> Inl (External (''strconv.ParseUint: parsing '' @ Quote (f ! 19))) | Some n \<Rightarrow> Inr n))"

definition readStart :: "files \<Rightarrow> nat \<Rightarrow> string \<Rightarrow> go_error + u64" where
  "readStart read n dir = (case read n (dir @ ''/stat'') of Inl e \<Rightarrow> Inl e | Inr b \<Rightarrow> parse_start b)"

fun split_lines :: "string \<Rightarrow> string \<Rightarrow> string list" where
  "split_lines acc [] = [rev acc]"
| "split_lines acc (c # cs) = (if c = CHR 0x0A then rev acc # split_lines [] cs else split_lines (c # acc) cs)"

fun unified_path :: "int \<Rightarrow> string list \<Rightarrow> go_error + string" where
  "unified_path limit [] = Inr []"
| "unified_path limit (l # ls) =
     (if HasPrefix l ''0::'' then
        let path = TrimPrefix l ''0::''
        in if limit < int (length path) then Inl (Errorf ''cgroup path exceeds metadata limit'') else Inr path
      else unified_path limit ls)"

definition resolve :: "files \<Rightarrow> string \<Rightarrow> int \<Rightarrow> identity \<Rightarrow> go_error + string" where
  "resolve read root limit k =
     (let dir = root @ ''/'' @ show_u32 (id_pid k)
      in case readStart read 0 dir of
           Inl e \<Rightarrow> Inl e
         | Inr before \<Rightarrow>
             if before \<noteq> id_start k div procStartTickNS then
               Inl (Errorf ''process identity changed before enrichment'')
             else
               (case read 1 (dir @ ''/cgroup'') of
                  Inl e \<Rightarrow> Inl e
                | Inr b \<Rightarrow>
                    if readStart read 2 dir \<noteq> Inr before then
                      Inl (Errorf ''process exited or identity changed during enrichment'')
                    else unified_path limit (split_lines [] b)))"

section \<open>The cache\<close>

definition MoveToFront :: "nat \<Rightarrow> (nat \<times> entry) list \<Rightarrow> (nat \<times> entry) list" where
  "MoveToFront el xs = filter (\<lambda>x. fst x = el) xs @ filter (\<lambda>x. fst x \<noteq> el) xs"

text \<open>The loop that evicts the last element while the list is over its limit.\<close>

function evict :: "Resolver \<Rightarrow> Resolver" where
  "evict r =
     (if rv_limit r < int (length (rv_lru r)) \<and> rv_lru r \<noteq> [] then
        evict (r\<lparr>rv_items := (rv_items r)(en_key (snd (last (rv_lru r))) := None),
                 rv_lru := butlast (rv_lru r)\<rparr>)
      else r)"
  by pat_completeness auto

termination evict by (relation "measure (\<lambda>r. length (rv_lru r))") auto

declare evict.simps [simp del]

definition Enrich :: "files \<Rightarrow> Event \<Rightarrow> Resolver \<Rightarrow> Event \<times> Resolver" where
  "Enrich read e r =
     (if ev_TGID e = 0 \<or> ev_ProcessStartNS e = 0 then (e, r)
      else
        let key = \<lparr>id_pid = ev_TGID e, id_start = ev_ProcessStartNS e, id_cgroup = ev_CgroupID e\<rparr>
        in case rv_items r key of
             Some el \<Rightarrow>
               (e\<lparr>ev_CgroupPath := (case map_of (rv_lru r) el of Some x \<Rightarrow> en_path x | None \<Rightarrow> [])\<rparr>,
                r\<lparr>rv_lru := MoveToFront el (rv_lru r)\<rparr>)
           | None \<Rightarrow>
               let res = resolve read (rv_root r) (rv_pathLimit r) key;
                   path = (case res of Inr p \<Rightarrow> p | Inl _ \<Rightarrow> []);
                   r1 = (if isl res then r\<lparr>rv_Failures := rv_Failures r + 1\<rparr> else r);
                   r2 = r1\<lparr>rv_lru := (rv_fresh r1, \<lparr>en_key = key, en_path = path\<rparr>) # rv_lru r1,
                           rv_items := (rv_items r1)(key := Some (rv_fresh r1)), rv_fresh := rv_fresh r1 + 1\<rparr>
               in (e\<lparr>ev_CgroupPath := path\<rparr>, evict r2))"

section \<open>The cache invariant\<close>

text \<open>The map names exactly the elements of the list, one for each identity, and all handles are distinct.\<close>

definition cache_inv :: "Resolver \<Rightarrow> bool" where
  "cache_inv r \<longleftrightarrow> distinct (map fst (rv_lru r)) \<and> (\<forall>x \<in> set (rv_lru r). fst x < rv_fresh r)
     \<and> distinct (map (\<lambda>x. en_key (snd x)) (rv_lru r))
     \<and> (\<forall>k el. rv_items r k = Some el \<longleftrightarrow> (\<exists>x. (el, x) \<in> set (rv_lru r) \<and> en_key x = k))"

text \<open>The abstract cache: identities and paths, the last used first.\<close>

definition abs_cache :: "Resolver \<Rightarrow> (identity \<times> string) list" where
  "abs_cache r = map (\<lambda>x. (en_key (snd x), en_path (snd x))) (rv_lru r)"

definition lru_lookup :: "int \<Rightarrow> (identity \<Rightarrow> string) \<Rightarrow> identity \<Rightarrow> (identity \<times> string) list
    \<Rightarrow> string \<times> (identity \<times> string) list" where
  "lru_lookup limit f k c =
     (case map_of c k of
        Some p \<Rightarrow> (p, (k, p) # filter (\<lambda>x. fst x \<noteq> k) c)
      | None \<Rightarrow> (f k, take (nat limit) ((k, f k) # c)))"

lemma cache_inv_New [simp]: "cache_inv (NewWithPathLimit root limit pathLimit)"
  by (simp add: cache_inv_def NewWithPathLimit_def)

lemma map_of_inv:
  assumes "cache_inv r" and "(el, x) \<in> set (rv_lru r)" shows "map_of (rv_lru r) el = Some x"
  using assms by (simp add: cache_inv_def map_of_is_SomeI)

lemma butlast_inv:
  assumes "cache_inv r" and "rv_lru r \<noteq> []"
  shows "cache_inv (r\<lparr>rv_items := (rv_items r)(en_key (snd (last (rv_lru r))) := None), rv_lru := butlast (rv_lru r)\<rparr>)"
proof -
  obtain xs el x where e: "rv_lru r = xs @ [(el, x)]"
    using assms(2) by (metis append_butlast_last_id surj_pair)
  have n: "en_key y \<noteq> en_key x" if "(i, y) \<in> set xs" for i y
  proof -
    have "en_key x \<notin> (\<lambda>x. en_key (snd x)) ` set xs" using assms(1) by (simp add: cache_inv_def e)
    moreover have "en_key y \<in> (\<lambda>x. en_key (snd x)) ` set xs"
      using imageI [OF that, of "\<lambda>x. en_key (snd x)"] by simp
    ultimately show ?thesis by metis
  qed
  show ?thesis using assms(1) e n unfolding cache_inv_def by auto
qed

lemma evict_keeps:
  "cache_inv r \<Longrightarrow> 0 \<le> rv_limit r \<Longrightarrow>
   cache_inv (evict r) \<and> rv_lru (evict r) = take (nat (rv_limit r)) (rv_lru r) \<and> rv_limit (evict r) = rv_limit r
   \<and> rv_root (evict r) = rv_root r \<and> rv_pathLimit (evict r) = rv_pathLimit r \<and> rv_Failures (evict r) = rv_Failures r"
proof (induction r rule: evict.induct)
  case (1 r)
  show ?case
  proof (cases "rv_limit r < int (length (rv_lru r)) \<and> rv_lru r \<noteq> []")
    case True
    let ?r = "r\<lparr>rv_items := (rv_items r)(en_key (snd (last (rv_lru r))) := None), rv_lru := butlast (rv_lru r)\<rparr>"
    have step: "evict r = evict ?r" using True by (subst evict.simps) simp
    have "nat (rv_limit r) < length (rv_lru r)" using True "1.prems"(2) by linarith
    then have "take (nat (rv_limit r)) (butlast (rv_lru r)) = take (nat (rv_limit r)) (rv_lru r)"
      by (rule take_butlast)
    with "1.IH" [OF True butlast_inv [OF "1.prems"(1)]] "1.prems"(2) True show ?thesis unfolding step by simp
  next
    case False
    then have "evict r = r" by (subst evict.simps) auto
    with False "1.prems" show ?thesis by auto
  qed
qed

lemma front_inv:
  assumes "cache_inv r" and "(el, x) \<in> set (rv_lru r)"
  shows "cache_inv (r\<lparr>rv_lru := MoveToFront el (rv_lru r)\<rparr>)"
    and "MoveToFront el (rv_lru r) = (el, x) # filter (\<lambda>y. en_key (snd y) \<noteq> en_key x) (rv_lru r)"
proof -
  have d: "distinct (map fst (rv_lru r))" "distinct (map (\<lambda>x. en_key (snd x)) (rv_lru r))"
    using assms(1) by (auto simp: cache_inv_def)
  obtain as bs where e: "rv_lru r = as @ (el, x) # bs" using assms(2) by (meson split_list)
  have el: "\<forall>y \<in> set as \<union> set bs. fst y \<noteq> el" "\<forall>y \<in> set as \<union> set bs. en_key (snd y) \<noteq> en_key x"
    using d unfolding e by (auto simp: image_iff)
  have "filter (\<lambda>y. fst y = el) (rv_lru r) = [(el, x)]" "filter (\<lambda>y. fst y \<noteq> el) (rv_lru r) = as @ bs"
    "filter (\<lambda>y. en_key (snd y) \<noteq> en_key x) (rv_lru r) = as @ bs"
    using el by (simp_all add: e filter_empty_conv)
  note f = this
  show m: "MoveToFront el (rv_lru r) = (el, x) # filter (\<lambda>y. en_key (snd y) \<noteq> en_key x) (rv_lru r)"
    unfolding MoveToFront_def f by simp
  show "cache_inv (r\<lparr>rv_lru := MoveToFront el (rv_lru r)\<rparr>)"
  proof -
    have "MoveToFront el (rv_lru r) = (el, x) # as @ bs" unfolding MoveToFront_def f by simp
    then show ?thesis using assms(1) unfolding cache_inv_def by (auto simp: e)
  qed
qed

lemma abs_lookup:
  assumes "cache_inv r"
  shows "map_of (abs_cache r) k = (case rv_items r k of None \<Rightarrow> None | Some el \<Rightarrow> map_option en_path (map_of (rv_lru r) el))"
proof (cases "rv_items r k")
  case None
  then have "\<forall>y \<in> set (rv_lru r). en_key (snd y) \<noteq> k"
    using assms unfolding cache_inv_def by (metis option.distinct(1) prod.collapse)
  then have "k \<notin> fst ` set (abs_cache r)" by (auto simp: abs_cache_def)
  with None show ?thesis by (simp add: map_of_eq_None_iff)
next
  case (Some el)
  then obtain x where x: "(el, x) \<in> set (rv_lru r)" "en_key x = k" using assms by (auto simp: cache_inv_def)
  have "distinct (map fst (abs_cache r))" using assms by (simp add: abs_cache_def cache_inv_def comp_def)
  moreover have "(k, en_path x) \<in> set (abs_cache r)" 
    using imageI [OF x(1), of "\<lambda>x. (en_key (snd x), en_path (snd x))"] x(2) by (simp add: abs_cache_def)
  ultimately have "map_of (abs_cache r) k = Some (en_path x)" by (rule map_of_is_SomeI)
  with Some map_of_inv [OF assms x(1)] show ?thesis by simp
qed

definition event_identity :: "Event \<Rightarrow> identity" where
  "event_identity e = \<lparr>id_pid = ev_TGID e, id_start = ev_ProcessStartNS e, id_cgroup = ev_CgroupID e\<rparr>"

definition path_of :: "go_error + string \<Rightarrow> string" where
  "path_of res = (case res of Inr p \<Rightarrow> p | Inl _ \<Rightarrow> [])"

text \<open>A lookup is a lookup of the abstract cache; a failure is counted exactly on a miss that fails.\<close>

lemma Enrich_simulates:
  assumes inv: "cache_inv r" and lim: "0 < rv_limit r" and id: "ev_TGID e \<noteq> 0" "ev_ProcessStartNS e \<noteq> 0"
    and run: "Enrich read e r = (e', r')"
  defines "k \<equiv> event_identity e"
  shows "lru_lookup (rv_limit r) (\<lambda>k. path_of (resolve read (rv_root r) (rv_pathLimit r) k)) k (abs_cache r)
      = (ev_CgroupPath e', abs_cache r')"
    and "cache_inv r'" and "rv_limit r' = rv_limit r \<and> rv_root r' = rv_root r \<and> rv_pathLimit r' = rv_pathLimit r"
    and "e' = e\<lparr>ev_CgroupPath := ev_CgroupPath e'\<rparr>"
    and "rv_Failures r' = rv_Failures r
      + (if map_of (abs_cache r) k = None \<and> isl (resolve read (rv_root r) (rv_pathLimit r) k) then 1 else 0)"
proof -
  have all: "lru_lookup (rv_limit r) (\<lambda>k. path_of (resolve read (rv_root r) (rv_pathLimit r) k)) k (abs_cache r)
      = (ev_CgroupPath e', abs_cache r') \<and> cache_inv r'
      \<and> (rv_limit r' = rv_limit r \<and> rv_root r' = rv_root r \<and> rv_pathLimit r' = rv_pathLimit r)
      \<and> e' = e\<lparr>ev_CgroupPath := ev_CgroupPath e'\<rparr>
      \<and> rv_Failures r' = rv_Failures r
        + (if map_of (abs_cache r) k = None \<and> isl (resolve read (rv_root r) (rv_pathLimit r) k) then 1 else 0)"
  proof (cases "rv_items r k")
    case (Some el)
    then obtain x where x: "(el, x) \<in> set (rv_lru r)" "en_key x = k" using inv by (auto simp: cache_inv_def)
    note f = front_inv [OF inv x(1)] and mo = map_of_inv [OF inv x(1)]
    have r': "e' = e\<lparr>ev_CgroupPath := en_path x\<rparr>" "r' = r\<lparr>rv_lru := MoveToFront el (rv_lru r)\<rparr>"
      using run id Some mo by (auto simp: Enrich_def k_def event_identity_def)
    have "map_of (abs_cache r) k = Some (en_path x)" using abs_lookup [OF inv, of k] Some mo by simp
    moreover have "abs_cache r' = (k, en_path x) # filter (\<lambda>y. fst y \<noteq> k) (abs_cache r)"
      unfolding r' abs_cache_def using f(2) x(2) by (simp add: filter_map comp_def)
    ultimately show ?thesis using f(1) r' by (simp add: lru_lookup_def)
  next
    case None
    define res where "res = resolve read (rv_root r) (rv_pathLimit r) k"
    let ?r1 = "if isl res then r\<lparr>rv_Failures := rv_Failures r + 1\<rparr> else r"
    let ?r2 = "?r1\<lparr>rv_lru := (rv_fresh ?r1, \<lparr>en_key = k, en_path = path_of res\<rparr>) # rv_lru ?r1,
        rv_items := (rv_items ?r1)(k := Some (rv_fresh ?r1)), rv_fresh := rv_fresh ?r1 + 1\<rparr>"
    have r': "e' = e\<lparr>ev_CgroupPath := path_of res\<rparr>" "r' = evict ?r2"
      using run id None by (simp_all add: Enrich_def k_def event_identity_def res_def path_of_def Let_def)
    have new: "\<forall>y \<in> set (rv_lru r). en_key (snd y) \<noteq> k"
      using inv None unfolding cache_inv_def by (metis option.distinct(1) prod.collapse)
    then have inv2: "cache_inv ?r2" using inv by (auto simp: cache_inv_def)
    have "0 \<le> rv_limit ?r2" using lim by simp
    note ev = evict_keeps [OF inv2 this]
    have "map_of (abs_cache r) k = None" using abs_lookup [OF inv, of k] None by simp
    moreover have "abs_cache r' = take (nat (rv_limit r)) ((k, path_of res) # abs_cache r)"
      unfolding r' abs_cache_def using ev by (simp add: take_map [symmetric])
    ultimately show ?thesis using ev r' by (simp add: lru_lookup_def res_def)
  qed
  show "lru_lookup (rv_limit r) (\<lambda>k. path_of (resolve read (rv_root r) (rv_pathLimit r) k)) k (abs_cache r)
      = (ev_CgroupPath e', abs_cache r')"
    and "cache_inv r'" and "rv_limit r' = rv_limit r \<and> rv_root r' = rv_root r \<and> rv_pathLimit r' = rv_pathLimit r"
    and "e' = e\<lparr>ev_CgroupPath := ev_CgroupPath e'\<rparr>"
    and "rv_Failures r' = rv_Failures r
      + (if map_of (abs_cache r) k = None \<and> isl (resolve read (rv_root r) (rv_pathLimit r) k) then 1 else 0)"
    using all by blast+
qed

section \<open>Histories\<close>

text \<open>The resolver over a sequence of events, each with the files at its time.\<close>

fun enrich_all :: "(files \<times> Event) list \<Rightarrow> Resolver \<Rightarrow> Event list \<times> Resolver" where
  "enrich_all [] r = ([], r)"
| "enrich_all ((read, e) # xs) r =
     (let (e', r') = Enrich read e r; (es, r'') = enrich_all xs r' in (e' # es, r''))"

text \<open>A path that was read for the identity at one of the times.\<close>

definition was_read :: "string \<Rightarrow> int \<Rightarrow> files list \<Rightarrow> identity \<Rightarrow> string \<Rightarrow> bool" where
  "was_read root limit reads k p \<longleftrightarrow> (\<exists>read \<in> set reads. p = path_of (resolve read root limit k))"

definition known :: "string \<Rightarrow> int \<Rightarrow> int \<Rightarrow> files list \<Rightarrow> Resolver \<Rightarrow> bool" where
  "known root limit pathLimit reads r \<longleftrightarrow> cache_inv r \<and> rv_root r = root \<and> rv_limit r = limit
     \<and> rv_pathLimit r = pathLimit \<and> length (rv_lru r) \<le> nat limit
     \<and> (\<forall>(k, p) \<in> set (abs_cache r). was_read root pathLimit reads k p)"

lemma lru_lookup_known:
  assumes "lru_lookup limit f k c = (p, c')" and "0 < limit" and "length c \<le> nat limit" and "distinct (map fst c)"
  shows "length c' \<le> nat limit" and "\<forall>x \<in> set c'. x \<in> set c \<or> x = (k, f k)" and "(k, p) \<in> set c \<or> p = f k"
proof -
  have hit: "length ((k, q) # filter (\<lambda>x. fst x \<noteq> k) c) \<le> length c" if "map_of c k = Some q" for q
  proof -
    have "(k, q) \<in> set c" using that by (rule map_of_SomeD)
    then have "length (filter (\<lambda>x. fst x \<noteq> k) c) < length c" by (intro length_filter_less) auto
    then show ?thesis by simp
  qed
  show "length c' \<le> nat limit"
  proof (cases "map_of c k")
    case (Some q)
    with assms(1) have "c' = (k, q) # filter (\<lambda>x. fst x \<noteq> k) c" by (auto simp: lru_lookup_def)
    then show ?thesis using hit [OF Some] assms(3) by (simp only: order.trans)
  qed (use assms(1) in \<open>auto simp: lru_lookup_def\<close>)
  show "\<forall>x \<in> set c'. x \<in> set c \<or> x = (k, f k)" and "(k, p) \<in> set c \<or> p = f k"
    using assms(1)
    by (auto simp: lru_lookup_def split: option.splits dest: map_of_SomeD in_set_takeD)
qed

lemma Enrich_known:
  assumes "known root limit pathLimit reads r" and "0 < limit" and "Enrich read e r = (e', r')"
  shows "known root limit pathLimit (reads @ [read]) r'"
    and "ev_TGID e \<noteq> 0 \<Longrightarrow> ev_ProcessStartNS e \<noteq> 0 \<Longrightarrow>
      was_read root pathLimit (reads @ [read]) (event_identity e) (ev_CgroupPath e')"
proof -
  have more: "was_read root pathLimit (reads @ [read]) k p" if "was_read root pathLimit reads k p" for k p
    using that by (auto simp: was_read_def)
  have step: "known root limit pathLimit (reads @ [read]) r' \<and> (ev_TGID e \<noteq> 0 \<longrightarrow> ev_ProcessStartNS e \<noteq> 0 \<longrightarrow>
      was_read root pathLimit (reads @ [read]) (event_identity e) (ev_CgroupPath e'))"
  proof (cases "ev_TGID e = 0 \<or> ev_ProcessStartNS e = 0")
    case True
    with assms have "r' = r" by (auto simp: Enrich_def)
    with assms(1) True more show ?thesis by (auto simp: known_def)
  next
    case False
    then have id: "ev_TGID e \<noteq> 0" "ev_ProcessStartNS e \<noteq> 0" by auto
    have inv: "cache_inv r" "0 < rv_limit r" using assms(1,2) by (auto simp: known_def)
    note s = Enrich_simulates [OF inv id assms(3)]
    let ?f = "\<lambda>k. path_of (resolve read (rv_root r) (rv_pathLimit r) k)"
    have c: "length (abs_cache r) \<le> nat (rv_limit r)" "distinct (map fst (abs_cache r))"
      using assms(1) by (auto simp: known_def abs_cache_def cache_inv_def comp_def)
    note l = lru_lookup_known [OF s(1) inv(2) c]
    have new: "was_read root pathLimit (reads @ [read]) k (?f k)" for k
      using assms(1) by (auto simp: was_read_def known_def)
    have old: "was_read root pathLimit (reads @ [read]) k p" if "(k, p) \<in> set (abs_cache r)" for k p
      using assms(1) that more by (auto simp: known_def)
    have "length (rv_lru r') \<le> nat limit" using l(1) assms(1) by (simp add: known_def abs_cache_def)
    moreover have "\<forall>(k, p) \<in> set (abs_cache r'). was_read root pathLimit (reads @ [read]) k p"
      using l(2) new old by blast
    moreover have "was_read root pathLimit (reads @ [read]) (event_identity e) (ev_CgroupPath e')"
      using l(3) new old by metis
    ultimately show ?thesis using s(2,3) assms(1) by (auto simp: known_def)
  qed
  then show "known root limit pathLimit (reads @ [read]) r'"
    and "ev_TGID e \<noteq> 0 \<Longrightarrow> ev_ProcessStartNS e \<noteq> 0 \<Longrightarrow>
      was_read root pathLimit (reads @ [read]) (event_identity e) (ev_CgroupPath e')" by blast+
qed

lemma enrich_all_known:
  "known root limit pathLimit reads r \<Longrightarrow> 0 < limit \<Longrightarrow> enrich_all xs r = (es, r') \<Longrightarrow>
   known root limit pathLimit (reads @ map fst xs) r'
   \<and> list_all2 (\<lambda>e' x. ev_TGID (snd x) \<noteq> 0 \<longrightarrow> ev_ProcessStartNS (snd x) \<noteq> 0 \<longrightarrow>
       was_read root pathLimit (reads @ map fst xs) (event_identity (snd x)) (ev_CgroupPath e')) es xs"
proof (induction xs arbitrary: reads r es)
  case (Cons x xs)
  obtain read e where x: "x = (read, e)" by fastforce
  obtain e' r1 where en: "Enrich read e r = (e', r1)" by fastforce
  obtain es1 where rest: "enrich_all xs r1 = (es1, r')" "es = e' # es1"
    using Cons.prems(3) x en by (auto split: prod.splits)
  note k = Enrich_known [OF Cons.prems(1,2) en]
  have mono: "was_read root pathLimit (reads @ map fst (x # xs)) i p" if "was_read root pathLimit (reads @ [read]) i p" for i p
    using that x by (auto simp: was_read_def)
  from Cons.IH [OF k(1) Cons.prems(2) rest(1)] k(2) mono show ?case by (simp add: x rest(2))
qed simp

lemma HasPrefix_split: "HasPrefix s p \<Longrightarrow> s = p @ TrimPrefix s p"
  by (metis HasPrefix_def TrimPrefix_def append_take_drop_id)

section \<open>Properties\<close>

text \<open>C30: the cache is a least-recently-used cache.  A lookup with an identity answers and changes the state as the
  abstract cache does (identities with their paths, the last used first, cut at
  the limit), whatever the list elements and the map look like inside; a failure
  is counted exactly when the identity was not cached and resolving it failed.\<close>
theorem enrich_refines_lru:
  assumes "cache_inv r" and "0 < rv_limit r" and "ev_TGID e \<noteq> 0" and "ev_ProcessStartNS e \<noteq> 0"
    and "Enrich read e r = (e', r')"
  shows "cache_inv r'
    \<and> lru_lookup (rv_limit r) (\<lambda>k. path_of (resolve read (rv_root r) (rv_pathLimit r) k)) (event_identity e) (abs_cache r)
        = (ev_CgroupPath e', abs_cache r')
    \<and> rv_Failures r' = rv_Failures r
        + (if map_of (abs_cache r) (event_identity e) = None
              \<and> isl (resolve read (rv_root r) (rv_pathLimit r) (event_identity e)) then 1 else 0)"
  using Enrich_simulates [OF assms] by blast

definition ex_stat :: string where
  "ex_stat = ''7 (a) b) S 1 1 1 0 1 1 0 0 0 0 0 0 0 0 20 0 1 0 42 0''"

definition ex_files :: files where
  "ex_files n path = (if path = ''/proc/7/stat'' then Inr ex_stat
     else if path = ''/proc/7/cgroup'' then Inr (''1:cpu:/x'' @ [CHR 0x0A] @ ''0::/unit'') else Inl NotExist)"

definition ex_process :: "u32 \<Rightarrow> Event" where
  "ex_process pid = zero_Event\<lparr>ev_TGID := pid, ev_ProcessStartNS := 420000000, ev_CgroupID := 5\<rparr>"

definition ex_resolver :: Resolver where
  "ex_resolver = NewWithPathLimit ''/proc'' 2 64"

lemma enrich_refines_lru_witness:
  "ev_CgroupPath (fst (Enrich ex_files (ex_process 7) ex_resolver)) = ''/unit''
   \<and> abs_cache (snd (Enrich ex_files (ex_process 7) ex_resolver)) = [(event_identity (ex_process 7), ''/unit'')]"
proof -
  let ?r = "Enrich ex_files (ex_process 7) ex_resolver"
  have i: "cache_inv ex_resolver" by (simp add: ex_resolver_def)
  have v: "0 < rv_limit ex_resolver" "ev_TGID (ex_process 7) \<noteq> 0" "ev_ProcessStartNS (ex_process 7) \<noteq> 0"
    "lru_lookup (rv_limit ex_resolver) (\<lambda>k. path_of (resolve ex_files (rv_root ex_resolver) (rv_pathLimit ex_resolver) k))
       (event_identity (ex_process 7)) (abs_cache ex_resolver)
     = (''/unit'', [(event_identity (ex_process 7), ''/unit'')])" by code_simp+
  from enrich_refines_lru [OF i v(1-3) prod.collapse [symmetric], of ex_files, unfolded v(4) prod.inject]
  show ?thesis by (elim conjE) (rule conjI; rule sym)
qed



text \<open>a path is read under a verified identity.  When \<open>resolve\<close> succeeds, the start time of the process
  before and after reading the cgroup file is the one of the event, and the path is empty or
  what follows \<open>0::\<close> on a line of that file, within the limit.\<close>
theorem resolve_verified:
  assumes "resolve read root limit k = Inr p"
  shows "\<exists>b. readStart read 0 (root @ ''/'' @ show_u32 (id_pid k)) = Inr (id_start k div procStartTickNS)
    \<and> read 1 (root @ ''/'' @ show_u32 (id_pid k) @ ''/cgroup'') = Inr b
    \<and> readStart read 2 (root @ ''/'' @ show_u32 (id_pid k)) = Inr (id_start k div procStartTickNS)
    \<and> (p = [] \<or> (''0::'' @ p \<in> set (split_lines [] b) \<and> int (length p) \<le> limit))"
proof -
  have path: "p = [] \<or> (''0::'' @ p \<in> set ls \<and> int (length p) \<le> limit)" if "unified_path limit ls = Inr p" for ls
    using that
  proof (induction limit ls rule: unified_path.induct)
    case (2 limit l ls)
    show ?case
    proof (cases "HasPrefix l ''0::''")
      case True
      have l: "l = ''0::'' @ TrimPrefix l ''0::''" by (rule HasPrefix_split [OF True])
      have "p = TrimPrefix l ''0::''" "int (length p) \<le> limit"
        using True "2.prems" by (simp_all add: Let_def split: if_splits)
      with l show ?thesis by (metis list.set_intros(1))
    next
      case False
      with 2 show ?thesis by auto
    qed
  qed simp
  show ?thesis using assms by (auto simp: resolve_def Let_def split: sum.splits if_splits dest!: path)
qed

lemma resolve_verified_witness:
  "\<exists>b. ex_files 1 ''/proc/7/cgroup'' = Inr b \<and> ''0::/unit'' \<in> set (split_lines [] b)"
proof -
  have r: "resolve ex_files ''/proc'' 64 (event_identity (ex_process 7)) = Inr ''/unit''"
    "''/proc'' @ ''/'' @ show_u32 (id_pid (event_identity (ex_process 7))) @ ''/cgroup'' = ''/proc/7/cgroup''"
    by code_simp+
  from resolve_verified [OF r(1), unfolded r(2)] obtain b where "ex_files 1 ''/proc/7/cgroup'' = Inr b"
    "''/unit'' = [] \<or> (''0::'' @ ''/unit'' \<in> set (split_lines [] b) \<and> int (length ''/unit'') \<le> 64)"
    by (elim exE conjE) (rule that)
  moreover have "''0::'' @ ''/unit'' = ''0::/unit''" "''/unit'' \<noteq> []" by simp_all
  ultimately show ?thesis by metis
qed

end
