(* ===== verification/Correlation.thy ===== *)
theory Correlation
  imports Model
begin

text \<open>
  The coincidence rule of the analyzer (\<open>internal/analyzer/correlation.go\<close>): one
  pass over the timeline with two indexes of the last second, one for block I/O
  and one for all other events.  A Go map is a function to \<open>option\<close>; \<open>-1\<close> is
  \<open>None\<close>.  The pass is proved equal to a direct search over all pairs.
\<close>

definition coincidenceWindow :: u64 where "coincidenceWindow = to_u64 Second"

record correlationIndex =
  ci_process :: "u32 \<times> u64 \<Rightarrow> nat option"
  ci_cgroup :: "u64 \<Rightarrow> nat option"

definition newCorrelationIndex :: correlationIndex where
  "newCorrelationIndex = \<lparr>ci_process = (\<lambda>_. None), ci_cgroup = (\<lambda>_. None)\<rparr>"

definition has_process :: "Event \<Rightarrow> bool" where
  "has_process e \<longleftrightarrow> ev_TGID e \<noteq> 0 \<and> ev_ProcessStartNS e \<noteq> 0"

definition has_cgroup :: "Event \<Rightarrow> bool" where
  "has_cgroup e \<longleftrightarrow> 1 < ev_CgroupID e"

definition process_key :: "Event \<Rightarrow> u32 \<times> u64" where
  "process_key e = (ev_TGID e, ev_ProcessStartNS e)"

text \<open>The smaller of two matches.\<close>

fun earlier :: "nat option \<Rightarrow> nat option \<Rightarrow> nat option" where
  "earlier None b = b"
| "earlier (Some i) None = Some i"
| "earlier (Some i) (Some j) = Some (if j < i then j else i)"

definition index_match :: "correlationIndex \<Rightarrow> Event \<Rightarrow> nat option" where
  "index_match ix e =
     earlier (if has_process e then ci_process ix (process_key e) else None)
       (if has_cgroup e then ci_cgroup ix (ev_CgroupID e) else None)"

definition index_add :: "correlationIndex \<Rightarrow> Event \<Rightarrow> nat \<Rightarrow> bool \<times> correlationIndex" where
  "index_add ix e i =
     (let ix1 = (if has_process e then ix\<lparr>ci_process := (ci_process ix)(process_key e := Some i)\<rparr> else ix);
          ix2 = (if has_cgroup e then ix1\<lparr>ci_cgroup := (ci_cgroup ix1)(ev_CgroupID e := Some i)\<rparr> else ix1)
      in (has_process e \<or> has_cgroup e, ix2))"

definition index_remove :: "correlationIndex \<Rightarrow> Event \<Rightarrow> nat \<Rightarrow> correlationIndex" where
  "index_remove ix e i =
     (let ix1 = (if has_process e \<and> ci_process ix (process_key e) = Some i
                 then ix\<lparr>ci_process := (ci_process ix)(process_key e := None)\<rparr> else ix)
      in if has_cgroup e \<and> ci_cgroup ix1 (ev_CgroupID e) = Some i
         then ix1\<lparr>ci_cgroup := (ci_cgroup ix1)(ev_CgroupID e := None)\<rparr> else ix1)"

text \<open>
  The state of the pass: \<open>active\<close> holds the indexed positions in order, those before \<open>head\<close>
  are expired.
\<close>

record scan_state =
  sc_blocks :: correlationIndex
  sc_others :: correlationIndex
  sc_active :: "nat list"
  sc_head :: nat

definition is_block :: "Event \<Rightarrow> bool" where
  "is_block e \<longleftrightarrow> ev_Type e = ''block_io''"

function expire_heads :: "Event list \<Rightarrow> Event \<Rightarrow> scan_state \<Rightarrow> scan_state" where
  "expire_heads tm e st =
     (if sc_head st < length (sc_active st)
         \<and> coincidenceWindow < ev_MonoNS e - ev_MonoNS (tm ! (sc_active st ! sc_head st)) then
        let old = sc_active st ! sc_head st;
            st1 = (if is_block (tm ! old)
                   then st\<lparr>sc_blocks := index_remove (sc_blocks st) (tm ! old) old\<rparr>
                   else st\<lparr>sc_others := index_remove (sc_others st) (tm ! old) old\<rparr>)
        in expire_heads tm e (st1\<lparr>sc_head := sc_head st + 1\<rparr>)
      else st)"
  by pat_completeness auto

termination by (relation "measure (\<lambda>(tm, e, st). length (sc_active st) - sc_head st)") (auto simp: Let_def)

declare expire_heads.simps [simp del]

definition compact_active :: "scan_state \<Rightarrow> scan_state" where
  "compact_active st =
     (if sc_head st = length (sc_active st) then st\<lparr>sc_active := [], sc_head := 0\<rparr>
      else if length (sc_active st) div 2 \<le> sc_head st \<and> 0 < sc_head st
           then st\<lparr>sc_active := drop (sc_head st) (sc_active st), sc_head := 0\<rparr>
      else st)"

definition push_active :: "bool \<Rightarrow> nat \<Rightarrow> scan_state \<Rightarrow> scan_state" where
  "push_active added i st = (if added then st\<lparr>sc_active := sc_active st @ [i]\<rparr> else st)"

fun scan_from :: "Event list \<Rightarrow> nat \<Rightarrow> Event list \<Rightarrow> scan_state \<Rightarrow> (nat \<times> nat) option" where
  "scan_from tm i [] st = None"
| "scan_from tm i (e # es) st =
     (let st1 = compact_active (expire_heads tm e st)
      in case index_match (if is_block e then sc_others st1 else sc_blocks st1) e of
           Some prior \<Rightarrow> Some (prior, i)
         | None \<Rightarrow>
             if is_block e then
               let (added, ix) = index_add (sc_blocks st1) e i
               in scan_from tm (Suc i) es (push_active added i (st1\<lparr>sc_blocks := ix\<rparr>))
             else
               let (added, ix) = index_add (sc_others st1) e i
               in scan_from tm (Suc i) es (push_active added i (st1\<lparr>sc_others := ix\<rparr>)))"

definition firstCoincidence :: "Event list \<Rightarrow> (nat \<times> nat) option" where
  "firstCoincidence tm = scan_from tm 0 tm
     \<lparr>sc_blocks = newCorrelationIndex, sc_others = newCorrelationIndex, sc_active = [], sc_head = 0\<rparr>"

section \<open>The direct search\<close>

definition near :: "Event \<Rightarrow> Event \<Rightarrow> bool" where
  "near a b \<longleftrightarrow> ev_MonoNS b - ev_MonoNS a \<le> coincidenceWindow"

definition same_process :: "Event \<Rightarrow> Event \<Rightarrow> bool" where
  "same_process a b \<longleftrightarrow> has_process a \<and> has_process b \<and> process_key a = process_key b"

definition same_cgroup :: "Event \<Rightarrow> Event \<Rightarrow> bool" where
  "same_cgroup a b \<longleftrightarrow> has_cgroup a \<and> has_cgroup b \<and> ev_CgroupID a = ev_CgroupID b"

text \<open>\<open>a\<close> coincides with the later \<open>b\<close>.\<close>

definition coincident :: "Event \<Rightarrow> Event \<Rightarrow> bool" where
  "coincident a b \<longleftrightarrow> is_block a \<noteq> is_block b \<and> near a b \<and> (same_process a b \<or> same_cgroup a b)"

text \<open>The last position of a list with a property.\<close>

definition last_of :: "(nat \<Rightarrow> bool) \<Rightarrow> nat list \<Rightarrow> nat option" where
  "last_of Q L = find Q (rev L)"

text \<open>The latest earlier event of the same process and that of the same cgroup; the earlier of the two.\<close>

definition partner :: "Event list \<Rightarrow> nat \<Rightarrow> nat option" where
  "partner tm i =
     (let opposite = (\<lambda>j. is_block (tm ! j) \<noteq> is_block (tm ! i) \<and> near (tm ! j) (tm ! i))
      in earlier (last_of (\<lambda>j. opposite j \<and> same_process (tm ! j) (tm ! i)) [0..<i])
           (last_of (\<lambda>j. opposite j \<and> same_cgroup (tm ! j) (tm ! i)) [0..<i]))"

fun search_from :: "Event list \<Rightarrow> nat list \<Rightarrow> (nat \<times> nat) option" where
  "search_from tm [] = None"
| "search_from tm (i # rest) = (case partner tm i of Some j \<Rightarrow> Some (j, i) | None \<Rightarrow> search_from tm rest)"

section \<open>The pass computes the direct search\<close>

lemma find_append: "find P (xs @ ys) = (case find P xs of None \<Rightarrow> find P ys | Some x \<Rightarrow> Some x)"
  by (induction xs) auto

lemma last_of_Nil [simp]: "last_of Q [] = None"
  by (simp add: last_of_def)

lemma last_of_snoc [simp]: "last_of Q (L @ [i]) = (if Q i then Some i else last_of Q L)"
  by (simp add: last_of_def)

lemma last_of_Cons: "last_of Q (i # L) =
  (case last_of Q L of None \<Rightarrow> if Q i then Some i else None | Some j \<Rightarrow> Some j)"
  by (auto simp: last_of_def find_append split: option.split)

lemma last_of_Cons_not: "\<not> Q i \<Longrightarrow> last_of Q (i # L) = last_of Q L"
  by (simp add: last_of_Cons split: option.split)

lemma last_of_Some: "last_of Q L = Some i \<Longrightarrow> i \<in> set L \<and> Q i"
  unfolding last_of_def by (metis find_Some_iff nth_mem set_rev)

lemma last_of_filter: "last_of Q (filter R L) = last_of (\<lambda>j. R j \<and> Q j) L"
  by (induction L) (auto simp: last_of_Cons split: option.splits dest: last_of_Some)

lemma last_of_cong: "(\<And>j. j \<in> set L \<Longrightarrow> Q j = R j) \<Longrightarrow> last_of Q L = last_of R L"
  unfolding last_of_def by (rule find_cong) auto

lemma last_of_never: "(\<And>j. j \<in> set L \<Longrightarrow> \<not> Q j) \<Longrightarrow> last_of Q L = None"
  by (metis last_of_Some not_None_eq)

lemma last_of_None: "last_of Q L = None \<Longrightarrow> \<forall>j \<in> set L. \<not> Q j"
  by (simp add: last_of_def find_None_iff)

lemma earlier_Some: "earlier a b = Some j \<Longrightarrow> a = Some j \<or> b = Some j"
  by (cases "(a, b)" rule: earlier.cases) (auto split: if_splits)

lemma earlier_None: "earlier a b = None \<Longrightarrow> a = None \<and> b = None"
  by (cases "(a, b)" rule: earlier.cases) auto

text \<open>An index of class \<open>P\<close> over the live positions \<open>L\<close> names the last of each key.\<close>

definition index_ok :: "(Event \<Rightarrow> bool) \<Rightarrow> Event list \<Rightarrow> nat list \<Rightarrow> correlationIndex \<Rightarrow> bool" where
  "index_ok P tm L ix \<longleftrightarrow>
     ci_process ix = (\<lambda>k. last_of (\<lambda>j. P (tm ! j) \<and> has_process (tm ! j) \<and> process_key (tm ! j) = k) L)
   \<and> ci_cgroup ix = (\<lambda>c. last_of (\<lambda>j. P (tm ! j) \<and> has_cgroup (tm ! j) \<and> ev_CgroupID (tm ! j) = c) L)"

lemma index_ok_new [simp]: "index_ok P tm [] newCorrelationIndex"
  by (simp add: index_ok_def newCorrelationIndex_def)

lemma index_ok_other: "\<not> P (tm ! old) \<Longrightarrow> index_ok P tm (old # L) ix = index_ok P tm L ix"
  by (simp add: index_ok_def last_of_Cons_not)

lemma index_ok_skip: "\<not> P (tm ! i) \<or> (\<not> has_process (tm ! i) \<and> \<not> has_cgroup (tm ! i)) \<Longrightarrow>
  index_ok P tm (L @ [i]) ix = index_ok P tm L ix"
  by (auto simp: index_ok_def)

lemma index_remove_ok:
  assumes ok: "index_ok P tm (old # L) ix" and "P (tm ! old)" and "old \<notin> set L"
  shows "index_ok P tm L (index_remove ix (tm ! old) old)"
proof -
  have ne: "last_of Q L \<noteq> Some old" for Q using last_of_Some assms(3) by blast
  have p: "ci_process (index_remove ix (tm ! old) old) =
      (\<lambda>k. if has_process (tm ! old) \<and> k = process_key (tm ! old) \<and> ci_process ix k = Some old
           then None else ci_process ix k)"
    by (auto simp: index_remove_def Let_def fun_eq_iff simp del: split_paired_All)
  have c: "ci_cgroup (index_remove ix (tm ! old) old) =
      (\<lambda>k. if has_cgroup (tm ! old) \<and> k = ev_CgroupID (tm ! old) \<and> ci_cgroup ix k = Some old
           then None else ci_cgroup ix k)"
    by (auto simp: index_remove_def Let_def fun_eq_iff simp del: split_paired_All)
  show ?thesis
    unfolding index_ok_def p c using ok assms(2) ne
    by (auto simp: index_ok_def last_of_Cons fun_eq_iff split: option.splits simp del: split_paired_All)
qed

lemma index_add_ok:
  assumes "index_ok P tm L ix" and "P (tm ! i)"
  shows "index_ok P tm (L @ [i]) (snd (index_add ix (tm ! i) i))"
  using assms by (auto simp: index_add_def index_ok_def Let_def fun_eq_iff)

definition keyed :: "Event \<Rightarrow> bool" where
  "keyed e \<longleftrightarrow> has_process e \<or> has_cgroup e"

text \<open>The indexed positions before \<open>i\<close> that lie in the window ending at \<open>t\<close>.\<close>

definition live_at :: "Event list \<Rightarrow> nat \<Rightarrow> u64 \<Rightarrow> nat list" where
  "live_at tm i t = filter (\<lambda>j. keyed (tm ! j) \<and> t - ev_MonoNS (tm ! j) \<le> coincidenceWindow) [0..<i]"

abbreviation live :: "scan_state \<Rightarrow> nat list" where
  "live st \<equiv> drop (sc_head st) (sc_active st)"

definition scan_inv :: "Event list \<Rightarrow> scan_state \<Rightarrow> bool" where
  "scan_inv tm st \<longleftrightarrow> sc_head st \<le> length (sc_active st) \<and> distinct (live st)
     \<and> index_ok is_block tm (live st) (sc_blocks st)
     \<and> index_ok (\<lambda>e. \<not> is_block e) tm (live st) (sc_others st)"

text \<open>Expiring drops the prefix that has left the window, and keeps the indexes.\<close>

lemma expire_heads_live:
  "scan_inv tm st \<Longrightarrow> scan_inv tm (expire_heads tm e st)
     \<and> live (expire_heads tm e st) = dropWhile (\<lambda>j. coincidenceWindow < ev_MonoNS e - ev_MonoNS (tm ! j)) (live st)"
proof (induction tm e st rule: expire_heads.induct)
  case (1 tm e st)
  show ?case
  proof (cases "sc_head st < length (sc_active st)
         \<and> coincidenceWindow < ev_MonoNS e - ev_MonoNS (tm ! (sc_active st ! sc_head st))")
    case True
    define old where "old = sc_active st ! sc_head st"
    define st1 where "st1 = (if is_block (tm ! old)
                   then st\<lparr>sc_blocks := index_remove (sc_blocks st) (tm ! old) old\<rparr>
                   else st\<lparr>sc_others := index_remove (sc_others st) (tm ! old) old\<rparr>)\<lparr>sc_head := sc_head st + 1\<rparr>"
    have step: "expire_heads tm e st = expire_heads tm e st1"
      using True by (subst expire_heads.simps) (simp add: st1_def old_def Let_def)
    have l: "live st = old # live st1"
      using True by (auto simp: old_def st1_def Cons_nth_drop_Suc)
    have "scan_inv tm st1"
      using "1.prems" True l unfolding scan_inv_def st1_def
      by (auto intro: index_remove_ok simp: index_ok_other)
    then have "scan_inv tm (expire_heads tm e st1)
     \<and> live (expire_heads tm e st1) = dropWhile (\<lambda>j. coincidenceWindow < ev_MonoNS e - ev_MonoNS (tm ! j)) (live st1)"
      using "1.IH" [OF True refl refl] unfolding st1_def old_def by blast
    with True show ?thesis by (simp add: step l old_def)
  next
    case False
    then have "expire_heads tm e st = st" by (subst expire_heads.simps) (rule if_not_P)
    moreover have "dropWhile (\<lambda>j. coincidenceWindow < ev_MonoNS e - ev_MonoNS (tm ! j)) (live st) = live st"
      using False by (cases "live st") (auto simp: nth_via_drop not_less drop_eq_Nil)
    ultimately show ?thesis using "1.prems" by simp
  qed
qed

lemma compact_active_live: "scan_inv tm st \<Longrightarrow>
  scan_inv tm (compact_active st) \<and> live (compact_active st) = live st"
  by (auto simp: compact_active_def scan_inv_def)

lemma dropWhile_as_filter:
  "sorted_wrt (\<lambda>j k. P k \<longrightarrow> P j) xs \<Longrightarrow> dropWhile P xs = filter (\<lambda>x. \<not> P x) xs"
  by (induction xs) (auto simp: filter_id_conv)

lemma word_window_mono:
  fixes m t t' :: u64
  assumes "m \<le> t" "t \<le> t'"
  shows "t - m \<le> t' - m"
  using assms by (simp add: word_le_nat_alt unat_sub)

lemma word_window_anti:
  fixes m m' t :: u64
  assumes "m \<le> m'" "m' \<le> t"
  shows "t - m' \<le> t - m"
  using assms by (simp add: word_le_nat_alt unat_sub)

lemma mono_nth: "sorted (map ev_MonoNS tm) \<Longrightarrow> j \<le> k \<Longrightarrow> k < length tm \<Longrightarrow>
  ev_MonoNS (tm ! j) \<le> ev_MonoNS (tm ! k)"
  using sorted_nth_mono [of "map ev_MonoNS tm" j k] by simp

lemma sorted_wrt_filter_upt:
  "(\<And>j k. j < k \<Longrightarrow> k < i \<Longrightarrow> R j k) \<Longrightarrow> sorted_wrt R (filter Q [0..<i])"
  by (rule sorted_wrt_filter) (auto simp: sorted_wrt_iff_nth_less)

lemma live_at_advance:
  assumes srt: "sorted (map ev_MonoNS tm)" and i: "i < length tm"
    and t: "t \<le> ev_MonoNS (tm ! i)" and le: "\<And>j. j < i \<Longrightarrow> ev_MonoNS (tm ! j) \<le> t"
  shows "dropWhile (\<lambda>j. coincidenceWindow < ev_MonoNS (tm ! i) - ev_MonoNS (tm ! j)) (live_at tm i t)
    = live_at tm i (ev_MonoNS (tm ! i))"
proof -
  have "sorted_wrt (\<lambda>j k. coincidenceWindow < ev_MonoNS (tm ! i) - ev_MonoNS (tm ! k) \<longrightarrow>
      coincidenceWindow < ev_MonoNS (tm ! i) - ev_MonoNS (tm ! j)) (live_at tm i t)"
    unfolding live_at_def
  proof (rule sorted_wrt_filter_upt)
    fix j k assume "j < k" "k < i"
    then have "ev_MonoNS (tm ! i) - ev_MonoNS (tm ! k) \<le> ev_MonoNS (tm ! i) - ev_MonoNS (tm ! j)"
      using i by (intro word_window_anti mono_nth [OF srt]) auto
    then show "coincidenceWindow < ev_MonoNS (tm ! i) - ev_MonoNS (tm ! k) \<longrightarrow>
      coincidenceWindow < ev_MonoNS (tm ! i) - ev_MonoNS (tm ! j)" by (auto dest: order.strict_trans2)
  qed
  then have "dropWhile (\<lambda>j. coincidenceWindow < ev_MonoNS (tm ! i) - ev_MonoNS (tm ! j)) (live_at tm i t)
    = filter (\<lambda>j. \<not> coincidenceWindow < ev_MonoNS (tm ! i) - ev_MonoNS (tm ! j)) (live_at tm i t)"
    by (rule dropWhile_as_filter)
  also have "\<dots> = live_at tm i (ev_MonoNS (tm ! i))"
    unfolding live_at_def filter_filter
  proof (rule filter_cong [OF refl])
    fix j assume "j \<in> set [0..<i]"
    then have "t - ev_MonoNS (tm ! j) \<le> ev_MonoNS (tm ! i) - ev_MonoNS (tm ! j)"
      using le t by (intro word_window_mono) auto
    then show "(keyed (tm ! j) \<and> t - ev_MonoNS (tm ! j) \<le> coincidenceWindow) \<and>
        \<not> coincidenceWindow < ev_MonoNS (tm ! i) - ev_MonoNS (tm ! j)
      \<longleftrightarrow> keyed (tm ! j) \<and> ev_MonoNS (tm ! i) - ev_MonoNS (tm ! j) \<le> coincidenceWindow"
      by (auto simp: not_less)
  qed
  finally show ?thesis .
qed

text \<open>On the live positions, the opposite index answers as the direct search does.\<close>

lemma index_match_partner:
  assumes ok: "index_ok P tm (live_at tm i (ev_MonoNS (tm ! i))) ix"
    and P: "\<And>e. P e \<longleftrightarrow> is_block e \<noteq> is_block (tm ! i)"
  shows "index_match ix (tm ! i) = partner tm i"
proof -
  have "(if has_process (tm ! i) then ci_process ix (process_key (tm ! i)) else None) =
      last_of (\<lambda>j. is_block (tm ! j) \<noteq> is_block (tm ! i) \<and> near (tm ! j) (tm ! i)
        \<and> same_process (tm ! j) (tm ! i)) [0..<i]"
    using ok
    by (cases "has_process (tm ! i)")
      (auto simp: index_ok_def live_at_def last_of_filter P near_def same_process_def keyed_def
        intro!: last_of_cong last_of_never [symmetric])
  moreover have "(if has_cgroup (tm ! i) then ci_cgroup ix (ev_CgroupID (tm ! i)) else None) =
      last_of (\<lambda>j. is_block (tm ! j) \<noteq> is_block (tm ! i) \<and> near (tm ! j) (tm ! i)
        \<and> same_cgroup (tm ! j) (tm ! i)) [0..<i]"
    using ok
    by (cases "has_cgroup (tm ! i)")
      (auto simp: index_ok_def live_at_def last_of_filter P near_def same_cgroup_def keyed_def
        intro!: last_of_cong last_of_never [symmetric])
  ultimately show ?thesis
    by (simp add: index_match_def partner_def Let_def)
qed

lemma live_at_Suc: "live_at tm (Suc i) (ev_MonoNS (tm ! i)) =
  live_at tm i (ev_MonoNS (tm ! i)) @ (if keyed (tm ! i) then [i] else [])"
  by (simp add: live_at_def)

lemma push_scan_inv:
  assumes "scan_inv tm st" and "live st = live_at tm i (ev_MonoNS (tm ! i))"
  defines "st2 \<equiv> (if is_block (tm ! i)
     then push_active (fst (index_add (sc_blocks st) (tm ! i) i)) i
            (st\<lparr>sc_blocks := snd (index_add (sc_blocks st) (tm ! i) i)\<rparr>)
     else push_active (fst (index_add (sc_others st) (tm ! i) i)) i
            (st\<lparr>sc_others := snd (index_add (sc_others st) (tm ! i) i)\<rparr>))"
  shows "scan_inv tm st2 \<and> live st2 = live_at tm (Suc i) (ev_MonoNS (tm ! i))"
proof (cases "keyed (tm ! i)")
  case True
  then have added: "fst (index_add ix (tm ! i) i)" for ix
    by (simp add: index_add_def keyed_def Let_def)
  have fresh: "i \<notin> set (live st)" using assms(2) by (simp add: live_at_def)
  show ?thesis
    using assms(1,2) fresh True
    by (auto simp: st2_def push_active_def added scan_inv_def live_at_Suc index_ok_skip index_add_ok)
next
  case False
  then have "fst (index_add ix (tm ! i) i) = False" "snd (index_add ix (tm ! i) i) = ix" for ix
    by (auto simp: index_add_def keyed_def Let_def)
  then show ?thesis
    using assms(1,2) False by (simp add: st2_def push_active_def live_at_Suc scan_inv_def)
qed

lemma scan_from_search:
  assumes srt: "sorted (map ev_MonoNS tm)"
  shows "es = drop i tm \<Longrightarrow> scan_inv tm st \<Longrightarrow> live st = live_at tm i t \<Longrightarrow>
    (\<And>j. j < i \<Longrightarrow> ev_MonoNS (tm ! j) \<le> t) \<Longrightarrow> (i < length tm \<Longrightarrow> t \<le> ev_MonoNS (tm ! i)) \<Longrightarrow>
    scan_from tm i es st = search_from tm [i..<length tm]"
proof (induction es arbitrary: i st t)
  case Nil
  then have "length tm \<le> i" by simp
  then show ?case by simp
next
  case (Cons e es)
  have i: "i < length tm" using Cons.prems(1) by (metis drop_all list.distinct(1) not_le)
  have e: "e = tm ! i" and es: "es = drop (Suc i) tm"
    using Cons.prems(1) i by (auto simp: Cons_nth_drop_Suc [symmetric])
  define st1 where "st1 = compact_active (expire_heads tm e st)"
  have st1: "scan_inv tm st1" "live st1 = live_at tm i (ev_MonoNS (tm ! i))"
    using expire_heads_live [OF Cons.prems(2), of e] compact_active_live [of tm "expire_heads tm e st"]
      live_at_advance [OF srt i Cons.prems(5) [OF i] Cons.prems(4)] Cons.prems(3)
    by (simp_all add: st1_def e)
  have match: "index_match (if is_block e then sc_others st1 else sc_blocks st1) e = partner tm i"
    using st1 unfolding scan_inv_def e
    by (cases "is_block (tm ! i)") (auto intro!: index_match_partner)
  have later: "j < Suc i \<Longrightarrow> ev_MonoNS (tm ! j) \<le> ev_MonoNS (tm ! i)"
    "Suc i < length tm \<Longrightarrow> ev_MonoNS (tm ! i) \<le> ev_MonoNS (tm ! Suc i)" for j
    using mono_nth [OF srt] i by auto
  note IH = Cons.IH [OF es _ _ later]
  have upt: "[i..<length tm] = i # [Suc i..<length tm]" using i by (rule upt_conv_Cons)
  have unf: "scan_from tm i (e # es) st =
     (case index_match (if is_block e then sc_others st1 else sc_blocks st1) e of
        Some prior \<Rightarrow> Some (prior, i)
      | None \<Rightarrow> scan_from tm (Suc i) es
          (if is_block e
           then push_active (fst (index_add (sc_blocks st1) e i)) i (st1\<lparr>sc_blocks := snd (index_add (sc_blocks st1) e i)\<rparr>)
           else push_active (fst (index_add (sc_others st1) e i)) i (st1\<lparr>sc_others := snd (index_add (sc_others st1) e i)\<rparr>)))"
    unfolding scan_from.simps st1_def [symmetric] Let_def split_beta by (cases "is_block e") simp_all
  show ?case
    unfolding unf match using push_scan_inv [OF st1] IH
    by (cases "partner tm i") (auto simp: upt e [symmetric])
qed

lemma firstCoincidence_search:
  assumes "sorted (map ev_MonoNS tm)"
  shows "firstCoincidence tm = search_from tm [0..<length tm]"
  unfolding firstCoincidence_def
  by (rule scan_from_search [OF assms, where t = 0]) (auto simp: scan_inv_def live_at_def)

section \<open>What the direct search finds\<close>

lemma partner_Some: "partner tm i = Some j \<Longrightarrow> j < i \<and> coincident (tm ! j) (tm ! i)"
  by (auto simp: partner_def Let_def coincident_def dest!: earlier_Some last_of_Some)

lemma partner_None: "partner tm i = None \<Longrightarrow> j < i \<Longrightarrow> \<not> coincident (tm ! j) (tm ! i)"
  by (auto simp: partner_def Let_def coincident_def dest!: earlier_None last_of_None)

lemma search_from_Some: "search_from tm xs = Some (j, i) \<Longrightarrow>
  \<exists>ys zs. xs = ys @ i # zs \<and> partner tm i = Some j \<and> (\<forall>k \<in> set ys. partner tm k = None)"
proof (induction xs)
  case (Cons x xs)
  show ?case
  proof (cases "partner tm x")
    case None
    then obtain ys zs where "xs = ys @ i # zs" "partner tm i = Some j" "\<forall>k \<in> set ys. partner tm k = None"
      using Cons by auto
    with None have "x # xs = (x # ys) @ i # zs" "\<forall>k \<in> set (x # ys). partner tm k = None" by auto
    with \<open>partner tm i = Some j\<close> show ?thesis by blast
  next
    case (Some a)
    with Cons.prems have "x # xs = [] @ i # xs" "partner tm i = Some j" by auto
    then show ?thesis by fastforce
  qed
qed simp

lemma search_from_None: "search_from tm xs = None \<Longrightarrow> k \<in> set xs \<Longrightarrow> partner tm k = None"
  by (induction xs) (auto split: option.splits)


lemma firstCoincidence_range:
  assumes "sorted (map ev_MonoNS tm)" and "firstCoincidence tm = Some (j, i)"
  shows "j < i \<and> i < length tm"
proof -
  have "search_from tm [0..<length tm] = Some (j, i)"
    using assms firstCoincidence_search by simp
  from search_from_Some [OF this] obtain ys zs where s: "[0..<length tm] = ys @ i # zs" and p: "partner tm i = Some j" by blast
  have "i \<in> set (ys @ i # zs)" by simp
  then show ?thesis using partner_Some [OF p] unfolding s [symmetric] by simp
qed

text \<open>C17: on a timeline in order of time the two-index pass returns exactly what a direct search over all
  pairs returns: no pair when no two events of different kinds (one block I/O) coincide within a second
  for the same process or cgroup; otherwise a coinciding pair whose later event is the first event that
  coincides with any earlier one.
\<close>
theorem coincidence_first:
  assumes "sorted (map ev_MonoNS tm)"
  shows "case firstCoincidence tm of
      None \<Rightarrow> (\<forall>i < length tm. \<forall>j < i. \<not> coincident (tm ! j) (tm ! i))
    | Some (j, i) \<Rightarrow> j < i \<and> i < length tm \<and> coincident (tm ! j) (tm ! i)
        \<and> partner tm i = Some j \<and> (\<forall>i' < i. \<forall>j' < i'. \<not> coincident (tm ! j') (tm ! i'))"
proof (cases "firstCoincidence tm")
  case None
  then have "partner tm i = None" if "i < length tm" for i
    using that search_from_None [of tm "[0..<length tm]"] firstCoincidence_search [OF assms] by auto
  with None show ?thesis by (auto dest: partner_None)
next
  case (Some p)
  obtain j i where p: "p = (j, i)" by (cases p)
  have "search_from tm [0..<length tm] = Some (j, i)"
    using Some p firstCoincidence_search [OF assms] by simp
  then obtain ys zs where s: "[0..<length tm] = ys @ i # zs" and
    r: "partner tm i = Some j" "\<forall>k \<in> set ys. partner tm k = None"
    using search_from_Some by blast
  have len: "length ys < length tm" using arg_cong [OF s, of length] by simp
  have i: "i = length ys"
    using arg_cong [OF s, of "\<lambda>l. l ! length ys"] len by simp
  have "ys = [0..<i]"
    using arg_cong [OF s, of "take (length ys)"] len i by (simp add: take_upt)
  then have "\<forall>k < i. partner tm k = None" using r(2) by simp
  then show ?thesis using Some p r(1) partner_Some [OF r(1)] len i by (auto dest: partner_None)
qed

definition demo_timeline :: "Event list" where
  "demo_timeline =
     [zero_Event\<lparr>ev_MonoNS := 1, ev_Type := ''block_io'', ev_TGID := 7, ev_ProcessStartNS := 3\<rparr>,
      zero_Event\<lparr>ev_MonoNS := 5, ev_Type := ''block_io'', ev_CgroupID := 9\<rparr>,
      zero_Event\<lparr>ev_MonoNS := 6, ev_Type := ''oom'', ev_CgroupID := 8\<rparr>,
      zero_Event\<lparr>ev_MonoNS := 1000000005, ev_Type := ''scheduler'', ev_TGID := 7, ev_ProcessStartNS := 3,
        ev_CgroupID := 9\<rparr>]"

lemma coincidence_first_witness:
  "sorted (map ev_MonoNS demo_timeline) \<and> firstCoincidence demo_timeline = Some (1, 3)
     \<and> coincident (demo_timeline ! 1) (demo_timeline ! 3)"
proof -
  have s: "sorted (map ev_MonoNS demo_timeline)" by code_simp
  have r: "firstCoincidence demo_timeline = Some (1, 3)" by code_simp
  show ?thesis using coincidence_first [OF s] r s by simp
qed

end
