(* ===== verification/GoFormat.thy ===== *)
theory GoFormat
  imports GoText
begin

text \<open>
  The parts of Go's standard library the analyzer formats with: rounding of a
  duration, \<open>time.RFC3339\<close> in UTC, and \<open>%.1f\<close> of a number of nanoseconds
  divided by \<open>1e9\<close> in \<open>float64\<close>.
\<close>

section \<open>Durations\<close>

text \<open>\<open>time.Duration.Round\<close>; Go's remainder has the sign of the dividend.\<close>

definition Duration_Round :: "Duration \<Rightarrow> Duration \<Rightarrow> Duration" where
  "Duration_Round d m =
     (if m \<le> 0 then d
      else if d < 0 then
        let r = (- d) mod m
        in if r + r < m then d + r
           else let d1 = i64 (d - m + r) in if d1 < d then d1 else min_duration
      else
        let r = d mod m
        in if r + r < m then d - r
           else let d1 = i64 (d + m - r) in if d < d1 then d1 else max_duration)"

section \<open>Dates\<close>

definition pad_zero :: "nat \<Rightarrow> string \<Rightarrow> string" where
  "pad_zero w s = replicate (w - length s) (CHR ''0'') @ s"

text \<open>
  The proleptic Gregorian date of a day counted from 0000-03-01, by whole cycles of 400, 100, 4
  and 1 years; the year of the computation starts in March, so that the leap day is its last.
\<close>

definition year_and_day :: "int \<Rightarrow> int \<times> int" where
  "year_and_day z =
     (let doe = z mod 146097; c = min 3 (doe div 36524); r = doe - 36524 * c;
          q = r div 1461; s = r - 1461 * q; a = min 3 (s div 365)
      in (z div 146097 * 400 + 100 * c + 4 * q + a, s - 365 * a))"

definition month_of_day :: "int \<Rightarrow> int" where
  "month_of_day doy = (5 * doy + 2) div 153"

definition days_before_month :: "int \<Rightarrow> int" where
  "days_before_month mp = (153 * mp + 2) div 5"

definition civil_date :: "int \<Rightarrow> int \<times> int \<times> int" where
  "civil_date z =
     (let (y, doy) = year_and_day z; mp = month_of_day doy; m = (if mp < 10 then mp + 3 else mp - 9)
      in (y + (if m \<le> 2 then 1 else 0), m, doy - days_before_month mp + 1))"

text \<open>The day of a date, as \<open>time.Date\<close> computes it, and the number of days of a month.\<close>

definition date_day :: "int \<Rightarrow> int \<Rightarrow> int \<Rightarrow> int" where
  "date_day y m d =
     (let y1 = (if m \<le> 2 then y - 1 else y); yoe = y1 mod 400
      in y1 div 400 * 146097 + 365 * yoe + yoe div 4 - yoe div 100 + days_before_month ((m + 9) mod 12) + d - 1)"

definition leap_year :: "int \<Rightarrow> bool" where
  "leap_year y \<longleftrightarrow> y mod 4 = 0 \<and> (y mod 100 \<noteq> 0 \<or> y mod 400 = 0)"

definition daysIn :: "int \<Rightarrow> int \<Rightarrow> int" where
  "daysIn m y =
     (if m = 2 then if leap_year y then 29 else 28
      else if m \<in> {4, 6, 9, 11} then 30 else 31)"

lemma div_mod_unique:
  fixes r :: int
  assumes "0 \<le> r" "r < k" "x = k * n + r"
  shows "x div k = n" "x mod k = r"
  using assms by (simp_all add: div_mult1_eq)

lemma div_bounds:
  fixes x :: int
  assumes "0 < k"
  shows "k * (x div k) \<le> x" "x < k * (x div k) + k"
  using assms mult_div_mod_eq [of k x] pos_mod_bound [of k x] pos_mod_sign [of k x] by linarith+

lemma year_and_day_props:
  assumes "year_and_day z = (y, doy)"
  shows "0 \<le> doy" "doy \<le> 365" "doy = 365 \<Longrightarrow> leap_year (y + 1)"
    "y div 400 * 146097 + 365 * (y mod 400) + y mod 400 div 4 - y mod 400 div 100 + doy = z"
proof -
  define era doe where "era = z div 146097" and "doe = z mod 146097"
  define c where "c = min 3 (doe div 36524)"
  define r where "r = doe - 36524 * c"
  define q where "q = r div 1461"
  define s where "s = r - 1461 * q"
  define a where "a = min 3 (s div 365)"
  have "year_and_day z = (era * 400 + 100 * c + 4 * q + a, s - 365 * a)"
    by (simp only: year_and_day_def Let_def era_def doe_def c_def r_def q_def s_def a_def)
  then have y: "y = era * 400 + 100 * c + 4 * q + a" and doy: "doy = s - 365 * a"
    using assms by (simp_all only: prod.inject)
  have doe: "0 \<le> doe" "doe \<le> 146096" "z = era * 146097 + doe" by (simp_all add: doe_def era_def)
  have c: "0 \<le> c" "c \<le> 3" "36524 * c \<le> doe" "doe < 36524 * c + 36524 \<or> c = 3"
    using doe(1) div_bounds [of 36524 doe] by (auto simp: c_def min_def pos_imp_zdiv_nonneg_iff)
  then have r: "0 \<le> r" "r \<le> 36524" "r = 36524 \<Longrightarrow> c = 3" using doe(2) by (auto simp: r_def)
  have q: "1461 * q \<le> r" "r < 1461 * q + 1461" using div_bounds [of 1461 r] by (simp_all add: q_def)
  then have "0 \<le> q" "q \<le> 24" using r(1,2) by linarith+
  note q = this q
  have s: "0 \<le> s" "s \<le> 1460" using q by (simp_all add: s_def)
  have a: "0 \<le> a" "a \<le> 3" "365 * a \<le> s" "s < 365 * a + 365 \<or> a = 3"
    using s div_bounds [of 365 s] by (auto simp: a_def min_def pos_imp_zdiv_nonneg_iff)
  show d: "0 \<le> doy" "doy \<le> 365" using s a by (auto simp: doy)
  have m: "y div 400 = era" "y mod 400 = 100 * c + 4 * q + a"
  proof -
    have "0 \<le> 100 * c + 4 * q + a" "100 * c + 4 * q + a < 400" "y = 100 * c + 4 * q + a + 400 * era"
      using c q a by (simp_all add: y)
    then show "y div 400 = era" "y mod 400 = 100 * c + 4 * q + a"
      using div_mod_unique [of "100 * c + 4 * q + a" 400 y era] by simp_all
  qed
  have "(100 * c + 4 * q + a) div 4 = 25 * c + q" "(100 * c + 4 * q + a) div 100 = c"
    using c q a div_mod_unique(1) [of a 4 "100 * c + 4 * q + a" "25 * c + q"]
      div_mod_unique(1) [of "4 * q + a" 100 "100 * c + 4 * q + a" c] by simp_all
  then show "y div 400 * 146097 + 365 * (y mod 400) + y mod 400 div 4 - y mod 400 div 100 + doy = z"
    unfolding m by (simp add: doy s_def r_def doe(3))
  show "leap_year (y + 1)" if "doy = 365"
  proof -
    have a3: "a = 3" "s = 1460" using that s(2) a by (auto simp: doy)
    show ?thesis
    proof (cases "q = 24")
      case True
      then have "r = 36524" using a3(2) by (simp add: s_def)
      then show ?thesis using r(3) True a3 by (simp add: leap_year_def y)
    next
      case False
      then have "q \<le> 23" using q by simp
      have "y + 1 = 4 * (100 * era + 25 * c + q + 1)" "y + 1 = 100 * (4 * era + c) + 4 * (q + 1)"
        using a3 by (simp_all add: y)
      then have "(y + 1) mod 4 = 0" "(y + 1) mod 100 = 4 * (q + 1)"
        using \<open>q \<le> 23\<close> q(1) div_mod_unique(2) [of "4 * (q + 1)" 100 "y + 1" "4 * era + c"]
        by (simp, simp)
      then show ?thesis using q(1) by (simp add: leap_year_def)
    qed
  qed
qed

lemma month_props:
  assumes "0 \<le> doy" "doy \<le> 365"
  shows "0 \<le> month_of_day doy" "month_of_day doy \<le> 11" "days_before_month (month_of_day doy) \<le> doy"
    "doy \<le> days_before_month (month_of_day doy) + 30"
    "month_of_day doy \<in> {1, 3, 6, 8} \<Longrightarrow> doy \<le> days_before_month (month_of_day doy) + 29"
    "month_of_day doy = 11 \<Longrightarrow> days_before_month (month_of_day doy) = 337"
proof -
  define mp where "mp = month_of_day doy"
  have b: "153 * mp \<le> 5 * doy + 2" "5 * doy + 2 < 153 * mp + 153"
    using div_mult_mod_eq [of "5 * doy + 2" 153] pos_mod_bound [of 153 "5 * doy + 2"] pos_mod_sign [of 153 "5 * doy + 2"]
    unfolding mp_def month_of_day_def by simp_all
  then have "0 \<le> mp" "mp \<le> 11" using assms by linarith+
  then have "mp = 0 \<or> mp = 1 \<or> mp = 2 \<or> mp = 3 \<or> mp = 4 \<or> mp = 5 \<or> mp = 6 \<or> mp = 7 \<or> mp = 8 \<or> mp = 9 \<or> mp = 10 \<or> mp = 11"
    by arith
  then show "0 \<le> month_of_day doy" "month_of_day doy \<le> 11" "days_before_month (month_of_day doy) \<le> doy"
    "doy \<le> days_before_month (month_of_day doy) + 30"
    "month_of_day doy \<in> {1, 3, 6, 8} \<Longrightarrow> doy \<le> days_before_month (month_of_day doy) + 29"
    "month_of_day doy = 11 \<Longrightarrow> days_before_month (month_of_day doy) = 337"
    using b assms unfolding mp_def [symmetric] days_before_month_def by (elim disjE; simp)+
qed

lemma civil_date_props:
  assumes "civil_date z = (y, m, d)"
  shows "1 \<le> m" "m \<le> 12" "1 \<le> d" "d \<le> daysIn m y" "date_day y m d = z"
proof -
  obtain y1 doy where yd: "year_and_day z = (y1, doy)" by (cases "year_and_day z")
  define mp where "mp = month_of_day doy"
  note p = year_and_day_props [OF yd]
  note mp = month_props [OF p(1,2), folded mp_def]
  have c: "m = (if mp < 10 then mp + 3 else mp - 9)" "y = y1 + (if m \<le> 2 then 1 else 0)"
    "d = doy - days_before_month mp + 1"
    using assms by (auto simp: civil_date_def yd Let_def mp_def)
  show "1 \<le> m" "m \<le> 12" "1 \<le> d" using mp(1-3) by (auto simp: c)
  have m': "(m + 9) mod 12 = mp" "m \<le> 2 \<longleftrightarrow> 10 \<le> mp" using mp(1,2) by (auto simp: c(1))
  show "date_day y m d = z"
    using p(4) m' by (auto simp: date_day_def Let_def c(2,3))
  show "d \<le> daysIn m y"
  proof (cases "m = 2")
    case True
    then have "mp = 11" "y = y1 + 1" using mp(1,2) by (auto simp: c split: if_splits)
    then show ?thesis using mp(6) p(2,3) True by (cases "doy = 365") (simp_all add: daysIn_def c(3))
  next
    case False
    then show ?thesis using mp(1,2,4,5) by (auto simp: daysIn_def c split: if_splits)
  qed
qed

text \<open>\<open>t.UTC().Format(time.RFC3339)\<close>; 0001-01-01 is day 306 of that count.\<close>

definition RFC3339 :: "Time \<Rightarrow> string" where
  "RFC3339 t =
     (let secs = t div Second; (y, m, d) = civil_date (secs div 86400 + 306); s = secs mod 86400;
          two = (\<lambda>n. pad_zero 2 (show_int n));
          year = (if y < 0 then CHR ''-'' # pad_zero 4 (show_int (- y)) else pad_zero 4 (show_int y))
      in year @ ''-'' @ two m @ ''-'' @ two d @ ''T'' @ two (s div 3600) @ '':''
         @ two (s mod 3600 div 60) @ '':'' @ two (s mod 60) @ ''Z'')"

section \<open>Floating point\<close>

text \<open>\<open>a / b\<close> to the nearest integer, ties to even.\<close>

definition round_div :: "int \<Rightarrow> int \<Rightarrow> int" where
  "round_div a b =
     (let q = a div b; r = a mod b
      in if 2 * r < b then q else if b < 2 * r then q + 1 else if even q then q else q + 1)"

text \<open>\<open>float64(n)\<close> of a 64-bit value: 53 significant bits.\<close>

function drop_bits :: "int \<Rightarrow> int \<Rightarrow> int" where
  "drop_bits n unit = (if 0 < unit \<and> 2 ^ 53 * unit \<le> n then drop_bits n (2 * unit) else unit)"
  by pat_completeness auto

termination by (relation "measure (\<lambda>(n, unit). nat (n + 1 - unit))") auto

declare drop_bits.simps [simp del]

definition float64_of :: "int \<Rightarrow> int" where
  "float64_of n = (let unit = drop_bits n 1 in round_div n unit * unit)"

lemma float_scale_step: "0 < (a::int) \<Longrightarrow> 0 < s \<Longrightarrow> a * s < c \<Longrightarrow> nat (c - a * (2 * s)) < nat (c - a * s)"
  by (simp add: nat_less_iff zless_nat_conj)

text \<open>The scale \<open>2^k\<close> at which \<open>a / b\<close> has 53 bits.\<close>

function float_scale :: "int \<Rightarrow> int \<Rightarrow> int \<Rightarrow> int" where
  "float_scale a b s =
     (if 0 < a \<and> 0 < s \<and> a * s < 2 ^ 52 * b then float_scale a b (2 * s) else s)"
  by pat_completeness auto

termination by (relation "measure (\<lambda>(a, b, s). nat (2 ^ 52 * b - a * s))") (auto intro: float_scale_step)

declare float_scale.simps [simp del]

text \<open>\<open>fmt.Sprintf("%.1f", float64(n)/1e9)\<close>.\<close>

definition seconds_1f :: "u64 \<Rightarrow> string" where
  "seconds_1f n =
     (let x = float64_of (uint n); s = float_scale x 1000000000 1;
          m = round_div (x * s) 1000000000;
          tenths = round_div (10 * m) s
      in show_int (tenths div 10) @ ''.'' @ show_int (tenths mod 10))"

end
