(* ===== verification/Report.thy ===== *)
theory Report
  imports Correlation GoFormat "HOL-Library.Product_Lexorder"
begin

text \<open>
  The report of the offline analyzer: its data (\<open>internal/analyzer/analyzer.go\<close>,
  \<open>assessment.go\<close>), the shared meaning of the loss counters
  (\<open>internal/model/coverage.go\<close>) and the small computations the
  assessment rests on.  A Go map is a function to \<open>option\<close>.
\<close>

section \<open>Data\<close>

record EvidenceRef =
  er_Kind :: string
  er_Index :: int
  er_Value :: string

record Finding =
  fn_Category :: string
  fn_Severity :: string
  fn_Summary :: string
  fn_Evidence :: "EvidenceRef list"

record Summary =
  sm_BookkeepingCompletions :: u64
  sm_State :: string
  sm_Reason :: string
  sm_Family :: string
  sm_Available :: bool
  sm_Histogram :: Histogram
  sm_Count :: u64
  sm_Anomalies :: u64
  sm_Critical :: u64
  sm_Retransmits :: u64
  sm_Resets :: u64
  sm_Loss :: Counters
  sm_CoveredNS :: u64

record ProcessRow =
  pr_Comm :: string
  pr_TGID :: u32
  pr_StartNS :: u64
  pr_Details :: int

record ObservedSignals =
  os_Slow :: u64
  os_Critical :: u64
  os_Retransmits :: u64
  os_Resets :: u64
  os_OOMVictims :: u64

record CoverageReason =
  cr_Code :: string
  cr_Severity :: string
  cr_Scope :: string
  cr_Sensor :: string
  cr_Counter :: string
  cr_Count :: u64
  cr_LifetimeCount :: "u64 option"
  cr_Limited :: bool
  cr_Title :: string
  cr_Explanation :: string
  cr_Evidence :: "EvidenceRef list"

record LatencyHighlight =
  lh_Family :: string
  lh_LatencyNS :: u64
  lh_ThresholdNS :: u64
  lh_EventIndex :: int

record Assessment =
  as_Code :: string
  as_Severity :: string
  as_Title :: string
  as_SignalState :: string
  as_EvidenceState :: string
  as_Signals :: string
  as_Evidence :: string
  as_Observed :: ObservedSignals
  as_Reasons :: "CoverageReason list"
  as_Diagnostics :: "CoverageReason list"
  as_Highlights :: "LatencyHighlight list"

record AnalyzerReport =
  rp_Assessment :: Assessment
  rp_Host :: Host
  rp_Manifest :: Manifest
  rp_Signals :: "Summary list"
  rp_Timeline :: "Event list"
  rp_Processes :: "ProcessRow list"
  rp_Findings :: "Finding list"

text \<open>Composite literals: the fields left out are zero.\<close>

definition zero_ObservedSignals :: ObservedSignals where
  "zero_ObservedSignals = \<lparr>os_Slow = 0, os_Critical = 0, os_Retransmits = 0, os_Resets = 0, os_OOMVictims = 0\<rparr>"

definition zero_CoverageReason :: CoverageReason where
  "zero_CoverageReason = \<lparr>cr_Code = [], cr_Severity = [], cr_Scope = [], cr_Sensor = [], cr_Counter = [],
     cr_Count = 0, cr_LifetimeCount = None, cr_Limited = False, cr_Title = [], cr_Explanation = [], cr_Evidence = []\<rparr>"

definition zero_Assessment :: Assessment where
  "zero_Assessment = \<lparr>as_Code = [], as_Severity = [], as_Title = [], as_SignalState = [], as_EvidenceState = [],
     as_Signals = [], as_Evidence = [], as_Observed = zero_ObservedSignals, as_Reasons = [], as_Diagnostics = [],
     as_Highlights = []\<rparr>"

definition empty_Summary :: "string \<Rightarrow> Summary" where
  "empty_Summary f = \<lparr>sm_BookkeepingCompletions = 0, sm_State = ''unavailable'', sm_Reason = [], sm_Family = f,
     sm_Available = False, sm_Histogram = zero_histogram, sm_Count = 0, sm_Anomalies = 0, sm_Critical = 0,
     sm_Retransmits = 0, sm_Resets = 0, sm_Loss = zero_Counters, sm_CoveredNS = 0\<rparr>"

definition Ref :: "string \<Rightarrow> int \<Rightarrow> string \<Rightarrow> EvidenceRef" where
  "Ref k i v = \<lparr>er_Kind = k, er_Index = i, er_Value = v\<rparr>"

section \<open>The meaning of the counters\<close>

record CounterNote =
  cn_Counter :: string
  cn_Value :: u64
  cn_Title :: string
  cn_Explanation :: string

definition note_of :: "string \<Rightarrow> u64 \<Rightarrow> string \<Rightarrow> string \<Rightarrow> string \<Rightarrow> CounterNote list" where
  "note_of counter n singular plural explanation =
     (if 0 < n then
        [\<lparr>cn_Counter = counter, cn_Value = n,
          cn_Title = show_u64 n @ '' '' @ (if n = 1 then singular else plural), cn_Explanation = explanation\<rparr>]
      else [])"

definition CounterNotes :: "string \<Rightarrow> Counters \<Rightarrow> CounterNote list" where
  "CounterNotes sensor c =
     (if sensor = ''block_io'' then
        note_of ''unmatched_completions'' (ct_Unmatched c) ''I/O completion could not be timed''
          ''I/O completions could not be timed''
          ''No trustworthy first-dispatch record was available (unmatched). This includes missing starts and requeued requests whose allocation identity could not be verified. These latencies are excluded from the I/O histogram.''
      else
        note_of ''unmatched_completions'' (ct_Unmatched c) ''completion had no matching start record''
          ''completions had no matching start record''
          ''Their latency could not be measured (unmatched). This is a measurement gap, not proof of a workload failure.'')
     @ note_of ''tracking_failures'' (ct_TrackingFailures c) ''start record could not be saved''
         ''start records could not be saved''
         ''The sensor could not retain tracking state (tracking failures). Some latency measurements may therefore be missing.''
     @ note_of ''ring_reserve_failures'' (ct_RingFailures c) ''event detail could not enter the kernel buffer''
         ''event details could not enter the kernel buffer''
         ''The detail buffer could not reserve space (ring reserve failures). Aggregate counts remain available, but these individual events cannot be inspected.''
     @ note_of ''detail_suppressed'' (ct_Suppressed c) ''event detail skipped by the rate limit''
         ''event details skipped by the rate limit''
         ''The configured detail quota was reached (detail suppressed). Aggregate counts and histograms still include these observations; individual details were intentionally omitted.''
     @ note_of ''detail_budget_failures'' (ct_DetailFailures c) ''event detail lost because quota state was unavailable''
         ''event details lost because quota state was unavailable''
         ''The kernel could not access the shared detail quota. Aggregate counts and histograms remain available; these individual details are missing, not intentionally rate limited.''
     @ note_of ''detail_decode_failures'' (ct_DecodeFailures c) ''event detail could not be decoded''
         ''event details could not be decoded''
         ''Userspace rejected a malformed or unknown detail record. Aggregate counts and histograms remain available, but these individual events cannot be inspected.''"

lemma note_of_Nil [simp]: "note_of counter n s p e = [] \<longleftrightarrow> n = 0"
  by (simp add: note_of_def word_gt_0)

lemma CounterNotes_Nil: "CounterNotes sensor c = [] \<longleftrightarrow> c = zero_Counters"
  by (cases c) (auto simp: CounterNotes_def note_of_Nil zero_Counters_def)

section \<open>Small computations\<close>

definition quantity :: "u64 \<Rightarrow> string \<Rightarrow> string \<Rightarrow> string" where
  "quantity n singular plural =
     (if n = 1 then show_u64 n @ '' '' @ singular else show_u64 n @ '' '' @ plural)"

definition sensorName :: "string \<Rightarrow> string" where
  "sensorName s =
     (if s = ''block_io'' then ''Block I/O''
      else if s = ''scheduler'' then ''Scheduler''
      else if s = ''tcp'' then ''TCP''
      else if s = ''oom'' then ''OOM''
      else s)"

definition coverageTolerance :: "Manifest \<Rightarrow> u64" where
  "coverageTolerance m =
     (let poll = rs_PollIntervalNS (mf_Settings m);
          poll' = (if poll = 0 then LegacyPollIntervalNS else poll)
      in if (- 1) div 2 < poll' then - 1 else 2 * poll')"

definition criticalThreshold :: "RecordingSettings \<Rightarrow> string \<Rightarrow> u64" where
  "criticalThreshold s family =
     (if family = ''block_io'' then rs_BlockCriticalNS s
      else if family = ''scheduler'' then rs_SchedulerCriticalNS s
      else 0)"

fun count_critical :: "string \<Rightarrow> u64 \<Rightarrow> Event list \<Rightarrow> u64 \<Rightarrow> u64" where
  "count_critical family threshold [] n = n"
| "count_critical family threshold (e # es) n =
     count_critical family threshold es
       (if ev_Type e = family \<and> threshold \<le> ev_LatencyNS e then n + 1 else n)"

definition criticalCount :: "AnalyzerReport \<Rightarrow> Summary \<Rightarrow> u64" where
  "criticalCount r s =
     (let threshold = criticalThreshold (mf_Settings (rp_Manifest r)) (sm_Family s);
          retained = (if 0 < threshold then count_critical (sm_Family s) threshold (rp_Timeline r) 0 else 0)
      in max (sm_Critical s) retained)"

section \<open>Percentiles\<close>

definition percentile_target :: "u64 \<Rightarrow> u64 \<Rightarrow> u64" where
  "percentile_target count p = count div 100 * p + (count mod 100 * p + 99) div 100"

text \<open>The first bucket whose cumulative count reaches the target.\<close>

fun percentile_bucket :: "u64 \<Rightarrow> nat \<Rightarrow> u64 \<Rightarrow> u64 list \<Rightarrow> nat option" where
  "percentile_bucket target i n [] = None"
| "percentile_bucket target i n (v # vs) =
     (if target \<le> n + v then Some i else percentile_bucket target (Suc i) (n + v) vs)"

definition percentile :: "Histogram \<Rightarrow> u64 \<Rightarrow> string" where
  "percentile h p =
     (let count = Histogram_Count h
      in if count = 0 then ''n/a''
         else case percentile_bucket (percentile_target count p) 0 0 h of
             None \<Rightarrow> ''n/a''
           | Some i \<Rightarrow>
               if i = HistogramBuckets - 1 then ''>='' @ Duration_String (sint (push_bit (i - 1) HistogramMinNS))
               else ''<'' @ Duration_String (sint (push_bit i HistogramMinNS)))"


lemma Histogram_Count_unat:
  "sum_list (map unat h) < 2 ^ 64 \<Longrightarrow> unat (Histogram_Count h) = sum_list (map unat h)"
proof -
  have "unat (c::u64) + sum_list (map unat h) < 2 ^ 64 \<Longrightarrow>
      unat (foldl (+) c h) = unat c + sum_list (map unat h)" for c
  proof (induction h arbitrary: c)
    case (Cons v h)
    then have "unat (c + v) = unat c + unat v" by (simp add: unat_add_lem [symmetric])
    then show ?case using Cons.IH [of "c + v"] Cons.prems by simp
  qed simp
  from this [of 0] show "sum_list (map unat h) < 2 ^ 64 \<Longrightarrow> ?thesis" by simp
qed

lemma unat_numeral_100: "unat (100 :: u64) = 100"
  by simp

lemma percentile_target_unat:
  assumes "p \<le> 100"
  shows "unat (percentile_target c p) = unat c div 100 * unat p + (unat c mod 100 * unat p + 99) div 100"
proof -
  have p: "unat p \<le> 100" using assms by (simp add: word_le_nat_alt)
  define q r where "q = unat c div 100" and "r = unat c mod 100"
  have c: "unat c = 100 * q + r" and r: "r < 100" by (simp_all add: q_def r_def)
  have lim: "unat c < 2 ^ 64" using unsigned_less [of c] by simp
  have "r * unat p \<le> 99 * 100" using r p by (intro mult_mono) auto
  then have rp: "r * unat p + 99 < 2 ^ 64" by simp
  have qp: "q * unat p \<le> 100 * q" using p by (simp add: mult.commute)
  have "r * unat p \<le> r * 100" using p by simp
  then have ceil: "(r * unat p + 99) div 100 \<le> r" by linarith
  have m1: "unat (c div 100 * p) = q * unat p"
  proof -
    have "unat (c div 100) = q" by (simp add: unat_div q_def)
    moreover have "q * unat p < 2 ^ 64" using qp c lim by linarith
    ultimately show ?thesis by (simp add: unat_word_ariths)
  qed
  have m2: "unat (c mod 100 * p + 99) = r * unat p + 99"
  proof -
    have "unat (c mod 100) = r" by (simp add: unat_mod r_def)
    have L: "LENGTH(64) = 64" by simp
    have e: "unat (c mod 100 * p) = r * unat p"
      using unat_mult_lem [of "c mod 100" p] rp unfolding \<open>unat (c mod 100) = r\<close> L by linarith
    have n: "unat (99 :: u64) = 99" by simp
    show ?thesis using unat_add_lem [of "c mod 100 * p" 99] rp unfolding e n L by linarith
  qed
  have m3: "unat ((c mod 100 * p + 99) div 100) = (r * unat p + 99) div 100"
    unfolding unat_div m2 by (simp only: unat_numeral_100)
  have L: "LENGTH(64) = 64" by simp
  have "unat (percentile_target c p) = q * unat p + (r * unat p + 99) div 100"
    using unat_add_lem [of "c div 100 * p" "(c mod 100 * p + 99) div 100"] ceil qp c lim
    unfolding percentile_target_def m1 m3 L by linarith
  then show ?thesis by (simp only: q_def r_def)
qed

lemma percentile_bucket_spec:
  assumes "unat n + sum_list (map unat vs) < 2 ^ 64"
    and "unat target \<le> unat n + sum_list (map unat vs)" and "vs \<noteq> []"
  shows "\<exists>k < length vs. percentile_bucket target i n vs = Some (i + k)
     \<and> unat target \<le> unat n + sum_list (map unat (take (Suc k) vs))
     \<and> (\<forall>m < k. unat n + sum_list (map unat (take (Suc m) vs)) < unat target)"
  using assms
proof (induction vs arbitrary: i n)
  case (Cons v vs)
  have nv: "unat (n + v) = unat n + unat v"
    using Cons.prems(1) by (simp add: unat_add_lem [symmetric])
  show ?case
  proof (cases "target \<le> n + v")
    case True
    then show ?thesis by (intro exI [of _ 0]) (simp add: word_le_nat_alt nv)
  next
    case False
    then have lt: "unat n + unat v < unat target" by (simp add: word_le_nat_alt nv)
    then have "vs \<noteq> []" using Cons.prems(2) by auto
    then obtain k where k: "k < length vs" "percentile_bucket target (Suc i) (n + v) vs = Some (Suc i + k)"
      "unat target \<le> unat (n + v) + sum_list (map unat (take (Suc k) vs))"
      "\<forall>m < k. unat (n + v) + sum_list (map unat (take (Suc m) vs)) < unat target"
      using Cons.IH [of "n + v" "Suc i"] Cons.prems by (auto simp: nv)
    show ?thesis
    proof (intro exI [of _ "Suc k"] conjI allI impI)
      show "percentile_bucket target i n (v # vs) = Some (i + Suc k)" using False k(2) by simp
      fix m assume "m < Suc k"
      then show "unat n + sum_list (map unat (take (Suc m) (v # vs))) < unat target"
        using lt k(4) nv by (cases m) auto
    qed (use k nv in auto)
  qed
qed simp

lemma percent_ceil:
  fixes C p S :: nat
  shows "C div 100 * p + (C mod 100 * p + 99) div 100 \<le> S \<longleftrightarrow> C * p \<le> 100 * S"
proof -
  have "C * p = (100 * (C div 100) + C mod 100) * p" by simp
  then have "C * p = 100 * (C div 100 * p) + C mod 100 * p" by (simp only: add_mult_distrib mult.assoc)
  then show ?thesis by linarith
qed

text \<open>the percentile bound is exact, without overflow.  For a histogram whose total fits in 64 bits and is
  not zero, and a percentage of at most 100, the bucket chosen is the first whose cumulative count reaches
  \<open>p\<close> percent of the observations: at least that share lies in the buckets up to it, and less in those
  before it.  The text names its upper bound, or the lower bound of the unbounded last bucket.
\<close>
theorem percentile_bound:
  assumes "histogram_wf h" and "sum_list (map unat h) < 2 ^ 64" and "0 < sum_list (map unat h)" and "p \<le> 100"
  shows "\<exists>k < HistogramBuckets.
       percentile h p = (if k = 10 then ''>='' @ Duration_String (sint (push_bit 9 HistogramMinNS))
                         else ''<'' @ Duration_String (sint (push_bit k HistogramMinNS)))
     \<and> sum_list (map unat h) * unat p \<le> 100 * sum_list (map unat (take (Suc k) h))
     \<and> (\<forall>m < k. 100 * sum_list (map unat (take (Suc m) h)) < sum_list (map unat h) * unat p)"
proof -
  define C where "C = sum_list (map unat h)"
  have cnt: "unat (Histogram_Count h) = C" using Histogram_Count_unat assms(2) by (simp add: C_def)
  have pos: "Histogram_Count h \<noteq> 0"
  proof
    assume "Histogram_Count h = 0"
    with cnt have "C = 0" by (simp only: unat_0)
    with assms(3) show False unfolding C_def by (simp only: less_irrefl)
  qed
  define target where "target = percentile_target (Histogram_Count h) p"
  have t: "unat target = C div 100 * unat p + (C mod 100 * unat p + 99) div 100"
    using percentile_target_unat [OF assms(4)] cnt by (simp add: target_def)
  have t_le: "unat target \<le> S \<longleftrightarrow> C * unat p \<le> 100 * S" for S
    unfolding t by (rule percent_ceil)
  have "unat p \<le> 100" using assms(4) by (simp add: word_le_nat_alt)
  then have tC: "unat target \<le> C" unfolding t_le by (simp add: mult.commute)
  have "h \<noteq> []" "length h = HistogramBuckets"
    using assms(1) by (auto simp: histogram_wf_def HistogramBuckets_def)
  then obtain k where k: "k < HistogramBuckets" "percentile_bucket target 0 0 h = Some k"
    "unat target \<le> sum_list (map unat (take (Suc k) h))"
    "\<forall>m < k. sum_list (map unat (take (Suc m) h)) < unat target"
    using percentile_bucket_spec [of 0 h target 0] tC assms(2) by (auto simp: C_def)
  have "percentile h p = (if k = 10 then ''>='' @ Duration_String (sint (push_bit 9 HistogramMinNS))
      else ''<'' @ Duration_String (sint (push_bit k HistogramMinNS)))"
    using pos k(2) by (simp add: percentile_def Let_def target_def HistogramBuckets_def)
  moreover have "C * unat p \<le> 100 * sum_list (map unat (take (Suc k) h))" using k(3) t_le by simp
  moreover have "\<forall>m < k. 100 * sum_list (map unat (take (Suc m) h)) < C * unat p"
    using k(4) t_le by (auto simp: not_le [symmetric])
  ultimately show ?thesis using k(1) unfolding C_def by blast
qed

lemma percentile_bound_witness:
  "\<exists>k < HistogramBuckets. percentile [90, 8, 1, 1, 0, 0, 0, 0, 0, 0, 0] 95 =
       (if k = 10 then ''>='' @ Duration_String (sint (push_bit 9 HistogramMinNS))
        else ''<'' @ Duration_String (sint (push_bit k HistogramMinNS)))
     \<and> 100 * 95 \<le> 100 * sum_list (map unat (take (Suc k) [90, 8, 1, 1, 0, 0, 0, 0, 0, 0, 0 :: u64]))"
  using percentile_bound [of "[90, 8, 1, 1, 0, 0, 0, 0, 0, 0, 0]" 95]
  by (auto simp: histogram_wf_def HistogramBuckets_def)

end
