(* ===== verification/Assessment.thy ===== *)
theory Assessment
  imports Report
begin

text \<open>
  The verdict of the analyzer (\<open>internal/analyzer/assessment.go\<close>).  \<open>assess\<close> is the
  composition of its passes: the tally of the timeline, the reasons of the whole window, one
  step per signal, the triggers of an automatic incident, the verdict, the checks that follow
  it, and the final state of the evidence.  Each \<open>add(CoverageReason{..})\<close> of the source is a
  definition of its own.
\<close>

definition add_reason :: "CoverageReason \<Rightarrow> Assessment \<Rightarrow> Assessment" where
  "add_reason n a = a\<lparr>as_Reasons := as_Reasons a @ [n]\<rparr>"

definition add_diagnostic :: "CoverageReason \<Rightarrow> Assessment \<Rightarrow> Assessment" where
  "add_diagnostic n a = a\<lparr>as_Diagnostics := as_Diagnostics a @ [n]\<rparr>"

definition add_when :: "bool \<Rightarrow> CoverageReason \<Rightarrow> Assessment \<Rightarrow> Assessment" where
  "add_when c n a = (if c then add_reason n a else a)"

definition new_assessment :: Assessment where
  "new_assessment = zero_Assessment\<lparr>as_Code := ''no_anomalies_observed'', as_Severity := ''info'',
     as_Title := ''NO ANOMALIES OBSERVED'', as_SignalState := ''clear'', as_EvidenceState := ''complete'',
     as_Signals := ''Signals: no anomalies found in the measured observations.'',
     as_Evidence := ''Evidence: no collection gaps reported in captured aggregate intervals.''\<rparr>"

section \<open>The tally of the timeline\<close>

record tally =
  ta_details :: "string \<Rightarrow> u64"
  ta_worst :: "string \<Rightarrow> LatencyHighlight option"

definition bump :: "string \<Rightarrow> tally \<Rightarrow> tally" where
  "bump k t = t\<lparr>ta_details := (ta_details t)(k := ta_details t k + 1)\<rparr>"

definition worst_latency :: "tally \<Rightarrow> string \<Rightarrow> u64" where
  "worst_latency t k = (case ta_worst t k of None \<Rightarrow> 0 | Some h \<Rightarrow> lh_LatencyNS h)"

definition tally_event :: "RecordingSettings \<Rightarrow> int \<Rightarrow> Event \<Rightarrow> tally \<Rightarrow> tally" where
  "tally_event cfg i e t =
     (if ev_Type e = ''oom'' \<or> ev_Type e = ''tcp_retransmit'' \<or> ev_Type e = ''tcp_reset'' then bump (ev_Type e) t
      else if ev_Type e = ''block_io'' \<or> ev_Type e = ''scheduler'' then
        if 0 < ev_LatencyNS e then
          let t1 = bump (ev_Type e) t
          in if worst_latency t1 (ev_Type e) < ev_LatencyNS e then
               let threshold = (if ev_Type e = ''scheduler'' then rs_SchedulerThresholdNS cfg else rs_BlockThresholdNS cfg)
               in t1\<lparr>ta_worst := (ta_worst t1)(ev_Type e \<mapsto>
                    \<lparr>lh_Family = ev_Type e, lh_LatencyNS = ev_LatencyNS e, lh_ThresholdNS = threshold, lh_EventIndex = i\<rparr>)\<rparr>
             else t1
        else t
      else t)"

fun tally_from :: "RecordingSettings \<Rightarrow> int \<Rightarrow> Event list \<Rightarrow> tally \<Rightarrow> tally" where
  "tally_from cfg i [] t = t"
| "tally_from cfg i (e # es) t = tally_from cfg (i + 1) es (tally_event cfg i e t)"

definition tally_timeline :: "AnalyzerReport \<Rightarrow> tally" where
  "tally_timeline r = tally_from (mf_Settings (rp_Manifest r)) 0 (rp_Timeline r)
     \<lparr>ta_details = (\<lambda>_. 0), ta_worst = (\<lambda>_. None)\<rparr>"

section \<open>The whole window\<close>

definition compacted_reason :: "u64 \<Rightarrow> CoverageReason" where
  "compacted_reason end_ns = zero_CoverageReason\<lparr>cr_Code := ''older_details_compacted'', cr_Severity := ''warning'',
     cr_Scope := ''window'', cr_Limited := True, cr_Title := ''Older event details were compacted'',
     cr_Explanation := ''Aggregate counts and histograms remain available through the older part of this capture, but individual event details from that period were discarded to stay within the recorder memory budget.'',
     cr_Evidence := [Ref ''manifest'' 0 (''aggregate_only_until_ns='' @ show_u64 end_ns)]\<rparr>"

definition compacted_step :: "Manifest \<Rightarrow> Assessment \<Rightarrow> Assessment" where
  "compacted_step m a = add_when (mf_StartMonoNS m < mf_AggregateOnlyUntilNS m)
     (compacted_reason (mf_AggregateOnlyUntilNS m)) a"

definition clock_diagnostic :: "Health \<Rightarrow> CoverageReason" where
  "clock_diagnostic h = zero_CoverageReason\<lparr>cr_Code := ''clock_discontinuities'', cr_Severity := ''warning'',
     cr_Scope := ''lifetime'', cr_Count := he_ClockChanges h, cr_Title := ''Wall-clock discontinuities detected'',
     cr_Explanation := ''This daemon-lifetime count does not imply missing observations. UTC timestamps are projected using the capture-time clock sample; timestamps preceding a clock step may be shifted.''
       @ (case he_LastClockChange h of None \<Rightarrow> []
          | Some latest \<Rightarrow> '' Latest: '' @ RFC3339 (cd_DetectedAt latest) @ '' UTC, offset change ''
              @ Duration_String (cd_OffsetChangeNS latest) @ ''.'')\<rparr>"

definition clock_step :: "Health \<Rightarrow> Assessment \<Rightarrow> Assessment" where
  "clock_step h a = (if 0 < he_ClockChanges h then add_diagnostic (clock_diagnostic h) a else a)"

section \<open>One signal\<close>

definition observe_signal :: "AnalyzerReport \<Rightarrow> (string \<Rightarrow> u64) \<Rightarrow> Summary \<Rightarrow> ObservedSignals \<Rightarrow> ObservedSignals" where
  "observe_signal r details s n =
     (if sm_Family s = ''block_io'' \<or> sm_Family s = ''scheduler'' then
        let critical = criticalCount r s
        in n\<lparr>os_Slow := os_Slow n + max (max (sm_Anomalies s) (details (sm_Family s))) critical,
             os_Critical := os_Critical n + critical\<rparr>
      else if sm_Family s = ''tcp'' then
        n\<lparr>os_Retransmits := max (sm_Retransmits s) (details ''tcp_retransmit''),
          os_Resets := max (sm_Resets s) (details ''tcp_reset'')\<rparr>
      else if sm_Family s = ''oom'' then n\<lparr>os_OOMVictims := max (sm_Count s) (details ''oom'')\<rparr>
      else n)"

definition signal_refs :: "int \<Rightarrow> Summary \<Rightarrow> EvidenceRef list" where
  "signal_refs i s =
     [Ref ''aggregate'' i (''state='' @ sm_State s @ '' covered_ns='' @ show_u64 (sm_CoveredNS s))]"

definition unavailable_reason :: "int \<Rightarrow> Summary \<Rightarrow> CoverageReason" where
  "unavailable_reason i s = zero_CoverageReason\<lparr>cr_Code := ''sensor_unavailable'', cr_Severity := ''warning'',
     cr_Scope := ''window'', cr_Sensor := sm_Family s, cr_Limited := True,
     cr_Title := sensorName (sm_Family s) @ '' coverage unavailable or incomplete'',
     cr_Explanation := ''The subsystem cannot be assessed for the full window. Sensor state: '' @ sm_State s @ ''. '' @ sm_Reason s,
     cr_Evidence := signal_refs i s\<rparr>"

definition no_intervals_reason :: "int \<Rightarrow> Summary \<Rightarrow> CoverageReason" where
  "no_intervals_reason i s = zero_CoverageReason\<lparr>cr_Code := ''no_metric_intervals'', cr_Severity := ''warning'',
     cr_Scope := ''window'', cr_Sensor := sm_Family s, cr_Limited := True,
     cr_Title := sensorName (sm_Family s) @ '': no complete metric intervals'',
     cr_Explanation := ''No aggregate interval was retained for this subsystem; zero counts cannot establish absence of anomalies.'',
     cr_Evidence := signal_refs i s\<rparr>"

definition metric_gap_reason :: "int \<Rightarrow> u64 \<Rightarrow> Summary \<Rightarrow> CoverageReason" where
  "metric_gap_reason i window s = zero_CoverageReason\<lparr>cr_Code := ''metric_gap'', cr_Severity := ''warning'',
     cr_Scope := ''window'', cr_Sensor := sm_Family s, cr_Limited := True,
     cr_Title := sensorName (sm_Family s) @ '': aggregate coverage is shorter than the window'',
     cr_Explanation := seconds_1f (sm_CoveredNS s) @ ''s of metrics for a '' @ seconds_1f window @ ''s window. Some activity cannot be assessed.'',
     cr_Evidence := signal_refs i s\<rparr>"

definition coverage_step :: "Manifest \<Rightarrow> u64 \<Rightarrow> int \<Rightarrow> Summary \<Rightarrow> Assessment \<Rightarrow> Assessment" where
  "coverage_step m window i s a =
     (if sm_State s \<noteq> ''healthy'' then add_reason (unavailable_reason i s) a
      else if sm_CoveredNS s = 0 then add_reason (no_intervals_reason i s) a
      else if coverageTolerance m < window \<and> sm_CoveredNS s < window
          \<and> coverageTolerance m < window - sm_CoveredNS s then add_reason (metric_gap_reason i window s) a
      else a)"

text \<open>The saved health of a family: its lifetime losses, its index (\<open>-1\<close> when there is none) and its
  reset coverage.\<close>

fun life_from :: "string \<Rightarrow> int \<Rightarrow> SensorHealth list \<Rightarrow> Counters \<times> int \<times> string" where
  "life_from family j [] = (zero_Counters, - 1, [])"
| "life_from family j (h # hs) =
     (if sh_Name h = family then (sh_Loss h, j, sh_TCPResetCoverage h) else life_from family (j + 1) hs)"

definition tcp_resets_reason :: "string \<Rightarrow> int \<Rightarrow> CoverageReason" where
  "tcp_resets_reason coverage lifeIndex =
     (let unknown = (coverage = TCPResetCoverageUnknown)
      in zero_CoverageReason\<lparr>cr_Code := ''tcp_socketless_resets_unavailable'',
        cr_Severity := (if unknown then ''warning'' else ''info''), cr_Scope := ''sensor_capability'',
        cr_Sensor := ''tcp'', cr_Limited := unknown, cr_Title := ''TCP reset coverage is limited'',
        cr_Explanation := (if unknown
          then ''The kernel's socketless sent-reset tracepoint capability could not be determined. Zero observed resets cannot establish their absence.''
          else ''This kernel's TCP reset tracepoint does not expose sent resets without a full socket, including refused connections, TIME_WAIT and request sockets. Zero observed resets cannot establish their absence.''),
        cr_Evidence := [Ref ''sensor_health'' lifeIndex (''tcp_reset_coverage='' @ coverage)]\<rparr>)"

definition tcp_resets_step :: "Summary \<Rightarrow> string \<Rightarrow> int \<Rightarrow> Assessment \<Rightarrow> Assessment" where
  "tcp_resets_step s coverage lifeIndex a =
     add_when (sm_Family s = ''tcp'' \<and> (coverage = TCPResetCoverageLimited \<or> coverage = TCPResetCoverageUnknown))
       (tcp_resets_reason coverage lifeIndex) a"

definition lifetime_count :: "CounterNote \<Rightarrow> CounterNote list \<Rightarrow> u64 option" where
  "lifetime_count n historical =
     foldl (\<lambda>acc old. if cn_Counter old = cn_Counter n then Some (cn_Value old) else acc) None historical"

definition loss_reason :: "int \<Rightarrow> string \<Rightarrow> CounterNote list \<Rightarrow> CounterNote \<Rightarrow> CoverageReason" where
  "loss_reason i family historical n = zero_CoverageReason\<lparr>cr_Code := cn_Counter n, cr_Severity := ''warning'',
     cr_Scope := ''window'', cr_Sensor := family, cr_Counter := cn_Counter n, cr_Count := cn_Value n,
     cr_Limited := True, cr_Title := cn_Title n, cr_Explanation := cn_Explanation n,
     cr_Evidence := [Ref ''aggregate'' i (cn_Counter n @ ''='' @ show_u64 (cn_Value n) @ '' (captured aggregate intervals)'')],
     cr_LifetimeCount := lifetime_count n historical\<rparr>"

definition lifetime_diagnostic :: "int \<Rightarrow> string \<Rightarrow> CounterNote \<Rightarrow> CoverageReason" where
  "lifetime_diagnostic lifeIndex family n = zero_CoverageReason\<lparr>cr_Code := cn_Counter n, cr_Severity := ''info'',
     cr_Scope := ''lifetime'', cr_Sensor := family, cr_Counter := cn_Counter n, cr_Count := cn_Value n,
     cr_Title := cn_Title n,
     cr_Explanation := cn_Explanation n @ '' This is a daemon lifetime total, not an additional window loss.'',
     cr_Evidence := [Ref ''sensor_health'' lifeIndex (cn_Counter n @ ''='' @ show_u64 (cn_Value n) @ '' (daemon lifetime)'')]\<rparr>"

definition loss_step :: "int \<Rightarrow> Summary \<Rightarrow> Counters \<Rightarrow> int \<Rightarrow> Assessment \<Rightarrow> Assessment" where
  "loss_step i s life lifeIndex a =
     (let current = CounterNotes (sm_Family s) (sm_Loss s); historical = CounterNotes (sm_Family s) life
      in a\<lparr>as_Reasons := as_Reasons a @ map (loss_reason i (sm_Family s) historical) current,
           as_Diagnostics := as_Diagnostics a @ map (lifetime_diagnostic lifeIndex (sm_Family s)) historical\<rparr>)"

definition highlight_step :: "tally \<Rightarrow> Summary \<Rightarrow> Assessment \<Rightarrow> Assessment" where
  "highlight_step t s a =
     (case ta_worst t (sm_Family s) of None \<Rightarrow> a | Some h \<Rightarrow> a\<lparr>as_Highlights := as_Highlights a @ [h]\<rparr>)"

text \<open>The state of the loop over the signals: the assessment, \<open>activity\<close> and \<open>monitored\<close>.\<close>

record signal_scan =
  ss_a :: Assessment
  ss_activity :: u64
  ss_monitored :: u64

definition assess_signal :: "AnalyzerReport \<Rightarrow> tally \<Rightarrow> int \<Rightarrow> Summary \<Rightarrow> signal_scan \<Rightarrow> signal_scan" where
  "assess_signal r t i s sc =
     (if sm_State s = ''disabled'' then sc
      else
        let m = rp_Manifest r; window = mf_EndMonoNS m - mf_StartMonoNS m;
            a1 = (ss_a sc)\<lparr>as_Observed := observe_signal r (ta_details t) s (as_Observed (ss_a sc))\<rparr>;
            a2 = highlight_step t s a1;
            a3 = coverage_step m window i s a2;
            (life, lifeIndex, coverage) = life_from (sm_Family s) 0 (he_Sensors (mf_Health m));
            a4 = tcp_resets_step s coverage lifeIndex a3;
            a5 = loss_step i s life lifeIndex a4
        in \<lparr>ss_a = a5, ss_activity = ss_activity sc + sm_Count s, ss_monitored = ss_monitored sc + sm_CoveredNS s\<rparr>)"

fun assess_signals :: "AnalyzerReport \<Rightarrow> tally \<Rightarrow> int \<Rightarrow> Summary list \<Rightarrow> signal_scan \<Rightarrow> signal_scan" where
  "assess_signals r t i [] sc = sc"
| "assess_signals r t i (s # ss) sc = assess_signals r t (i + 1) ss (assess_signal r t i s sc)"

section \<open>Triggers\<close>

definition evidence_retained :: "AnalyzerReport \<Rightarrow> (string \<Rightarrow> u64) \<Rightarrow> AutoTrigger \<Rightarrow> bool" where
  "evidence_retained r details g =
     (case find (\<lambda>s. sm_Family s = at_Family g) (rp_Signals r) of
        None \<Rightarrow> False
      | Some s \<Rightarrow> if at_Family g = ''oom'' then 0 < sm_Count s \<or> 0 < details ''oom'' else 0 < criticalCount r s)"

definition trigger_evidence_reason :: "AutoTrigger \<Rightarrow> CoverageReason" where
  "trigger_evidence_reason g = zero_CoverageReason\<lparr>cr_Code := ''trigger_evidence_not_retained'',
     cr_Severity := ''warning'', cr_Scope := ''trigger'', cr_Sensor := at_Family g, cr_Limited := True,
     cr_Title := sensorName (at_Family g) @ '': critical trigger evidence not retained'',
     cr_Explanation := ''The automatic trigger metadata confirms why recording started, but retained aggregates and details do not show this subsystem's triggering observations. Trigger counts are not added to captured-window totals.'',
     cr_Evidence := [Ref ''manifest'' 0 ''auto_incident'']\<rparr>"

definition trigger_intervals_reason :: CoverageReason where
  "trigger_intervals_reason = zero_CoverageReason\<lparr>cr_Code := ''trigger_intervals_missing'',
     cr_Severity := ''warning'', cr_Scope := ''trigger'', cr_Limited := True,
     cr_Title := ''Some trigger intervals precede retained evidence'',
     cr_Explanation := ''Automatic trigger metadata preserves the reason for recording. Its counts are not added to captured-window totals.'',
     cr_Evidence := [Ref ''manifest'' 0 ''auto_incident'']\<rparr>"

text \<open>The loop over the triggers, with \<open>triggerIntervalsMissing\<close> and \<open>triggerEvidenceMissing\<close>.\<close>

fun assess_triggers :: "AnalyzerReport \<Rightarrow> (string \<Rightarrow> u64) \<Rightarrow> AutoTrigger list \<Rightarrow> bool \<times> bool \<times> Assessment \<Rightarrow> bool \<times> bool \<times> Assessment" where
  "assess_triggers r details [] st = st"
| "assess_triggers r details (g # gs) (intervals, evidence, a) =
     (let intervals' = (intervals \<or> at_FirstIntervalStartNS g < mf_StartMonoNS (rp_Manifest r))
      in if evidence_retained r details g then assess_triggers r details gs (intervals', evidence, a)
         else assess_triggers r details gs (intervals', True, add_reason (trigger_evidence_reason g) a))"

definition incident_step :: "AnalyzerReport \<Rightarrow> (string \<Rightarrow> u64) \<Rightarrow> Assessment \<Rightarrow> bool \<times> Assessment" where
  "incident_step r details a =
     (case mf_AutoIncident (rp_Manifest r) of
        None \<Rightarrow> (False, a)
      | Some incident \<Rightarrow>
          let (intervals, evidence, a1) = assess_triggers r details (ai_Triggers incident) (False, False, a)
          in (evidence, add_when intervals trigger_intervals_reason a1))"

section \<open>The verdict\<close>

definition set_verdict :: "string \<Rightarrow> string \<Rightarrow> string \<Rightarrow> string \<Rightarrow> string \<Rightarrow> Assessment \<Rightarrow> Assessment" where
  "set_verdict code severity title state signals a =
     a\<lparr>as_Code := code, as_Severity := severity, as_Title := title, as_SignalState := state, as_Signals := signals\<rparr>"

definition verdict_step :: "u64 \<Rightarrow> Assessment \<Rightarrow> Assessment" where
  "verdict_step activity a =
     (let n = as_Observed a
      in if 0 < os_OOMVictims n then
           set_verdict ''oom_victims_observed'' ''critical'' ''OOM VICTIMS OBSERVED'' ''critical''
             (''Signals: at least '' @ quantity (os_OOMVictims n) ''out-of-memory victim event'' ''out-of-memory victim events'' @ ''.'') a
         else if 0 < os_Critical n then
           set_verdict ''critical_latency_observed'' ''critical'' ''CRITICAL LATENCY OBSERVED'' ''critical''
             (''Signals: at least '' @ quantity (os_Critical n) ''critical latency observation'' ''critical latency observations''
              @ '' among '' @ quantity (os_Slow n) ''slow observation'' ''slow observations'' @ ''.''
              @ '' TCP: '' @ show_u64 (os_Retransmits n) @ '' retransmits, '' @ show_u64 (os_Resets n) @ '' reset observations.'') a
         else if 0 < os_Slow n \<or> 0 < os_Retransmits n \<or> 0 < os_Resets n then
           set_verdict ''signals_to_review'' ''warning'' ''SIGNALS TO REVIEW'' ''review''
             (''Signals: at least '' @ quantity (os_Slow n) ''slow observation'' ''slow observations'' @ '', ''
              @ quantity (os_Retransmits n) ''TCP retransmit'' ''TCP retransmits'' @ '', ''
              @ quantity (os_Resets n) ''reset observation'' ''reset observations'' @ ''.'') a
         else if activity = 0 then
           a\<lparr>as_Code := ''no_activity'', as_Title := ''NO ACTIVITY TO ASSESS'', as_SignalState := ''no_activity'',
             as_Signals := ''Signals: no activity measured; I/O and scheduler latency cannot be assessed.''\<rparr>
         else a)"

definition middle_dot :: string where "middle_dot = [CHR 0xC2, CHR 0xB7]"

definition trigger_verdict_step :: "bool \<Rightarrow> Assessment \<Rightarrow> Assessment" where
  "trigger_verdict_step triggerEvidenceMissing a =
     (if triggerEvidenceMissing \<and> as_SignalState a \<noteq> ''critical'' then
        set_verdict ''critical_trigger_detected'' ''critical''
          (''CRITICAL TRIGGER DETECTED '' @ middle_dot @ '' EVIDENCE LIMITED'') ''critical''
          ''Signals: automatic trigger metadata confirms critical latency or OOM; triggering observations are absent from retained evidence. Captured-window counts exclude those triggers.'' a
      else a)"

section \<open>Missing details\<close>

definition missing_details_reason :: "int \<Rightarrow> string \<Rightarrow> u64 \<Rightarrow> CoverageReason" where
  "missing_details_reason i family anomalies = zero_CoverageReason\<lparr>cr_Code := ''anomaly_details_missing'',
     cr_Severity := ''warning'', cr_Scope := ''window'', cr_Sensor := family, cr_Count := anomalies, cr_Limited := True,
     cr_Title := sensorName family @ '': anomalies counted, but no individual details retained'',
     cr_Explanation := ''The aggregates show activity to review; process attribution and individual events are unavailable.'',
     cr_Evidence := [Ref ''aggregate'' i (''anomalies='' @ show_u64 anomalies @ '' retained_details=0'')]\<rparr>"

definition missing_details :: "(string \<Rightarrow> u64) \<Rightarrow> Summary \<Rightarrow> u64 \<times> u64" where
  "missing_details details s =
     (let (anomalies, retained) =
            (if sm_Family s = ''tcp'' then (sm_Retransmits s + sm_Resets s, details ''tcp_retransmit'' + details ''tcp_reset'')
             else (sm_Anomalies s, details (sm_Family s)));
          anomalies' = (if sm_Family s = ''oom'' then sm_Count s else anomalies)
      in (anomalies', retained))"

fun details_steps :: "(string \<Rightarrow> u64) \<Rightarrow> int \<Rightarrow> Summary list \<Rightarrow> Assessment \<Rightarrow> Assessment" where
  "details_steps details i [] a = a"
| "details_steps details i (s # ss) a =
     (if sm_State s = ''disabled'' then details_steps details (i + 1) ss a
      else let (anomalies, retained) = missing_details details s
           in details_steps details (i + 1) ss
                (add_when (0 < anomalies \<and> retained = 0) (missing_details_reason i (sm_Family s) anomalies) a))"

text \<open>TCP events without an endpoint: their number and references to the first five.\<close>

fun endpoints_from :: "int \<Rightarrow> Event list \<Rightarrow> u64 \<times> EvidenceRef list \<Rightarrow> u64 \<times> EvidenceRef list" where
  "endpoints_from i [] st = st"
| "endpoints_from i (e # es) (missing, refs) =
     (if (ev_Type e = ''tcp_reset'' \<or> ev_Type e = ''tcp_retransmit'') \<and> (ev_SourceIP e = [] \<or> ev_DestinationIP e = []) then
        endpoints_from (i + 1) es
          (missing + 1,
           if length refs < 5 then refs @ [Ref ''event'' i (ev_Type e @ '' endpoint metadata unavailable'')] else refs)
      else endpoints_from (i + 1) es (missing, refs))"

definition endpoints_reason :: "u64 \<Rightarrow> EvidenceRef list \<Rightarrow> CoverageReason" where
  "endpoints_reason missing refs = zero_CoverageReason\<lparr>cr_Code := ''tcp_endpoints_unavailable'',
     cr_Severity := ''warning'', cr_Scope := ''retained_events'', cr_Sensor := ''tcp'', cr_Count := missing,
     cr_Limited := True,
     cr_Title := quantity missing ''TCP event lacks endpoint metadata'' ''TCP events lack endpoint metadata'',
     cr_Explanation := ''These observations were retained, but their peer addresses cannot be identified from the capture. Older sensors collected only socket metadata and missed the packet tuple of socket-less reset responses. Process ownership is separately outside the current sensor's scope.'',
     cr_Evidence := refs\<rparr>"

definition endpoints_step :: "Event list \<Rightarrow> Assessment \<Rightarrow> Assessment" where
  "endpoints_step timeline a =
     (let (missing, refs) = endpoints_from 0 timeline (0, [])
      in add_when (0 < missing) (endpoints_reason missing refs) a)"

section \<open>The requested history and the drops of the daemon\<close>

definition rounded_ms :: "u64 \<Rightarrow> string" where
  "rounded_ms d = Duration_String (Duration_Round (sint d) Millisecond)"

definition history_reason :: "Manifest \<Rightarrow> CoverageReason" where
  "history_reason m =
     (let missing = mf_StartMonoNS m - mf_RequestedStartMonoNS m;
          requested = mf_EndMonoNS m - mf_RequestedStartMonoNS m;
          start = mf_RecordingStartMonoNS m
      in zero_CoverageReason\<lparr>cr_Code := ''history_truncated'', cr_Severity := ''warning'',
        cr_Scope := ''requested_window'', cr_Limited := True,
        cr_Title := ''Requested history was not fully retained'',
        cr_Explanation := rounded_ms missing @ '' of the requested '' @ rounded_ms requested
          @ '' is unavailable. The report covers only the retained window.''
          @ (if mf_RequestedStartMonoNS m < start
             then '' The recorder had not started for the first '' @ rounded_ms (start - mf_RequestedStartMonoNS m) @ '' of the request.''
             else []),
        cr_Evidence := [Ref ''manifest'' 0 (''missing_history_ns='' @ show_u64 missing)]\<rparr>)"

definition history_step :: "Manifest \<Rightarrow> Assessment \<Rightarrow> Assessment" where
  "history_step m a = add_when (mf_RequestedStartMonoNS m < mf_StartMonoNS m) (history_reason m) a"

definition drops_reason :: "Health \<Rightarrow> CoverageReason" where
  "drops_reason h = zero_CoverageReason\<lparr>cr_Code := ''userspace_drops'', cr_Severity := ''warning'',
     cr_Scope := ''lifetime_window_unknown'', cr_Count := he_IngressDrops h + he_RecorderDrops h, cr_Limited := True,
     cr_Title := ''Some observations were dropped during this daemon run'',
     cr_Explanation := show_u64 (he_IngressDrops h) @ '' event details were rejected by userspace ingress; ''
       @ show_u64 (he_RecorderDrops h) @ '' observations could not be retained by the recorder. These counters are lifetime-only; occurrence in this window is unknown.'',
     cr_Evidence := [Ref ''health'' 0 (''ingress_drops='' @ show_u64 (he_IngressDrops h) @ '' recorder_drops=''
       @ show_u64 (he_RecorderDrops h) @ '' (daemon lifetime)'')]\<rparr>"

definition drops_step :: "Health \<Rightarrow> Assessment \<Rightarrow> Assessment" where
  "drops_step h a = add_when (0 < he_IngressDrops h + he_RecorderDrops h) (drops_reason h) a"

section \<open>The state of the evidence\<close>

fun count_limited :: "CoverageReason list \<Rightarrow> nat \<Rightarrow> string \<Rightarrow> nat \<times> string" where
  "count_limited [] n text = (n, text)"
| "count_limited (c # cs) n text =
     (if cr_Limited c then count_limited cs (Suc n) (if n = 0 then ''Evidence incomplete: '' @ cr_Title c @ ''.'' else text)
      else count_limited cs n text)"

definition evidence_step :: "u64 \<Rightarrow> Event list \<Rightarrow> Assessment \<Rightarrow> Assessment" where
  "evidence_step monitored timeline a =
     (let (limitedReasons, text) = count_limited (as_Reasons a) 0 (as_Evidence a)
      in if 0 < limitedReasons then
           let text' = (if 1 < limitedReasons
                 then text @ '' '' @ quantity (of_nat (limitedReasons - 1)) ''other collection note below'' ''other collection notes below'' @ ''.''
                 else text);
               a1 = a\<lparr>as_EvidenceState := ''limited'', as_Evidence := text'\<rparr>;
               a2 = (if as_SignalState a1 = ''clear'' then
                       a1\<lparr>as_Code := ''no_anomalies_evidence_limited'', as_Severity := ''warning'',
                          as_Title := as_Title a1 @ '' '' @ middle_dot @ '' EVIDENCE LIMITED''\<rparr>
                     else if as_SignalState a1 = ''no_activity'' then
                       a1\<lparr>as_Code := ''insufficient_evidence'', as_Severity := ''warning'', as_Title := ''INSUFFICIENT EVIDENCE''\<rparr>
                     else a1)
           in if monitored = 0 \<and> length timeline = 0 then a2\<lparr>as_EvidenceState := ''unavailable''\<rparr> else a2
         else if monitored = 0 then a\<lparr>as_Evidence := ''Evidence: no complete aggregate intervals available.''\<rparr>
         else a)"

definition assess :: "AnalyzerReport \<Rightarrow> Assessment" where
  "assess r =
     (let m = rp_Manifest r; h = mf_Health m; t = tally_timeline r;
          a1 = clock_step h (compacted_step m new_assessment);
          sc = assess_signals r t 0 (rp_Signals r) \<lparr>ss_a = a1, ss_activity = 0, ss_monitored = 0\<rparr>;
          (triggerEvidenceMissing, a2) = incident_step r (ta_details t) (ss_a sc);
          a3 = trigger_verdict_step triggerEvidenceMissing (verdict_step (ss_activity sc) a2);
          a4 = details_steps (ta_details t) 0 (rp_Signals r) a3;
          a5 = drops_step h (history_step m (endpoints_step (rp_Timeline r) a4))
      in evidence_step (ss_monitored sc) (rp_Timeline r) a5)"

end
