(* ===== verification/Assessment_Theorems.thy ===== *)
theory Assessment_Theorems
  imports Assessment
begin

text \<open>
  What the verdict means.  Each step of \<open>assess\<close> is described by what it does to the limiting reasons, to
  the observed signals and to the references; the three properties follow by composing the steps.
\<close>

section \<open>The tally\<close>

text \<open>The events a detail counter counts.\<close>

definition counted :: "string \<Rightarrow> Event \<Rightarrow> bool" where
  "counted k e \<longleftrightarrow> ev_Type e = k \<and>
     (k = ''oom'' \<or> k = ''tcp_retransmit'' \<or> k = ''tcp_reset'' \<or> (k = ''block_io'' \<or> k = ''scheduler'') \<and> 0 < ev_LatencyNS e)"

definition details_of :: "AnalyzerReport \<Rightarrow> string \<Rightarrow> u64" where
  "details_of r k = of_nat (length (filter (counted k) (rp_Timeline r)))"

lemma tally_event_details: "ta_details (tally_event cfg i e t) k = ta_details t k + (if counted k e then 1 else 0)"
  by (auto simp: tally_event_def counted_def bump_def Let_def)

lemma tally_from_details:
  "ta_details (tally_from cfg i es t) k = ta_details t k + of_nat (length (filter (counted k) es))"
  by (induction es arbitrary: i t) (simp_all add: tally_event_details algebra_simps)

lemma tally_timeline_details: "ta_details (tally_timeline r) = details_of r"
  by (rule ext) (simp add: tally_timeline_def tally_from_details details_of_def)

definition highlight_ok :: "nat \<Rightarrow> LatencyHighlight \<Rightarrow> bool" where
  "highlight_ok n h \<longleftrightarrow> 0 \<le> lh_EventIndex h \<and> lh_EventIndex h < int n"

lemma tally_from_worst:
  "0 \<le> i \<Longrightarrow> i + int (length es) \<le> int n \<Longrightarrow> \<forall>k h. ta_worst t k = Some h \<longrightarrow> highlight_ok n h \<Longrightarrow>
   ta_worst (tally_from cfg i es t) k = Some h \<Longrightarrow> highlight_ok n h"
proof (induction es arbitrary: i t)
  case (Cons e es)
  have "\<forall>k h. ta_worst (tally_event cfg i e t) k = Some h \<longrightarrow> highlight_ok n h"
    using Cons.prems(1-3) by (auto simp: tally_event_def bump_def Let_def highlight_ok_def)
  then show ?case using Cons.IH [of "i + 1" "tally_event cfg i e t"] Cons.prems by simp
qed auto

lemma tally_timeline_worst:
  "ta_worst (tally_timeline r) k = Some h \<Longrightarrow> highlight_ok (length (rp_Timeline r)) h"
  unfolding tally_timeline_def by (rule tally_from_worst) auto


section \<open>Limiting reasons\<close>

definition limited :: "Assessment \<Rightarrow> bool" where
  "limited a \<longleftrightarrow> (\<exists>c \<in> set (as_Reasons a). cr_Limited c)"

lemma limited_new [simp]: "\<not> limited new_assessment"
  by (simp add: limited_def new_assessment_def zero_Assessment_def)

lemma limited_add [simp]: "limited (add_reason n a) \<longleftrightarrow> limited a \<or> cr_Limited n"
  by (auto simp: limited_def add_reason_def)

lemma limited_when [simp]: "limited (add_when c n a) \<longleftrightarrow> limited a \<or> c \<and> cr_Limited n"
  by (simp add: add_when_def)

lemma limited_diagnostic [simp]: "limited (add_diagnostic n a) \<longleftrightarrow> limited a"
  by (simp add: limited_def add_diagnostic_def)

lemma limited_frame [simp]:
  "limited (a\<lparr>as_Observed := n\<rparr>) \<longleftrightarrow> limited a"
  "limited (highlight_step t s a) \<longleftrightarrow> limited a"
  "limited (verdict_step k a) \<longleftrightarrow> limited a"
  "limited (trigger_verdict_step b a) \<longleftrightarrow> limited a"
  by (simp_all add: limited_def highlight_step_def verdict_step_def trigger_verdict_step_def set_verdict_def Let_def
      split: option.split)

lemma reason_limits [simp]:
  "cr_Limited (compacted_reason e)" "cr_Limited (unavailable_reason i s)" "cr_Limited (no_intervals_reason i s)"
  "cr_Limited (metric_gap_reason i w s)" "cr_Limited (loss_reason i f hs n)" "cr_Limited (trigger_evidence_reason g)"
  "cr_Limited trigger_intervals_reason" "cr_Limited (missing_details_reason i f c)" "cr_Limited (endpoints_reason c refs)"
  "cr_Limited (history_reason m)" "cr_Limited (drops_reason h)"
  "cr_Limited (tcp_resets_reason cov j) \<longleftrightarrow> cov = TCPResetCoverageUnknown"
  by (simp_all add: compacted_reason_def unavailable_reason_def no_intervals_reason_def metric_gap_reason_def
      loss_reason_def trigger_evidence_reason_def trigger_intervals_reason_def missing_details_reason_def
      endpoints_reason_def history_reason_def drops_reason_def tcp_resets_reason_def Let_def)

lemma limited_compacted [simp]:
  "limited (compacted_step m a) \<longleftrightarrow> limited a \<or> mf_StartMonoNS m < mf_AggregateOnlyUntilNS m"
  by (simp add: compacted_step_def)

lemma limited_clock [simp]: "limited (clock_step h a) \<longleftrightarrow> limited a"
  by (simp add: clock_step_def)

text \<open>What limits the evidence of one enabled signal.\<close>

definition reset_coverage :: "AnalyzerReport \<Rightarrow> Summary \<Rightarrow> string" where
  "reset_coverage r s =
     (case find (\<lambda>h. sh_Name h = sm_Family s) (he_Sensors (mf_Health (rp_Manifest r))) of
        None \<Rightarrow> [] | Some h \<Rightarrow> sh_TCPResetCoverage h)"

definition window_of :: "AnalyzerReport \<Rightarrow> u64" where
  "window_of r = mf_EndMonoNS (rp_Manifest r) - mf_StartMonoNS (rp_Manifest r)"

definition covers_window :: "AnalyzerReport \<Rightarrow> Summary \<Rightarrow> bool" where
  "covers_window r s \<longleftrightarrow>
     (let tolerance = coverageTolerance (rp_Manifest r); window = window_of r
      in window \<le> tolerance \<or> window \<le> sm_CoveredNS s \<or> window - sm_CoveredNS s \<le> tolerance)"

definition signal_complete :: "AnalyzerReport \<Rightarrow> Summary \<Rightarrow> bool" where
  "signal_complete r s \<longleftrightarrow> sm_State s = ''healthy'' \<and> 0 < sm_CoveredNS s \<and> covers_window r s
     \<and> \<not> (sm_Family s = ''tcp'' \<and> reset_coverage r s = TCPResetCoverageUnknown) \<and> sm_Loss s = zero_Counters"

lemma life_from_spec:
  "life_from f j hs = (case find (\<lambda>h. sh_Name h = f) hs of
      None \<Rightarrow> (zero_Counters, - 1, [])
    | Some h \<Rightarrow> (sh_Loss h, j + int (length (takeWhile (\<lambda>h. sh_Name h \<noteq> f) hs)), sh_TCPResetCoverage h))"
  by (induction hs arbitrary: j) (auto split: option.splits)

lemma limited_coverage: "limited (coverage_step (rp_Manifest r) (window_of r) i s a) \<longleftrightarrow>
  limited a \<or> \<not> (sm_State s = ''healthy'' \<and> 0 < sm_CoveredNS s \<and> covers_window r s)"
  by (auto simp: coverage_step_def covers_window_def Let_def word_gt_0 not_le)

lemma limited_loss: "limited (loss_step i s life j a) \<longleftrightarrow> limited a \<or> sm_Loss s \<noteq> zero_Counters"
  using CounterNotes_Nil [of "sm_Family s" "sm_Loss s"]
  by (cases "CounterNotes (sm_Family s) (sm_Loss s)") (auto simp: loss_step_def limited_def Let_def)

lemma limited_resets: "limited (tcp_resets_step s c j a) \<longleftrightarrow>
  limited a \<or> sm_Family s = ''tcp'' \<and> c = TCPResetCoverageUnknown"
  by (auto simp: tcp_resets_step_def)

lemma limited_signal:
  "limited (ss_a (assess_signal r t i s sc)) \<longleftrightarrow>
     limited (ss_a sc) \<or> sm_State s \<noteq> ''disabled'' \<and> \<not> signal_complete r s"
proof (cases "sm_State s = ''disabled''")
  case False
  then show ?thesis
    by (cases "life_from (sm_Family s) 0 (he_Sensors (mf_Health (rp_Manifest r)))")
      (auto simp: assess_signal_def Let_def window_of_def [symmetric] limited_loss limited_resets limited_coverage
        signal_complete_def reset_coverage_def life_from_spec split: option.splits)
qed (simp add: assess_signal_def)

lemma limited_signals:
  "limited (ss_a (assess_signals r t i ss sc)) \<longleftrightarrow>
     limited (ss_a sc) \<or> (\<exists>s \<in> set ss. sm_State s \<noteq> ''disabled'' \<and> \<not> signal_complete r s)"
  by (induction ss arbitrary: i sc) (auto simp: limited_signal)

lemma limited_triggers:
  "assess_triggers r d gs (iv, ev, a) = (iv', ev', a') \<Longrightarrow>
     (iv' \<longleftrightarrow> iv \<or> (\<exists>g \<in> set gs. at_FirstIntervalStartNS g < mf_StartMonoNS (rp_Manifest r)))
   \<and> (ev' \<longleftrightarrow> ev \<or> (\<exists>g \<in> set gs. \<not> evidence_retained r d g))
   \<and> (limited a' \<longleftrightarrow> limited a \<or> (\<exists>g \<in> set gs. \<not> evidence_retained r d g))"
proof (induction gs arbitrary: iv ev a)
  case (Cons g gs)
  show ?case
    using Cons.prems Cons.IH [of "iv \<or> at_FirstIntervalStartNS g < mf_StartMonoNS (rp_Manifest r)"]
    by (cases "evidence_retained r d g") (auto simp: Let_def)
qed simp

definition triggers_of :: "AnalyzerReport \<Rightarrow> AutoTrigger list" where
  "triggers_of r = (case mf_AutoIncident (rp_Manifest r) of None \<Rightarrow> [] | Some i \<Rightarrow> ai_Triggers i)"

lemma limited_incident:
  assumes "incident_step r d a = (ev, a')"
  shows "(ev \<longleftrightarrow> (\<exists>g \<in> set (triggers_of r). \<not> evidence_retained r d g))
    \<and> (limited a' \<longleftrightarrow> limited a \<or> (\<exists>g \<in> set (triggers_of r). \<not> evidence_retained r d g)
      \<or> (\<exists>g \<in> set (triggers_of r). at_FirstIntervalStartNS g < mf_StartMonoNS (rp_Manifest r)))"
proof (cases "mf_AutoIncident (rp_Manifest r)")
  case None
  then show ?thesis using assms by (simp add: incident_step_def triggers_of_def)
next
  case (Some i)
  obtain iv ev0 a1 where t: "assess_triggers r d (ai_Triggers i) (False, False, a) = (iv, ev0, a1)"
    by (metis prod_cases3)
  have "ev = ev0" "a' = add_when iv trigger_intervals_reason a1"
    using assms by (simp_all add: incident_step_def Some t)
  moreover have "triggers_of r = ai_Triggers i" by (simp add: triggers_of_def Some)
  ultimately show ?thesis using limited_triggers [OF t] by simp
qed

text \<open>Anomalies that the aggregates count while no detail of the subsystem was kept.\<close>

definition details_lost :: "AnalyzerReport \<Rightarrow> Summary \<Rightarrow> bool" where
  "details_lost r s \<longleftrightarrow> 0 < fst (missing_details (details_of r) s) \<and> snd (missing_details (details_of r) s) = 0"

lemma limited_details:
  "limited (details_steps (details_of r) i ss a) \<longleftrightarrow>
     limited a \<or> (\<exists>s \<in> set ss. sm_State s \<noteq> ''disabled'' \<and> details_lost r s)"
  by (induction ss arbitrary: i a) (auto simp: details_lost_def split_beta Let_def)

definition lacks_endpoint :: "Event \<Rightarrow> bool" where
  "lacks_endpoint e \<longleftrightarrow> (ev_Type e = ''tcp_reset'' \<or> ev_Type e = ''tcp_retransmit'')
     \<and> (ev_SourceIP e = [] \<or> ev_DestinationIP e = [])"

lemma endpoints_from_count:
  "fst (endpoints_from i es (n, refs)) = n + of_nat (length (filter lacks_endpoint es))"
  by (induction es arbitrary: i n refs) (auto simp: lacks_endpoint_def algebra_simps)

lemma of_nat_u64_zero:
  assumes "n < 2 ^ 64"
  shows "(of_nat n :: u64) = 0 \<longleftrightarrow> n = 0"
proof -
  have "unat (of_nat n :: u64) = n" using assms by (simp add: unsigned_of_nat take_bit_nat_eq_self)
  then show ?thesis using unat_eq_0 [of "of_nat n :: u64"] by (simp only:)
qed

lemma limited_endpoints:
  assumes "length es < 2 ^ 64"
  shows "limited (endpoints_step es a) \<longleftrightarrow> limited a \<or> (\<exists>e \<in> set es. lacks_endpoint e)"
proof -
  have "length (filter lacks_endpoint es) < 2 ^ 64"
    using assms length_filter_le [of lacks_endpoint es] by linarith
  then have "fst (endpoints_from 0 es (0, [])) = 0 \<longleftrightarrow> (\<forall>e \<in> set es. \<not> lacks_endpoint e)"
    by (simp add: endpoints_from_count of_nat_u64_zero filter_empty_conv)
  then show ?thesis by (auto simp: endpoints_step_def split_beta Let_def word_gt_0)
qed

lemma limited_history [simp]: "limited (history_step m a) \<longleftrightarrow> limited a \<or> mf_RequestedStartMonoNS m < mf_StartMonoNS m"
  by (simp add: history_step_def)

lemma limited_drops [simp]: "limited (drops_step h a) \<longleftrightarrow> limited a \<or> he_IngressDrops h + he_RecorderDrops h \<noteq> 0"
  by (simp add: drops_step_def word_gt_0)

section \<open>The verdict through the steps\<close>

definition verdict_of :: "Assessment \<Rightarrow> string \<times> string \<times> string \<times> string" where
  "verdict_of a = (as_Code a, as_Severity a, as_SignalState a, as_EvidenceState a)"

lemma verdict_frame [simp]:
  "verdict_of (add_reason n a) = verdict_of a"
  "verdict_of (add_diagnostic n a) = verdict_of a"
  "verdict_of (add_when c n a) = verdict_of a"
  "verdict_of (a\<lparr>as_Observed := ob\<rparr>) = verdict_of a"
  "verdict_of (highlight_step t s a) = verdict_of a"
  "verdict_of (loss_step i s life j a) = verdict_of a"
  by (simp_all add: verdict_of_def add_reason_def add_diagnostic_def add_when_def highlight_step_def loss_step_def
      Let_def split: option.split)

lemma verdict_frame_steps [simp]:
  "verdict_of (compacted_step m a) = verdict_of a"
  "verdict_of (clock_step h a) = verdict_of a"
  "verdict_of (coverage_step m w i s a) = verdict_of a"
  "verdict_of (tcp_resets_step s c j a) = verdict_of a"
  "verdict_of (endpoints_step es a) = verdict_of a"
  "verdict_of (history_step m a) = verdict_of a"
  "verdict_of (drops_step h a) = verdict_of a"
  by (simp_all add: compacted_step_def clock_step_def coverage_step_def tcp_resets_step_def endpoints_step_def
      history_step_def drops_step_def split_beta Let_def)

lemma verdict_frame_signals [simp]: "verdict_of (ss_a (assess_signals r t i ss sc)) = verdict_of (ss_a sc)"
  by (induction ss arbitrary: i sc) (simp_all add: assess_signal_def Let_def split_beta)

lemma verdict_frame_triggers: "assess_triggers r d gs (iv, ev, a) = (iv', ev', a') \<Longrightarrow> verdict_of a' = verdict_of a"
  by (induction gs arbitrary: iv ev a) (auto simp: Let_def split: if_splits)

lemma verdict_frame_incident: "incident_step r d a = (ev, a') \<Longrightarrow> verdict_of a' = verdict_of a"
  by (auto simp: incident_step_def Let_def split: option.splits prod.splits dest: verdict_frame_triggers)

lemma verdict_frame_details [simp]: "verdict_of (details_steps d i ss a) = verdict_of a"
  by (induction ss arbitrary: i a) (simp_all add: split_beta Let_def)

lemma verdict_new: "verdict_of new_assessment = (''no_anomalies_observed'', ''info'', ''clear'', ''complete'')"
  by (simp add: verdict_of_def new_assessment_def)

text \<open>The observed signals.\<close>

definition observed_of :: "AnalyzerReport \<Rightarrow> ObservedSignals" where
  "observed_of r = foldl (\<lambda>n s. if sm_State s = ''disabled'' then n else observe_signal r (details_of r) s n)
     zero_ObservedSignals (rp_Signals r)"

definition activity_of :: "AnalyzerReport \<Rightarrow> u64" where
  "activity_of r = sum_list (map sm_Count (filter (\<lambda>s. sm_State s \<noteq> ''disabled'') (rp_Signals r)))"

lemma observed_frame [simp]:
  "as_Observed (add_reason n a) = as_Observed a"
  "as_Observed (add_diagnostic n a) = as_Observed a"
  "as_Observed (add_when c n a) = as_Observed a"
  "as_Observed (highlight_step t s a) = as_Observed a"
  "as_Observed (loss_step i s life j a) = as_Observed a"
  by (simp_all add: add_reason_def add_diagnostic_def add_when_def highlight_step_def loss_step_def Let_def
      split: option.split)

lemma observed_frame_steps [simp]:
  "as_Observed (compacted_step m a) = as_Observed a"
  "as_Observed (clock_step h a) = as_Observed a"
  "as_Observed (coverage_step m w i s a) = as_Observed a"
  "as_Observed (tcp_resets_step s c j a) = as_Observed a"
  by (simp_all add: compacted_step_def clock_step_def coverage_step_def tcp_resets_step_def)

lemma assess_signals_observed:
  "as_Observed (ss_a (assess_signals r (tally_timeline r) i ss sc)) =
     foldl (\<lambda>n s. if sm_State s = ''disabled'' then n else observe_signal r (details_of r) s n) (as_Observed (ss_a sc)) ss"
  "ss_activity (assess_signals r (tally_timeline r) i ss sc) =
     ss_activity sc + sum_list (map sm_Count (filter (\<lambda>s. sm_State s \<noteq> ''disabled'') ss))"
  by (induction ss arbitrary: i sc)
    (simp_all add: assess_signal_def Let_def split_beta tally_timeline_details algebra_simps)

lemma assess_triggers_observed: "assess_triggers r d gs (iv, ev, a) = (iv', ev', a') \<Longrightarrow> as_Observed a' = as_Observed a"
  by (induction gs arbitrary: iv ev a) (auto simp: Let_def split: if_splits)

lemma incident_observed: "incident_step r d a = (ev, a') \<Longrightarrow> as_Observed a' = as_Observed a"
  by (auto simp: incident_step_def Let_def split: option.splits prod.splits dest: assess_triggers_observed)

lemma count_limited_eq: "fst (count_limited cs n t) = n + length (filter cr_Limited cs)"
  by (induction cs arbitrary: n t) auto

lemma count_limited_pos: "0 < fst (count_limited (as_Reasons a) 0 t) \<longleftrightarrow> limited a"
  by (auto simp: count_limited_eq limited_def filter_empty_conv)

lemma evidence_step_verdict:
  "verdict_of (evidence_step monitored es a) =
     (if limited a then
        (if as_SignalState a = ''clear'' then ''no_anomalies_evidence_limited''
         else if as_SignalState a = ''no_activity'' then ''insufficient_evidence'' else as_Code a,
         if as_SignalState a = ''clear'' \<or> as_SignalState a = ''no_activity'' then ''warning'' else as_Severity a,
         as_SignalState a,
         if monitored = 0 \<and> es = [] then ''unavailable'' else ''limited'')
      else verdict_of a)"
  using count_limited_pos [of a "as_Evidence a"]
  by (auto simp: evidence_step_def verdict_of_def Let_def split_beta)

section \<open>The properties\<close>

definition triggers_retained :: "AnalyzerReport \<Rightarrow> bool" where
  "triggers_retained r \<longleftrightarrow> (\<forall>g \<in> set (triggers_of r). evidence_retained r (details_of r) g)"

definition evidence_complete :: "AnalyzerReport \<Rightarrow> bool" where
  "evidence_complete r \<longleftrightarrow>
     (\<forall>s \<in> set (rp_Signals r). sm_State s \<noteq> ''disabled'' \<longrightarrow> signal_complete r s \<and> \<not> details_lost r s)
   \<and> mf_AggregateOnlyUntilNS (rp_Manifest r) \<le> mf_StartMonoNS (rp_Manifest r)
   \<and> mf_StartMonoNS (rp_Manifest r) \<le> mf_RequestedStartMonoNS (rp_Manifest r)
   \<and> he_IngressDrops (mf_Health (rp_Manifest r)) + he_RecorderDrops (mf_Health (rp_Manifest r)) = 0
   \<and> triggers_retained r
   \<and> (\<forall>g \<in> set (triggers_of r). mf_StartMonoNS (rp_Manifest r) \<le> at_FirstIntervalStartNS g)
   \<and> (\<forall>e \<in> set (rp_Timeline r). \<not> lacks_endpoint e)"

text \<open>The signal state and the severity that go with the observed signals.\<close>

definition signal_verdict :: "AnalyzerReport \<Rightarrow> string \<times> string \<times> string" where
  "signal_verdict r =
     (let n = observed_of r
      in if 0 < os_OOMVictims n then (''oom_victims_observed'', ''critical'', ''critical'')
         else if 0 < os_Critical n then (''critical_latency_observed'', ''critical'', ''critical'')
         else if \<not> triggers_retained r then (''critical_trigger_detected'', ''critical'', ''critical'')
         else if 0 < os_Slow n \<or> 0 < os_Retransmits n \<or> 0 < os_Resets n then (''signals_to_review'', ''warning'', ''review'')
         else if activity_of r = 0 then (''no_activity'', ''info'', ''no_activity'')
         else (''no_anomalies_observed'', ''info'', ''clear''))"

lemma verdict_steps:
  assumes "verdict_of a = (''no_anomalies_observed'', ''info'', ''clear'', ''complete'')"
    and "as_Observed a = observed_of r"
  shows "verdict_of (trigger_verdict_step (\<not> triggers_retained r) (verdict_step (activity_of r) a)) =
    (case signal_verdict r of (code, severity, state) \<Rightarrow> (code, severity, state, ''complete''))"
  using assms
  by (simp add: verdict_of_def trigger_verdict_step_def verdict_step_def set_verdict_def signal_verdict_def Let_def)

text \<open>The assessment before its last step.\<close>

lemma assess_parts:
  assumes "length (rp_Timeline r) < 2 ^ 64"
  obtains a monitored where "assess r = evidence_step monitored (rp_Timeline r) a"
    and "limited a \<longleftrightarrow> \<not> evidence_complete r"
    and "verdict_of a = (case signal_verdict r of (code, severity, state) \<Rightarrow> (code, severity, state, ''complete''))"
proof -
  define m where "m = rp_Manifest r"
  define a1 where "a1 = clock_step (mf_Health m) (compacted_step m new_assessment)"
  define sc where "sc = assess_signals r (tally_timeline r) 0 (rp_Signals r) \<lparr>ss_a = a1, ss_activity = 0, ss_monitored = 0\<rparr>"
  obtain ev a2 where i: "incident_step r (details_of r) (ss_a sc) = (ev, a2)" by (rule prod.exhaust)
  define a3 where "a3 = trigger_verdict_step ev (verdict_step (ss_activity sc) a2)"
  define a4 where "a4 = details_steps (details_of r) 0 (rp_Signals r) a3"
  define a5 where "a5 = drops_step (mf_Health m) (history_step m (endpoints_step (rp_Timeline r) a4))"
  have eq: "assess r = evidence_step (ss_monitored sc) (rp_Timeline r) a5"
    by (simp add: assess_def Let_def tally_timeline_details i a5_def a4_def a3_def m_def
        sc_def [unfolded a1_def m_def, symmetric])
  have ev: "ev \<longleftrightarrow> \<not> triggers_retained r"
    using limited_incident [OF i] by (simp add: triggers_retained_def)
  have act: "ss_activity sc = activity_of r"
    by (simp add: sc_def assess_signals_observed activity_of_def)
  have "as_Observed a1 = zero_ObservedSignals" by (simp add: a1_def new_assessment_def zero_Assessment_def)
  then have obs: "as_Observed a2 = observed_of r"
    using incident_observed [OF i] by (simp add: sc_def assess_signals_observed observed_of_def)
  have "verdict_of a2 = (''no_anomalies_observed'', ''info'', ''clear'', ''complete'')"
    using verdict_frame_incident [OF i] by (simp add: sc_def a1_def verdict_new)
  from verdict_steps [OF this obs] have v: "verdict_of a5 =
      (case signal_verdict r of (code, severity, state) \<Rightarrow> (code, severity, state, ''complete''))"
    by (simp add: a5_def a4_def a3_def ev act)
  have "limited a5 \<longleftrightarrow> \<not> evidence_complete r"
    using limited_incident [OF i]
    by (auto simp: a5_def a4_def a3_def limited_details limited_endpoints [OF assms] sc_def limited_signals a1_def
        evidence_complete_def triggers_retained_def m_def not_le)
  with eq v that show ?thesis by blast
qed

text \<open>The four signals of a report, and what each contributes.\<close>

definition slow_part :: "AnalyzerReport \<Rightarrow> Summary \<Rightarrow> u64" where
  "slow_part r s = (if sm_State s = ''disabled'' then 0
     else max (max (sm_Anomalies s) (details_of r (sm_Family s))) (criticalCount r s))"

definition critical_part :: "AnalyzerReport \<Rightarrow> Summary \<Rightarrow> u64" where
  "critical_part r s = (if sm_State s = ''disabled'' then 0 else criticalCount r s)"

definition seen_part :: "Summary \<Rightarrow> u64 \<Rightarrow> u64 \<Rightarrow> u64" where
  "seen_part s a d = (if sm_State s = ''disabled'' then 0 else max a d)"

lemma four_signals:
  assumes "map sm_Family (rp_Signals r) = Families"
  obtains b s t k where "rp_Signals r = [b, s, t, k]" "sm_Family b = ''block_io''" "sm_Family s = ''scheduler''"
    "sm_Family t = ''tcp''" "sm_Family k = ''oom''"
  using assms by (auto simp: Families_def map_eq_Cons_conv)

lemma observe_signal_cases:
  "sm_Family s = ''block_io'' \<Longrightarrow> observe_signal r d s n =
     n\<lparr>os_Slow := os_Slow n + max (max (sm_Anomalies s) (d ''block_io'')) (criticalCount r s),
       os_Critical := os_Critical n + criticalCount r s\<rparr>"
  "sm_Family s = ''scheduler'' \<Longrightarrow> observe_signal r d s n =
     n\<lparr>os_Slow := os_Slow n + max (max (sm_Anomalies s) (d ''scheduler'')) (criticalCount r s),
       os_Critical := os_Critical n + criticalCount r s\<rparr>"
  "sm_Family s = ''tcp'' \<Longrightarrow> observe_signal r d s n =
     n\<lparr>os_Retransmits := max (sm_Retransmits s) (d ''tcp_retransmit''), os_Resets := max (sm_Resets s) (d ''tcp_reset'')\<rparr>"
  "sm_Family s = ''oom'' \<Longrightarrow> observe_signal r d s n = n\<lparr>os_OOMVictims := max (sm_Count s) (d ''oom'')\<rparr>"
  by (simp_all add: observe_signal_def Let_def)

lemma observed_four:
  assumes "rp_Signals r = [b, s, t, k]" "sm_Family b = ''block_io''" "sm_Family s = ''scheduler''"
    "sm_Family t = ''tcp''" "sm_Family k = ''oom''"
  shows "observed_of r = \<lparr>os_Slow = slow_part r b + slow_part r s, os_Critical = critical_part r b + critical_part r s,
     os_Retransmits = seen_part t (sm_Retransmits t) (details_of r ''tcp_retransmit''),
     os_Resets = seen_part t (sm_Resets t) (details_of r ''tcp_reset''),
     os_OOMVictims = seen_part k (sm_Count k) (details_of r ''oom'')\<rparr>"
  using assms
  by (simp add: observed_of_def observe_signal_cases zero_ObservedSignals_def slow_part_def critical_part_def seen_part_def)

lemma count_critical_eq: "count_critical f th es n =
  n + of_nat (length (filter (\<lambda>e. ev_Type e = f \<and> th \<le> ev_LatencyNS e) es))"
  by (induction es arbitrary: n) (simp_all add: algebra_simps)

lemma details_of_zero: "length (rp_Timeline r) < 2 ^ 64 \<Longrightarrow>
  details_of r k = 0 \<longleftrightarrow> (\<forall>e \<in> set (rp_Timeline r). \<not> counted k e)"
  unfolding details_of_def
  by (subst of_nat_u64_zero [OF le_less_trans [OF length_filter_le]]) (auto simp: filter_empty_conv)

lemma max_zero_u64: "max a b = (0 :: u64) \<longleftrightarrow> a = 0 \<and> b = 0"
  by (auto simp: max_def)

lemma criticalCount_zero:
  assumes "\<forall>e \<in> set (rp_Timeline r). \<not> counted (sm_Family s) e"
    and "sm_Family s = ''block_io'' \<or> sm_Family s = ''scheduler''"
  shows "criticalCount r s = 0 \<longleftrightarrow> sm_Critical s = 0"
proof -
  have "filter (\<lambda>e. ev_Type e = sm_Family s \<and> th \<le> ev_LatencyNS e) (rp_Timeline r) = []" if "0 < th" for th
    using assms that by (auto simp: filter_empty_conv counted_def dest: order.strict_trans2)
  then show ?thesis by (simp add: criticalCount_def Let_def count_critical_eq max_zero_u64)
qed

text \<open>An enabled subsystem in which nothing was seen, in the aggregates or in the details.\<close>

definition quiet :: "AnalyzerReport \<Rightarrow> Summary \<Rightarrow> bool" where
  "quiet r s \<longleftrightarrow>
     ((sm_Family s = ''block_io'' \<or> sm_Family s = ''scheduler'') \<longrightarrow> sm_Anomalies s = 0 \<and> sm_Critical s = 0
        \<and> (\<forall>e \<in> set (rp_Timeline r). \<not> counted (sm_Family s) e))
   \<and> (sm_Family s = ''tcp'' \<longrightarrow> sm_Retransmits s = 0 \<and> sm_Resets s = 0
        \<and> (\<forall>e \<in> set (rp_Timeline r). ev_Type e \<noteq> ''tcp_retransmit'' \<and> ev_Type e \<noteq> ''tcp_reset''))
   \<and> (sm_Family s = ''oom'' \<longrightarrow> sm_Count s = 0 \<and> (\<forall>e \<in> set (rp_Timeline r). ev_Type e \<noteq> ''oom''))"

lemma slow_part_zero:
  assumes "length (rp_Timeline r) < 2 ^ 64" "sm_Family s = ''block_io'' \<or> sm_Family s = ''scheduler''"
    "sm_State s \<noteq> ''disabled''"
  shows "slow_part r s = 0 \<longleftrightarrow> quiet r s"
  using assms criticalCount_zero [of r s]
  by (auto simp: slow_part_def max_zero_u64 details_of_zero quiet_def)

lemma counted_direct:
  "counted ''tcp_retransmit'' e \<longleftrightarrow> ev_Type e = ''tcp_retransmit''"
  "counted ''tcp_reset'' e \<longleftrightarrow> ev_Type e = ''tcp_reset''"
  "counted ''oom'' e \<longleftrightarrow> ev_Type e = ''oom''"
  by (simp_all add: counted_def)

lemma u64_add_zero:
  assumes "unat (a :: u64) + unat b < 2 ^ 64"
  shows "a + b = 0 \<longleftrightarrow> a = 0 \<and> b = 0"
proof -
  have "unat (a + b) = unat a + unat b" using assms unat_add_lem [of a b] by simp
  then show ?thesis using unat_eq_0 [of "a + b"] unat_eq_0 [of a] unat_eq_0 [of b] by linarith
qed

lemma slow_bounds_critical: "critical_part r s \<le> slow_part r s"
  by (simp add: critical_part_def slow_part_def)

text \<open>C23: when the evidence is called complete.  The state of the evidence is \<open>complete\<close> exactly when every enabled
  subsystem was healthy, had aggregate intervals covering the window up to the tolerance and no losses (for TCP,
  a known reset coverage), no anomaly is counted without a detail, nothing was compacted, the requested history
  was retained, the daemon dropped nothing, every trigger of an automatic incident is confirmed by retained
  evidence inside the window, and every TCP event has its endpoints.
\<close>
theorem evidence_complete_iff:
  assumes "length (rp_Timeline r) < 2 ^ 64"
  shows "as_EvidenceState (assess r) = ''complete'' \<longleftrightarrow> evidence_complete r"
proof -
  obtain a monitored where a: "assess r = evidence_step monitored (rp_Timeline r) a"
    "limited a \<longleftrightarrow> \<not> evidence_complete r"
    "verdict_of a = (case signal_verdict r of (code, severity, state) \<Rightarrow> (code, severity, state, ''complete''))"
    by (rule assess_parts [OF assms])
  have e: "as_EvidenceState x = snd (snd (snd (verdict_of x)))" for x by (simp add: verdict_of_def)
  show ?thesis
    unfolding e a(1) evidence_step_verdict a(2) a(3) by (simp split: prod.split)
qed

text \<open>the verdict.  The severity is \<open>critical\<close> exactly when an OOM victim or a critical latency was
  observed or the evidence of an automatic trigger was not retained; it is \<open>info\<close> only when nothing was
  observed and the evidence is complete; and the code is the one of the strongest signal, replaced by the code for
  limited evidence when nothing was observed.
\<close>
theorem verdict_exact:
  assumes "length (rp_Timeline r) < 2 ^ 64"
  shows "(as_Code (assess r), as_Severity (assess r), as_SignalState (assess r)) =
    (case signal_verdict r of (code, severity, state) \<Rightarrow>
       if \<not> evidence_complete r \<and> state = ''clear'' then (''no_anomalies_evidence_limited'', ''warning'', state)
       else if \<not> evidence_complete r \<and> state = ''no_activity'' then (''insufficient_evidence'', ''warning'', state)
       else (code, severity, state))"
proof -
  obtain a monitored where a: "assess r = evidence_step monitored (rp_Timeline r) a"
    "limited a \<longleftrightarrow> \<not> evidence_complete r"
    "verdict_of a = (case signal_verdict r of (code, severity, state) \<Rightarrow> (code, severity, state, ''complete''))"
    by (rule assess_parts [OF assms])
  obtain code severity state where v: "signal_verdict r = (code, severity, state)" by (rule prod_cases3)
  have "as_Code a = code" "as_Severity a = severity" "as_SignalState a = state"
    using a(3) by (simp_all add: v verdict_of_def)
  then have "verdict_of (assess r) =
     (if evidence_complete r then (code, severity, state, ''complete'')
      else (if state = ''clear'' then ''no_anomalies_evidence_limited''
            else if state = ''no_activity'' then ''insufficient_evidence'' else code,
            if state = ''clear'' \<or> state = ''no_activity'' then ''warning'' else severity, state,
            if monitored = 0 \<and> rp_Timeline r = [] then ''unavailable'' else ''limited''))"
    unfolding a(1) evidence_step_verdict a(2) using a(3) by (simp add: v)
  then show ?thesis by (auto simp: verdict_of_def v split: if_splits)
qed


text \<open>The strongest signal is none exactly when every enabled subsystem is quiet and something was measured.\<close>

lemma signal_verdict_clear:
  assumes "length (rp_Timeline r) < 2 ^ 64" and "map sm_Family (rp_Signals r) = Families"
    and "unat (slow_part r (rp_Signals r ! 0)) + unat (slow_part r (rp_Signals r ! 1)) < 2 ^ 64"
  shows "fst (signal_verdict r) = ''no_anomalies_observed'' \<longleftrightarrow> triggers_retained r \<and> activity_of r \<noteq> 0
      \<and> (\<forall>s \<in> set (rp_Signals r). sm_State s \<noteq> ''disabled'' \<longrightarrow> quiet r s)"
proof -
  obtain b s t k where four: "rp_Signals r = [b, s, t, k]" "sm_Family b = ''block_io''"
    "sm_Family s = ''scheduler''" "sm_Family t = ''tcp''" "sm_Family k = ''oom''"
    by (rule four_signals [OF assms(2)])
  have slow: "slow_part r b + slow_part r s = 0 \<longleftrightarrow> slow_part r b = 0 \<and> slow_part r s = 0"
    using assms(3) by (intro u64_add_zero) (simp add: four(1))
  have "slow_part r x = 0 \<Longrightarrow> critical_part r x = 0" for x
    using slow_bounds_critical [of r x] by simp
  then have crit: "slow_part r b = 0 \<Longrightarrow> slow_part r s = 0 \<Longrightarrow> critical_part r b + critical_part r s = 0" by simp
  have all: "(\<forall>x \<in> set (rp_Signals r). P x) \<longleftrightarrow> P b \<and> P s \<and> P t \<and> P k" for P by (simp add: four(1))
  note zero = details_of_zero [OF assms(1)]
  have io: "slow_part r x = 0 \<longleftrightarrow> (sm_State x \<noteq> ''disabled'' \<longrightarrow> quiet r x)"
    if "sm_Family x = ''block_io'' \<or> sm_Family x = ''scheduler''" for x
    using slow_part_zero [OF assms(1) that] by (cases "sm_State x = ''disabled''") (auto simp: slow_part_def)
  have tcp: "seen_part t (sm_Retransmits t) (details_of r ''tcp_retransmit'') = 0
      \<and> seen_part t (sm_Resets t) (details_of r ''tcp_reset'') = 0 \<longleftrightarrow> (sm_State t \<noteq> ''disabled'' \<longrightarrow> quiet r t)"
    using four(4) by (auto simp: seen_part_def max_zero_u64 zero counted_direct quiet_def)
  have oom: "seen_part k (sm_Count k) (details_of r ''oom'') = 0 \<longleftrightarrow> (sm_State k \<noteq> ''disabled'' \<longrightarrow> quiet r k)"
    using four(5) by (auto simp: seen_part_def max_zero_u64 zero counted_direct quiet_def)
  have "fst (signal_verdict r) = ''no_anomalies_observed'' \<longleftrightarrow>
      os_OOMVictims (observed_of r) = 0 \<and> os_Critical (observed_of r) = 0 \<and> triggers_retained r
      \<and> os_Slow (observed_of r) = 0 \<and> os_Retransmits (observed_of r) = 0 \<and> os_Resets (observed_of r) = 0
      \<and> activity_of r \<noteq> 0"
    by (auto simp: signal_verdict_def Let_def word_gt_0)
  also have "\<dots> \<longleftrightarrow> triggers_retained r \<and> activity_of r \<noteq> 0
      \<and> (\<forall>x \<in> set (rp_Signals r). sm_State x \<noteq> ''disabled'' \<longrightarrow> quiet r x)"
    using crit unfolding observed_four [OF four] ObservedSignals.select_convs all oom slow
      io [OF disjI1, OF four(2)] io [OF disjI2, OF four(3)] tcp [symmetric] by blast
  finally show ?thesis .
qed

lemma code_clear:
  assumes "length (rp_Timeline r) < 2 ^ 64"
  shows "as_Code (assess r) = ''no_anomalies_observed'' \<longleftrightarrow>
      evidence_complete r \<and> fst (signal_verdict r) = ''no_anomalies_observed''"
proof -
  obtain a monitored where a: "assess r = evidence_step monitored (rp_Timeline r) a"
    "limited a \<longleftrightarrow> \<not> evidence_complete r"
    "verdict_of a = (case signal_verdict r of (code, severity, state) \<Rightarrow> (code, severity, state, ''complete''))"
    by (rule assess_parts [OF assms])
  have e: "as_Code x = fst (verdict_of x)" for x by (simp add: verdict_of_def)
  have "as_SignalState a = snd (snd (signal_verdict r))" "as_Code a = fst (signal_verdict r)"
    using a(3) by (auto simp: verdict_of_def split: prod.splits)
  moreover have "fst (signal_verdict r) = ''no_anomalies_observed'' \<longleftrightarrow> snd (snd (signal_verdict r)) = ''clear''"
    by (simp add: signal_verdict_def Let_def)
  ultimately show ?thesis
    unfolding e a(1) evidence_step_verdict a(2) using e [of a] by simp
qed

text \<open>C11: a clean verdict is earned.  For a report on the four subsystems whose numbers of slow observations do not
  exceed 64 bits together, the code \<open>no_anomalies_observed\<close> is given exactly when the evidence is complete,
  some activity was measured, and no enabled subsystem shows anything: no anomaly and no critical latency of block
  I/O or the scheduler in the aggregates or in the retained events, no TCP retransmission or reset, and no OOM victim.
\<close>
theorem clean_verdict:
  assumes "length (rp_Timeline r) < 2 ^ 64" and "map sm_Family (rp_Signals r) = Families"
    and "unat (slow_part r (rp_Signals r ! 0)) + unat (slow_part r (rp_Signals r ! 1)) < 2 ^ 64"
  shows "as_Code (assess r) = ''no_anomalies_observed'' \<longleftrightarrow>
    evidence_complete r \<and> activity_of r \<noteq> 0
    \<and> (\<forall>s \<in> set (rp_Signals r). sm_State s \<noteq> ''disabled'' \<longrightarrow> quiet r s)"
  unfolding code_clear [OF assms(1)] signal_verdict_clear [OF assms] by (auto simp: evidence_complete_def)

section \<open>Instances\<close>

text \<open>A quiet report: ten seconds, four healthy subsystems, one I/O event without a latency.\<close>

definition demo_manifest :: Manifest where
  "demo_manifest = \<lparr>mf_AutoIncident = None, mf_AggregateOnlyUntilNS = 0, mf_RecordingStartMonoNS = 0,
     mf_Settings = zero_RecordingSettings, mf_FormatVersion = 1, mf_ApplicationVersion = ''demo'',
     mf_StartMonoNS = 1000, mf_EndMonoNS = 10000001000, mf_RequestedStartMonoNS = 1000, mf_Mode = ''demo'',
     mf_Health = zero_Health\<rparr>"

definition demo_host :: Host where
  "demo_host = \<lparr>ho_Hostname = ''h'', ho_Kernel = ''k'', ho_Architecture = ''a'', ho_BootID = ''b'',
     ho_ClockSource = ''synthetic'', ho_AnchorMonoNS = 0, ho_AnchorWall = 1\<rparr>"

definition demo_signal :: "string \<Rightarrow> u64 \<Rightarrow> Summary" where
  "demo_signal f n = (empty_Summary f)\<lparr>sm_State := ''healthy'', sm_Available := True, sm_Count := n,
     sm_CoveredNS := 9500000000\<rparr>"

definition demo_report :: AnalyzerReport where
  "demo_report = \<lparr>rp_Assessment = zero_Assessment, rp_Host = demo_host, rp_Manifest = demo_manifest,
     rp_Signals = [demo_signal ''block_io'' 12, demo_signal ''scheduler'' 30, demo_signal ''tcp'' 0, demo_signal ''oom'' 0],
     rp_Timeline = [zero_Event\<lparr>ev_MonoNS := 2000, ev_Type := ''block_io''\<rparr>],
     rp_Processes = [], rp_Findings = []\<rparr>"

lemma demo_report_fits: "length (rp_Timeline demo_report) < 2 ^ 64"
  by (simp add: demo_report_def)

lemma demo_report_complete: "evidence_complete demo_report"
  by (simp add: demo_report_def demo_manifest_def demo_signal_def empty_Summary_def evidence_complete_def signal_complete_def
      covers_window_def coverageTolerance_def window_of_def zero_RecordingSettings_def zero_Health_def details_lost_def
      missing_details_def details_of_def counted_def zero_Event_def triggers_retained_def triggers_of_def lacks_endpoint_def
      LegacyPollIntervalNS_def to_u64_def reset_coverage_def TCPResetCoverageUnknown_def Let_def)

lemma demo_report_quiet: "\<forall>s \<in> set (rp_Signals demo_report). quiet demo_report s"
  by (simp add: demo_report_def demo_signal_def empty_Summary_def quiet_def counted_def zero_Event_def)

lemma evidence_complete_iff_witness:
  "length (rp_Timeline demo_report) < 2 ^ 64 \<and> as_EvidenceState (assess demo_report) = ''complete''"
  using evidence_complete_iff [OF demo_report_fits] demo_report_complete demo_report_fits by blast


lemma verdict_exact_witness:
  "length (rp_Timeline demo_report) < 2 ^ 64
   \<and> (as_Code (assess demo_report), as_Severity (assess demo_report), as_SignalState (assess demo_report)) =
       (case signal_verdict demo_report of (code, severity, state) \<Rightarrow> (code, severity, state))"
  using verdict_exact [OF demo_report_fits] demo_report_complete demo_report_fits by (simp split: prod.splits)

lemma demo_report_hyps:
  "map sm_Family (rp_Signals demo_report) = Families"
  "unat (slow_part demo_report (rp_Signals demo_report ! 0)) + unat (slow_part demo_report (rp_Signals demo_report ! 1)) < 2 ^ 64"
  "activity_of demo_report \<noteq> 0"
  by (simp_all add: demo_report_def demo_signal_def empty_Summary_def Families_def slow_part_def details_of_def counted_def
      zero_Event_def criticalCount_def criticalThreshold_def demo_manifest_def zero_RecordingSettings_def activity_of_def)

lemma clean_verdict_witness:
  "length (rp_Timeline demo_report) < 2 ^ 64 \<and> map sm_Family (rp_Signals demo_report) = Families
   \<and> as_Code (assess demo_report) = ''no_anomalies_observed''"
  using clean_verdict [OF demo_report_fits demo_report_hyps(1,2)] demo_report_complete demo_report_quiet demo_report_hyps
    demo_report_fits by blast

end
