(* ===== verification/Analyzer.thy ===== *)
theory Analyzer
  imports Assessment_Theorems "HOL-Library.Multiset"
begin

text \<open>
  \<open>Analyze\<close> (\<open>internal/analyzer/analyzer.go\<close>): the summaries of the four families, the
  sorted timeline, the processes, and the findings with their evidence.  The map of the
  summaries is a function to \<open>option\<close>; the map that counts details per process is an
  association list, whose order stands for the iteration order of the map.
\<close>

section \<open>Summaries\<close>

type_synonym summaries = "string \<Rightarrow> Summary option"

definition new_summaries :: summaries where
  "new_summaries = (\<lambda>f. if f \<in> set Families then Some (empty_Summary f) else None)"

definition apply_health :: "SensorHealth \<Rightarrow> summaries \<times> (string \<Rightarrow> bool) \<Rightarrow> summaries \<times> (string \<Rightarrow> bool)" where
  "apply_health h st = (case st of (sm, known) \<Rightarrow>
     (case sm (sh_Name h) of
        None \<Rightarrow> (sm, known)
      | Some s \<Rightarrow> (sm(sh_Name h \<mapsto> s\<lparr>sm_Available := (sh_State h = ''healthy''), sm_State := sh_State h,
                    sm_Reason := sh_Reason h\<rparr>), known(sh_Name h := True))))"

definition add_loss :: "Counters \<Rightarrow> Counters \<Rightarrow> Counters" where
  "add_loss a b = \<lparr>ct_RingFailures = ct_RingFailures a + ct_RingFailures b,
     ct_Suppressed = ct_Suppressed a + ct_Suppressed b, ct_DetailFailures = ct_DetailFailures a + ct_DetailFailures b,
     ct_TrackingFailures = ct_TrackingFailures a + ct_TrackingFailures b, ct_Unmatched = ct_Unmatched a + ct_Unmatched b,
     ct_DecodeFailures = ct_DecodeFailures a + ct_DecodeFailures b\<rparr>"

definition add_to_summary :: "bool \<Rightarrow> Metric \<Rightarrow> Summary \<Rightarrow> Summary" where
  "add_to_summary known m s =
     (let s1 = s\<lparr>sm_Histogram := map2 (+) (sm_Histogram s) (mt_Histogram m)\<rparr>;
          s2 = (if known then s1 else s1\<lparr>sm_Available := True, sm_State := ''healthy''\<rparr>)
      in s2\<lparr>sm_Count := sm_Count s2 + mt_Count m, sm_Anomalies := sm_Anomalies s2 + mt_Anomalies m,
            sm_Critical := sm_Critical s2 + mt_Critical m, sm_Retransmits := sm_Retransmits s2 + mt_Retransmits m,
            sm_Resets := sm_Resets s2 + mt_Resets m,
            sm_CoveredNS := sm_CoveredNS s2 + (mt_EndMonoNS m - mt_StartMonoNS m),
            sm_Loss := add_loss (sm_Loss s2) (mt_Loss m),
            sm_BookkeepingCompletions := sm_BookkeepingCompletions s2 + mt_BookkeepingCompletions m\<rparr>)"

definition add_metric :: "(string \<Rightarrow> bool) \<Rightarrow> Metric \<Rightarrow> summaries \<Rightarrow> summaries" where
  "add_metric known m sm =
     (case sm (mt_Family m) of
        None \<Rightarrow> sm
      | Some s \<Rightarrow> sm(mt_Family m \<mapsto> add_to_summary (known (mt_Family m)) m s))"

fun merge_segments :: "(string \<Rightarrow> bool) \<Rightarrow> Segment list \<Rightarrow> Event list \<times> summaries \<Rightarrow> Event list \<times> summaries" where
  "merge_segments known [] st = st"
| "merge_segments known (seg # segs) (timeline, sm) =
     merge_segments known segs (timeline @ sg_Events seg, fold (add_metric known) (sg_Metrics seg) sm)"

section \<open>The timeline and the processes\<close>

definition timeline_key :: "Event \<Rightarrow> u64 \<times> string \<times> u32" where
  "timeline_key e = (ev_MonoNS e, ev_Type e, ev_PID e)"

type_synonym identity_key = "string \<times> u32 \<times> u64"

definition identity_of :: "Event \<Rightarrow> identity_key" where
  "identity_of e = (ev_Comm e, ev_TGID e, ev_ProcessStartNS e)"

definition has_identity :: "Event \<Rightarrow> bool" where
  "has_identity e \<longleftrightarrow> ev_TGID e \<noteq> 0 \<or> ev_Comm e \<noteq> []"

fun increment :: "identity_key \<Rightarrow> (identity_key \<times> int) list \<Rightarrow> (identity_key \<times> int) list" where
  "increment k [] = [(k, 1)]"
| "increment k ((k', n) # ps) = (if k' = k then (k', n + 1) # ps else (k', n) # increment k ps)"

definition maxOOMEvidenceRefs :: nat where "maxOOMEvidenceRefs = 5"

definition oom_description :: "Event \<Rightarrow> string" where
  "oom_description e =
     (if ev_PIDOnly e then ''victim pid='' @ show_u32 (ev_PID e) @ '' (process identity unavailable)''
      else ''victim '' @ ev_Comm e @ '' pid='' @ show_u32 (ev_PID e))"

record timeline_scan =
  ts_ps :: "(identity_key \<times> int) list"
  ts_oomDetails :: u64
  ts_oomEvidence :: "EvidenceRef list"

definition scan_event :: "int \<Rightarrow> Event \<Rightarrow> timeline_scan \<Rightarrow> timeline_scan" where
  "scan_event i e st =
     (let st1 = (if has_identity e then st\<lparr>ts_ps := increment (identity_of e) (ts_ps st)\<rparr> else st)
      in if ev_Type e = ''oom'' then
           let st2 = st1\<lparr>ts_oomDetails := ts_oomDetails st1 + 1\<rparr>
           in if length (ts_oomEvidence st2) < maxOOMEvidenceRefs
              then st2\<lparr>ts_oomEvidence := ts_oomEvidence st2 @ [Ref ''event'' i (oom_description e)]\<rparr>
              else st2
         else st1)"

fun scan_timeline :: "int \<Rightarrow> Event list \<Rightarrow> timeline_scan \<Rightarrow> timeline_scan" where
  "scan_timeline i [] st = st"
| "scan_timeline i (e # es) st = scan_timeline (i + 1) es (scan_event i e st)"

definition process_row :: "identity_key \<times> int \<Rightarrow> ProcessRow" where
  "process_row kn = (case kn of ((comm, tgid, start), n) \<Rightarrow>
     \<lparr>pr_Comm = comm, pr_TGID = tgid, pr_StartNS = start, pr_Details = n\<rparr>)"

text \<open>Most details first; the identity breaks ties.\<close>

definition process_key_of :: "ProcessRow \<Rightarrow> int \<times> string \<times> u32 \<times> u64" where
  "process_key_of p = (- pr_Details p, pr_Comm p, pr_TGID p, pr_StartNS p)"

definition rank_processes :: "(identity_key \<times> int) list \<Rightarrow> ProcessRow list" where
  "rank_processes ps = sort_key process_key_of (map process_row ps)"

section \<open>Findings\<close>

definition mk_finding :: "string \<Rightarrow> string \<Rightarrow> string \<Rightarrow> EvidenceRef list \<Rightarrow> Finding" where
  "mk_finding category severity summary evidence =
     \<lparr>fn_Category = category, fn_Severity = severity, fn_Summary = summary, fn_Evidence = evidence\<rparr>"

definition victims_ref :: "int \<Rightarrow> Summary \<Rightarrow> EvidenceRef" where
  "victims_ref i s = Ref ''aggregate'' i (''victims='' @ show_u64 (sm_Count s))"

definition oom_finding :: "int \<Rightarrow> u64 \<Rightarrow> EvidenceRef list \<Rightarrow> Summary \<Rightarrow> Finding" where
  "oom_finding i oomDetails oomEvidence s =
     (let observed = max oomDetails (sm_Count s);
          refs = (if 0 < sm_Count s then victims_ref i s # oomEvidence else oomEvidence)
      in mk_finding ''oom'' ''critical''
           (''At least '' @ show_u64 observed @ '' OOM victim events were observed; '' @ show_u64 oomDetails
            @ '' individual details were retained.'') refs)"

text \<open>References to the matching events, until six references are there.\<close>

fun event_refs :: "(Event \<Rightarrow> bool) \<Rightarrow> (Event \<Rightarrow> string) \<Rightarrow> int \<Rightarrow> Event list \<Rightarrow> EvidenceRef list \<Rightarrow> EvidenceRef list" where
  "event_refs P value_of i [] refs = refs"
| "event_refs P value_of i (e # es) refs =
     (if P e then
        let refs' = refs @ [Ref ''event'' i (value_of e)]
        in if 6 \<le> length refs' then refs' else event_refs P value_of (i + 1) es refs'
      else event_refs P value_of (i + 1) es refs)"

definition slow_event :: "string \<Rightarrow> Event \<Rightarrow> bool" where
  "slow_event f e \<longleftrightarrow> ev_Type e = f \<and> 0 < ev_LatencyNS e"

definition tcp_problem :: "Event \<Rightarrow> bool" where
  "tcp_problem e \<longleftrightarrow> ev_Type e = ''tcp_retransmit'' \<or> ev_Type e = ''tcp_reset''"

definition direct_event :: "string \<Rightarrow> Event \<Rightarrow> bool" where
  "direct_event f e \<longleftrightarrow> slow_event f e \<or> f = ''tcp'' \<and> tcp_problem e \<or> f = ''oom'' \<and> ev_Type e = ''oom''"

fun count_events :: "(Event \<Rightarrow> bool) \<Rightarrow> Event list \<Rightarrow> u64 \<Rightarrow> u64" where
  "count_events P [] n = n"
| "count_events P (e # es) n = count_events P es (if P e then n + 1 else n)"

definition latency_value :: "Event \<Rightarrow> string" where
  "latency_value e = ev_Comm e @ '' pid='' @ show_u32 (ev_PID e) @ '' latency='' @ Duration_String (sint (ev_LatencyNS e))"

definition latency_finding :: "AnalyzerReport \<Rightarrow> int \<Rightarrow> string \<Rightarrow> Summary \<Rightarrow> Finding" where
  "latency_finding r i f s =
     (let refs = event_refs (slow_event f) latency_value 0 (rp_Timeline r)
            [Ref ''aggregate'' i (show_u64 (sm_Anomalies s) @ '' threshold exceedances'')];
          critical = 0 < criticalCount r s;
          refs' = (if critical \<and> 0 < sm_Critical s then
              refs @ [Ref ''aggregate'' i (show_u64 (sm_Critical s)
                @ '' critical latency observations counted in aggregates (threshold ''
                @ Duration_String (sint (criticalThreshold (mf_Settings (rp_Manifest r)) f)) @ '')'')]
            else refs)
      in mk_finding f (if critical then ''critical'' else ''warning'')
           (''Elevated '' @ f @ '' latency was observed; this does not identify a root cause.'') refs')"

definition tcp_finding :: "AnalyzerReport \<Rightarrow> int \<Rightarrow> Summary \<Rightarrow> Finding" where
  "tcp_finding r i s =
     mk_finding ''tcp'' ''warning'' ''TCP retransmissions or reset transitions were observed.''
       (event_refs tcp_problem ev_Type 0 (rp_Timeline r)
          [Ref ''aggregate'' i (''retransmits='' @ show_u64 (sm_Retransmits s) @ '' resets='' @ show_u64 (sm_Resets s))])"

definition oom_counted_finding :: "int \<Rightarrow> Summary \<Rightarrow> Finding" where
  "oom_counted_finding i s =
     mk_finding ''oom'' ''critical'' ''OOM victims were counted; individual victim details are unavailable.'' [victims_ref i s]"

definition only_if :: "bool \<Rightarrow> 'a \<Rightarrow> 'a list" where
  "only_if c x = (if c then [x] else [])"

text \<open>The findings of the family \<open>f\<close>, whose summary \<open>s\<close> is the signal number \<open>i\<close>.\<close>

definition family_findings :: "AnalyzerReport \<Rightarrow> u64 \<Rightarrow> EvidenceRef list \<Rightarrow> int \<Rightarrow> string \<Rightarrow> Summary \<Rightarrow> Finding list" where
  "family_findings r oomDetails oomEvidence i f s =
     only_if (f = ''oom'' \<and> 0 < oomDetails) (oom_finding i oomDetails oomEvidence s)
     @ (if sm_State s = ''disabled'' then []
        else
          let direct = count_events (direct_event f) (rp_Timeline r) 0
          in only_if ((0 < sm_Anomalies s \<or> 0 < sm_Critical s \<or> 0 < direct) \<and> (f = ''block_io'' \<or> f = ''scheduler''))
               (latency_finding r i f s)
             @ only_if (f = ''tcp'' \<and> (0 < sm_Retransmits s + sm_Resets s \<or> 0 < direct)) (tcp_finding r i s)
             @ only_if (f = ''oom'' \<and> oomDetails = 0 \<and> 0 < sm_Count s) (oom_counted_finding i s))"

fun families_loop :: "summaries \<Rightarrow> u64 \<Rightarrow> EvidenceRef list \<Rightarrow> string list \<Rightarrow> AnalyzerReport \<Rightarrow> AnalyzerReport" where
  "families_loop sm oomDetails oomEvidence [] r = r"
| "families_loop sm oomDetails oomEvidence (f # fs) r =
     (let s = the (sm f); r1 = r\<lparr>rp_Signals := rp_Signals r @ [s]\<rparr>
      in families_loop sm oomDetails oomEvidence fs
           (r1\<lparr>rp_Findings := rp_Findings r1
              @ family_findings r1 oomDetails oomEvidence (int (length (rp_Signals r1)) - 1) f s\<rparr>))"

definition correlation_finding :: "Event list \<Rightarrow> nat \<Rightarrow> nat \<Rightarrow> Finding" where
  "correlation_finding timeline i j = mk_finding ''correlation'' ''info''
     ''Different kernel signals coincided within one second for the same process or cgroup; timing does not establish causation.''
     [Ref ''event'' (int i) (ev_Type (timeline ! i)), Ref ''event'' (int j) (ev_Type (timeline ! j))]"

definition trigger_finding :: "int \<Rightarrow> AutoTrigger \<Rightarrow> Finding" where
  "trigger_finding i g = mk_finding ''auto_capture'' ''info''
     (''Automatic capture triggered by '' @ at_Family g @ '': '' @ show_u64 (at_Count g) @ '' '' @ at_Reason g
      @ '' observations in polled aggregates.'')
     [Ref ''auto_trigger'' i (''intervals='' @ show_u64 (at_FirstIntervalStartNS g) @ ''..''
        @ show_u64 (at_LastIntervalEndNS g) @ '' threshold_ns='' @ show_u64 (at_ThresholdNS g))]"

fun trigger_findings :: "int \<Rightarrow> AutoTrigger list \<Rightarrow> Finding list" where
  "trigger_findings i [] = []"
| "trigger_findings i (g # gs) = trigger_finding i g # trigger_findings (i + 1) gs"

definition metadata_finding :: "Health \<Rightarrow> Finding" where
  "metadata_finding h = mk_finding ''metadata'' ''info''
     ''Some process metadata could not be resolved; kernel observations were retained.''
     [Ref ''health'' 0 (show_u64 (he_MetadataFailures h) @ '' unresolved process identities (daemon lifetime)'')]"

definition coverage_finding :: "CoverageReason \<Rightarrow> Finding" where
  "coverage_finding n = mk_finding ''coverage'' (cr_Severity n) (cr_Title n @ ''. '' @ cr_Explanation n) (cr_Evidence n)"

definition withLoss :: "AnalyzerReport \<Rightarrow> AnalyzerReport" where
  "withLoss r =
     (let r1 = (case mf_AutoIncident (rp_Manifest r) of
                  None \<Rightarrow> r
                | Some incident \<Rightarrow> r\<lparr>rp_Findings := rp_Findings r @ trigger_findings 0 (ai_Triggers incident)\<rparr>);
          r2 = r1\<lparr>rp_Assessment := assess r1\<rparr>;
          h = mf_Health (rp_Manifest r2)
      in r2\<lparr>rp_Findings := rp_Findings r2
              @ only_if (0 < he_MetadataFailures h) (metadata_finding h)
              @ map coverage_finding (as_Reasons (rp_Assessment r2))
              @ map coverage_finding (as_Diagnostics (rp_Assessment r2))\<rparr>)"

definition Analyze :: "Capture \<Rightarrow> AnalyzerReport" where
  "Analyze c =
     (let (sm0, known) = fold apply_health (he_Sensors (mf_Health (cp_Manifest c))) (new_summaries, (\<lambda>_. False));
          (merged, sm) = merge_segments known (cp_Segments c) ([], sm0);
          timeline = sort_key timeline_key merged;
          scan = scan_timeline 0 timeline \<lparr>ts_ps = [], ts_oomDetails = 0, ts_oomEvidence = []\<rparr>;
          r = \<lparr>rp_Assessment = zero_Assessment, rp_Host = cp_Host c, rp_Manifest = cp_Manifest c, rp_Signals = [],
               rp_Timeline = timeline, rp_Processes = rank_processes (ts_ps scan), rp_Findings = []\<rparr>;
          r1 = families_loop sm (ts_oomDetails scan) (ts_oomEvidence scan) Families r;
          r2 = (case firstCoincidence (rp_Timeline r1) of
                  None \<Rightarrow> r1
                | Some (i, j) \<Rightarrow> r1\<lparr>rp_Findings := rp_Findings r1 @ [correlation_finding (rp_Timeline r1) i j]\<rparr>)
      in withLoss r2)"

section \<open>The timeline is the sorted sequence of the captured events\<close>

lemma merge_segments_eq: "merge_segments known segs (tm, sm) =
  (tm @ concat (map sg_Events segs), fold (add_metric known) (concat (map sg_Metrics segs)) sm)"
  by (induction segs arbitrary: tm sm) auto

lemma families_loop_frame [simp]:
  "rp_Timeline (families_loop sm d ev fs r) = rp_Timeline r"
  "rp_Manifest (families_loop sm d ev fs r) = rp_Manifest r"
  "rp_Processes (families_loop sm d ev fs r) = rp_Processes r"
  "rp_Signals (families_loop sm d ev fs r) = rp_Signals r @ map (\<lambda>f. the (sm f)) fs"
  by (induction fs arbitrary: r) (simp_all add: Let_def)

lemma withLoss_frame [simp]:
  "rp_Timeline (withLoss r) = rp_Timeline r"
  "rp_Manifest (withLoss r) = rp_Manifest r"
  "rp_Processes (withLoss r) = rp_Processes r"
  "rp_Signals (withLoss r) = rp_Signals r"
  by (simp_all add: withLoss_def Let_def split: option.split)

text \<open>The summaries as \<open>Analyze\<close> merges them.\<close>

definition health_known :: "Capture \<Rightarrow> summaries \<times> (string \<Rightarrow> bool)" where
  "health_known c = fold apply_health (he_Sensors (mf_Health (cp_Manifest c))) (new_summaries, (\<lambda>_. False))"

definition captured_events :: "Capture \<Rightarrow> Event list" where
  "captured_events c = concat (map sg_Events (cp_Segments c))"

definition captured_metrics :: "Capture \<Rightarrow> Metric list" where
  "captured_metrics c = concat (map sg_Metrics (cp_Segments c))"

definition final_summaries :: "Capture \<Rightarrow> summaries" where
  "final_summaries c = fold (add_metric (snd (health_known c))) (captured_metrics c) (fst (health_known c))"

lemma Analyze_frame:
  "rp_Timeline (Analyze c) = sort_key timeline_key (captured_events c)"
  "rp_Manifest (Analyze c) = cp_Manifest c"
  "rp_Signals (Analyze c) = map (\<lambda>f. the (final_summaries c f)) Families"
  "rp_Processes (Analyze c) = rank_processes (ts_ps (scan_timeline 0 (rp_Timeline (Analyze c))
     \<lparr>ts_ps = [], ts_oomDetails = 0, ts_oomEvidence = []\<rparr>))"
  by (simp_all add: Analyze_def Let_def split_beta merge_segments_eq captured_events_def captured_metrics_def
      final_summaries_def health_known_def split: option.split)

lemma timeline_sorted_mono: "sorted (map ev_MonoNS (sort_key timeline_key xs))"
proof -
  have "sorted (map timeline_key (sort_key timeline_key xs))" by simp
  then show ?thesis
    unfolding sorted_map
    by (rule sorted_wrt_mono_rel [rotated]) (auto simp: timeline_key_def less_eq_prod_def)
qed


section \<open>The signals are the sums of the captured metrics\<close>

text \<open>The saved health of a family: the last record that names it.\<close>

definition saved_health :: "Capture \<Rightarrow> string \<Rightarrow> SensorHealth option" where
  "saved_health c f = find (\<lambda>h. sh_Name h = f) (rev (he_Sensors (mf_Health (cp_Manifest c))))"

definition with_health :: "SensorHealth option \<Rightarrow> Summary \<Rightarrow> Summary" where
  "with_health ho s = (case ho of None \<Rightarrow> s
     | Some h \<Rightarrow> s\<lparr>sm_Available := (sh_State h = ''healthy''), sm_State := sh_State h, sm_Reason := sh_Reason h\<rparr>)"

lemma apply_health_pair: "apply_health h (sm, known) =
  (case sm (sh_Name h) of
     None \<Rightarrow> (sm, known)
   | Some s \<Rightarrow> (sm(sh_Name h \<mapsto> with_health (Some h) s), known(sh_Name h := True)))"
  by (cases "sm (sh_Name h)") (simp_all add: apply_health_def with_health_def)

lemma with_health_twice [simp]: "with_health (Some h) (with_health ho s) = with_health (Some h) s"
  by (simp add: with_health_def split: option.split)

lemma apply_health_fold:
  assumes "f \<in> set Families"
  shows "fst (fold apply_health hs (new_summaries, (\<lambda>_. False))) f =
      Some (with_health (find (\<lambda>h. sh_Name h = f) (rev hs)) (empty_Summary f))
    \<and> (snd (fold apply_health hs (new_summaries, (\<lambda>_. False))) f \<longleftrightarrow> find (\<lambda>h. sh_Name h = f) (rev hs) \<noteq> None)"
proof (induction hs rule: rev_induct)
  case Nil
  then show ?case using assms by (simp add: new_summaries_def with_health_def)
next
  case (snoc h hs)
  obtain sm known where st: "fold apply_health hs (new_summaries, (\<lambda>_. False)) = (sm, known)" by (rule prod.exhaust)
  show ?case
  proof (cases "sh_Name h = f")
    case True
    then show ?thesis using snoc.IH by (simp add: st apply_health_pair)
  next
    case False
    then show ?thesis using snoc.IH by (simp add: st apply_health_pair split: option.split)
  qed
qed

lemma health_known_family:
  assumes "f \<in> set Families"
  shows "fst (health_known c) f = Some (with_health (saved_health c f) (empty_Summary f))"
    and "snd (health_known c) f \<longleftrightarrow> saved_health c f \<noteq> None"
  using apply_health_fold [OF assms] by (simp_all add: health_known_def saved_health_def)

lemma add_metric_fold:
  "sm f = Some s \<Longrightarrow> fold (add_metric known) ms sm f =
     Some (fold (add_to_summary (known f)) (filter (\<lambda>m. mt_Family m = f) ms) s)"
proof (induction ms arbitrary: sm s)
  case (Cons m ms)
  show ?case
  proof (cases "mt_Family m = f")
    case True
    then have "add_metric known m sm f = Some (add_to_summary (known f) m s)"
      using Cons.prems by (simp add: add_metric_def)
    from Cons.IH [where sm = "add_metric known m sm", OF this] True show ?thesis by simp
  next
    case False
    then have "add_metric known m sm f = Some s"
      using Cons.prems by (simp add: add_metric_def split: option.split)
    from Cons.IH [where sm = "add_metric known m sm", OF this] False show ?thesis by simp
  qed
qed simp

definition family_metrics :: "Capture \<Rightarrow> string \<Rightarrow> Metric list" where
  "family_metrics c f = filter (\<lambda>m. mt_Family m = f) (captured_metrics c)"

lemma final_summary:
  "f \<in> set Families \<Longrightarrow> the (final_summaries c f) =
     fold (add_to_summary (saved_health c f \<noteq> None)) (family_metrics c f) (with_health (saved_health c f) (empty_Summary f))"
  by (simp add: final_summaries_def family_metrics_def add_metric_fold health_known_family)

lemma add_to_summary_sums:
  "sm_Family (fold (add_to_summary k) ms s) = sm_Family s"
  "sm_Count (fold (add_to_summary k) ms s) = sm_Count s + sum_list (map mt_Count ms)"
  "sm_Anomalies (fold (add_to_summary k) ms s) = sm_Anomalies s + sum_list (map mt_Anomalies ms)"
  "sm_Critical (fold (add_to_summary k) ms s) = sm_Critical s + sum_list (map mt_Critical ms)"
  "sm_Retransmits (fold (add_to_summary k) ms s) = sm_Retransmits s + sum_list (map mt_Retransmits ms)"
  "sm_Resets (fold (add_to_summary k) ms s) = sm_Resets s + sum_list (map mt_Resets ms)"
  "sm_CoveredNS (fold (add_to_summary k) ms s) = sm_CoveredNS s + sum_list (map (\<lambda>m. mt_EndMonoNS m - mt_StartMonoNS m) ms)"
  "sm_Loss (fold (add_to_summary k) ms s) = foldl add_loss (sm_Loss s) (map mt_Loss ms)"
  "sm_Histogram (fold (add_to_summary k) ms s) = foldl (map2 (+)) (sm_Histogram s) (map mt_Histogram ms)"
  "sm_State (fold (add_to_summary k) ms s) = (if k \<or> ms = [] then sm_State s else ''healthy'')"
  by (induction ms arbitrary: s) (simp_all add: add_to_summary_def Let_def algebra_simps)

lemma with_health_fields [simp]:
  "sm_Family (with_health ho s) = sm_Family s" "sm_Count (with_health ho s) = sm_Count s"
  "sm_Anomalies (with_health ho s) = sm_Anomalies s" "sm_Critical (with_health ho s) = sm_Critical s"
  "sm_Retransmits (with_health ho s) = sm_Retransmits s" "sm_Resets (with_health ho s) = sm_Resets s"
  "sm_CoveredNS (with_health ho s) = sm_CoveredNS s" "sm_Loss (with_health ho s) = sm_Loss s"
  "sm_Histogram (with_health ho s) = sm_Histogram s"
  "sm_State (with_health ho s) = (case ho of None \<Rightarrow> sm_State s | Some h \<Rightarrow> sh_State h)"
  by (simp_all add: with_health_def split: option.split)

lemma empty_Summary_fields [simp]:
  "sm_Family (empty_Summary f) = f" "sm_Count (empty_Summary f) = 0" "sm_Anomalies (empty_Summary f) = 0"
  "sm_Critical (empty_Summary f) = 0" "sm_Retransmits (empty_Summary f) = 0" "sm_Resets (empty_Summary f) = 0"
  "sm_CoveredNS (empty_Summary f) = 0" "sm_Loss (empty_Summary f) = zero_Counters"
  "sm_Histogram (empty_Summary f) = zero_histogram" "sm_State (empty_Summary f) = ''unavailable''"
  by (simp_all add: empty_Summary_def)

text \<open>The state a family has in the report: a saved state is never overwritten by metrics.\<close>

definition reported_state :: "Capture \<Rightarrow> string \<Rightarrow> string" where
  "reported_state c f = (case saved_health c f of
      Some h \<Rightarrow> sh_State h
    | None \<Rightarrow> if family_metrics c f = [] then ''unavailable'' else ''healthy'')"

definition family_totals :: "Capture \<Rightarrow> (Metric \<Rightarrow> u64) \<Rightarrow> u64 list" where
  "family_totals c field = map (\<lambda>f. sum_list (map field (family_metrics c f))) Families"

lemma signals_map:
  "map g (rp_Signals (Analyze c)) = map (\<lambda>f. g (fold (add_to_summary (saved_health c f \<noteq> None)) (family_metrics c f)
     (with_health (saved_health c f) (empty_Summary f)))) Families"
  by (simp add: Analyze_frame final_summary)

text \<open>C33: the signals of a report are the four families in their fixed order, each counter the sum over all captured
  metrics of its family (modulo 64 bits, as the counters are), the histogram the bucketwise sum; and the state is
  the one saved in the manifest when there is one, whatever the metrics say, otherwise \<open>healthy\<close> when the family has
  any metric and \<open>unavailable\<close> when it has none.
\<close>
theorem report_aggregates:
  "map sm_Family (rp_Signals (Analyze c)) = Families
    \<and> map sm_State (rp_Signals (Analyze c)) = map (reported_state c) Families
    \<and> map sm_Count (rp_Signals (Analyze c)) = family_totals c mt_Count
    \<and> map sm_Anomalies (rp_Signals (Analyze c)) = family_totals c mt_Anomalies
    \<and> map sm_Critical (rp_Signals (Analyze c)) = family_totals c mt_Critical
    \<and> map sm_Retransmits (rp_Signals (Analyze c)) = family_totals c mt_Retransmits
    \<and> map sm_Resets (rp_Signals (Analyze c)) = family_totals c mt_Resets
    \<and> map sm_CoveredNS (rp_Signals (Analyze c)) = family_totals c (\<lambda>m. mt_EndMonoNS m - mt_StartMonoNS m)
    \<and> map sm_Loss (rp_Signals (Analyze c)) =
        map (\<lambda>f. foldl add_loss zero_Counters (map mt_Loss (family_metrics c f))) Families
    \<and> map sm_Histogram (rp_Signals (Analyze c)) =
        map (\<lambda>f. foldl (map2 (+)) zero_histogram (map mt_Histogram (family_metrics c f))) Families"
  unfolding signals_map family_totals_def
  by (auto simp: add_to_summary_sums reported_state_def split: option.split)

section \<open>The processes are counted and ranked\<close>

lemma scan_timeline_ps:
  "ts_ps (scan_timeline i es st) = fold increment (map identity_of (filter has_identity es)) (ts_ps st)"
  by (induction es arbitrary: i st) (simp_all add: scan_event_def Let_def)

lemma increment_keys: "set (map fst (increment k ps)) = insert k (set (map fst ps))"
  by (induction k ps rule: increment.induct) auto

lemma increment_distinct: "distinct (map fst ps) \<Longrightarrow> distinct (map fst (increment k ps))"
proof (induction k ps rule: increment.induct)
  case (2 k k' n ps)
  have "set (map fst (increment k ps)) = insert k (set (map fst ps))" by (rule increment_keys)
  with 2 show ?case by auto
qed simp

lemma increment_map_of: "map_of (increment k ps) k' =
  (if k' = k then Some (case map_of ps k of None \<Rightarrow> 1 | Some n \<Rightarrow> n + 1) else map_of ps k')"
  by (induction k ps rule: increment.induct) auto

definition process_details :: "Event list \<Rightarrow> (identity_key \<times> int) list" where
  "process_details es = fold increment (map identity_of (filter has_identity es)) []"

lemma increments_distinct: "distinct (map fst (fold increment ks []))"
  by (induction ks rule: rev_induct) (simp_all add: increment_distinct)

lemma increments_map_of:
  "map_of (fold increment ks []) k = (if k \<in> set ks then Some (int (count_list ks k)) else None)"
  by (induction ks rule: rev_induct) (auto simp: increment_map_of count_list_0_iff)

text \<open>The details of the process \<open>k\<close> among the captured events.\<close>

definition details_of_process :: "Capture \<Rightarrow> identity_key \<Rightarrow> int" where
  "details_of_process c k = int (length (filter (\<lambda>e. has_identity e \<and> identity_of e = k) (captured_events c)))"

lemma count_list_identities:
  "count_list (map identity_of (filter has_identity es)) k = length (filter (\<lambda>e. has_identity e \<and> identity_of e = k) es)"
  by (induction es) auto

lemma process_details_set:
  "set (process_details (rp_Timeline (Analyze c))) = {(k, details_of_process c k) | k. 0 < details_of_process c k}"
proof -
  let ?es = "rp_Timeline (Analyze c)"
  have "mset ?es = mset (captured_events c)" by (simp add: Analyze_frame)
  then have len: "length (filter P ?es) = length (filter P (captured_events c))" for P
    by (metis mset_filter size_mset)
  have "(k, n) \<in> set (process_details ?es) \<longleftrightarrow> map_of (process_details ?es) k = Some n" for k n
    unfolding process_details_def using map_of_eq_Some_iff [OF increments_distinct] by metis
  moreover have "map_of (process_details ?es) k =
      (if 0 < details_of_process c k then Some (details_of_process c k) else None)" for k
  proof -
    define ks where "ks = map identity_of (filter has_identity ?es)"
    have "int (count_list ks k) = details_of_process c k"
      by (simp add: ks_def count_list_identities details_of_process_def len)
    moreover have "k \<in> set ks \<longleftrightarrow> 0 < int (count_list ks k)"
      using count_list_0_iff [of ks k] by (cases "count_list ks k") auto
    ultimately show ?thesis unfolding process_details_def ks_def [symmetric] increments_map_of by simp
  qed
  ultimately show ?thesis by (auto split: if_splits)
qed

lemma inj_process_key: "inj process_key_of"
  by (rule injI) (auto simp: process_key_of_def intro: ProcessRow.equality)

lemma rank_deterministic: "mset ps = mset qs \<Longrightarrow> rank_processes ps = rank_processes qs"
  unfolding rank_processes_def
  by (rule sort_key_inj_key_eq) (auto intro: inj_on_subset [OF inj_process_key])

text \<open>C34: the processes of a report.  Whatever order Go's map gives the counted identities (\<open>ps\<close>), the rows are the
  same: one for each identity with a process id or a name that some captured event has, with the number of those
  events, most first and ties in the order of name, process id and start time.
\<close>
theorem processes_ranked:
  assumes "mset ps = mset (process_details (rp_Timeline (Analyze c)))"
  shows "rp_Processes (Analyze c) = rank_processes ps
    \<and> set (rp_Processes (Analyze c)) = {process_row (k, details_of_process c k) | k. 0 < details_of_process c k}
    \<and> distinct (rp_Processes (Analyze c))
    \<and> sorted (map process_key_of (rp_Processes (Analyze c)))"
proof -
  have eq: "rp_Processes (Analyze c) = rank_processes (process_details (rp_Timeline (Analyze c)))"
    using Analyze_frame(4) [of c] by (simp add: scan_timeline_ps process_details_def)
  have "distinct (process_details es)" for es
    unfolding process_details_def using increments_distinct distinct_map by blast
  moreover have "inj process_row"
    by (rule injI) (auto simp: process_row_def split: prod.splits)
  ultimately have "distinct (rank_processes (process_details es))" for es
    unfolding rank_processes_def by (metis distinct_map distinct_sort inj_on_subset subset_UNIV)
  then show ?thesis
    unfolding eq using rank_deterministic [OF assms] process_details_set [of c]
    by (auto simp: rank_processes_def image_iff)
qed


text \<open>Two processes, one of them seen twice; the rows are the same from either order of the map.\<close>

definition demo_capture :: Capture where
  "demo_capture = \<lparr>cp_Manifest = demo_manifest, cp_Host = demo_host, cp_Segments =
     [\<lparr>sg_StartMonoNS = 1000, sg_EndMonoNS = 5000, sg_Events =
        [zero_Event\<lparr>ev_MonoNS := 3000, ev_Type := ''oom'', ev_PID := 9, ev_TGID := 9, ev_Comm := ''b''\<rparr>,
         zero_Event\<lparr>ev_MonoNS := 2000, ev_Type := ''block_io'', ev_PID := 4, ev_TGID := 4, ev_Comm := ''a'', ev_LatencyNS := 7\<rparr>,
         zero_Event\<lparr>ev_MonoNS := 2000, ev_Type := ''block_io'', ev_PID := 9, ev_TGID := 9, ev_Comm := ''b'', ev_LatencyNS := 5\<rparr>],
       sg_Metrics = []\<rparr>]\<rparr>"

lemma demo_details: "process_details (rp_Timeline (Analyze demo_capture)) = [((''a'', 4, 0), 1), ((''b'', 9, 0), 2)]"
  unfolding Analyze_frame by code_simp

lemma processes_ranked_witness:
  "mset [((''b'', 9, 0), 2), ((''a'', 4, 0), 1)] = mset (process_details (rp_Timeline (Analyze demo_capture)))
   \<and> map pr_Comm (rp_Processes (Analyze demo_capture)) = [''b'', ''a'']"
proof -
  have m: "mset [((''b'', 9, 0), 2), ((''a'', 4, 0), 1)] = mset (process_details (rp_Timeline (Analyze demo_capture)))"
    by (simp add: demo_details)
  have "map pr_Comm (rank_processes [((''b'', 9, 0), 2), ((''a'', 4, 0), 1)]) = [''b'', ''a'']" by code_simp
  then show ?thesis using processes_ranked [OF m] m by simp
qed

end
