(* ===== verification/Evidence.thy ===== *)
theory Evidence
  imports Analyzer
begin

text \<open>
  Every reference a report makes can be followed: an index into the timeline, the signals, the saved
  sensor states or the triggers of the incident is in range.
\<close>

definition index_within :: "int \<Rightarrow> nat \<Rightarrow> bool" where
  "index_within i n \<longleftrightarrow> 0 \<le> i \<and> i < int n"

definition ref_ok :: "AnalyzerReport \<Rightarrow> EvidenceRef \<Rightarrow> bool" where
  "ref_ok r x =
     (if er_Kind x = ''event'' then index_within (er_Index x) (length (rp_Timeline r))
      else if er_Kind x = ''aggregate'' then index_within (er_Index x) (length (rp_Signals r))
      else if er_Kind x = ''sensor_health'' then index_within (er_Index x) (length (he_Sensors (mf_Health (rp_Manifest r))))
      else if er_Kind x = ''auto_trigger'' then index_within (er_Index x) (length (triggers_of r))
      else (er_Kind x = ''manifest'' \<or> er_Kind x = ''health'') \<and> er_Index x = 0)"

lemma ref_ok_kinds [simp]:
  "ref_ok r (Ref ''event'' i v) \<longleftrightarrow> index_within i (length (rp_Timeline r))"
  "ref_ok r (Ref ''aggregate'' i v) \<longleftrightarrow> index_within i (length (rp_Signals r))"
  "ref_ok r (Ref ''sensor_health'' i v) \<longleftrightarrow> index_within i (length (he_Sensors (mf_Health (rp_Manifest r))))"
  "ref_ok r (Ref ''auto_trigger'' i v) \<longleftrightarrow> index_within i (length (triggers_of r))"
  "ref_ok r (Ref ''manifest'' i v) \<longleftrightarrow> i = 0"
  "ref_ok r (Ref ''health'' i v) \<longleftrightarrow> i = 0"
  by (simp_all add: ref_ok_def Ref_def)

definition reason_ok :: "AnalyzerReport \<Rightarrow> CoverageReason \<Rightarrow> bool" where
  "reason_ok r n \<longleftrightarrow> list_all (ref_ok r) (cr_Evidence n)"

definition assessment_ok :: "AnalyzerReport \<Rightarrow> Assessment \<Rightarrow> bool" where
  "assessment_ok r a \<longleftrightarrow> list_all (reason_ok r) (as_Reasons a) \<and> list_all (reason_ok r) (as_Diagnostics a)
     \<and> list_all (highlight_ok (length (rp_Timeline r))) (as_Highlights a)"

section \<open>The assessment\<close>

lemma ok_new [simp]: "assessment_ok r new_assessment"
  by (simp add: assessment_ok_def new_assessment_def zero_Assessment_def)

lemma ok_add [simp]:
  "assessment_ok r (add_reason n a) \<longleftrightarrow> assessment_ok r a \<and> reason_ok r n"
  "assessment_ok r (add_diagnostic n a) \<longleftrightarrow> assessment_ok r a \<and> reason_ok r n"
  "assessment_ok r (add_when c n a) \<longleftrightarrow> assessment_ok r a \<and> (c \<longrightarrow> reason_ok r n)"
  "assessment_ok r (a\<lparr>as_Observed := ob\<rparr>) \<longleftrightarrow> assessment_ok r a"
  by (auto simp: assessment_ok_def add_reason_def add_diagnostic_def add_when_def)

lemma ok_frame [simp]:
  "assessment_ok r (verdict_step k a) \<longleftrightarrow> assessment_ok r a"
  "assessment_ok r (trigger_verdict_step b a) \<longleftrightarrow> assessment_ok r a"
  "assessment_ok r (evidence_step mo es a) \<longleftrightarrow> assessment_ok r a"
  by (auto simp: assessment_ok_def verdict_step_def trigger_verdict_step_def set_verdict_def evidence_step_def Let_def
      split_beta)

lemma reason_ok_window [simp]:
  "reason_ok r (compacted_reason e)" "reason_ok r (clock_diagnostic h)" "reason_ok r (trigger_evidence_reason g)"
  "reason_ok r trigger_intervals_reason" "reason_ok r (history_reason m)" "reason_ok r (drops_reason h)"
  by (simp_all add: reason_ok_def compacted_reason_def clock_diagnostic_def trigger_evidence_reason_def
      trigger_intervals_reason_def history_reason_def drops_reason_def zero_CoverageReason_def Let_def)

lemma reason_ok_signal [simp]:
  "reason_ok r (unavailable_reason i s) \<longleftrightarrow> index_within i (length (rp_Signals r))"
  "reason_ok r (no_intervals_reason i s) \<longleftrightarrow> index_within i (length (rp_Signals r))"
  "reason_ok r (metric_gap_reason i w s) \<longleftrightarrow> index_within i (length (rp_Signals r))"
  "reason_ok r (loss_reason i f hs n) \<longleftrightarrow> index_within i (length (rp_Signals r))"
  "reason_ok r (missing_details_reason i f c) \<longleftrightarrow> index_within i (length (rp_Signals r))"
  "reason_ok r (tcp_resets_reason cov j) \<longleftrightarrow> index_within j (length (he_Sensors (mf_Health (rp_Manifest r))))"
  "reason_ok r (lifetime_diagnostic j f n) \<longleftrightarrow> index_within j (length (he_Sensors (mf_Health (rp_Manifest r))))"
  by (simp_all add: reason_ok_def unavailable_reason_def no_intervals_reason_def metric_gap_reason_def loss_reason_def
      missing_details_reason_def tcp_resets_reason_def lifetime_diagnostic_def signal_refs_def Let_def)

text \<open>The index of the saved health is in range whenever that health says anything.\<close>

lemma life_from_index:
  "life_from f j hs = (life, k, cov) \<Longrightarrow> life \<noteq> zero_Counters \<or> cov \<noteq> [] \<Longrightarrow> 0 \<le> j \<Longrightarrow> j \<le> k \<and> k < j + int (length hs)"
  by (induction hs arbitrary: j) (force split: if_splits)+

lemma ok_signal:
  assumes "assessment_ok r (ss_a sc)" and "index_within i (length (rp_Signals r))"
  shows "assessment_ok r (ss_a (assess_signal r (tally_timeline r) i s sc))"
proof (cases "sm_State s = ''disabled''")
  case False
  obtain life k cov where l: "life_from (sm_Family s) 0 (he_Sensors (mf_Health (rp_Manifest r))) = (life, k, cov)"
    by (rule prod_cases3)
  have idx: "life \<noteq> zero_Counters \<or> cov \<noteq> [] \<Longrightarrow> index_within k (length (he_Sensors (mf_Health (rp_Manifest r))))"
    using life_from_index [OF l] by (simp add: index_within_def)
  have loss: "assessment_ok r (loss_step i s life k a)" if "assessment_ok r a" for a
  proof (cases "life = zero_Counters")
    case True
    then show ?thesis using that assms(2) CounterNotes_Nil [of "sm_Family s" life]
      by (auto simp: loss_step_def assessment_ok_def Let_def list_all_iff)
  next
    case False
    then show ?thesis using that assms(2) idx
      by (auto simp: loss_step_def assessment_ok_def Let_def list_all_iff)
  qed
  have cov: "assessment_ok r (tcp_resets_step s cov k a)" if "assessment_ok r a" for a
    using that idx by (auto simp: tcp_resets_step_def TCPResetCoverageLimited_def TCPResetCoverageUnknown_def)
  have high: "assessment_ok r (highlight_step (tally_timeline r) s a)" if "assessment_ok r a" for a
    using that tally_timeline_worst [of r "sm_Family s"]
    by (auto simp: highlight_step_def assessment_ok_def split: option.split)
  have covers: "assessment_ok r (coverage_step m w i s a)" if "assessment_ok r a" for m w a
    using that assms(2) by (simp add: coverage_step_def)
  show ?thesis
    using False assms(1) by (simp add: assess_signal_def l Let_def loss cov high covers)
qed (use assms in \<open>simp add: assess_signal_def\<close>)

lemma ok_signals:
  "assessment_ok r (ss_a sc) \<Longrightarrow> 0 \<le> i \<Longrightarrow> i + int (length ss) \<le> int (length (rp_Signals r)) \<Longrightarrow>
   assessment_ok r (ss_a (assess_signals r (tally_timeline r) i ss sc))"
proof (induction ss arbitrary: i sc)
  case (Cons s ss)
  have "index_within i (length (rp_Signals r))" using Cons.prems by (simp add: index_within_def)
  with Cons.prems(1) have "assessment_ok r (ss_a (assess_signal r (tally_timeline r) i s sc))" by (rule ok_signal)
  then show ?case using Cons.IH [of _ "i + 1"] Cons.prems by simp
qed simp

lemma ok_triggers:
  "assess_triggers r d gs (iv, ev, a) = (iv', ev', a') \<Longrightarrow> assessment_ok r a \<Longrightarrow> assessment_ok r a'"
  by (induction gs arbitrary: iv ev a) (auto simp: Let_def split: if_splits)

lemma ok_incident: "incident_step r d a = (ev, a') \<Longrightarrow> assessment_ok r a \<Longrightarrow> assessment_ok r a'"
  by (auto simp: incident_step_def Let_def split: option.splits prod.splits dest: ok_triggers)

lemma ok_details:
  "assessment_ok r a \<Longrightarrow> 0 \<le> i \<Longrightarrow> i + int (length ss) \<le> int (length (rp_Signals r)) \<Longrightarrow>
   assessment_ok r (details_steps d i ss a)"
  by (induction ss arbitrary: i a) (auto simp: Let_def split_beta index_within_def)

lemma endpoints_refs:
  "list_all (\<lambda>x. er_Kind x = ''event'' \<and> index_within (er_Index x) n) refs \<Longrightarrow> 0 \<le> i \<Longrightarrow> i + int (length es) \<le> int n \<Longrightarrow>
   list_all (\<lambda>x. er_Kind x = ''event'' \<and> index_within (er_Index x) n) (snd (endpoints_from i es (k, refs)))"
  by (induction es arbitrary: i k refs) (auto simp: index_within_def Ref_def)

lemma ok_endpoints: "assessment_ok r a \<Longrightarrow> assessment_ok r (endpoints_step (rp_Timeline r) a)"
  using endpoints_refs [of "length (rp_Timeline r)" "[]" 0 "rp_Timeline r" 0]
  by (auto simp: endpoints_step_def split_beta Let_def reason_ok_def endpoints_reason_def ref_ok_def list_all_iff)

lemma assess_ok: "assessment_ok r (assess r)"
proof -
  have s: "assessment_ok r (ss_a (assess_signals r (tally_timeline r) 0 (rp_Signals r)
      \<lparr>ss_a = clock_step h (compacted_step m new_assessment), ss_activity = 0, ss_monitored = 0\<rparr>))" for h m
    by (rule ok_signals) (auto simp: clock_step_def compacted_step_def)
  obtain ev a where i: "incident_step r (ta_details (tally_timeline r)) (ss_a (assess_signals r (tally_timeline r) 0
      (rp_Signals r) \<lparr>ss_a = clock_step (mf_Health (rp_Manifest r)) (compacted_step (rp_Manifest r) new_assessment),
        ss_activity = 0, ss_monitored = 0\<rparr>)) = (ev, a)" by (rule prod.exhaust)
  show ?thesis
    using ok_incident [OF i s]
    by (simp add: assess_def Let_def i drops_step_def history_step_def ok_endpoints ok_details)
qed

section \<open>The findings\<close>

definition findings_ok :: "AnalyzerReport \<Rightarrow> Finding list \<Rightarrow> bool" where
  "findings_ok r fs \<longleftrightarrow> list_all (\<lambda>f. list_all (ref_ok r) (fn_Evidence f)) fs"

lemma findings_ok_append [simp]: "findings_ok r (fs @ gs) \<longleftrightarrow> findings_ok r fs \<and> findings_ok r gs"
  by (simp add: findings_ok_def)

lemma findings_ok_only_if [simp]: "findings_ok r (only_if c f) \<longleftrightarrow> (c \<longrightarrow> list_all (ref_ok r) (fn_Evidence f))"
  by (simp add: findings_ok_def only_if_def)

lemma evidence_mk [simp]: "fn_Evidence (mk_finding c s t ev) = ev"
  by (simp add: mk_finding_def)

text \<open>References stay valid while a report grows.\<close>

definition grows :: "AnalyzerReport \<Rightarrow> AnalyzerReport \<Rightarrow> bool" where
  "grows r r' \<longleftrightarrow> rp_Timeline r' = rp_Timeline r \<and> rp_Manifest r' = rp_Manifest r \<and> length (rp_Signals r) \<le> length (rp_Signals r')"

lemma ref_ok_grows: "grows r r' \<Longrightarrow> ref_ok r x \<Longrightarrow> ref_ok r' x"
  by (auto simp: grows_def ref_ok_def index_within_def triggers_of_def split: if_splits)

lemma refs_ok_grows: "grows r r' \<Longrightarrow> list_all (ref_ok r) xs \<Longrightarrow> list_all (ref_ok r') xs"
  by (auto simp: list_all_iff intro: ref_ok_grows)

lemma findings_ok_grows: "grows r r' \<Longrightarrow> findings_ok r fs \<Longrightarrow> findings_ok r' fs"
  by (auto simp: findings_ok_def list_all_iff intro: ref_ok_grows)

lemma event_refs_ok:
  "list_all (ref_ok r) refs \<Longrightarrow> 0 \<le> i \<Longrightarrow> i + int (length es) \<le> int (length (rp_Timeline r)) \<Longrightarrow>
   list_all (ref_ok r) (event_refs P v i es refs)"
  by (induction es arbitrary: i refs) (simp_all add: Let_def index_within_def)

lemma oom_evidence_ok:
  "list_all (ref_ok r) (ts_oomEvidence st) \<Longrightarrow> 0 \<le> i \<Longrightarrow> i + int (length es) \<le> int (length (rp_Timeline r)) \<Longrightarrow>
   list_all (ref_ok r) (ts_oomEvidence (scan_timeline i es st))"
proof (induction es arbitrary: i st)
  case (Cons e es)
  have "list_all (ref_ok r) (ts_oomEvidence (scan_event i e st))"
    using Cons.prems by (simp add: scan_event_def Let_def index_within_def)
  from Cons.IH [OF this, of "i + 1"] show ?case using Cons.prems by simp
qed simp

lemma family_findings_ok:
  assumes "list_all (ref_ok r) ev" and "index_within i (length (rp_Signals r))"
  shows "findings_ok r (family_findings r d ev i f s)"
proof -
  have "list_all (ref_ok r) (fn_Evidence (latency_finding r i f s))"
    using assms(2) event_refs_ok [of r "[Ref ''aggregate'' i v]" 0 "rp_Timeline r" "slow_event f" latency_value for v]
    by (simp add: latency_finding_def Let_def)
  moreover have "list_all (ref_ok r) (fn_Evidence (tcp_finding r i s))"
    using assms(2) by (simp add: tcp_finding_def event_refs_ok)
  moreover have "list_all (ref_ok r) (fn_Evidence (oom_finding i d ev s))"
    using assms by (simp add: oom_finding_def victims_ref_def Let_def)
  moreover have "list_all (ref_ok r) (fn_Evidence (oom_counted_finding i s))"
    using assms(2) by (simp add: oom_counted_finding_def victims_ref_def)
  moreover have "findings_ok r []" by (simp add: findings_ok_def)
  ultimately show ?thesis by (simp add: family_findings_def Let_def)
qed

lemma families_loop_ok:
  "list_all (ref_ok r) ev \<Longrightarrow> findings_ok r (rp_Findings r) \<Longrightarrow>
   findings_ok (families_loop sm d ev fs r) (rp_Findings (families_loop sm d ev fs r))"
proof (induction fs arbitrary: r)
  case (Cons f fs)
  define r1 where "r1 = r\<lparr>rp_Signals := rp_Signals r @ [the (sm f)]\<rparr>"
  define fnd where "fnd = family_findings r1 d ev (int (length (rp_Signals r1)) - 1) f (the (sm f))"
  define r2 where "r2 = r1\<lparr>rp_Findings := rp_Findings r1 @ fnd\<rparr>"
  have g1: "grows r r1" and g2: "grows r1 r2" by (simp_all add: grows_def r1_def r2_def)
  have ev1: "list_all (ref_ok r1) ev" using Cons.prems(1) g1 by (rule refs_ok_grows [rotated])
  have "findings_ok r1 fnd"
    unfolding fnd_def by (rule family_findings_ok [OF ev1]) (simp add: index_within_def r1_def)
  moreover have "findings_ok r1 (rp_Findings r1)"
    using findings_ok_grows [OF g1 Cons.prems(2)] by (simp add: r1_def)
  ultimately have "findings_ok r2 (rp_Findings r2)"
    using findings_ok_grows [OF g2] by (simp add: r2_def)
  moreover have "families_loop sm d ev (f # fs) r = families_loop sm d ev fs r2"
    by (simp add: r2_def r1_def fnd_def Let_def)
  ultimately show ?case using Cons.IH [of r2] refs_ok_grows [OF g2 ev1] by simp
qed simp

lemma trigger_findings_ok:
  "0 \<le> i \<Longrightarrow> i + int (length gs) \<le> int (length (triggers_of r)) \<Longrightarrow> findings_ok r (trigger_findings i gs)"
  by (induction gs arbitrary: i) (auto simp: findings_ok_def trigger_finding_def index_within_def)

lemma coverage_findings_ok: "list_all (reason_ok r) ns \<Longrightarrow> findings_ok r (map coverage_finding ns)"
  by (induction ns) (simp_all add: findings_ok_def coverage_finding_def reason_ok_def)

text \<open>All references of a report: those of its findings, and those of its assessment.\<close>

definition report_ok :: "AnalyzerReport \<Rightarrow> bool" where
  "report_ok r \<longleftrightarrow> findings_ok r (rp_Findings r) \<and> assessment_ok r (rp_Assessment r)"

lemma report_frame:
  assumes "rp_Timeline r' = rp_Timeline r" "rp_Manifest r' = rp_Manifest r" "rp_Signals r' = rp_Signals r"
  shows "ref_ok r' = ref_ok r" and "findings_ok r' = findings_ok r" and "assessment_ok r' = assessment_ok r"
proof -
  show f: "ref_ok r' = ref_ok r"
    using assms by (intro ext) (simp add: ref_ok_def triggers_of_def)
  then have "reason_ok r' = reason_ok r" by (intro ext) (simp add: reason_ok_def)
  then show "assessment_ok r' = assessment_ok r" using assms by (intro ext) (simp add: assessment_ok_def)
  show "findings_ok r' = findings_ok r" using f by (intro ext) (simp add: findings_ok_def)
qed

lemma withLoss_ok:
  assumes "findings_ok r (rp_Findings r)"
  shows "report_ok (withLoss r)"
proof -
  define r1 where "r1 = (case mf_AutoIncident (rp_Manifest r) of
                  None \<Rightarrow> r
                | Some incident \<Rightarrow> r\<lparr>rp_Findings := rp_Findings r @ trigger_findings 0 (ai_Triggers incident)\<rparr>)"
  have fr: "rp_Timeline r1 = rp_Timeline r" "rp_Manifest r1 = rp_Manifest r" "rp_Signals r1 = rp_Signals r"
    by (simp_all add: r1_def split: option.split)
  have f1: "findings_ok r (rp_Findings r1)"
    using assms by (auto simp: r1_def triggers_of_def intro: trigger_findings_ok split: option.split)
  have a: "assessment_ok r (assess r1)" using assess_ok [of r1] report_frame [OF fr] by simp
  then have rs: "list_all (reason_ok r) (as_Reasons (assess r1))" "list_all (reason_ok r) (as_Diagnostics (assess r1))"
    by (simp_all add: assessment_ok_def)
  have w: "withLoss r = (let r2 = r1\<lparr>rp_Assessment := assess r1\<rparr>; h = mf_Health (rp_Manifest r2)
      in r2\<lparr>rp_Findings := rp_Findings r2 @ only_if (0 < he_MetadataFailures h) (metadata_finding h)
              @ map coverage_finding (as_Reasons (rp_Assessment r2))
              @ map coverage_finding (as_Diagnostics (rp_Assessment r2))\<rparr>)"
    by (simp only: withLoss_def r1_def Let_def)
  have "findings_ok r (rp_Findings (withLoss r))" "rp_Assessment (withLoss r) = assess r1"
    using f1 coverage_findings_ok [OF rs(1)] coverage_findings_ok [OF rs(2)]
    by (simp_all add: w Let_def metadata_finding_def)
  with a show ?thesis by (simp add: report_ok_def report_frame [of "withLoss r" r])
qed

lemma Analyze_ok:
  "report_ok (Analyze c)"
proof -
  define tm where "tm = sort_key timeline_key (captured_events c)"
  define scan where "scan = scan_timeline 0 tm \<lparr>ts_ps = [], ts_oomDetails = 0, ts_oomEvidence = []\<rparr>"
  define r where "r = \<lparr>rp_Assessment = zero_Assessment, rp_Host = cp_Host c, rp_Manifest = cp_Manifest c, rp_Signals = [],
     rp_Timeline = tm, rp_Processes = rank_processes (ts_ps scan), rp_Findings = []\<rparr>"
  define r1 where "r1 = families_loop (final_summaries c) (ts_oomDetails scan) (ts_oomEvidence scan) Families r"
  have tm: "rp_Timeline r = tm" "rp_Timeline r1 = tm" by (simp_all add: r1_def r_def)
  have "list_all (ref_ok r) (ts_oomEvidence scan)"
    unfolding scan_def by (rule oom_evidence_ok) (simp_all add: tm)
  then have ok1: "findings_ok r1 (rp_Findings r1)"
    unfolding r1_def by (rule families_loop_ok) (simp add: r_def findings_ok_def)
  define r2 where "r2 = (case firstCoincidence (rp_Timeline r1) of
                  None \<Rightarrow> r1
                | Some (i, j) \<Rightarrow> r1\<lparr>rp_Findings := rp_Findings r1 @ [correlation_finding (rp_Timeline r1) i j]\<rparr>)"
  have "Analyze c = withLoss r2"
    by (simp only: Analyze_def Let_def split_beta merge_segments_eq fst_conv snd_conv append_Nil r2_def r1_def r_def
        scan_def tm_def captured_events_def final_summaries_def health_known_def captured_metrics_def)
  moreover have "findings_ok r2 (rp_Findings r2)"
  proof (cases "firstCoincidence (rp_Timeline r1)")
    case None
    then show ?thesis using ok1 by (simp add: r2_def)
  next
    case (Some p)
    obtain i j where p: "p = (i, j)" by (cases p)
    have "sorted (map ev_MonoNS tm)" unfolding tm_def by (rule timeline_sorted_mono)
    from firstCoincidence_range [OF this] Some p tm have "i < length tm" "j < length tm" by auto
    moreover have "r2 = r1\<lparr>rp_Findings := rp_Findings r1 @ [correlation_finding (rp_Timeline r1) i j]\<rparr>"
      using Some p by (simp add: r2_def)
    ultimately show ?thesis
      using ok1 tm report_frame [of r2 r1] by (simp add: findings_ok_def correlation_finding_def index_within_def)
  qed
  ultimately show ?thesis by (simp add: withLoss_ok)
qed

text \<open>C21: every piece of evidence a report cites exists.  In the findings, in the coverage reasons and in the lifetime
  diagnostics, a reference to an event, an aggregate, a sensor state or a trigger is an index in range of the
  timeline, the signals, the saved sensor states or the triggers of the same report, and every latency highlight
  points to an event of the timeline.
\<close>
theorem evidence_in_range:
  "report_ok (Analyze c)"
  by (rule Analyze_ok)

end
