(* ===== verification/Utf8.thy ===== *)
theory Utf8
  imports GoText
begin

text \<open>
  UTF-8 as Go's \<open>unicode/utf8\<close> decodes it, over texts that are byte strings.  A rune is kept as its
  encoding, and a byte that starts no valid encoding stands for U+FFFD.
\<close>

section \<open>UTF-8\<close>

definition byte :: "char \<Rightarrow> int" where
  "byte c = int (of_char c)"

definition between :: "int \<Rightarrow> int \<Rightarrow> char \<Rightarrow> bool" where
  "between lo hi c \<longleftrightarrow> lo \<le> byte c \<and> byte c \<le> hi"

abbreviation cont :: "char \<Rightarrow> bool" where
  "cont \<equiv> between 0x80 0xBF"

text \<open>The length a lead byte announces, 0 for a byte that cannot lead, and the bytes allowed after it.\<close>

definition rune_size :: "char \<Rightarrow> nat" where
  "rune_size a =
     (if byte a < 0x80 then 1
      else if between 0xC2 0xDF a then 2
      else if between 0xE0 0xEF a then 3
      else if between 0xF0 0xF4 a then 4
      else 0)"

definition second_ok :: "char \<Rightarrow> char \<Rightarrow> bool" where
  "second_ok a b =
     (if byte a = 0xE0 then between 0xA0 0xBF b
      else if byte a = 0xED then between 0x80 0x9F b
      else if byte a = 0xF0 then between 0x90 0xBF b
      else if byte a = 0xF4 then between 0x80 0x8F b
      else cont b)"

text \<open>The length of the valid encoding at the head of the text, 0 when there is none.\<close>

fun rune_len :: "string \<Rightarrow> nat" where
  "rune_len [] = 0"
| "rune_len (a # s) =
     (let n = rune_size a
      in if n \<le> 1 then n
         else if length s < n - 1 then 0
         else if second_ok a (hd s) \<and> list_all cont (take (n - 2) (tl s)) then n
         else 0)"

lemma rune_len_le: "rune_len s \<le> length s"
  by (cases s) (auto simp: Let_def)

lemma rune_len_prefix:
  assumes "0 < rune_len s"
  shows "rune_len (take (rune_len s) s @ t) = rune_len s"
proof (cases s)
  case (Cons a s')
  show ?thesis
  proof (cases "rune_size a \<le> 1")
    case True
    then have "rune_size a = 1" using assms by (auto simp: Cons Let_def)
    then show ?thesis by (simp add: Cons Let_def)
  next
    case False
    then have r: "rune_len s = rune_size a" "\<not> length s' < rune_size a - 1" "second_ok a (hd s')"
      "list_all cont (take (rune_size a - 2) (tl s'))"
      using assms by (auto simp: Cons Let_def split: if_splits)
    obtain b s2 where s': "s' = b # s2" using False r(2) by (cases s') auto
    have n: "rune_size a - 1 = Suc (rune_size a - 2)" using False by simp
    then show ?thesis using False r by (simp add: Cons s' Let_def take_Cons')
  qed
qed (use assms in simp)

function utf8_ok :: "string \<Rightarrow> bool" where
  "utf8_ok s = (if s = [] then True else if rune_len s = 0 then False else utf8_ok (drop (rune_len s) s))"
  by pat_completeness auto

termination by (relation "measure length") auto

declare utf8_ok.simps [simp del]

section \<open>Runes\<close>

definition newline :: char where "newline = CHR 0x0A"

text \<open>U+FFFD.\<close>

definition replacement :: string where "replacement = [CHR 0xEF, CHR 0xBF, CHR 0xBD]"

text \<open>The runes of a text, as \<open>range\<close>, \<open>[]rune\<close> and \<open>strings.Map\<close> see them.\<close>

function runes :: "string \<Rightarrow> string list" where
  "runes s =
     (if s = [] then []
      else if rune_len s = 0 then replacement # runes (drop 1 s)
      else take (rune_len s) s # runes (drop (rune_len s) s))"
  by pat_completeness auto

termination by (relation "measure length") auto

declare runes.simps [simp del]

definition RuneCount :: "string \<Rightarrow> nat" where
  "RuneCount s = length (runes s)"

text \<open>A valid encoding of one rune.\<close>

definition is_rune :: "string \<Rightarrow> bool" where
  "is_rune r \<longleftrightarrow> r \<noteq> [] \<and> rune_len r = length r"

lemma runes_Nil [simp]: "runes [] = []"
  by (simp add: runes.simps [of "[]"])

lemma rune_len_append: "is_rune r \<Longrightarrow> rune_len (r @ s) = length r"
  using rune_len_prefix [of r s] by (auto simp: is_rune_def)

lemma runes_append [simp]: "is_rune r \<Longrightarrow> runes (r @ s) = r # runes s"
  using rune_len_append [of r s] runes.simps [of "r @ s"] by (auto simp: is_rune_def)

lemma runes_concat: "list_all is_rune rs \<Longrightarrow> runes (concat rs) = rs"
  by (induction rs) auto

lemma runes_concat_append: "list_all is_rune rs \<Longrightarrow> runes (concat rs @ s) = rs @ runes s"
  by (induction rs) auto

lemma is_rune_replacement [simp]: "is_rune replacement"
  by code_simp

lemma runes_are_runes: "list_all is_rune (runes s)"
proof (induction s rule: runes.induct)
  case (1 s)
  have "is_rune (take (rune_len s) s)" if "rune_len s \<noteq> 0"
    using that rune_len_prefix [of s "[]"] rune_len_le [of s] by (auto simp: is_rune_def)
  then show ?case using 1 by (subst runes.simps) auto
qed

lemma utf8_ok_runes: "utf8_ok s \<Longrightarrow> concat (runes s) = s"
proof (induction s rule: runes.induct)
  case (1 s)
  then show ?case by (subst (asm) (3) utf8_ok.simps, subst runes.simps) (auto split: if_splits)
qed

lemma is_rune_ascii: "byte c < 0x80 \<Longrightarrow> is_rune [c]"
  by (simp add: is_rune_def rune_size_def)

lemma is_rune_2: "between 0xC2 0xDF a \<Longrightarrow> cont b \<Longrightarrow> is_rune [a, b]"
  by (auto simp: is_rune_def rune_size_def between_def second_ok_def)

lemma ascii_runes: "list_all (\<lambda>c. byte c < 0x80) s \<Longrightarrow> runes s = map (\<lambda>c. [c]) s"
  using runes_concat [of "map (\<lambda>c. [c]) s"] by (simp add: list_all_iff is_rune_ascii)


lemma rune_high_bytes:
  assumes "is_rune r" "length r \<noteq> 1" "c \<in> set r"
  shows "0x80 \<le> byte c"
proof -
  obtain a b u where r: "r = a # b # u" using assms(1,2) by (cases r rule: list.exhaust; cases "tl r") (auto simp: is_rune_def)
  then have "rune_size a = length r" "second_ok a b" "list_all cont (take (rune_size a - 2) u)" "1 < rune_size a"
    using assms(1) by (auto simp: is_rune_def Let_def split: if_splits)
  then have "\<forall>x \<in> set (a # b # u). 0x80 \<le> byte x"
    using r by (auto simp: second_ok_def between_def list_all_iff rune_size_def split: if_splits)
  then show ?thesis using assms(3) unfolding r by (rule bspec)
qed

end
