(* ===== verification/Json.thy ===== *)
theory Json
  imports Utf8
begin

text \<open>
  The part of \<open>encoding/json\<close> the container uses: values, the compact text that
  \<open>json.Marshal\<close> writes, and the parser behind \<open>json.Decoder\<close>.  A number is its literal, so
  that decoding into an integer can reject a fraction as Go does.  The parser is given fuel; each
  call that spends fuel consumes a byte, so the length of the text is enough.
\<close>

datatype json =
    JNull
  | JBool bool
  | JNum string
  | JStr string
  | JArr "json list"
  | JObj "(string \<times> json) list"

section \<open>Strings\<close>

definition quotation :: char where "quotation = CHR 0x22"

definition hex4 :: "nat \<Rightarrow> string" where
  "hex4 n = [hex_digit (n div 4096 mod 16), hex_digit (n div 256 mod 16), hex_digit (n div 16 mod 16), hex_digit (n mod 16)]"

definition escape_u :: "nat \<Rightarrow> string" where
  "escape_u n = [backslash, CHR ''u''] @ hex4 n"

text \<open>An ASCII byte inside a string; \<open>json.Marshal\<close> also escapes the characters of HTML.\<close>

definition escape :: "char \<Rightarrow> string" where
  "escape c =
     (if c = quotation \<or> c = backslash then [backslash, c]
      else if byte c = 8 then [backslash, CHR ''b'']
      else if byte c = 12 then [backslash, CHR ''f'']
      else if byte c = 10 then [backslash, CHR ''n'']
      else if byte c = 13 then [backslash, CHR ''r'']
      else if byte c = 9 then [backslash, CHR ''t'']
      else if byte c < 32 \<or> c = CHR ''<'' \<or> c = CHR ''>'' \<or> c = CHR ''&'' then escape_u (of_char c)
      else [c])"

text \<open>The two line separators, which are always escaped.\<close>

definition line_separator :: string where "line_separator = [CHR 0xE2, CHR 0x80, CHR 0xA8]"
definition paragraph_separator :: string where "paragraph_separator = [CHR 0xE2, CHR 0x80, CHR 0xA9]"

definition escape_rune :: "string \<Rightarrow> string" where
  "escape_rune r =
     (if r = line_separator then escape_u 0x2028
      else if r = paragraph_separator then escape_u 0x2029
      else case r of [c] \<Rightarrow> escape c | _ \<Rightarrow> r)"

function quote_body :: "string \<Rightarrow> string" where
  "quote_body s =
     (if s = [] then []
      else if rune_len s = 0 then escape_u 0xFFFD @ quote_body (drop 1 s)
      else escape_rune (take (rune_len s) s) @ quote_body (drop (rune_len s) s))"
  by pat_completeness auto

termination by (relation "measure length") auto

declare quote_body.simps [simp del]

definition hex_value :: "char \<Rightarrow> nat option" where
  "hex_value c =
     (if between 48 57 c then Some (of_char c - 48)
      else if between 97 102 c then Some (of_char c - 87)
      else if between 65 70 c then Some (of_char c - 55)
      else None)"

fun hex4_value :: "string \<Rightarrow> (nat \<times> string) option" where
  "hex4_value (a # b # c # d # s) =
     (case (hex_value a, hex_value b, hex_value c, hex_value d) of
        (Some w, Some x, Some y, Some z) \<Rightarrow> Some (((w * 16 + x) * 16 + y) * 16 + z, s)
      | _ \<Rightarrow> None)"
| "hex4_value _ = None"

text \<open>The encoding of a code point that is not a surrogate.\<close>

definition encode_rune :: "nat \<Rightarrow> string" where
  "encode_rune n =
     (if n < 0x80 then [char_of n]
      else if n < 0x800 then [char_of (0xC0 + n div 64), char_of (0x80 + n mod 64)]
      else if n < 0x10000 then
        [char_of (0xE0 + n div 4096), char_of (0x80 + n div 64 mod 64), char_of (0x80 + n mod 64)]
      else [char_of (0xF0 + n div 262144), char_of (0x80 + n div 4096 mod 64),
            char_of (0x80 + n div 64 mod 64), char_of (0x80 + n mod 64)])"

definition surrogate :: "nat \<Rightarrow> bool" where
  "surrogate n \<longleftrightarrow> 0xD800 \<le> n \<and> n < 0xE000"

text \<open>After \<open>\\u\<close>: the code point and the rest; a lone surrogate is U+FFFD, and what follows it stays.\<close>

definition unicode_escape :: "string \<Rightarrow> (string \<times> string) option" where
  "unicode_escape s =
     (case hex4_value s of
        None \<Rightarrow> None
      | Some (n, rest) \<Rightarrow>
          if \<not> surrogate n then Some (encode_rune n, rest)
          else case rest of
            b # u # rest1 \<Rightarrow>
              (if b = backslash \<and> u = CHR ''u'' \<and> n < 0xDC00 then
                 (case hex4_value rest1 of
                    Some (n2, rest2) \<Rightarrow>
                      if 0xDC00 \<le> n2 \<and> n2 < 0xE000
                      then Some (encode_rune (0x10000 + (n - 0xD800) * 1024 + (n2 - 0xDC00)), rest2)
                      else Some (replacement, rest)
                  | None \<Rightarrow> Some (replacement, rest))
               else Some (replacement, rest))
          | _ \<Rightarrow> Some (replacement, rest))"

lemma hex4_value_shorter: "hex4_value s = Some (n, rest) \<Longrightarrow> length rest < length s"
  by (cases s rule: hex4_value.cases) (auto split: option.splits)

lemma unicode_escape_shorter: "unicode_escape s = Some (r, rest) \<Longrightarrow> length rest < length s"
  by (auto simp: unicode_escape_def split: option.splits if_splits list.splits prod.splits
      dest!: hex4_value_shorter)

text \<open>The characters behind a backslash, the letter \<open>u\<close> apart.\<close>

definition simple_escape :: "char \<Rightarrow> char option" where
  "simple_escape e =
     (if e = quotation \<or> e = backslash \<or> e = CHR ''/'' then Some e
      else if e = CHR ''b'' then Some (CHR 8)
      else if e = CHR ''f'' then Some (CHR 12)
      else if e = CHR ''n'' then Some (CHR 10)
      else if e = CHR ''r'' then Some (CHR 13)
      else if e = CHR ''t'' then Some (CHR 9)
      else None)"

definition cons_text :: "string \<Rightarrow> (string \<times> string) option \<Rightarrow> (string \<times> string) option" where
  "cons_text r p = (case p of None \<Rightarrow> None | Some (s, rest) \<Rightarrow> Some (r @ s, rest))"

text \<open>The text after the opening quote: the string and what follows the closing quote.\<close>

function parse_body :: "string \<Rightarrow> (string \<times> string) option" where
  "parse_body s =
     (case s of
        [] \<Rightarrow> None
      | c # cs \<Rightarrow>
          if c = quotation then Some ([], cs)
          else if c = backslash then
            (case cs of
               [] \<Rightarrow> None
             | e # es \<Rightarrow>
                 if e = CHR ''u'' then
                   (case unicode_escape es of
                      None \<Rightarrow> None
                    | Some (r, rest) \<Rightarrow> cons_text r (parse_body rest))
                 else (case simple_escape e of
                         None \<Rightarrow> None
                       | Some x \<Rightarrow> cons_text [x] (parse_body es)))
          else if byte c < 32 then None
          else if rune_len s = 0 then cons_text replacement (parse_body cs)
          else cons_text (take (rune_len s) s) (parse_body (drop (rune_len s) s)))"
  by pat_completeness auto

termination
  by (relation "measure length") (auto dest: unicode_escape_shorter)

declare parse_body.simps [simp del]

section \<open>A quoted string is read back\<close>

lemma hex_value_digit: "d < 16 \<Longrightarrow> hex_value (hex_digit d) = Some d"
  by (cases "d < 10") (simp_all add: hex_digit_def hex_value_def between_def byte_def)

lemma next_digit: "n div (k * 16) * 16 + n div k mod 16 = n div (k :: nat)"
  by (metis div_mult2_eq div_mult_mod_eq)

lemma hex4_value_hex4:
  assumes "n < 0x10000"
  shows "hex4_value (hex4 n @ t) = Some (n, t)"
proof -
  have "n div 4096 < 16" using assms by simp
  moreover from this have "n div 4096 mod 16 = n div 4096" by simp
  moreover have "n div 4096 * 16 + n div 256 mod 16 = n div 256" using next_digit [of n 256] by simp
  moreover have "n div 256 * 16 + n div 16 mod 16 = n div 16" using next_digit [of n 16] by simp
  moreover have "n div 16 * 16 + n mod 16 = n" using next_digit [of n 1] by simp
  ultimately show ?thesis by (simp add: hex4_def hex_value_digit)
qed

lemma cons_text_append [simp]: "cons_text r (cons_text r' p) = cons_text (r @ r') p"
  by (simp add: cons_text_def split: option.split)

lemma parse_body_escape_u:
  assumes "n < 0x10000" and "\<not> surrogate n"
  shows "parse_body (escape_u n @ t) = cons_text (encode_rune n) (parse_body t)"
  using assms
  by (subst parse_body.simps)
    (simp add: escape_u_def unicode_escape_def hex4_value_hex4 quotation_def backslash_def)

lemma char_of_byte: "byte c < 0x80 \<Longrightarrow> encode_rune (of_char c) = [c]"
  by (simp add: encode_rune_def byte_def)

lemma byte_eq: "byte c = int k \<Longrightarrow> c = char_of k"
  by (metis byte_def char_of_char of_nat_eq_iff)

lemma control_chars:
  "char_of (8::nat) = CHR 8" "char_of (12::nat) = CHR 12" "char_of (10::nat) = CHR 10"
  "char_of (13::nat) = CHR 13" "char_of (9::nat) = CHR 9"
  by code_simp+

lemma byte_eqs:
  "byte c = 8 \<Longrightarrow> c = CHR 8" "byte c = 12 \<Longrightarrow> c = CHR 12" "byte c = 10 \<Longrightarrow> c = CHR 10"
  "byte c = 13 \<Longrightarrow> c = CHR 13" "byte c = 9 \<Longrightarrow> c = CHR 9"
  using byte_eq [of c 8] byte_eq [of c 12] byte_eq [of c 10] byte_eq [of c 13] byte_eq [of c 9]
  by (simp_all add: control_chars)

lemma parse_body_simple:
  "e \<noteq> CHR ''u'' \<Longrightarrow> simple_escape e = Some x \<Longrightarrow> parse_body (backslash # e # t) = cons_text [x] (parse_body t)"
  by (subst parse_body.simps) (simp add: backslash_def quotation_def)

lemma parse_body_plain:
  assumes "\<not> byte c < 32" "byte c < 0x80" "c \<noteq> quotation" "c \<noteq> backslash"
  shows "parse_body (c # t) = cons_text [c] (parse_body t)"
  using assms by (subst parse_body.simps) (simp add: rune_size_def)

lemma letters:
  "escape (CHR 8) = [backslash, CHR ''b'']" "simple_escape (CHR ''b'') = Some (CHR 8)"
  "escape (CHR 12) = [backslash, CHR ''f'']" "simple_escape (CHR ''f'') = Some (CHR 12)"
  "escape (CHR 10) = [backslash, CHR ''n'']" "simple_escape (CHR ''n'') = Some (CHR 10)"
  "escape (CHR 13) = [backslash, CHR ''r'']" "simple_escape (CHR ''r'') = Some (CHR 13)"
  "escape (CHR 9) = [backslash, CHR ''t'']" "simple_escape (CHR ''t'') = Some (CHR 9)"
  by code_simp+

lemma parse_body_escape:
  assumes "byte c < 0x80"
  shows "parse_body (escape c @ t) = cons_text [c] (parse_body t)"
proof -
  have u: "parse_body (escape_u (of_char c) @ t) = cons_text [c] (parse_body t)"
    using assms parse_body_escape_u [of "of_char c" t] char_of_byte [OF assms] by (simp add: byte_def surrogate_def)
  consider (quoted) "c = quotation \<or> c = backslash"
    | (letter) "c \<in> {CHR 8, CHR 12, CHR 10, CHR 13, CHR 9}"
    | (other) "c \<noteq> quotation" "c \<noteq> backslash" "byte c \<noteq> 8" "byte c \<noteq> 12" "byte c \<noteq> 10" "byte c \<noteq> 13" "byte c \<noteq> 9"
    using byte_eqs [of c] by blast
  then show ?thesis
  proof cases
    case quoted
    then have "c \<noteq> CHR ''u''" "simple_escape c = Some c" "escape c = [backslash, c]"
      by (auto simp: escape_def simple_escape_def quotation_def backslash_def)
    then show ?thesis by (simp add: parse_body_simple)
  next
    case letter
    then show ?thesis using letters by (auto intro!: parse_body_simple simp: letters)
  next
    case other
    then show ?thesis
      using u parse_body_plain [OF _ assms] by (simp add: escape_def)
  qed
qed


lemma char_of_eqI: "of_char c = n \<Longrightarrow> char_of n = c"
  by auto

lemma encode_separators: "encode_rune 0x2028 = line_separator" "encode_rune 0x2029 = paragraph_separator"
  by (simp_all add: encode_rune_def line_separator_def paragraph_separator_def char_of_eqI)

lemma rune_bytes_high:
  assumes "rune_len s = n" and "1 < n"
  obtains a s' where "take n s = a # s'" "s' \<noteq> []" "\<not> byte a < 0x80"
proof -
  obtain a s0 where s: "s = a # s0" using assms by (cases s) auto
  then have "rune_size a \<noteq> 1" "n - 1 \<le> length s0"
    using assms by (auto simp: Let_def split: if_splits)
  moreover from this have "\<not> byte a < 0x80" by (auto simp: rune_size_def)
  ultimately show ?thesis using that [of a "take (n - 1) s0"] assms s by (cases n; cases s0) auto
qed

lemma parse_body_rune:
  assumes "0 < rune_len s"
  shows "parse_body (escape_rune (take (rune_len s) s) @ t) = cons_text (take (rune_len s) s) (parse_body t)"
proof -
  define r where "r = take (rune_len s) s"
  consider (line) "r = line_separator" | (para) "r = paragraph_separator"
    | (ascii) c where "r = [c]" "byte c < 0x80"
    | (long) a s' where "r = a # s'" "s' \<noteq> []" "\<not> byte a < 0x80" "escape_rune r = r"
  proof (cases "rune_len s = 1")
    case True
    then obtain a s0 where s: "s = a # s0" by (cases s) auto
    then have "rune_size a = 1" using True by (auto simp: Let_def split: if_splits)
    then have "byte a < 0x80" by (auto simp: rune_size_def split: if_splits)
    with ascii show ?thesis using True s by (simp add: r_def)
  next
    case False
    then obtain a s' where "r = a # s'" "s' \<noteq> []" "\<not> byte a < 0x80"
      using assms rune_bytes_high [of s "rune_len s"] unfolding r_def by auto
    moreover from this have "escape_rune r = r" if "r \<noteq> line_separator" "r \<noteq> paragraph_separator"
      using that by (cases s') (simp_all add: escape_rune_def)
    ultimately show ?thesis using line para long by blast
  qed
  then have "parse_body (escape_rune r @ t) = cons_text r (parse_body t)"
  proof cases
    case line
    then show ?thesis
      using parse_body_escape_u [of "0x2028" t] encode_separators by (simp add: escape_rune_def surrogate_def)
  next
    case para
    then show ?thesis
      using parse_body_escape_u [of "0x2029" t] encode_separators
      by (simp add: escape_rune_def surrogate_def line_separator_def paragraph_separator_def)
  next
    case (ascii c)
    then show ?thesis
      using parse_body_escape [of c t] by (simp add: escape_rune_def line_separator_def paragraph_separator_def)
  next
    case (long a s')
    have l: "rune_len (r @ t) = length r"
      using rune_len_prefix [OF assms, of t] rune_len_le [of s] by (simp add: r_def min_absorb2)
    have "a \<noteq> quotation" "a \<noteq> backslash" "\<not> byte a < 32"
      using long(3) by (auto simp: byte_def quotation_def backslash_def)
    then show ?thesis
      using long l by (subst parse_body.simps) auto
  qed
  then show ?thesis by (simp add: r_def)
qed

lemma parse_quoted:
  "utf8_ok s \<Longrightarrow> parse_body (quote_body s @ quotation # t) = Some (s, t)"
proof (induction s rule: quote_body.induct)
  case (1 s)
  show ?case
  proof (cases "s = []")
    case True
    then show ?thesis by (simp add: quote_body.simps parse_body.simps)
  next
    case False
    then have n: "0 < rune_len s" and ok: "utf8_ok (drop (rune_len s) s)"
      using "1.prems" by (auto simp: utf8_ok.simps [of s] split: if_splits)
    have "quote_body s = escape_rune (take (rune_len s) s) @ quote_body (drop (rune_len s) s)"
      using False n by (subst quote_body.simps) simp
    then show ?thesis
      using "1.IH"(2) [OF False _ ok] n parse_body_rune [OF n] by (simp add: cons_text_def)
  qed
qed

section \<open>Values\<close>

fun show_json :: "json \<Rightarrow> string"
  and show_elems :: "json list \<Rightarrow> string"
  and show_members :: "(string \<times> json) list \<Rightarrow> string" where
  "show_json JNull = ''null''"
| "show_json (JBool b) = (if b then ''true'' else ''false'')"
| "show_json (JNum n) = n"
| "show_json (JStr s) = quotation # quote_body s @ [quotation]"
| "show_json (JArr js) = CHR ''['' # show_elems js @ '']''"
| "show_json (JObj ms) = CHR ''{'' # show_members ms @ ''}''"
| "show_elems [] = []"
| "show_elems (j # js) = show_json j @ (if js = [] then [] else CHR '','' # show_elems js)"
| "show_members [] = []"
| "show_members ((k, v) # ms) = quotation # quote_body k @ [quotation] @ CHR '':'' # show_json v
     @ (if ms = [] then [] else CHR '','' # show_members ms)"

definition is_space :: "char \<Rightarrow> bool" where
  "is_space c \<longleftrightarrow> c = CHR '' '' \<or> c = CHR 9 \<or> c = CHR 10 \<or> c = CHR 13"

definition skip_ws :: "string \<Rightarrow> string" where
  "skip_ws = dropWhile is_space"

definition number_char :: "char \<Rightarrow> bool" where
  "number_char c \<longleftrightarrow> is_digit c \<or> c \<in> {CHR ''-'', CHR ''+'', CHR ''.'', CHR ''e'', CHR ''E''}"

text \<open>The grammar of a number: sign, integer part, fraction, exponent.\<close>

definition valid_digits :: "string \<Rightarrow> bool" where
  "valid_digits s \<longleftrightarrow> s \<noteq> [] \<and> list_all is_digit s"

definition valid_exponent :: "string \<Rightarrow> bool" where
  "valid_exponent s =
     (case s of [] \<Rightarrow> True
      | c # cs \<Rightarrow> (c = CHR ''e'' \<or> c = CHR ''E'') \<and>
          valid_digits (case cs of [] \<Rightarrow> [] | d # ds \<Rightarrow> if d = CHR ''+'' \<or> d = CHR ''-'' then ds else cs))"

definition valid_fraction :: "string \<Rightarrow> bool" where
  "valid_fraction s =
     (case s of [] \<Rightarrow> True
      | c # cs \<Rightarrow> if c = CHR ''.'' then takeWhile is_digit cs \<noteq> [] \<and> valid_exponent (dropWhile is_digit cs)
                else valid_exponent s)"

definition valid_number :: "string \<Rightarrow> bool" where
  "valid_number s =
     (let s1 = (case s of [] \<Rightarrow> [] | c # cs \<Rightarrow> if c = CHR ''-'' then cs else s);
          ds = takeWhile is_digit s1
      in ds \<noteq> [] \<and> (hd ds = CHR ''0'' \<longrightarrow> length ds = 1) \<and> valid_fraction (dropWhile is_digit s1))"

definition parse_number :: "string \<Rightarrow> (json \<times> string) option" where
  "parse_number s =
     (let n = takeWhile number_char s
      in if valid_number n then Some (JNum n, dropWhile number_char s) else None)"

definition literal :: "string \<Rightarrow> json \<Rightarrow> string \<Rightarrow> (json \<times> string) option" where
  "literal w j s = (if HasPrefix s w then Some (j, drop (length w) s) else None)"

fun parse_value :: "nat \<Rightarrow> string \<Rightarrow> (json \<times> string) option"
  and parse_elems :: "nat \<Rightarrow> string \<Rightarrow> (json list \<times> string) option"
  and parse_members :: "nat \<Rightarrow> string \<Rightarrow> ((string \<times> json) list \<times> string) option" where
  "parse_value 0 s = None"
| "parse_value (Suc n) s =
     (case skip_ws s of
        [] \<Rightarrow> None
      | c # cs \<Rightarrow>
          if c = quotation then map_option (map_prod JStr id) (parse_body cs)
          else if c = CHR ''['' then
            (case skip_ws cs of
               [] \<Rightarrow> None
             | d # ds \<Rightarrow> if d = CHR '']'' then Some (JArr [], ds) else map_option (map_prod JArr id) (parse_elems n cs))
          else if c = CHR ''{'' then
            (case skip_ws cs of
               [] \<Rightarrow> None
             | d # ds \<Rightarrow> if d = CHR ''}'' then Some (JObj [], ds) else map_option (map_prod JObj id) (parse_members n cs))
          else if c = CHR ''n'' then literal ''null'' JNull (c # cs)
          else if c = CHR ''t'' then literal ''true'' (JBool True) (c # cs)
          else if c = CHR ''f'' then literal ''false'' (JBool False) (c # cs)
          else parse_number (c # cs))"
| "parse_elems 0 s = None"
| "parse_elems (Suc n) s =
     (case parse_value n s of
        None \<Rightarrow> None
      | Some (j, r) \<Rightarrow>
          (case skip_ws r of
             [] \<Rightarrow> None
           | c # cs \<Rightarrow>
               if c = CHR '','' then map_option (map_prod ((#) j) id) (parse_elems n cs)
               else if c = CHR '']'' then Some ([j], cs)
               else None))"
| "parse_members 0 s = None"
| "parse_members (Suc n) s =
     (case skip_ws s of
        [] \<Rightarrow> None
      | q # ks \<Rightarrow>
          if q \<noteq> quotation then None
          else (case parse_body ks of
             None \<Rightarrow> None
           | Some (k, r) \<Rightarrow>
               (case skip_ws r of
                  [] \<Rightarrow> None
                | c # cs \<Rightarrow>
                    if c \<noteq> CHR '':'' then None
                    else (case parse_value n cs of
                       None \<Rightarrow> None
                     | Some (v, r2) \<Rightarrow>
                         (case skip_ws r2 of
                            [] \<Rightarrow> None
                          | d # ds \<Rightarrow>
                              if d = CHR '','' then map_option (map_prod ((#) (k, v)) id) (parse_members n ds)
                              else if d = CHR ''}'' then Some ([(k, v)], ds)
                              else None)))))"

text \<open>The first value of a text and what follows it.\<close>

definition parse_json :: "string \<Rightarrow> (json \<times> string) option" where
  "parse_json s = parse_value (length s) s"

section \<open>The text of a value is read back\<close>

fun json_ok :: "json \<Rightarrow> bool"
  and elems_ok :: "json list \<Rightarrow> bool"
  and members_ok :: "(string \<times> json) list \<Rightarrow> bool" where
  "json_ok (JNum n) \<longleftrightarrow> valid_number n \<and> list_all number_char n"
| "json_ok (JStr s) \<longleftrightarrow> utf8_ok s"
| "json_ok (JArr js) \<longleftrightarrow> elems_ok js"
| "json_ok (JObj ms) \<longleftrightarrow> members_ok ms"
| "json_ok _ \<longleftrightarrow> True"
| "elems_ok [] \<longleftrightarrow> True"
| "elems_ok (j # js) \<longleftrightarrow> json_ok j \<and> elems_ok js"
| "members_ok [] \<longleftrightarrow> True"
| "members_ok ((k, v) # ms) \<longleftrightarrow> utf8_ok k \<and> json_ok v \<and> members_ok ms"

lemma valid_number_not_Nil: "valid_number n \<Longrightarrow> n \<noteq> []"
  by (auto simp: valid_number_def)

lemma number_char_class:
  "number_char c \<Longrightarrow> \<not> is_space c \<and> c \<noteq> quotation \<and> c \<noteq> CHR ''['' \<and> c \<noteq> CHR '']'' \<and> c \<noteq> CHR ''{''
     \<and> c \<noteq> CHR ''n'' \<and> c \<noteq> CHR ''t'' \<and> c \<noteq> CHR ''f''"
  by (auto simp: number_char_def is_digit_def is_space_def quotation_def)

text \<open>A value followed by something that cannot continue a number.\<close>

definition delimited :: "string \<Rightarrow> bool" where
  "delimited t \<longleftrightarrow> t = [] \<or> \<not> number_char (hd t)"

lemma delimited_punct [simp]:
  "delimited (CHR '','' # t)" "delimited (CHR '']'' # t)" "delimited (CHR ''}'' # t)"
  by (simp_all add: delimited_def number_char_def is_digit_def)

lemma parse_number_show:
  assumes "valid_number n" "list_all number_char n" "delimited t"
  shows "parse_number (n @ t) = Some (JNum n, t)"
proof -
  have "takeWhile number_char (n @ t) = n" "dropWhile number_char (n @ t) = t"
    using assms(2,3) by (cases t; auto simp: delimited_def list_all_iff takeWhile_append dropWhile_append)+
  then show ?thesis using assms(1) by (simp add: parse_number_def)
qed

lemma skip_ws_Cons [simp]: "\<not> is_space c \<Longrightarrow> skip_ws (c # s) = c # s"
  by (simp add: skip_ws_def)

lemma punct_not_space [simp]:
  "\<not> is_space (CHR '','')" "\<not> is_space (CHR '':'')" "\<not> is_space (CHR '']'')" "\<not> is_space (CHR ''}'')"
  "\<not> is_space (CHR ''['')" "\<not> is_space (CHR ''{'')" "\<not> is_space quotation"
  "\<not> is_space (CHR ''n'')" "\<not> is_space (CHR ''t'')" "\<not> is_space (CHR ''f'')"
  by (simp_all add: is_space_def quotation_def)

text \<open>The first byte of a value is neither a space nor a closing bracket.\<close>

lemma show_json_head:
  assumes "json_ok j"
  obtains c cs where "show_json j = c # cs" "\<not> is_space c" "c \<noteq> CHR '']''"
proof (cases j)
  case (JNum n)
  then obtain c cs where "n = c # cs" using assms valid_number_not_Nil by (cases n) auto
  then show ?thesis using that JNum assms number_char_class [of c] by simp
next
  case (JBool b)
  then show ?thesis using that by (cases b) auto
next
  case (JStr s)
  then show ?thesis using that [of quotation] punct_not_space(7) by (simp add: quotation_def)
qed (use that in auto)


lemma show_json_length: "json_ok j \<Longrightarrow> 0 < length (show_json j)"
  by (metis show_json_head length_greater_0_conv list.distinct(1))

lemma parse_show:
  shows "json_ok j \<Longrightarrow> \<forall>n t. delimited t \<longrightarrow> length (show_json j) \<le> n \<longrightarrow> parse_value n (show_json j @ t) = Some (j, t)"
    and "js \<noteq> [] \<Longrightarrow> elems_ok js \<Longrightarrow> \<forall>n t. length (show_elems js) < n \<longrightarrow>
      parse_elems n (show_elems js @ CHR '']'' # t) = Some (js, t)"
    and "ms \<noteq> [] \<Longrightarrow> members_ok ms \<Longrightarrow> \<forall>n t. length (show_members ms) < n \<longrightarrow>
      parse_members n (show_members ms @ CHR ''}'' # t) = Some (ms, t)"
proof (induction j and js and ms rule: show_json_show_elems_show_members.induct)
  case 1
  show ?case
    by (intro allI impI, case_tac n) (auto simp: literal_def HasPrefix_def quotation_def)
next
  case (2 b)
  show ?case
    by (intro allI impI, case_tac n) (cases b; auto simp: literal_def HasPrefix_def quotation_def)+
next
  case (3 num)
  show ?case
  proof (intro allI impI)
    fix n t assume d: "delimited t" and n: "length (show_json (JNum num)) \<le> n"
    obtain c cs where c: "num = c # cs" using "3.prems" valid_number_not_Nil by (cases num) auto
    then obtain n' where n': "n = Suc n'" using n by (cases n) auto
    have "number_char c" using "3.prems" c by simp
    then show "parse_value n (show_json (JNum num) @ t) = Some (JNum num, t)"
      using number_char_class [of c] parse_number_show [of num t] "3.prems" d c n' by simp
  qed
next
  case (4 s)
  show ?case
  proof (intro allI impI)
    fix n t assume "length (show_json (JStr s)) \<le> n"
    then obtain n' where n': "n = Suc n'" by (cases n) auto
    show "parse_value n (show_json (JStr s) @ t) = Some (JStr s, t)"
      using parse_quoted [of s t] "4.prems" n' by simp
  qed
next
  case (5 js)
  show ?case
  proof (intro allI impI)
    fix n t assume n: "length (show_json (JArr js)) \<le> n"
    then obtain n' where n': "n = Suc n'" by (cases n) auto
    show "parse_value n (show_json (JArr js) @ t) = Some (JArr js, t)"
    proof (cases js)
      case Nil
      then show ?thesis using n' by (simp add: quotation_def)
    next
      case (Cons j js')
      obtain c cs where c: "show_json j = c # cs" "\<not> is_space c" "c \<noteq> CHR '']''"
        using show_json_head "5.prems" Cons by (metis elems_ok.simps(2) json_ok.simps(3))
      have "parse_elems n' (show_elems js @ CHR '']'' # t) = Some (js, t)"
        using "5.IH" "5.prems" Cons n n' by simp
      then show ?thesis using n' c by (simp add: Cons quotation_def)
    qed
  qed
next
  case (6 ms)
  show ?case
  proof (intro allI impI)
    fix n t assume n: "length (show_json (JObj ms)) \<le> n"
    then obtain n' where n': "n = Suc n'" by (cases n) auto
    show "parse_value n (show_json (JObj ms) @ t) = Some (JObj ms, t)"
    proof (cases ms)
      case Nil
      then show ?thesis using n' by (simp add: quotation_def)
    next
      case (Cons kv ms')
      obtain k v where kv: "kv = (k, v)" by (cases kv)
      have "parse_members n' (show_members ms @ CHR ''}'' # t) = Some (ms, t)"
        using "6.IH" "6.prems" Cons n n' by simp
      then show ?thesis using n' by (simp add: Cons kv quotation_def is_space_def)
    qed
  qed
next
  case 7
  then show ?case by simp
next
  case (8 j js)
  show ?case
  proof (intro allI impI)
    fix n t assume n: "length (show_elems (j # js)) < n"
    then obtain n' where n': "n = Suc n'" by (cases n) auto
    have j: "json_ok j" using "8.prems" by simp
    show "parse_elems n (show_elems (j # js) @ CHR '']'' # t) = Some (j # js, t)"
    proof (cases "js = []")
      case True
      then have "parse_value n' (show_json j @ CHR '']'' # t) = Some (j, CHR '']'' # t)"
        using "8.IH"(1) j n n' by simp
      then show ?thesis using True n' by simp
    next
      case False
      have "parse_value n' (show_json j @ CHR '','' # show_elems js @ CHR '']'' # t)
          = Some (j, CHR '','' # show_elems js @ CHR '']'' # t)"
        using "8.IH"(1) j n n' False by simp
      moreover have "parse_elems n' (show_elems js @ CHR '']'' # t) = Some (js, t)"
        using "8.IH"(2) "8.prems" n n' False by simp
      ultimately show ?thesis using False n' by simp
    qed
  qed
next
  case 9
  then show ?case by simp
next
  case (10 k v ms)
  show ?case
  proof (intro allI impI)
    fix n t assume n: "length (show_members ((k, v) # ms)) < n"
    then obtain n' where n': "n = Suc n'" by (cases n) auto
    have v: "json_ok v" and k: "utf8_ok k" using "10.prems" by simp_all
    show "parse_members n (show_members ((k, v) # ms) @ CHR ''}'' # t) = Some ((k, v) # ms, t)"
    proof (cases "ms = []")
      case True
      then have "parse_value n' (show_json v @ CHR ''}'' # t) = Some (v, CHR ''}'' # t)"
        using "10.IH"(1) v n n' by simp
      then show ?thesis using True n' parse_quoted [OF k] by simp
    next
      case False
      have "parse_value n' (show_json v @ CHR '','' # show_members ms @ CHR ''}'' # t)
          = Some (v, CHR '','' # show_members ms @ CHR ''}'' # t)"
        using "10.IH"(1) v n n' False by simp
      moreover have "parse_members n' (show_members ms @ CHR ''}'' # t) = Some (ms, t)"
        using "10.IH"(2) "10.prems" n n' False by simp
      ultimately show ?thesis using False n' parse_quoted [OF k] by simp
    qed
  qed
qed

lemma parse_json_show: "json_ok j \<Longrightarrow> delimited t \<Longrightarrow> parse_json (show_json j @ t) = Some (j, t)"
  using parse_show(1) by (simp add: parse_json_def)


text \<open>The fuel is enough: what any fuel can parse, a fuel of the length consumed parses.\<close>

lemma skip_ws_le: "length (skip_ws s) \<le> length s"
  by (simp add: skip_ws_def length_dropWhile_le)

lemma skip_ws_less: "skip_ws s = c # cs \<Longrightarrow> length cs < length s"
  using skip_ws_le [of s] by simp

lemma cons_text_Some: "cons_text r p = Some (x, t) \<longleftrightarrow> (\<exists>x'. p = Some (x', t) \<and> x = r @ x')"
  by (auto simp: cons_text_def split: option.split)

lemma parse_body_shorter: "parse_body s = Some (x, r) \<Longrightarrow> length r < length s"
proof (induction s arbitrary: x r rule: parse_body.induct)
  case (1 s)
  obtain c cs where s: "s = c # cs"
    using "1.prems" by (cases s) (simp_all add: parse_body.simps [of "[]"])
  note p = "1.prems" [unfolded parse_body.simps [of s], unfolded s list.case, folded s]
  note ih = "1.IH" [OF s]
  consider (close) "c = quotation"
    | (unicode) e es u rest where "c \<noteq> quotation" "c = backslash" "cs = e # es" "e = CHR ''u''" "unicode_escape es = Some (u, rest)"
    | (simple) e es y where "c \<noteq> quotation" "c = backslash" "cs = e # es" "e \<noteq> CHR ''u''" "simple_escape e = Some y"
    | (bad) "c \<noteq> quotation" "c \<noteq> backslash" "\<not> byte c < 32" "rune_len s = 0"
    | (rune) "c \<noteq> quotation" "c \<noteq> backslash" "\<not> byte c < 32" "rune_len s \<noteq> 0"
    using p by (cases "c = quotation"; cases "c = backslash"; cases cs)
      (auto split: if_splits option.splits prod.splits simp del: rune_len.simps)
  then show ?case
  proof cases
    case close
    then show ?thesis using p s by simp
  next
    case (unicode e es u rest)
    then obtain x' where "parse_body rest = Some (x', r)" using p by (auto simp: cons_text_Some)
    then have "length r < length rest" using ih(1) unicode by blast
    then show ?thesis using unicode_escape_shorter [OF unicode(5)] unicode s by simp
  next
    case (simple e es y)
    then obtain x' where "parse_body es = Some (x', r)" using p by (auto simp: cons_text_Some)
    then have "length r < length es" using ih(2) simple by blast
    then show ?thesis using simple s by simp
  next
    case bad
    then obtain x' where "parse_body cs = Some (x', r)" using p by (auto simp: cons_text_Some)
    then have "length r < length cs" using ih(3) bad by blast
    then show ?thesis using s by simp
  next
    case rune
    then obtain x' where "parse_body (drop (rune_len s) s) = Some (x', r)" using p by (auto simp: cons_text_Some)
    then have "length r < length (drop (rune_len s) s)" using ih(4) rune by blast
    then show ?thesis by simp
  qed
qed

lemma parse_number_shorter: "parse_number s = Some (j, r) \<Longrightarrow> length r < length s"
proof -
  assume p: "parse_number s = Some (j, r)"
  then have "takeWhile number_char s \<noteq> []" and r: "r = dropWhile number_char s"
    using valid_number_not_Nil by (auto simp: parse_number_def Let_def split: if_splits)
  moreover have "length s = length (takeWhile number_char s) + length (dropWhile number_char s)"
    by (metis length_append takeWhile_dropWhile_id)
  ultimately show ?thesis by simp
qed

lemma literal_shorter: "literal w j s = Some (j', r) \<Longrightarrow> w \<noteq> [] \<Longrightarrow> s \<noteq> [] \<Longrightarrow> length r < length s"
  by (auto simp: literal_def split: if_splits)


text \<open>A result of a parser that consumed \<open>length s - length r\<close> bytes needs no more fuel than that.\<close>

definition fuelled :: "(nat \<Rightarrow> string \<Rightarrow> ('a \<times> string) option) \<Rightarrow> string \<Rightarrow> 'a \<Rightarrow> string \<Rightarrow> bool" where
  "fuelled p s x r \<longleftrightarrow> length r < length s \<and> (\<forall>n \<ge> length s - length r. p n s = Some (x, r))"

lemma fuelled_Suc:
  assumes "length r < length s" and "\<And>n. length s - length r \<le> Suc n \<Longrightarrow> p (Suc n) s = Some (x, r)"
  shows "fuelled p s x r"
  unfolding fuelled_def
proof (intro conjI allI impI)
  fix n assume "length s - length r \<le> n"
  moreover from this have "n \<noteq> 0" using assms(1) by simp
  ultimately show "p n s = Some (x, r)" using assms(2) by (cases n) auto
qed (fact assms(1))

lemma fuelledD: "fuelled p s x r \<Longrightarrow> length s - length r \<le> n \<Longrightarrow> p n s = Some (x, r)"
  by (simp add: fuelled_def)

lemma fuelled_shorter: "fuelled p s x r \<Longrightarrow> length r < length s"
  by (simp add: fuelled_def)

lemma fuelled_map:
  assumes "fuelled p s x r" and "s' = c # s \<or> skip_ws s' = c # s"
    and "\<And>n. q (Suc n) s' = map_option (map_prod f id) (p n s)"
  shows "fuelled q s' (f x) r"
proof -
  have "length s < length s'" using assms(2) skip_ws_less by auto
  then show ?thesis
    using assms(3) fuelledD [OF assms(1)] fuelled_shorter [OF assms(1)] by (intro fuelled_Suc) simp_all
qed

lemma fuelled_flat:
  assumes "length r < length (skip_ws s)" and "\<And>k. p (Suc k) s = Some (x, r)"
  shows "fuelled p s x r"
  using assms skip_ws_le [of s] by (intro fuelled_Suc) auto

lemma map_prod_Some:
  "map_option (map_prod f id) p = Some (y, r) \<longleftrightarrow> (\<exists>x. p = Some (x, r) \<and> y = f x)"
  by (cases p) auto

lemma parse_scalar_shorter:
  "(if c = CHR ''n'' then literal ''null'' JNull (c # cs)
    else if c = CHR ''t'' then literal ''true'' (JBool True) (c # cs)
    else if c = CHR ''f'' then literal ''false'' (JBool False) (c # cs)
    else parse_number (c # cs)) = Some (j, r) \<Longrightarrow> length r < length (c # cs)"
  by (auto split: if_splits dest!: parse_number_shorter dest: literal_shorter)

lemma parse_value_fuelled:
  assumes p: "parse_value (Suc n) s = Some (j, r)"
    and es: "\<And>cs js r. parse_elems n cs = Some (js, r) \<Longrightarrow> fuelled parse_elems cs js r"
    and ms: "\<And>cs ms r. parse_members n cs = Some (ms, r) \<Longrightarrow> fuelled parse_members cs ms r"
  shows "fuelled parse_value s j r"
proof -
  obtain c cs where s: "skip_ws s = c # cs" using p by (cases "skip_ws s") auto
  consider (quote) "c = quotation" | (arr) "c = CHR ''[''" "c \<noteq> quotation" | (obj) "c = CHR ''{''" "c \<noteq> quotation"
    | (scalar) "c \<noteq> CHR ''[''" "c \<noteq> CHR ''{''" "c \<noteq> quotation" by blast
  then show ?thesis
  proof cases
    case quote
    then obtain x where x: "parse_body cs = Some (x, r)" "j = JStr x" using p s by (auto simp: map_prod_Some)
    then show ?thesis using s quote parse_body_shorter [OF x(1)] by (intro fuelled_flat) auto
  next
    case arr
    then obtain d ds where d: "skip_ws cs = d # ds" using p s by (cases "skip_ws cs") auto
    show ?thesis
    proof (cases "d = CHR '']''")
      case True
      then show ?thesis using p s d arr skip_ws_less [OF d] by (intro fuelled_flat) auto
    next
      case False
      then obtain js where js: "parse_elems n cs = Some (js, r)" "j = JArr js"
        using p s d arr by (auto simp: map_prod_Some)
      then show ?thesis using fuelled_map [OF es [OF js(1)], of s c parse_value JArr] s d arr False by simp
    qed
  next
    case obj
    then obtain d ds where d: "skip_ws cs = d # ds" using p s by (cases "skip_ws cs") auto
    show ?thesis
    proof (cases "d = CHR ''}''")
      case True
      then show ?thesis using p s d obj skip_ws_less [OF d] by (intro fuelled_flat) auto
    next
      case False
      then obtain js where js: "parse_members n cs = Some (js, r)" "j = JObj js"
        using p s d obj by (auto simp: map_prod_Some)
      then show ?thesis using fuelled_map [OF ms [OF js(1)], of s c parse_value JObj] s d obj False by simp
    qed
  next
    case scalar
    then show ?thesis using p s parse_scalar_shorter [of c cs j r] by (intro fuelled_flat) simp_all
  qed
qed

lemma parse_elems_fuelled:
  assumes p: "parse_elems (Suc n) s = Some (js, r)"
    and v: "\<And>s j r. parse_value n s = Some (j, r) \<Longrightarrow> fuelled parse_value s j r"
    and es: "\<And>cs js r. parse_elems n cs = Some (js, r) \<Longrightarrow> fuelled parse_elems cs js r"
  shows "fuelled parse_elems s js r"
proof -
  obtain j r1 where j: "parse_value n s = Some (j, r1)" using p by (cases "parse_value n s") auto
  obtain c cs where c: "skip_ws r1 = c # cs" using p j by (cases "skip_ws r1") auto
  note fv = v [OF j] and less = skip_ws_less [OF c] fuelled_shorter [OF v [OF j]]
  show ?thesis
  proof (cases "c = CHR '',''")
    case True
    then obtain js' where js': "parse_elems n cs = Some (js', r)" "js = j # js'"
      using p j c by (auto simp: map_prod_Some)
    note fe = es [OF js'(1)]
    show ?thesis
    proof (rule fuelled_Suc)
      show "length r < length s" using less fuelled_shorter [OF fe] by simp
      fix k assume "length s - length r \<le> Suc k"
      then have "parse_value k s = Some (j, r1)" "parse_elems k cs = Some (js', r)"
        using fuelledD [OF fv, of k] fuelledD [OF fe, of k] less fuelled_shorter [OF fe] by auto
      then show "parse_elems (Suc k) s = Some (js, r)" using c True js'(2) by simp
    qed
  next
    case False
    then have r: "c = CHR '']''" "js = [j]" "r = cs" using p j c by (auto split: if_splits)
    show ?thesis
    proof (rule fuelled_Suc)
      show "length r < length s" using less r by simp
      fix k assume "length s - length r \<le> Suc k"
      then have "parse_value k s = Some (j, r1)" using fuelledD [OF fv, of k] less r by auto
      then show "parse_elems (Suc k) s = Some (js, r)" using c r by simp
    qed
  qed
qed

lemma parse_members_fuelled:
  assumes p: "parse_members (Suc n) s = Some (ms, r)"
    and v: "\<And>s j r. parse_value n s = Some (j, r) \<Longrightarrow> fuelled parse_value s j r"
    and es: "\<And>cs ms r. parse_members n cs = Some (ms, r) \<Longrightarrow> fuelled parse_members cs ms r"
  shows "fuelled parse_members s ms r"
proof -
  obtain q ks where q: "skip_ws s = q # ks" "q = quotation" using p by (cases "skip_ws s") (auto split: if_splits)
  obtain key r0 where b: "parse_body ks = Some (key, r0)" using p q by (cases "parse_body ks") auto
  obtain e s' where e: "skip_ws r0 = e # s'" "e = CHR '':''" using p q b by (cases "skip_ws r0") (auto split: if_splits)
  obtain j r1 where j: "parse_value n s' = Some (j, r1)" using p q b e by (cases "parse_value n s'") auto
  obtain c cs where c: "skip_ws r1 = c # cs" using p q b e j by (cases "skip_ws r1") auto
  note fv = v [OF j]
    and less = skip_ws_less [OF c] fuelled_shorter [OF v [OF j]] skip_ws_less [OF e(1)] parse_body_shorter [OF b] skip_ws_less [OF q(1)]
  show ?thesis
  proof (cases "c = CHR '',''")
    case True
    then obtain ms' where ms': "parse_members n cs = Some (ms', r)" "ms = (key, j) # ms'"
      using p q b e j c by (auto simp: map_prod_Some)
    note fe = es [OF ms'(1)]
    show ?thesis
    proof (rule fuelled_Suc)
      show "length r < length s" using less fuelled_shorter [OF fe] by simp
      fix k assume "length s - length r \<le> Suc k"
      then have "parse_value k s' = Some (j, r1)" "parse_members k cs = Some (ms', r)"
        using fuelledD [OF fv, of k] fuelledD [OF fe, of k] less fuelled_shorter [OF fe] by auto
      then show "parse_members (Suc k) s = Some (ms, r)" using q b e c True ms'(2) by simp
    qed
  next
    case False
    then have r: "c = CHR ''}''" "ms = [(key, j)]" "r = cs" using p q b e j c by (auto split: if_splits)
    show ?thesis
    proof (rule fuelled_Suc)
      show "length r < length s" using less r by simp
      fix k assume "length s - length r \<le> Suc k"
      then have "parse_value k s' = Some (j, r1)" using fuelledD [OF fv, of k] less r by auto
      then show "parse_members (Suc k) s = Some (ms, r)" using q b e c r by simp
    qed
  qed
qed

lemma parse_fuelled:
  "(parse_value m s = Some (j, r) \<longrightarrow> fuelled parse_value s j r)
    \<and> (parse_elems m s = Some (js, r) \<longrightarrow> fuelled parse_elems s js r)
    \<and> (parse_members m s = Some (ms, r) \<longrightarrow> fuelled parse_members s ms r)"
proof (induction m arbitrary: s j r js ms)
  case (Suc n)
  then show ?case
    using parse_value_fuelled [of n] parse_elems_fuelled [of n] parse_members_fuelled [of n] by blast
qed simp

text \<open>So the parser decides with the fuel it is given, and consumes at least a byte.\<close>

lemma parse_json_complete: "parse_value m s = Some (j, r) \<Longrightarrow> parse_json s = Some (j, r)"
  using parse_fuelled fuelledD [of parse_value s j r "length s"] by (simp add: parse_json_def)

lemma parse_json_shorter: "parse_json s = Some (j, r) \<Longrightarrow> length r < length s"
  using parse_fuelled fuelled_shorter [of parse_value s j r] by (simp add: parse_json_def)

end
