(* ===== verification/JsonTime.thy ===== *)
theory JsonTime
  imports GoFormat
begin

text \<open>
  The text of a \<open>time.Time\<close> in JSON: RFC 3339 with the nanoseconds that are not zero, in UTC.
  \<open>MarshalJSON\<close> fails on a year outside 0 to 9999; parsing follows \<open>parseRFC3339\<close>, which reads
  fields at fixed offsets, a fraction of any length and a zone offset.
\<close>

section \<open>Printing\<close>

definition date_text :: "int \<Rightarrow> int \<Rightarrow> int \<Rightarrow> string" where
  "date_text y m d =
     pad_zero 4 (show_int y) @ ''-'' @ pad_zero 2 (show_int m) @ ''-'' @ pad_zero 2 (show_int d)"

definition clock_text :: "int \<Rightarrow> string" where
  "clock_text s =
     pad_zero 2 (show_int (s div 3600)) @ '':'' @ pad_zero 2 (show_int (s mod 3600 div 60)) @ '':''
     @ pad_zero 2 (show_int (s mod 60))"

definition time_text :: "Time \<Rightarrow> string option" where
  "time_text t =
     (let secs = t div Second; (y, m, d) = civil_date (secs div 86400 + 306)
      in if y < 0 \<or> 9999 < y then None
         else Some (date_text y m d @ ''T'' @ clock_text (secs mod 86400) @ fmtFrac (nat (t mod Second)) 9 @ ''Z''))"

section \<open>Parsing\<close>

definition sub_text :: "nat \<Rightarrow> nat \<Rightarrow> string \<Rightarrow> string" where
  "sub_text i j s = take (j - i) (drop i s)"

definition parse_uint :: "string \<Rightarrow> int \<Rightarrow> int \<Rightarrow> int option" where
  "parse_uint s lo hi =
     (case digits_value 0 s of
        None \<Rightarrow> None
      | Some n \<Rightarrow> if int n < lo \<or> hi < int n then None else Some (int n))"

text \<open>\<open>parseNanoseconds\<close>: nine digits count, missing ones are zero.\<close>

definition fraction_value :: "string \<Rightarrow> int" where
  "fraction_value ds = (case digits_value 0 (take 9 (ds @ replicate 9 (CHR ''0''))) of Some n \<Rightarrow> int n | None \<Rightarrow> 0)"

definition parse_zone :: "string \<Rightarrow> int option" where
  "parse_zone s =
     (if s = ''Z'' then Some 0
      else if length s \<noteq> 6 \<or> \<not> (hd s = CHR ''-'' \<or> hd s = CHR ''+'') \<or> s ! 3 \<noteq> CHR '':'' then None
      else case (parse_uint (sub_text 1 3 s) 0 23, parse_uint (sub_text 4 6 s) 0 59) of
             (Some hr, Some mm) \<Rightarrow> Some ((if hd s = CHR ''-'' then -1 else 1) * (hr * 60 + mm) * 60)
           | _ \<Rightarrow> None)"

definition parse_fraction :: "string \<Rightarrow> int \<times> string" where
  "parse_fraction s =
     (case s of
        p # q # r \<Rightarrow> if p = CHR ''.'' \<and> is_digit q
          then (fraction_value (takeWhile is_digit (q # r)), dropWhile is_digit (q # r)) else (0, s)
      | _ \<Rightarrow> (0, s))"

definition parse_time :: "string \<Rightarrow> Time option" where
  "parse_time s =
     (if length s < 19 \<or> s ! 4 \<noteq> CHR ''-'' \<or> s ! 7 \<noteq> CHR ''-'' \<or> s ! 10 \<noteq> CHR ''T'' \<or> s ! 13 \<noteq> CHR '':''
         \<or> s ! 16 \<noteq> CHR '':'' then None
      else
        do {
          y \<leftarrow> parse_uint (sub_text 0 4 s) 0 9999;
          m \<leftarrow> parse_uint (sub_text 5 7 s) 1 12;
          d \<leftarrow> parse_uint (sub_text 8 10 s) 1 (daysIn m y);
          hr \<leftarrow> parse_uint (sub_text 11 13 s) 0 23;
          mi \<leftarrow> parse_uint (sub_text 14 16 s) 0 59;
          sec \<leftarrow> parse_uint (sub_text 17 19 s) 0 59;
          zone \<leftarrow> parse_zone (snd (parse_fraction (drop 19 s)));
          Some (((date_day y m d - 306) * 86400 + hr * 3600 + mi * 60 + sec - zone) * Second
            + fst (parse_fraction (drop 19 s)))
        })"

section \<open>Parsing reads what printing wrote\<close>

lemma show_nat_digit: "n < 10 \<Longrightarrow> show_nat n = [digit_char n]"
  by (subst show_nat.simps) simp

lemma show_nat_step: "10 \<le> n \<Longrightarrow> show_nat n = show_nat (n div 10) @ [digit_char (n mod 10)]"
  by (subst show_nat.simps) simp

lemma digit_char_0: "digit_char 0 = CHR ''0''"
  by code_simp

lemma pad_zero_step:
  assumes "n < 10 ^ Suc w" and "0 < w"
  shows "pad_zero (Suc w) (show_nat n) = pad_zero w (show_nat (n div 10)) @ [digit_char (n mod 10)]"
proof (cases "n < 10")
  case True
  have "replicate w (CHR ''0'') = replicate (w - 1) (CHR ''0'') @ [CHR ''0'']"
    using assms(2) by (metis Suc_diff_1 replicate_Suc replicate_append_same)
  then show ?thesis using True by (simp add: pad_zero_def show_nat_digit digit_char_0)
next
  case False
  then show ?thesis by (simp add: pad_zero_def show_nat_step [of n])
qed

lemma pad_2: "n < 100 \<Longrightarrow> pad_zero 2 (show_nat n) = [digit_char (n div 10), digit_char (n mod 10)]"
  using pad_zero_step [of n 1] by (simp add: pad_zero_def show_nat_digit numeral_2_eq_2)

lemma pad_4:
  assumes "n < 10000"
  shows "pad_zero 4 (show_nat n) =
    [digit_char (n div 1000), digit_char (n div 100 mod 10), digit_char (n div 10 mod 10), digit_char (n mod 10)]"
proof -
  have "n div 10 div 10 = n div 100" "n div 100 div 10 = n div 1000" "n div 100 mod 100 = n div 100"
    using assms by (simp_all flip: div_mult2_eq)
  moreover have "pad_zero 4 (show_nat n) = pad_zero 3 (show_nat (n div 10)) @ [digit_char (n mod 10)]"
    using pad_zero_step [of n 3] assms by simp
  moreover have "pad_zero 3 (show_nat (n div 10)) = pad_zero 2 (show_nat (n div 100)) @ [digit_char (n div 10 mod 10)]"
    using pad_zero_step [of "n div 10" 2] assms calculation(1) by (simp add: numeral_3_eq_3)
  moreover have "pad_zero 2 (show_nat (n div 100)) = [digit_char (n div 1000), digit_char (n div 100 mod 10)]"
    using pad_2 [of "n div 100"] assms calculation(2) by simp
  ultimately show ?thesis by simp
qed

lemma show_int_nat: "0 \<le> x \<Longrightarrow> show_int x = show_nat (nat x)"
  by (simp add: show_int_def)

lemma parse_uint_2:
  assumes "n < 100" "lo \<le> int n" "int n \<le> hi"
  shows "parse_uint [digit_char (n div 10), digit_char (n mod 10)] lo hi = Some (int n)"
proof -
  have "n div 10 < 10" "n mod 10 < 10" "n div 10 * 10 + n mod 10 = n" using assms(1) by simp_all
  then show ?thesis
    using assms(2,3) by (simp add: parse_uint_def digit_char_is_digit digit_value_digit_char mult.commute)
qed

lemma parse_uint_4:
  assumes "n < 10000"
  shows "parse_uint [digit_char (n div 1000), digit_char (n div 100 mod 10), digit_char (n div 10 mod 10), digit_char (n mod 10)]
    0 9999 = Some (int n)"
proof -
  have "n div 1000 < 10" "n div 100 mod 10 < 10" "n div 10 mod 10 < 10" "n mod 10 < 10" using assms by simp_all
  moreover have "10 * (10 * (10 * (n div 1000) + n div 100 mod 10) + n div 10 mod 10) + n mod 10 = n"
  proof -
    have e: "n div 1000 = n div 100 div 10" "n div 100 = n div 10 div 10" by (simp_all flip: div_mult2_eq)
    show ?thesis unfolding e by (simp only: mult_div_mod_eq)
  qed
  ultimately show ?thesis
    using assms by (simp add: parse_uint_def digit_char_is_digit digit_value_digit_char)
qed

lemma frac_digits_props: "length (frac_digits v k) = k" "list_all is_digit (frac_digits v k)"
  "v < 10 ^ k \<Longrightarrow> digits_value 0 (frac_digits v k) = Some v"
  by (induction k arbitrary: v)
    (auto simp: Let_def digit_char_is_digit digits_value_append digit_value_digit_char less_mult_imp_div_less)

lemma trim_zeros_append: "trim_zeros s @ replicate (length s - length (trim_zeros s)) (CHR ''0'') = s"
proof -
  have "rev s = takeWhile (\<lambda>c. c = CHR ''0'') (rev s) @ dropWhile (\<lambda>c. c = CHR ''0'') (rev s)" by simp
  then have "s = trim_zeros s @ rev (takeWhile (\<lambda>c. c = CHR ''0'') (rev s))"
    by (metis rev_append rev_rev_ident trim_zeros_def)
  moreover have "takeWhile (\<lambda>c. c = CHR ''0'') (rev s) = replicate (length s - length (trim_zeros s)) (CHR ''0'')"
  proof -
    have "length s = length (trim_zeros s) + length (takeWhile (\<lambda>c. c = CHR ''0'') (rev s))"
      using calculation by (metis length_append length_rev)
    moreover have "takeWhile (\<lambda>c. c = CHR ''0'') xs = replicate (length (takeWhile (\<lambda>c. c = CHR ''0'') xs)) (CHR ''0'')" for xs
      by (induction xs) auto
    ultimately show ?thesis by (metis add_diff_cancel_left')
  qed
  ultimately show ?thesis by simp
qed

lemma fraction_value_Nil: "fraction_value [] = 0"
  by code_simp

lemma fraction_value_trim:
  assumes "v < 10 ^ 9"
  shows "fraction_value (trim_zeros (frac_digits v 9)) = int v"
proof -
  let ?t = "trim_zeros (frac_digits v 9)"
  have a: "?t @ replicate (9 - length ?t) (CHR ''0'') = frac_digits v 9"
    using trim_zeros_append [of "frac_digits v 9"] frac_digits_props(1) [of v 9] by simp
  have l: "length ?t \<le> 9"
    using frac_digits_props(1) [of v 9] by (metis a length_append le_add1)
  then have "take 9 (?t @ replicate 9 (CHR ''0'')) = ?t @ replicate (9 - length ?t) (CHR ''0'')"
    by simp
  then have "take 9 (?t @ replicate 9 (CHR ''0'')) = frac_digits v 9" using a by simp
  then show ?thesis using frac_digits_props(3) [of v 9] assms by (simp add: fraction_value_def)
qed

lemma parse_fraction_fmtFrac:
  assumes "v < 10 ^ 9"
  shows "parse_fraction (fmtFrac v 9 @ ''Z'') = (int v, ''Z'')"
proof (cases "trim_zeros (frac_digits v 9)")
  case Nil
  then have "int v = 0"
    using fraction_value_trim [OF assms] by (simp add: fraction_value_Nil)
  then show ?thesis using Nil by (simp add: fmtFrac_def parse_fraction_def)
next
  case (Cons q r)
  have "set (trim_zeros (frac_digits v 9)) \<subseteq> set (frac_digits v 9)"
    by (metis Un_upper1 set_append trim_zeros_append)
  then have "\<forall>c \<in> set (q # r). is_digit c" using frac_digits_props(2) [of v 9] Cons by (auto simp: list_all_iff)
  moreover have "\<not> is_digit (CHR ''Z'')" by (simp add: is_digit_def)
  ultimately have "takeWhile is_digit (q # r @ ''Z'') = q # r" "dropWhile is_digit (q # r @ ''Z'') = ''Z''" "is_digit q"
    by auto
  then show ?thesis
    using fraction_value_trim [OF assms] Cons by (simp add: fmtFrac_def parse_fraction_def)
qed

lemma clock_fields:
  assumes "0 \<le> s" "s < (86400::int)"
  shows "0 \<le> s div 3600" "s div 3600 \<le> 23" "0 \<le> s mod 3600 div 60" "s mod 3600 div 60 \<le> 59"
    "0 \<le> s mod 60" "s mod 60 \<le> 59" "s div 3600 * 3600 + s mod 3600 div 60 * 60 + s mod 60 = s"
proof -
  have "s div 3600 * 3600 + s mod 3600 = s" "s mod 3600 div 60 * 60 + s mod 3600 mod 60 = s mod 3600"
    by (simp_all only: div_mult_mod_eq)
  moreover have "s mod 3600 mod 60 = s mod 60" by (rule mod_mod_cancel) simp
  ultimately show "s div 3600 * 3600 + s mod 3600 div 60 * 60 + s mod 60 = s" by linarith
  have "0 \<le> s mod 3600" "s mod 3600 < 3600" by simp_all
  then show "0 \<le> s mod 3600 div 60" "s mod 3600 div 60 \<le> 59" by linarith+
  show "0 \<le> s mod 60" "s mod 60 \<le> 59" by simp_all
  show "0 \<le> s div 3600" "s div 3600 \<le> 23" using assms by linarith+
qed

lemma parse_time_text:
  assumes "time_text t = Some s"
  shows "parse_time s = Some t"
proof -
  define secs where "secs = t div Second"
  obtain y m d where c: "civil_date (secs div 86400 + 306) = (y, m, d)" by (metis prod_cases3)
  define k where "k = secs mod 86400"
  define n where "n = nat (t mod Second)"
  define yn mn dn where "yn = nat y" and "mn = nat m" and "dn = nat d"
  define hn in' sn where "hn = nat (k div 3600)" and "in' = nat (k mod 3600 div 60)" and "sn = nat (k mod 60)"
  note p = civil_date_props [OF c]
  have y: "0 \<le> y" "y \<le> 9999" and s: "s = date_text y m d @ ''T'' @ clock_text k @ fmtFrac n 9 @ ''Z''"
    using assms c by (auto simp: time_text_def Let_def secs_def k_def n_def split: if_splits)
  have d: "d \<le> 31" using p(4) by (auto simp: daysIn_def split: if_splits)
  have k: "0 \<le> k" "k < 86400" by (simp_all add: k_def)
  note f = clock_fields [OF k]
  have eqs: "y = int yn" "m = int mn" "d = int dn" "k div 3600 = int hn" "k mod 3600 div 60 = int in'" "k mod 60 = int sn"
    unfolding yn_def mn_def dn_def hn_def in'_def sn_def using y(1) p(1,3) f(1,3,5) by linarith+
  have lim: "yn < 10000" "mn < 100" "dn < 100" "hn < 100" "in' < 100" "sn < 100"
    using y(2) p(2) d f(2,4,6) by (simp_all only: yn_def mn_def dn_def hn_def in'_def sn_def)
  have n: "n < 10 ^ 9" "int n = t mod Second" by (simp_all add: n_def)
  have tx: "date_text y m d = [digit_char (yn div 1000), digit_char (yn div 100 mod 10), digit_char (yn div 10 mod 10),
      digit_char (yn mod 10), CHR ''-'', digit_char (mn div 10), digit_char (mn mod 10), CHR ''-'', digit_char (dn div 10), digit_char (dn mod 10)]"
    "clock_text k = [digit_char (hn div 10), digit_char (hn mod 10), CHR '':'', digit_char (in' div 10), digit_char (in' mod 10),
      CHR '':'', digit_char (sn div 10), digit_char (sn mod 10)]"
    using lim by (simp_all add: date_text_def clock_text_def show_int_nat eqs pad_2 pad_4)
  have "parse_time s = Some (((date_day y m d - 306) * 86400 + k div 3600 * 3600 + k mod 3600 div 60 * 60 + k mod 60) * Second + int n)"
    unfolding s tx
    using p(1-4) lim f parse_uint_4 [OF lim(1)] parse_uint_2 [OF lim(2), of 1 12] parse_uint_2 [OF lim(3), of 1 "daysIn m y"]
      parse_uint_2 [OF lim(4), of 0 23] parse_uint_2 [OF lim(5), of 0 59] parse_uint_2 [OF lim(6), of 0 59]
    by (simp add: parse_time_def sub_text_def eqs parse_fraction_fmtFrac [OF n(1)] parse_zone_def)
  also have "((date_day y m d - 306) * 86400 + k div 3600 * 3600 + k mod 3600 div 60 * 60 + k mod 60) = secs"
    using f(7) div_mult_mod_eq [of secs 86400, folded k_def] by (simp only: p(5) add_diff_cancel_right' add.assoc)
  also have "secs * Second + int n = t" unfolding n(2) secs_def by simp
  finally show ?thesis .
qed

end
