(* ===== verification/JsonCodec.thy ===== *)
theory JsonCodec
  imports Json JsonTime
begin

text \<open>
  \<open>json.Marshal\<close> and \<open>Decoder.Decode\<close> on typed values, as reflection over a struct's tags
  drives them: a codec per Go type, a field per tag, and a struct as its list of fields.  Decoding
  is into a variable that holds an old value; \<open>None\<close> is an error.
\<close>

record 'a codec =
  cd_enc :: "'a \<Rightarrow> json option"
  cd_dec :: "json \<Rightarrow> 'a \<Rightarrow> 'a option"
  cd_empty :: "'a \<Rightarrow> bool"
  cd_zero :: 'a

section \<open>Scalars\<close>

text \<open>\<open>null\<close> leaves the variable as it is.\<close>

definition dec_scalar :: "(json \<Rightarrow> 'a option) \<Rightarrow> json \<Rightarrow> 'a \<Rightarrow> 'a option" where
  "dec_scalar f j old = (case j of JNull \<Rightarrow> Some old | _ \<Rightarrow> f j)"

definition ParseUint :: "nat \<Rightarrow> string \<Rightarrow> nat option" where
  "ParseUint w s =
     (if s = [] then None
      else case digits_value 0 s of None \<Rightarrow> None | Some n \<Rightarrow> if n < 2 ^ w then Some n else None)"

definition uint_codec :: "('w::len) word codec" where
  "uint_codec = \<lparr>
     cd_enc = (\<lambda>w. Some (JNum (show_nat (unat w)))),
     cd_dec = dec_scalar (\<lambda>j. case j of JNum s \<Rightarrow> map_option of_nat (ParseUint LENGTH('w) s) | _ \<Rightarrow> None),
     cd_empty = (\<lambda>w. w = 0), cd_zero = 0\<rparr>"

definition int_codec :: "int codec" where
  "int_codec = \<lparr>
     cd_enc = (\<lambda>x. Some (JNum (show_int x))),
     cd_dec = dec_scalar (\<lambda>j. case j of JNum s \<Rightarrow> ParseInt s | _ \<Rightarrow> None),
     cd_empty = (\<lambda>x. x = 0), cd_zero = 0\<rparr>"

definition bool_codec :: "bool codec" where
  "bool_codec = \<lparr>
     cd_enc = (\<lambda>b. Some (JBool b)),
     cd_dec = dec_scalar (\<lambda>j. case j of JBool b \<Rightarrow> Some b | _ \<Rightarrow> None),
     cd_empty = (\<lambda>b. \<not> b), cd_zero = False\<rparr>"

definition string_codec :: "string codec" where
  "string_codec = \<lparr>
     cd_enc = (\<lambda>s. Some (JStr s)),
     cd_dec = dec_scalar (\<lambda>j. case j of JStr s \<Rightarrow> Some s | _ \<Rightarrow> None),
     cd_empty = (\<lambda>s. s = []), cd_zero = []\<rparr>"

text \<open>\<open>omitempty\<close> never omits a struct, and \<open>time.Time\<close> is one.\<close>

definition time_codec :: "Time codec" where
  "time_codec = \<lparr>
     cd_enc = (\<lambda>t. map_option JStr (time_text t)),
     cd_dec = dec_scalar (\<lambda>j. case j of JStr s \<Rightarrow> parse_time s | _ \<Rightarrow> None),
     cd_empty = (\<lambda>t. False), cd_zero = 0\<rparr>"

section \<open>Slices, arrays and pointers\<close>

fun enc_list :: "('a \<Rightarrow> 'b option) \<Rightarrow> 'a list \<Rightarrow> 'b list option" where
  "enc_list f [] = Some []"
| "enc_list f (x # xs) = do { j \<leftarrow> f x; js \<leftarrow> enc_list f xs; Some (j # js) }"

text \<open>An element is decoded over the old element at its index, if there is one.\<close>

fun dec_elems :: "(json \<Rightarrow> 'a \<Rightarrow> 'a option) \<Rightarrow> 'a \<Rightarrow> json list \<Rightarrow> 'a list \<Rightarrow> 'a list option" where
  "dec_elems f z [] old = Some []"
| "dec_elems f z (j # js) old =
     do { x \<leftarrow> f j (case old of [] \<Rightarrow> z | y # _ \<Rightarrow> y); xs \<leftarrow> dec_elems f z js (tl old); Some (x # xs) }"

text \<open>A nil slice is written \<open>null\<close>, an empty one \<open>[]\<close>; the lists of the model do not tell them apart.\<close>

definition slice_codec :: "bool \<Rightarrow> 'a codec \<Rightarrow> 'a list codec" where
  "slice_codec nil c = \<lparr>
     cd_enc = (\<lambda>xs. if xs = [] \<and> nil then Some JNull else map_option JArr (enc_list (cd_enc c) xs)),
     cd_dec = (\<lambda>j old. case j of
        JNull \<Rightarrow> Some []
      | JArr js \<Rightarrow> dec_elems (cd_dec c) (cd_zero c) js old
      | _ \<Rightarrow> None),
     cd_empty = (\<lambda>xs. xs = []), cd_zero = []\<rparr>"

text \<open>A fixed array: elements beyond its length are ignored, missing ones become zero.\<close>

fun dec_array :: "(json \<Rightarrow> 'a \<Rightarrow> 'a option) \<Rightarrow> 'a \<Rightarrow> json list \<Rightarrow> 'a list \<Rightarrow> 'a list option" where
  "dec_array f z js [] = Some []"
| "dec_array f z [] (y # ys) = Some (replicate (length (y # ys)) z)"
| "dec_array f z (j # js) (y # ys) = do { x \<leftarrow> f j y; xs \<leftarrow> dec_array f z js ys; Some (x # xs) }"

definition array_codec :: "nat \<Rightarrow> 'a codec \<Rightarrow> 'a list codec" where
  "array_codec n c = \<lparr>
     cd_enc = (\<lambda>xs. map_option JArr (enc_list (cd_enc c) xs)),
     cd_dec = (\<lambda>j old. case j of
        JNull \<Rightarrow> Some old
      | JArr js \<Rightarrow> dec_array (cd_dec c) (cd_zero c) js old
      | _ \<Rightarrow> None),
     cd_empty = (\<lambda>xs. n = 0), cd_zero = replicate n (cd_zero c)\<rparr>"

definition ptr_codec :: "'a codec \<Rightarrow> 'a option codec" where
  "ptr_codec c = \<lparr>
     cd_enc = (\<lambda>p. case p of None \<Rightarrow> Some JNull | Some x \<Rightarrow> cd_enc c x),
     cd_dec = (\<lambda>j old. if j = JNull then Some None
        else map_option Some (cd_dec c j (case old of None \<Rightarrow> cd_zero c | Some x \<Rightarrow> x))),
     cd_empty = (\<lambda>p. p = None), cd_zero = None\<rparr>"

section \<open>Structs\<close>

text \<open>A field writes its member, or none when \<open>omitempty\<close> omits it, and reads it.\<close>

record 'x field =
  fl_name :: string
  fl_enc :: "'x \<Rightarrow> (string \<times> json) list option"
  fl_dec :: "json \<Rightarrow> 'x \<Rightarrow> 'x option"

definition set_field :: "'a codec \<Rightarrow> ('x \<Rightarrow> 'a) \<Rightarrow> (('a \<Rightarrow> 'a) \<Rightarrow> 'x \<Rightarrow> 'x) \<Rightarrow> json \<Rightarrow> 'x \<Rightarrow> 'x option" where
  "set_field c get upd j x = map_option (\<lambda>v. upd (\<lambda>_. v) x) (cd_dec c j (get x))"

definition member :: "string \<Rightarrow> 'a codec \<Rightarrow> ('x \<Rightarrow> 'a) \<Rightarrow> (('a \<Rightarrow> 'a) \<Rightarrow> 'x \<Rightarrow> 'x) \<Rightarrow> 'x field" where
  "member n c get upd = \<lparr>fl_name = n,
     fl_enc = (\<lambda>x. map_option (\<lambda>j. [(n, j)]) (cd_enc c (get x))),
     fl_dec = set_field c get upd\<rparr>"

definition omitempty :: "string \<Rightarrow> 'a codec \<Rightarrow> ('x \<Rightarrow> 'a) \<Rightarrow> (('a \<Rightarrow> 'a) \<Rightarrow> 'x \<Rightarrow> 'x) \<Rightarrow> 'x field" where
  "omitempty n c get upd = \<lparr>fl_name = n,
     fl_enc = (\<lambda>x. if cd_empty c (get x) then Some [] else map_option (\<lambda>j. [(n, j)]) (cd_enc c (get x))),
     fl_dec = set_field c get upd\<rparr>"

text \<open>
  Names match by Unicode case folding: ASCII letters, and the Kelvin sign and the long s, which
  fold to ASCII.
\<close>

definition lower :: "char \<Rightarrow> char" where
  "lower c = (if between 65 90 c then char_of (of_char c + 32 :: nat) else c)"

fun fold_key :: "string \<Rightarrow> string" where
  "fold_key (a # b # c # s) =
     (if a = CHR 0xC5 \<and> b = CHR 0xBF then CHR ''s'' # fold_key (c # s)
      else if a = CHR 0xE2 \<and> b = CHR 0x84 \<and> c = CHR 0xAA then CHR ''k'' # fold_key s
      else lower a # fold_key (b # c # s))"
| "fold_key [a, b] = (if a = CHR 0xC5 \<and> b = CHR 0xBF then ''s'' else [lower a, lower b])"
| "fold_key [a] = [lower a]"
| "fold_key [] = []"

definition EqualFold :: "string \<Rightarrow> string \<Rightarrow> bool" where
  "EqualFold s t \<longleftrightarrow> fold_key s = fold_key t"

text \<open>The field of a key: an exact match first, then the first that matches up to case.\<close>

definition find_field :: "'x field list \<Rightarrow> string \<Rightarrow> 'x field option" where
  "find_field fs k =
     (case find (\<lambda>f. fl_name f = k) fs of
        Some f \<Rightarrow> Some f
      | None \<Rightarrow> find (\<lambda>f. EqualFold (fl_name f) k) fs)"

fun enc_fields :: "'x field list \<Rightarrow> 'x \<Rightarrow> (string \<times> json) list option" where
  "enc_fields [] x = Some []"
| "enc_fields (f # fs) x = do { ms \<leftarrow> fl_enc f x; rest \<leftarrow> enc_fields fs x; Some (ms @ rest) }"

text \<open>Members in the order of the text; an unknown key is skipped, a repeated one decoded again.\<close>

fun dec_members :: "'x field list \<Rightarrow> (string \<times> json) list \<Rightarrow> 'x \<Rightarrow> 'x option" where
  "dec_members fs [] x = Some x"
| "dec_members fs ((k, j) # ms) x =
     (case find_field fs k of
        None \<Rightarrow> dec_members fs ms x
      | Some f \<Rightarrow> do { x' \<leftarrow> fl_dec f j x; dec_members fs ms x' })"

definition struct_codec :: "'x field list \<Rightarrow> 'x \<Rightarrow> 'x codec" where
  "struct_codec fs z = \<lparr>
     cd_enc = (\<lambda>x. map_option JObj (enc_fields fs x)),
     cd_dec = (\<lambda>j x. case j of JNull \<Rightarrow> Some x | JObj ms \<Rightarrow> dec_members fs ms x | _ \<Rightarrow> None),
     cd_empty = (\<lambda>x. False), cd_zero = z\<rparr>"

section \<open>The contract of a codec\<close>

text \<open>
  On the values \<open>P\<close>: marshalling succeeds with text that parses, decoding it into a zero variable
  gives the value back, and only the zero value is empty.
\<close>

locale json_codec =
  fixes c :: "'a codec" and P :: "'a \<Rightarrow> bool"
  assumes encodes: "P x \<Longrightarrow> \<exists>j. cd_enc c x = Some j \<and> json_ok j \<and> cd_dec c j (cd_zero c) = Some x"
    and empty_zero: "P x \<Longrightarrow> cd_empty c x \<Longrightarrow> x = cd_zero c"
begin

text \<open>What a reader gets from the text of a value, whatever delimiter follows it.\<close>

lemma text_roundtrip:
  assumes "P x" and "delimited t"
  shows "\<exists>j. cd_enc c x = Some j \<and> parse_json (show_json j @ t) = Some (j, t) \<and> cd_dec c j (cd_zero c) = Some x"
  using encodes [OF assms(1)] parse_json_show assms(2) by blast

end

lemma json_codecD: "json_codec c P \<Longrightarrow> P x \<Longrightarrow> \<exists>j. cd_enc c x = Some j \<and> json_ok j \<and> cd_dec c j (cd_zero c) = Some x"
  by (rule json_codec.encodes)

subsection \<open>Numbers\<close>

lemma show_nat_head: "n \<noteq> 0 \<Longrightarrow> hd (show_nat n) \<noteq> CHR ''0''"
proof (induction n rule: show_nat.induct)
  case (1 n)
  show ?case
  proof (cases "n < 10")
    case True
    then have "hd (show_nat n) = digit_char n" by (simp add: show_nat_digit)
    moreover have "digit_value (CHR ''0'') = 0" by code_simp
    ultimately show ?thesis using "1.prems" digit_value_digit_char [OF True] by metis
  next
    case False
    then have "hd (show_nat n) = hd (show_nat (n div 10))"
      using show_nat_step [of n] show_nat_not_Nil [of "n div 10"] by simp
    then show ?thesis using "1.IH" False by simp
  qed
qed

lemma valid_number_digits:
  assumes "list_all is_digit ds" "ds \<noteq> []" "hd ds = CHR ''0'' \<Longrightarrow> length ds = 1"
  shows "valid_number ds" "valid_number (CHR ''-'' # ds)"
proof -
  have d: "takeWhile is_digit ds = ds" "dropWhile is_digit ds = []"
    using assms(1) by (auto simp: list_all_iff takeWhile_eq_all_conv)
  have "hd ds \<noteq> CHR ''-''"
    using assms(1,2) by (cases ds) (auto simp: is_digit_def)
  then obtain c cs where ds: "ds = c # cs" "c \<noteq> CHR ''-''" using assms(2) by (cases ds) auto
  show "valid_number ds" "valid_number (CHR ''-'' # ds)"
    using d assms(3) ds by (simp_all add: valid_number_def valid_fraction_def)
qed

lemma number_char_digit: "is_digit c \<Longrightarrow> number_char c"
  by (simp add: number_char_def)

lemma show_nat_ok: "json_ok (JNum (show_nat n))" "json_ok (JNum (CHR ''-'' # show_nat n))"
proof -
  have d: "list_all is_digit (show_nat n)" using show_nat_digits by (simp add: list_all_iff)
  have z: "hd (show_nat n) = CHR ''0'' \<Longrightarrow> length (show_nat n) = 1"
    using show_nat_head [of n] by (cases "n = 0") (auto simp: show_nat_digit)
  have "list_all number_char (show_nat n)" using d number_char_digit by (auto simp: list_all_iff)
  moreover have "number_char (CHR ''-'')" by (simp add: number_char_def)
  ultimately show "json_ok (JNum (show_nat n))" "json_ok (JNum (CHR ''-'' # show_nat n))"
    using valid_number_digits [OF d show_nat_not_Nil z] by simp_all
qed

lemma uint_law: "json_codec (uint_codec :: 'w::len word codec) (\<lambda>_. True)"
proof
  fix x :: "'w word"
  have "unat x < 2 ^ LENGTH('w)" by (rule unsigned_less)
  then show "\<exists>j. cd_enc uint_codec x = Some j \<and> json_ok j \<and> cd_dec uint_codec j (cd_zero uint_codec) = Some x"
    using digits_value_show_nat_0 show_nat_not_Nil show_nat_ok(1)
    by (simp add: uint_codec_def dec_scalar_def ParseUint_def)
qed (simp add: uint_codec_def)

lemma ParseInt_show_int:
  assumes "- (2 ^ 63) \<le> x" "x < 2 ^ 63"
  shows "ParseInt (show_int x) = Some x"
proof (cases "x < 0")
  case True
  then show ?thesis
    using assms digits_value_show_nat_0 [of "nat (- x)"] show_nat_not_Nil [of "nat (- x)"]
    by (simp add: ParseInt_def show_int_def)
next
  case False
  then show ?thesis using assms ParseInt_show_nat [of "nat x"] by (simp add: show_int_def)
qed

definition in_int64 :: "int \<Rightarrow> bool" where
  "in_int64 x \<longleftrightarrow> - (2 ^ 63) \<le> x \<and> x < 2 ^ 63"

lemma int_law: "json_codec int_codec in_int64"
proof
  fix x assume "in_int64 x"
  then have "ParseInt (show_int x) = Some x" using ParseInt_show_int by (simp add: in_int64_def)
  moreover have "json_ok (JNum (show_int x))"
    unfolding show_int_def using show_nat_ok by (auto simp del: json_ok.simps)
  ultimately show "\<exists>j. cd_enc int_codec x = Some j \<and> json_ok j \<and> cd_dec int_codec j (cd_zero int_codec) = Some x"
    by (simp add: int_codec_def dec_scalar_def)
qed (simp add: int_codec_def)

lemma bool_law: "json_codec bool_codec (\<lambda>_. True)"
  by unfold_locales (simp_all add: bool_codec_def dec_scalar_def)

lemma string_law: "json_codec string_codec utf8_ok"
  by unfold_locales (simp_all add: string_codec_def dec_scalar_def)

subsection \<open>Times\<close>

definition ascii :: "char \<Rightarrow> bool" where
  "ascii c \<longleftrightarrow> byte c < 0x80"

lemma utf8_ok_ascii: "list_all ascii s \<Longrightarrow> utf8_ok s"
proof (induction s)
  case Nil
  show ?case by (simp add: utf8_ok.simps)
next
  case (Cons c s)
  then show ?case by (subst utf8_ok.simps) (simp add: rune_size_def ascii_def)
qed

lemma ascii_digit: "is_digit c \<Longrightarrow> ascii c"
  by (simp add: is_digit_def ascii_def byte_def)

lemma ascii_pad: "0 \<le> x \<Longrightarrow> list_all ascii (pad_zero w (show_int x))"
  using show_nat_digits ascii_digit
  by (auto simp: pad_zero_def show_int_nat list_all_iff ascii_def byte_def)

lemma time_text_ok:
  assumes "time_text t = Some s"
  shows "utf8_ok s"
proof -
  define secs where "secs = t div Second"
  obtain y m d where c: "civil_date (secs div 86400 + 306) = (y, m, d)" by (metis prod_cases3)
  have y: "0 \<le> y" and s: "s = date_text y m d @ ''T'' @ clock_text (secs mod 86400) @ fmtFrac (nat (t mod Second)) 9 @ ''Z''"
    using assms c by (auto simp: time_text_def Let_def secs_def split: if_splits)
  note p = civil_date_props [OF c]
  have "set (trim_zeros ds) \<subseteq> set ds" for ds
    by (metis Un_upper1 set_append trim_zeros_append)
  then have "list_all ascii (fmtFrac v 9)" for v
    using frac_digits_props(2) [of v 9] ascii_digit
    by (auto simp: fmtFrac_def Let_def list_all_iff ascii_def byte_def)
  moreover have "list_all ascii (clock_text k)" if "0 \<le> k" for k
    using that ascii_pad by (simp add: clock_text_def ascii_def byte_def pos_imp_zdiv_nonneg_iff)
  moreover have "list_all ascii (date_text y m d)"
    using y p(1,3) ascii_pad by (simp add: date_text_def ascii_def byte_def)
  ultimately show ?thesis by (intro utf8_ok_ascii) (simp add: s ascii_def byte_def)
qed

text \<open>The instants \<open>MarshalJSON\<close> accepts.\<close>

definition time_ok :: "Time \<Rightarrow> bool" where
  "time_ok t \<longleftrightarrow> time_text t \<noteq> None"

lemma time_law: "json_codec time_codec time_ok"
  by unfold_locales (auto simp: time_codec_def dec_scalar_def time_ok_def parse_time_text time_text_ok)

subsection \<open>Slices, arrays and pointers\<close>

lemma enc_list_law:
  assumes "json_codec c P" and "list_all P xs"
  shows "\<exists>js. enc_list (cd_enc c) xs = Some js \<and> elems_ok js \<and> dec_elems (cd_dec c) (cd_zero c) js [] = Some xs
    \<and> dec_array (cd_dec c) (cd_zero c) js (replicate (length xs) (cd_zero c)) = Some xs"
  using assms(2)
proof (induction xs)
  case (Cons x xs)
  then obtain j js where "cd_enc c x = Some j" "json_ok j" "cd_dec c j (cd_zero c) = Some x"
    "enc_list (cd_enc c) xs = Some js" "elems_ok js" "dec_elems (cd_dec c) (cd_zero c) js [] = Some xs"
    "dec_array (cd_dec c) (cd_zero c) js (replicate (length xs) (cd_zero c)) = Some xs"
    using json_codecD [OF assms(1), of x] by auto
  then show ?case by auto
qed simp

lemma slice_law: "json_codec c P \<Longrightarrow> json_codec (slice_codec nil c) (list_all P)"
proof
  fix xs
  assume "json_codec c P" "list_all P xs"
  then show "\<exists>j. cd_enc (slice_codec nil c) xs = Some j \<and> json_ok j \<and>
      cd_dec (slice_codec nil c) j (cd_zero (slice_codec nil c)) = Some xs"
    using enc_list_law [of c P xs] by (cases "xs = [] \<and> nil") (auto simp: slice_codec_def)
qed (simp add: slice_codec_def)

lemma array_law:
  assumes "json_codec c P"
  shows "json_codec (array_codec n c) (\<lambda>xs. length xs = n \<and> list_all P xs)"
  using enc_list_law [OF assms]
  by unfold_locales (fastforce simp: array_codec_def)+

lemma ptr_law:
  assumes "json_codec c P" and "\<And>x. cd_enc c x \<noteq> Some JNull"
  shows "json_codec (ptr_codec c) (pred_option P)"
proof
  fix p
  assume "pred_option P p"
  then show "\<exists>j. cd_enc (ptr_codec c) p = Some j \<and> json_ok j \<and> cd_dec (ptr_codec c) j (cd_zero (ptr_codec c)) = Some p"
  proof (cases p)
    case (Some x)
    then obtain j where j: "cd_enc c x = Some j" "json_ok j" "cd_dec c j (cd_zero c) = Some x"
      using json_codecD [OF assms(1), of x] \<open>pred_option P p\<close> by auto
    then have "j \<noteq> JNull" using assms(2) by metis
    then show ?thesis using Some j by (simp add: ptr_codec_def)
  qed (simp add: ptr_codec_def)
qed (simp add: ptr_codec_def)

subsection \<open>Structs\<close>

text \<open>
  A field takes a variable that agrees with \<open>x\<close> on the fields before it to one that agrees on it
  as well.
\<close>

definition field_law :: "'x field \<Rightarrow> 'x \<Rightarrow> 'x \<Rightarrow> 'x \<Rightarrow> bool" where
  "field_law f x y y' \<longleftrightarrow>
     (\<exists>ms. fl_enc f x = Some ms \<and> members_ok ms
       \<and> (ms = [] \<and> y' = y \<or> (\<exists>j. ms = [(fl_name f, j)] \<and> fl_dec f j y = Some y')))"

fun fields_law :: "'x field list \<Rightarrow> 'x \<Rightarrow> 'x \<Rightarrow> bool" where
  "fields_law [] x y \<longleftrightarrow> y = x"
| "fields_law (f # fs) x y \<longleftrightarrow> (\<exists>y'. field_law f x y y' \<and> fields_law fs x y')"

lemma member_step:
  assumes "json_codec c P" "P (get x)" "get y = cd_zero c" "list_all ascii n"
    and "fields_law fs x (upd (\<lambda>_. get x) y)"
  shows "fields_law (member n c get upd # fs) x y"
proof -
  obtain j where "cd_enc c (get x) = Some j" "json_ok j" "cd_dec c j (cd_zero c) = Some (get x)"
    using json_codecD [OF assms(1,2)] by blast
  then have "field_law (member n c get upd) x y (upd (\<lambda>_. get x) y)"
    using assms(3,4) utf8_ok_ascii by (simp add: field_law_def member_def set_field_def)
  then show ?thesis using assms(5) by auto
qed

lemma omitempty_step:
  assumes "json_codec c P" "P (get x)" "get y = cd_zero c" "list_all ascii n" "upd (\<lambda>_. cd_zero c) y = y"
    and "fields_law fs x (upd (\<lambda>_. get x) y)"
  shows "fields_law (omitempty n c get upd # fs) x y"
proof (cases "cd_empty c (get x)")
  case True
  then have "get x = cd_zero c" using json_codec.empty_zero [OF assms(1,2)] by simp
  then have "field_law (omitempty n c get upd) x y (upd (\<lambda>_. get x) y)"
    using True assms(5) by (simp add: field_law_def omitempty_def)
  then show ?thesis using assms(6) by auto
next
  case False
  obtain j where "cd_enc c (get x) = Some j" "json_ok j" "cd_dec c j (cd_zero c) = Some (get x)"
    using json_codecD [OF assms(1,2)] by blast
  then have "field_law (omitempty n c get upd) x y (upd (\<lambda>_. get x) y)"
    using False assms(3,4) utf8_ok_ascii by (simp add: field_law_def omitempty_def set_field_def)
  then show ?thesis using assms(6) by auto
qed

lemma members_ok_append [simp]: "members_ok (xs @ ys) \<longleftrightarrow> members_ok xs \<and> members_ok ys"
  by (induction xs) (auto split: prod.splits)

lemma find_field_exact:
  assumes "distinct (map fl_name fs)" "f \<in> set fs"
  shows "find_field fs (fl_name f) = Some f"
proof -
  have "find (\<lambda>g. fl_name g = fl_name f) fs = Some f"
    using assms by (induction fs) auto
  then show ?thesis by (simp add: find_field_def)
qed

lemma enc_fields_law:
  assumes "fields_law fs' x y" "set fs' \<subseteq> set fs" "distinct (map fl_name fs)"
  shows "\<exists>ms. enc_fields fs' x = Some ms \<and> members_ok ms
    \<and> (\<forall>rest. dec_members fs (ms @ rest) y = dec_members fs rest x)"
  using assms(1,2)
proof (induction fs' arbitrary: y)
  case (Cons f fs')
  then obtain y' ms where f: "fl_enc f x = Some ms" "members_ok ms"
      "ms = [] \<and> y' = y \<or> (\<exists>j. ms = [(fl_name f, j)] \<and> fl_dec f j y = Some y')"
    and l: "fields_law fs' x y'"
    by (auto simp: field_law_def)
  obtain ms' where fs': "enc_fields fs' x = Some ms'" "members_ok ms'"
      "\<forall>rest. dec_members fs (ms' @ rest) y' = dec_members fs rest x"
    using Cons.IH [OF l] Cons.prems(2) by auto
  have "dec_members fs (ms @ ms' @ rest) y = dec_members fs rest x" for rest
    using f(3) fs'(3) find_field_exact [OF assms(3), of f] Cons.prems(2) by auto
  then show ?case using f fs' by simp
qed simp

lemma struct_law:
  assumes "distinct (map fl_name fs)" and "\<And>x. P x \<Longrightarrow> fields_law fs x z"
  shows "json_codec (struct_codec fs z) P"
proof
  fix x
  assume "P x"
  then obtain ms where "enc_fields fs x = Some ms" "members_ok ms"
      "\<forall>rest. dec_members fs (ms @ rest) z = dec_members fs rest x"
    using enc_fields_law [OF assms(2) _ assms(1)] by blast
  moreover from this have "dec_members fs ms z = Some x" by (metis append_Nil2 dec_members.simps(1))
  ultimately show "\<exists>j. cd_enc (struct_codec fs z) x = Some j \<and> json_ok j
      \<and> cd_dec (struct_codec fs z) j (cd_zero (struct_codec fs z)) = Some x"
    by (simp add: struct_codec_def)
qed (simp add: struct_codec_def)

lemma struct_not_null: "cd_enc (struct_codec fs z) x \<noteq> Some JNull"
  by (simp add: struct_codec_def)

lemma time_not_null: "cd_enc time_codec x \<noteq> Some JNull"
  by (simp add: time_codec_def)

end
