(* ===== verification/CaptureJson.thy ===== *)
theory CaptureJson
  imports JsonCodec Model
begin

text \<open>
  The JSON form of the data of a capture: for each struct of \<open>internal/model\<close> its fields with the
  names and options of their tags.  \<open>X_ok\<close> holds of the values whose text is read back: UTF-8
  strings, \<open>int64\<close> values, complete histograms and times of the years 0 to 9999.  \<open>nl\<close> says of a
  slice that is never omitted whether its empty value is nil.
\<close>

named_theorems codec_laws "codecs meet their contract"
named_theorems codec_zeros "zero values of codecs"

lemmas [codec_laws] = uint_law int_law bool_law string_law time_law slice_law

lemma histogram_law [codec_laws]:
  "json_codec (array_codec HistogramBuckets uint_codec :: u64 list codec) histogram_wf"
proof -
  have "(\<lambda>xs. length xs = HistogramBuckets \<and> list_all (\<lambda>_. True) xs) = (histogram_wf :: u64 list \<Rightarrow> bool)"
    by (auto simp: histogram_wf_def list_all_iff)
  moreover have "json_codec (array_codec HistogramBuckets (uint_codec :: u64 codec))
      (\<lambda>xs. length xs = HistogramBuckets \<and> list_all (\<lambda>_. True) xs)"
    by (rule array_law [OF uint_law])
  ultimately show ?thesis by simp
qed

lemma pointer_law [codec_laws]:
  "json_codec c P \<Longrightarrow> \<forall>x. cd_enc c x \<noteq> Some JNull \<Longrightarrow>
     json_codec (ptr_codec c) (pred_option P)"
  by (simp add: ptr_law)

lemma scalar_zeros [codec_zeros]:
  "cd_zero uint_codec = 0" "cd_zero int_codec = 0" "cd_zero bool_codec = False" "cd_zero
     string_codec = []"
  "cd_zero time_codec = 0" "cd_zero (slice_codec nil c) = []" "cd_zero (ptr_codec c) = None"
  "cd_zero (array_codec HistogramBuckets uint_codec) = zero_histogram"
  by (simp_all add: uint_codec_def int_codec_def bool_codec_def string_codec_def time_codec_def
      slice_codec_def ptr_codec_def array_codec_def zero_histogram_def)

declare time_not_null [simp]

lemma field_names: "fl_name (member n c get upd) = n" "fl_name (omitempty n c get upd) = n"
  by (simp_all add: member_def omitempty_def)

lemmas ascii_text = ascii_def byte_def

definition Counters_fields :: "Counters field list" where
  "Counters_fields = [
     member ''ring_reserve_failures'' uint_codec ct_RingFailures ct_RingFailures_update,
     member ''detail_suppressed'' uint_codec ct_Suppressed ct_Suppressed_update,
     omitempty ''detail_budget_failures'' uint_codec ct_DetailFailures ct_DetailFailures_update,
     member ''tracking_failures'' uint_codec ct_TrackingFailures ct_TrackingFailures_update,
     member ''unmatched_completions'' uint_codec ct_Unmatched ct_Unmatched_update,
     omitempty ''detail_decode_failures'' uint_codec ct_DecodeFailures ct_DecodeFailures_update]"

definition Counters_codec :: "Counters codec" where
  "Counters_codec = struct_codec Counters_fields zero_Counters"

lemma Counters_law [codec_laws]: "json_codec Counters_codec (\<lambda>_. True)"
  unfolding Counters_codec_def
proof (rule struct_law)
  show "distinct (map fl_name Counters_fields)"
    by (simp add: Counters_fields_def field_names)
  show "fields_law Counters_fields x zero_Counters" for x
    unfolding Counters_fields_def zero_Counters_def
    by (cases x) (rule member_step omitempty_step codec_laws | simp add: codec_zeros ascii_text)+
qed

lemma Counters_zero [codec_zeros]: "cd_zero Counters_codec = zero_Counters"
  by (simp add: Counters_codec_def struct_codec_def)

lemma Counters_not_null [simp]: "cd_enc Counters_codec x \<noteq> Some JNull"
  by (simp add: Counters_codec_def struct_not_null)

definition Event_fields :: "Event field list" where
  "Event_fields = [
     member ''mono_ns'' uint_codec ev_MonoNS ev_MonoNS_update,
     member ''type'' string_codec ev_Type ev_Type_update,
     omitempty ''pid'' uint_codec ev_PID ev_PID_update,
     omitempty ''pid_only'' bool_codec ev_PIDOnly ev_PIDOnly_update,
     omitempty ''tgid'' uint_codec ev_TGID ev_TGID_update,
     omitempty ''comm'' string_codec ev_Comm ev_Comm_update,
     omitempty ''process_start_ns'' uint_codec ev_ProcessStartNS ev_ProcessStartNS_update,
     omitempty ''cgroup_id'' uint_codec ev_CgroupID ev_CgroupID_update,
     member ''cpu'' uint_codec ev_CPU ev_CPU_update,
     omitempty ''latency_ns'' uint_codec ev_LatencyNS ev_LatencyNS_update,
     omitempty ''major'' uint_codec ev_Major ev_Major_update,
     omitempty ''minor'' uint_codec ev_Minor ev_Minor_update,
     omitempty ''bytes'' uint_codec ev_Bytes ev_Bytes_update,
     omitempty ''operation'' string_codec ev_Operation ev_Operation_update,
     omitempty ''source_ip'' string_codec ev_SourceIP ev_SourceIP_update,
     omitempty ''destination_ip'' string_codec ev_DestinationIP ev_DestinationIP_update,
     omitempty ''source_port'' uint_codec ev_SourcePort ev_SourcePort_update,
     omitempty ''destination_port'' uint_codec ev_DestinationPort ev_DestinationPort_update,
     omitempty ''state'' uint_codec ev_State ev_State_update,
     omitempty ''tcp_direction'' string_codec ev_TCPDirection ev_TCPDirection_update,
     omitempty ''socket_context'' string_codec ev_SocketContext ev_SocketContext_update,
     omitempty ''endpoint_source'' string_codec ev_EndpointSource ev_EndpointSource_update,
     omitempty ''cgroup_path'' string_codec ev_CgroupPath ev_CgroupPath_update]"

definition Event_codec :: "Event codec" where
  "Event_codec = struct_codec Event_fields zero_Event"

definition Event_ok :: "Event \<Rightarrow> bool" where
  "Event_ok x \<longleftrightarrow> utf8_ok (ev_Type x) \<and> utf8_ok (ev_Comm x) \<and> utf8_ok
     (ev_Operation x) \<and> utf8_ok (ev_SourceIP x) \<and> utf8_ok (ev_DestinationIP x) \<and>
     utf8_ok (ev_TCPDirection x) \<and> utf8_ok (ev_SocketContext x) \<and> utf8_ok
     (ev_EndpointSource x) \<and> utf8_ok (ev_CgroupPath x)"

lemma Event_law [codec_laws]: "json_codec Event_codec Event_ok"
  unfolding Event_codec_def
proof (rule struct_law)
  show "distinct (map fl_name Event_fields)"
    by (simp add: Event_fields_def field_names)
  show "fields_law Event_fields x zero_Event" if "Event_ok x" for x
    using that unfolding Event_fields_def zero_Event_def Event_ok_def
    by (cases x) (rule member_step omitempty_step codec_laws | simp add: codec_zeros ascii_text)+
qed

lemma Event_zero [codec_zeros]: "cd_zero Event_codec = zero_Event"
  by (simp add: Event_codec_def struct_codec_def)

lemma Event_not_null [simp]: "cd_enc Event_codec x \<noteq> Some JNull"
  by (simp add: Event_codec_def struct_not_null)

definition Metric_fields :: "Metric field list" where
  "Metric_fields = [
     omitempty ''bookkeeping_completions'' uint_codec mt_BookkeepingCompletions mt_BookkeepingCompletions_update,
     member ''family'' string_codec mt_Family mt_Family_update,
     member ''start_mono_ns'' uint_codec mt_StartMonoNS mt_StartMonoNS_update,
     member ''end_mono_ns'' uint_codec mt_EndMonoNS mt_EndMonoNS_update,
     member ''histogram'' (array_codec HistogramBuckets uint_codec) mt_Histogram mt_Histogram_update,
     member ''count'' uint_codec mt_Count mt_Count_update,
     member ''anomalies'' uint_codec mt_Anomalies mt_Anomalies_update,
     omitempty ''critical_latency'' uint_codec mt_Critical mt_Critical_update,
     member ''bytes'' uint_codec mt_Bytes mt_Bytes_update,
     member ''retransmits'' uint_codec mt_Retransmits mt_Retransmits_update,
     member ''resets'' uint_codec mt_Resets mt_Resets_update,
     member ''loss'' Counters_codec mt_Loss mt_Loss_update]"

definition Metric_codec :: "Metric codec" where
  "Metric_codec = struct_codec Metric_fields zero_Metric"

definition Metric_ok :: "Metric \<Rightarrow> bool" where
  "Metric_ok x \<longleftrightarrow> utf8_ok (mt_Family x) \<and> histogram_wf (mt_Histogram x)"

lemma Metric_law [codec_laws]: "json_codec Metric_codec Metric_ok"
  unfolding Metric_codec_def
proof (rule struct_law)
  show "distinct (map fl_name Metric_fields)"
    by (simp add: Metric_fields_def field_names)
  show "fields_law Metric_fields x zero_Metric" if "Metric_ok x" for x
    using that unfolding Metric_fields_def zero_Metric_def Metric_ok_def
    by (cases x) (rule member_step omitempty_step codec_laws | simp add: codec_zeros ascii_text)+
qed

lemma Metric_zero [codec_zeros]: "cd_zero Metric_codec = zero_Metric"
  by (simp add: Metric_codec_def struct_codec_def)

lemma Metric_not_null [simp]: "cd_enc Metric_codec x \<noteq> Some JNull"
  by (simp add: Metric_codec_def struct_not_null)

definition zero_Segment :: Segment where
  "zero_Segment = \<lparr>sg_StartMonoNS = 0, sg_EndMonoNS = 0, sg_Events = [], sg_Metrics = []\<rparr>"

definition Segment_fields :: "Segment field list" where
  "Segment_fields = [
     member ''start_mono_ns'' uint_codec sg_StartMonoNS sg_StartMonoNS_update,
     member ''end_mono_ns'' uint_codec sg_EndMonoNS sg_EndMonoNS_update,
     omitempty ''events'' (slice_codec False Event_codec) sg_Events sg_Events_update,
     omitempty ''metrics'' (slice_codec False Metric_codec) sg_Metrics sg_Metrics_update]"

definition Segment_codec :: "Segment codec" where
  "Segment_codec = struct_codec Segment_fields zero_Segment"

definition Segment_ok :: "Segment \<Rightarrow> bool" where
  "Segment_ok x \<longleftrightarrow> list_all Event_ok (sg_Events x) \<and> list_all Metric_ok
     (sg_Metrics x)"

lemma Segment_law [codec_laws]: "json_codec Segment_codec Segment_ok"
  unfolding Segment_codec_def
proof (rule struct_law)
  show "distinct (map fl_name Segment_fields)"
    by (simp add: Segment_fields_def field_names)
  show "fields_law Segment_fields x zero_Segment" if "Segment_ok x" for x
    using that unfolding Segment_fields_def zero_Segment_def Segment_ok_def
    by (cases x) (rule member_step omitempty_step codec_laws | simp add: codec_zeros ascii_text)+
qed

lemma Segment_zero [codec_zeros]: "cd_zero Segment_codec = zero_Segment"
  by (simp add: Segment_codec_def struct_codec_def)

lemma Segment_not_null [simp]: "cd_enc Segment_codec x \<noteq> Some JNull"
  by (simp add: Segment_codec_def struct_not_null)

definition zero_AutoTrigger :: AutoTrigger where
  "zero_AutoTrigger = \<lparr>at_Family = [], at_Reason = [], at_Count = 0, at_ThresholdNS = 0,
     at_FirstIntervalStartNS = 0, at_LastIntervalEndNS = 0\<rparr>"

definition AutoTrigger_fields :: "AutoTrigger field list" where
  "AutoTrigger_fields = [
     member ''family'' string_codec at_Family at_Family_update,
     member ''reason'' string_codec at_Reason at_Reason_update,
     member ''count'' uint_codec at_Count at_Count_update,
     omitempty ''threshold_ns'' uint_codec at_ThresholdNS at_ThresholdNS_update,
     member ''first_interval_start_ns'' uint_codec at_FirstIntervalStartNS at_FirstIntervalStartNS_update,
     member ''last_interval_end_ns'' uint_codec at_LastIntervalEndNS at_LastIntervalEndNS_update]"

definition AutoTrigger_codec :: "AutoTrigger codec" where
  "AutoTrigger_codec = struct_codec AutoTrigger_fields zero_AutoTrigger"

definition AutoTrigger_ok :: "AutoTrigger \<Rightarrow> bool" where
  "AutoTrigger_ok x \<longleftrightarrow> utf8_ok (at_Family x) \<and> utf8_ok (at_Reason x)"

lemma AutoTrigger_law [codec_laws]: "json_codec AutoTrigger_codec AutoTrigger_ok"
  unfolding AutoTrigger_codec_def
proof (rule struct_law)
  show "distinct (map fl_name AutoTrigger_fields)"
    by (simp add: AutoTrigger_fields_def field_names)
  show "fields_law AutoTrigger_fields x zero_AutoTrigger" if "AutoTrigger_ok x" for x
    using that unfolding AutoTrigger_fields_def zero_AutoTrigger_def AutoTrigger_ok_def
    by (cases x) (rule member_step omitempty_step codec_laws | simp add: codec_zeros ascii_text)+
qed

lemma AutoTrigger_zero [codec_zeros]: "cd_zero AutoTrigger_codec = zero_AutoTrigger"
  by (simp add: AutoTrigger_codec_def struct_codec_def)

lemma AutoTrigger_not_null [simp]: "cd_enc AutoTrigger_codec x \<noteq> Some JNull"
  by (simp add: AutoTrigger_codec_def struct_not_null)

definition zero_AutoIncident :: AutoIncident where
  "zero_AutoIncident = \<lparr>ai_DetectedMonoNS = 0, ai_EndMonoNS = 0, ai_BeforeNS = 0, ai_AfterNS
     = 0, ai_Triggers = []\<rparr>"

definition AutoIncident_fields :: "(string \<Rightarrow> bool) \<Rightarrow> AutoIncident field list" where
  "AutoIncident_fields nl = [
     member ''detected_mono_ns'' uint_codec ai_DetectedMonoNS ai_DetectedMonoNS_update,
     member ''end_mono_ns'' uint_codec ai_EndMonoNS ai_EndMonoNS_update,
     member ''before_ns'' uint_codec ai_BeforeNS ai_BeforeNS_update,
     member ''after_ns'' uint_codec ai_AfterNS ai_AfterNS_update,
     member ''triggers'' (slice_codec (nl ''triggers'') AutoTrigger_codec) ai_Triggers ai_Triggers_update]"

definition AutoIncident_codec :: "(string \<Rightarrow> bool) \<Rightarrow> AutoIncident codec" where
  "AutoIncident_codec nl = struct_codec (AutoIncident_fields nl) zero_AutoIncident"

definition AutoIncident_ok :: "AutoIncident \<Rightarrow> bool" where
  "AutoIncident_ok x \<longleftrightarrow> list_all AutoTrigger_ok (ai_Triggers x)"

lemma AutoIncident_law [codec_laws]: "json_codec (AutoIncident_codec nl) AutoIncident_ok"
  unfolding AutoIncident_codec_def
proof (rule struct_law)
  show "distinct (map fl_name (AutoIncident_fields nl))"
    by (simp add: AutoIncident_fields_def field_names)
  show "fields_law (AutoIncident_fields nl) x zero_AutoIncident" if "AutoIncident_ok x" for x
    using that unfolding AutoIncident_fields_def zero_AutoIncident_def AutoIncident_ok_def
    by (cases x) (rule member_step omitempty_step codec_laws | simp add: codec_zeros ascii_text)+
qed

lemma AutoIncident_zero [codec_zeros]: "cd_zero (AutoIncident_codec nl) = zero_AutoIncident"
  by (simp add: AutoIncident_codec_def struct_codec_def)

lemma AutoIncident_not_null [simp]: "cd_enc (AutoIncident_codec nl) x \<noteq> Some JNull"
  by (simp add: AutoIncident_codec_def struct_not_null)

definition AutoCaptureHealth_fields :: "(string \<Rightarrow> bool) \<Rightarrow> AutoCaptureHealth field list" where
  "AutoCaptureHealth_fields nl = [
     member ''state'' string_codec ah_State ah_State_update,
     member ''directory'' string_codec ah_Directory ah_Directory_update,
     member ''sensors'' (slice_codec (nl ''sensors'') string_codec) ah_Sensors ah_Sensors_update,
     member ''detected'' uint_codec ah_Detected ah_Detected_update,
     member ''coalesced'' uint_codec ah_Coalesced ah_Coalesced_update,
     member ''saved'' uint_codec ah_Saved ah_Saved_update,
     member ''failures'' uint_codec ah_Failures ah_Failures_update,
     omitempty ''last_path'' string_codec ah_LastPath ah_LastPath_update,
     omitempty ''last_saved_at'' time_codec ah_LastSavedAt ah_LastSavedAt_update,
     omitempty ''last_error'' string_codec ah_LastError ah_LastError_update,
     omitempty ''pending_until_ns'' uint_codec ah_PendingUntilNS ah_PendingUntilNS_update,
     omitempty ''pending_for_ns'' uint_codec ah_PendingForNS ah_PendingForNS_update,
     omitempty ''writing_for_ns'' uint_codec ah_WritingForNS ah_WritingForNS_update,
     omitempty ''write_timeout_ns'' uint_codec ah_WriteTimeoutNS ah_WriteTimeoutNS_update,
     omitempty ''write_overdue'' bool_codec ah_WriteOverdue ah_WriteOverdue_update]"

definition AutoCaptureHealth_codec :: "(string \<Rightarrow> bool) \<Rightarrow> AutoCaptureHealth codec" where
  "AutoCaptureHealth_codec nl = struct_codec (AutoCaptureHealth_fields nl) zero_AutoCaptureHealth"

definition AutoCaptureHealth_ok :: "AutoCaptureHealth \<Rightarrow> bool" where
  "AutoCaptureHealth_ok x \<longleftrightarrow> utf8_ok (ah_State x) \<and> utf8_ok (ah_Directory x)
     \<and> list_all utf8_ok (ah_Sensors x) \<and> utf8_ok (ah_LastPath x) \<and> time_ok
     (ah_LastSavedAt x) \<and> utf8_ok (ah_LastError x)"

lemma AutoCaptureHealth_law [codec_laws]: "json_codec (AutoCaptureHealth_codec nl) AutoCaptureHealth_ok"
  unfolding AutoCaptureHealth_codec_def
proof (rule struct_law)
  show "distinct (map fl_name (AutoCaptureHealth_fields nl))"
    by (simp add: AutoCaptureHealth_fields_def field_names)
  show "fields_law (AutoCaptureHealth_fields nl) x zero_AutoCaptureHealth" if "AutoCaptureHealth_ok x" for x
    using that unfolding AutoCaptureHealth_fields_def zero_AutoCaptureHealth_def AutoCaptureHealth_ok_def
    by (cases x) (rule member_step omitempty_step codec_laws | simp add: codec_zeros ascii_text)+
qed

lemma AutoCaptureHealth_zero [codec_zeros]: "cd_zero (AutoCaptureHealth_codec nl) = zero_AutoCaptureHealth"
  by (simp add: AutoCaptureHealth_codec_def struct_codec_def)

lemma AutoCaptureHealth_not_null [simp]: "cd_enc (AutoCaptureHealth_codec nl) x \<noteq> Some JNull"
  by (simp add: AutoCaptureHealth_codec_def struct_not_null)

definition zero_SensorHealth :: SensorHealth where
  "zero_SensorHealth = \<lparr>sh_BookkeepingCompletions = 0, sh_BudgetPruneFailures = 0,
     sh_TCPResetCoverage = [], sh_KernelBytes = 0, sh_KernelBytesKnown = False, sh_Name = [],
     sh_State = [], sh_Reason = [], sh_Loss = zero_Counters\<rparr>"

definition SensorHealth_fields :: "SensorHealth field list" where
  "SensorHealth_fields = [
     omitempty ''bookkeeping_completions'' uint_codec sh_BookkeepingCompletions sh_BookkeepingCompletions_update,
     omitempty ''detail_budget_prune_failures'' uint_codec sh_BudgetPruneFailures sh_BudgetPruneFailures_update,
     omitempty ''tcp_reset_coverage'' string_codec sh_TCPResetCoverage sh_TCPResetCoverage_update,
     omitempty ''kernel_bytes'' uint_codec sh_KernelBytes sh_KernelBytes_update,
     member ''kernel_bytes_known'' bool_codec sh_KernelBytesKnown sh_KernelBytesKnown_update,
     member ''name'' string_codec sh_Name sh_Name_update,
     member ''state'' string_codec sh_State sh_State_update,
     omitempty ''reason'' string_codec sh_Reason sh_Reason_update,
     member ''loss'' Counters_codec sh_Loss sh_Loss_update]"

definition SensorHealth_codec :: "SensorHealth codec" where
  "SensorHealth_codec = struct_codec SensorHealth_fields zero_SensorHealth"

definition SensorHealth_ok :: "SensorHealth \<Rightarrow> bool" where
  "SensorHealth_ok x \<longleftrightarrow> utf8_ok (sh_TCPResetCoverage x) \<and> utf8_ok (sh_Name
     x) \<and> utf8_ok (sh_State x) \<and> utf8_ok (sh_Reason x)"

lemma SensorHealth_law [codec_laws]: "json_codec SensorHealth_codec SensorHealth_ok"
  unfolding SensorHealth_codec_def
proof (rule struct_law)
  show "distinct (map fl_name SensorHealth_fields)"
    by (simp add: SensorHealth_fields_def field_names)
  show "fields_law SensorHealth_fields x zero_SensorHealth" if "SensorHealth_ok x" for x
    using that unfolding SensorHealth_fields_def zero_SensorHealth_def SensorHealth_ok_def
    by (cases x) (rule member_step omitempty_step codec_laws | simp add: codec_zeros ascii_text)+
qed

lemma SensorHealth_zero [codec_zeros]: "cd_zero SensorHealth_codec = zero_SensorHealth"
  by (simp add: SensorHealth_codec_def struct_codec_def)

lemma SensorHealth_not_null [simp]: "cd_enc SensorHealth_codec x \<noteq> Some JNull"
  by (simp add: SensorHealth_codec_def struct_not_null)

definition zero_ClockDiscontinuity :: ClockDiscontinuity where
  "zero_ClockDiscontinuity = \<lparr>cd_DetectedBootNS = 0, cd_DetectedAt = 0, cd_OffsetChangeNS =
     0\<rparr>"

definition ClockDiscontinuity_fields :: "ClockDiscontinuity field list" where
  "ClockDiscontinuity_fields = [
     member ''detected_boot_ns'' uint_codec cd_DetectedBootNS cd_DetectedBootNS_update,
     member ''detected_at'' time_codec cd_DetectedAt cd_DetectedAt_update,
     member ''offset_change_ns'' int_codec cd_OffsetChangeNS cd_OffsetChangeNS_update]"

definition ClockDiscontinuity_codec :: "ClockDiscontinuity codec" where
  "ClockDiscontinuity_codec = struct_codec ClockDiscontinuity_fields zero_ClockDiscontinuity"

definition ClockDiscontinuity_ok :: "ClockDiscontinuity \<Rightarrow> bool" where
  "ClockDiscontinuity_ok x \<longleftrightarrow> time_ok (cd_DetectedAt x) \<and> in_int64
     (cd_OffsetChangeNS x)"

lemma ClockDiscontinuity_law [codec_laws]: "json_codec ClockDiscontinuity_codec ClockDiscontinuity_ok"
  unfolding ClockDiscontinuity_codec_def
proof (rule struct_law)
  show "distinct (map fl_name ClockDiscontinuity_fields)"
    by (simp add: ClockDiscontinuity_fields_def field_names)
  show "fields_law ClockDiscontinuity_fields x zero_ClockDiscontinuity" if "ClockDiscontinuity_ok x" for x
    using that unfolding ClockDiscontinuity_fields_def zero_ClockDiscontinuity_def ClockDiscontinuity_ok_def
    by (cases x) (rule member_step omitempty_step codec_laws | simp add: codec_zeros ascii_text)+
qed

lemma ClockDiscontinuity_zero [codec_zeros]: "cd_zero ClockDiscontinuity_codec = zero_ClockDiscontinuity"
  by (simp add: ClockDiscontinuity_codec_def struct_codec_def)

lemma ClockDiscontinuity_not_null [simp]: "cd_enc ClockDiscontinuity_codec x \<noteq> Some JNull"
  by (simp add: ClockDiscontinuity_codec_def struct_not_null)

definition Health_fields :: "(string \<Rightarrow> bool) \<Rightarrow> Health field list" where
  "Health_fields nl = [
     omitempty ''auto_capture'' (ptr_codec (AutoCaptureHealth_codec nl)) he_AutoCapture he_AutoCapture_update,
     omitempty ''observed_at'' (ptr_codec time_codec) he_ObservedAt he_ObservedAt_update,
     omitempty ''clock_discontinuities'' uint_codec he_ClockChanges he_ClockChanges_update,
     omitempty ''last_clock_discontinuity'' (ptr_codec ClockDiscontinuity_codec) he_LastClockChange he_LastClockChange_update,
     member ''sensors'' (slice_codec (nl ''sensors'') SensorHealth_codec) he_Sensors he_Sensors_update,
     member ''ingress_drops'' uint_codec he_IngressDrops he_IngressDrops_update,
     member ''recorder_drops'' uint_codec he_RecorderDrops he_RecorderDrops_update,
     member ''memory_evicted_segments'' uint_codec he_EvictedSegments he_EvictedSegments_update,
     omitempty ''aggregate_evictions'' uint_codec he_AggregateEvictions he_AggregateEvictions_update,
     member ''metadata_resolution_failures'' uint_codec he_MetadataFailures he_MetadataFailures_update,
     member ''snapshot_write_failures'' uint_codec he_SnapshotFailures he_SnapshotFailures_update,
     member ''retained_bytes'' int_codec he_RetainedBytes he_RetainedBytes_update,
     member ''max_bytes'' int_codec he_MaxBytes he_MaxBytes_update,
     member ''retained_from_ns'' uint_codec he_RetainedFromNS he_RetainedFromNS_update,
     member ''retained_span_ns'' uint_codec he_RetainedSpanNS he_RetainedSpanNS_update,
     omitempty ''detailed_from_ns'' uint_codec he_DetailedFromNS he_DetailedFromNS_update,
     omitempty ''detailed_span_ns'' uint_codec he_DetailedSpanNS he_DetailedSpanNS_update]"

definition Health_codec :: "(string \<Rightarrow> bool) \<Rightarrow> Health codec" where
  "Health_codec nl = struct_codec (Health_fields nl) zero_Health"

definition Health_ok :: "Health \<Rightarrow> bool" where
  "Health_ok x \<longleftrightarrow> pred_option AutoCaptureHealth_ok (he_AutoCapture x) \<and>
     pred_option time_ok (he_ObservedAt x) \<and> pred_option ClockDiscontinuity_ok
     (he_LastClockChange x) \<and> list_all SensorHealth_ok (he_Sensors x) \<and> in_int64
     (he_RetainedBytes x) \<and> in_int64 (he_MaxBytes x)"

lemma Health_law [codec_laws]: "json_codec (Health_codec nl) Health_ok"
  unfolding Health_codec_def
proof (rule struct_law)
  show "distinct (map fl_name (Health_fields nl))"
    by (simp add: Health_fields_def field_names)
  show "fields_law (Health_fields nl) x zero_Health" if "Health_ok x" for x
    using that unfolding Health_fields_def zero_Health_def Health_ok_def
    by (cases x) (rule member_step omitempty_step codec_laws | simp add: codec_zeros ascii_text)+
qed

lemma Health_zero [codec_zeros]: "cd_zero (Health_codec nl) = zero_Health"
  by (simp add: Health_codec_def struct_codec_def)

lemma Health_not_null [simp]: "cd_enc (Health_codec nl) x \<noteq> Some JNull"
  by (simp add: Health_codec_def struct_not_null)

definition zero_Host :: Host where
  "zero_Host = \<lparr>ho_Hostname = [], ho_Kernel = [], ho_Architecture = [], ho_BootID = [],
     ho_ClockSource = [], ho_AnchorMonoNS = 0, ho_AnchorWall = 0\<rparr>"

definition Host_fields :: "Host field list" where
  "Host_fields = [
     member ''hostname'' string_codec ho_Hostname ho_Hostname_update,
     member ''kernel'' string_codec ho_Kernel ho_Kernel_update,
     member ''architecture'' string_codec ho_Architecture ho_Architecture_update,
     member ''boot_id'' string_codec ho_BootID ho_BootID_update,
     omitempty ''clock_source'' string_codec ho_ClockSource ho_ClockSource_update,
     member ''anchor_mono_ns'' uint_codec ho_AnchorMonoNS ho_AnchorMonoNS_update,
     member ''anchor_wall'' time_codec ho_AnchorWall ho_AnchorWall_update]"

definition Host_codec :: "Host codec" where
  "Host_codec = struct_codec Host_fields zero_Host"

definition Host_ok :: "Host \<Rightarrow> bool" where
  "Host_ok x \<longleftrightarrow> utf8_ok (ho_Hostname x) \<and> utf8_ok (ho_Kernel x) \<and>
     utf8_ok (ho_Architecture x) \<and> utf8_ok (ho_BootID x) \<and> utf8_ok (ho_ClockSource x)
     \<and> time_ok (ho_AnchorWall x)"

lemma Host_law [codec_laws]: "json_codec Host_codec Host_ok"
  unfolding Host_codec_def
proof (rule struct_law)
  show "distinct (map fl_name Host_fields)"
    by (simp add: Host_fields_def field_names)
  show "fields_law Host_fields x zero_Host" if "Host_ok x" for x
    using that unfolding Host_fields_def zero_Host_def Host_ok_def
    by (cases x) (rule member_step omitempty_step codec_laws | simp add: codec_zeros ascii_text)+
qed

lemma Host_zero [codec_zeros]: "cd_zero Host_codec = zero_Host"
  by (simp add: Host_codec_def struct_codec_def)

lemma Host_not_null [simp]: "cd_enc Host_codec x \<noteq> Some JNull"
  by (simp add: Host_codec_def struct_not_null)

definition RecordingSettings_fields :: "(string \<Rightarrow> bool) \<Rightarrow> RecordingSettings field list" where
  "RecordingSettings_fields nl = [
     omitempty ''poll_interval_ns'' uint_codec rs_PollIntervalNS rs_PollIntervalNS_update,
     omitempty ''segment_interval_ns'' uint_codec rs_SegmentIntervalNS rs_SegmentIntervalNS_update,
     omitempty ''ingress_events'' int_codec rs_IngressEvents rs_IngressEvents_update,
     omitempty ''metadata_entries'' int_codec rs_MetadataEntries rs_MetadataEntries_update,
     omitempty ''block_tracking_entries'' uint_codec rs_BlockTrackingEntries rs_BlockTrackingEntries_update,
     omitempty ''scheduler_tracking_entries'' uint_codec rs_SchedulerTrackingEntries rs_SchedulerTrackingEntries_update,
     omitempty ''ring_bytes'' uint_codec rs_RingBytes rs_RingBytes_update,
     member ''history_ns'' uint_codec rs_HistoryNS rs_HistoryNS_update,
     member ''max_memory'' int_codec rs_MaxMemory rs_MaxMemory_update,
     member ''block_threshold_ns'' uint_codec rs_BlockThresholdNS rs_BlockThresholdNS_update,
     member ''scheduler_threshold_ns'' uint_codec rs_SchedulerThresholdNS rs_SchedulerThresholdNS_update,
     omitempty ''block_critical_ns'' uint_codec rs_BlockCriticalNS rs_BlockCriticalNS_update,
     omitempty ''scheduler_critical_ns'' uint_codec rs_SchedulerCriticalNS rs_SchedulerCriticalNS_update,
     member ''detail_rate'' uint_codec rs_DetailRate rs_DetailRate_update,
     member ''enabled_sensors'' (slice_codec (nl ''enabled_sensors'') string_codec) rs_Enabled rs_Enabled_update,
     member ''strict'' bool_codec rs_Strict rs_Strict_update]"

definition RecordingSettings_codec :: "(string \<Rightarrow> bool) \<Rightarrow> RecordingSettings codec" where
  "RecordingSettings_codec nl = struct_codec (RecordingSettings_fields nl) zero_RecordingSettings"

definition RecordingSettings_ok :: "RecordingSettings \<Rightarrow> bool" where
  "RecordingSettings_ok x \<longleftrightarrow> in_int64 (rs_IngressEvents x) \<and> in_int64
     (rs_MetadataEntries x) \<and> in_int64 (rs_MaxMemory x) \<and> list_all utf8_ok (rs_Enabled x)"

lemma RecordingSettings_law [codec_laws]: "json_codec (RecordingSettings_codec nl) RecordingSettings_ok"
  unfolding RecordingSettings_codec_def
proof (rule struct_law)
  show "distinct (map fl_name (RecordingSettings_fields nl))"
    by (simp add: RecordingSettings_fields_def field_names)
  show "fields_law (RecordingSettings_fields nl) x zero_RecordingSettings" if "RecordingSettings_ok x" for x
    using that unfolding RecordingSettings_fields_def zero_RecordingSettings_def RecordingSettings_ok_def
    by (cases x) (rule member_step omitempty_step codec_laws | simp add: codec_zeros ascii_text)+
qed

lemma RecordingSettings_zero [codec_zeros]: "cd_zero (RecordingSettings_codec nl) = zero_RecordingSettings"
  by (simp add: RecordingSettings_codec_def struct_codec_def)

lemma RecordingSettings_not_null [simp]: "cd_enc (RecordingSettings_codec nl) x \<noteq> Some JNull"
  by (simp add: RecordingSettings_codec_def struct_not_null)

definition zero_Manifest :: Manifest where
  "zero_Manifest = \<lparr>mf_AutoIncident = None, mf_AggregateOnlyUntilNS = 0,
     mf_RecordingStartMonoNS = 0, mf_Settings = zero_RecordingSettings, mf_FormatVersion = 0,
     mf_ApplicationVersion = [], mf_StartMonoNS = 0, mf_EndMonoNS = 0, mf_RequestedStartMonoNS = 0,
     mf_Mode = [], mf_Health = zero_Health\<rparr>"

definition Manifest_fields :: "(string \<Rightarrow> bool) \<Rightarrow> Manifest field list" where
  "Manifest_fields nl = [
     omitempty ''auto_incident'' (ptr_codec (AutoIncident_codec nl)) mf_AutoIncident mf_AutoIncident_update,
     omitempty ''aggregate_only_until_ns'' uint_codec mf_AggregateOnlyUntilNS mf_AggregateOnlyUntilNS_update,
     omitempty ''recording_start_mono_ns'' uint_codec mf_RecordingStartMonoNS mf_RecordingStartMonoNS_update,
     member ''settings'' (RecordingSettings_codec nl) mf_Settings mf_Settings_update,
     member ''capture_format_version'' int_codec mf_FormatVersion mf_FormatVersion_update,
     member ''application_version'' string_codec mf_ApplicationVersion mf_ApplicationVersion_update,
     member ''start_mono_ns'' uint_codec mf_StartMonoNS mf_StartMonoNS_update,
     member ''end_mono_ns'' uint_codec mf_EndMonoNS mf_EndMonoNS_update,
     member ''requested_start_mono_ns'' uint_codec mf_RequestedStartMonoNS mf_RequestedStartMonoNS_update,
     member ''mode'' string_codec mf_Mode mf_Mode_update,
     member ''health'' (Health_codec nl) mf_Health mf_Health_update]"

definition Manifest_codec :: "(string \<Rightarrow> bool) \<Rightarrow> Manifest codec" where
  "Manifest_codec nl = struct_codec (Manifest_fields nl) zero_Manifest"

definition Manifest_ok :: "Manifest \<Rightarrow> bool" where
  "Manifest_ok x \<longleftrightarrow> pred_option AutoIncident_ok (mf_AutoIncident x) \<and>
     RecordingSettings_ok (mf_Settings x) \<and> in_int64 (mf_FormatVersion x) \<and> utf8_ok
     (mf_ApplicationVersion x) \<and> utf8_ok (mf_Mode x) \<and> Health_ok (mf_Health x)"

lemma Manifest_law [codec_laws]: "json_codec (Manifest_codec nl) Manifest_ok"
  unfolding Manifest_codec_def
proof (rule struct_law)
  show "distinct (map fl_name (Manifest_fields nl))"
    by (simp add: Manifest_fields_def field_names)
  show "fields_law (Manifest_fields nl) x zero_Manifest" if "Manifest_ok x" for x
    using that unfolding Manifest_fields_def zero_Manifest_def Manifest_ok_def
    by (cases x) (rule member_step omitempty_step codec_laws | simp add: codec_zeros ascii_text)+
qed

lemma Manifest_zero [codec_zeros]: "cd_zero (Manifest_codec nl) = zero_Manifest"
  by (simp add: Manifest_codec_def struct_codec_def)

lemma Manifest_not_null [simp]: "cd_enc (Manifest_codec nl) x \<noteq> Some JNull"
  by (simp add: Manifest_codec_def struct_not_null)

text \<open>The three entries of a capture, whatever the nil slices.\<close>

interpretation manifest_json: json_codec "Manifest_codec nl" Manifest_ok for nl
  by (rule Manifest_law)

interpretation host_json: json_codec Host_codec Host_ok
  by (rule Host_law)

interpretation segment_json: json_codec Segment_codec Segment_ok
  by (rule Segment_law)

section \<open>Nil slices do not matter to a reader\<close>

definition same_reader :: "'a codec \<Rightarrow> 'a codec \<Rightarrow> bool" where
  "same_reader c d \<longleftrightarrow> cd_dec c = cd_dec d \<and> cd_zero c = cd_zero d"

definition same_field :: "'x field \<Rightarrow> 'x field \<Rightarrow> bool" where
  "same_field f g \<longleftrightarrow> fl_name f = fl_name g \<and> fl_dec f = fl_dec g"

lemma same_reader_refl: "same_reader c c"
  by (simp add: same_reader_def)

lemma same_reader_slice: "same_reader c d \<Longrightarrow> same_reader (slice_codec a c) (slice_codec b d)"
  by (auto simp: same_reader_def slice_codec_def intro!: ext split: json.split)

lemma same_reader_ptr: "same_reader c d \<Longrightarrow> same_reader (ptr_codec c) (ptr_codec d)"
  by (auto simp: same_reader_def ptr_codec_def intro!: ext split: option.split)

lemma same_field_member:
  "same_reader c d \<Longrightarrow> same_field (member n c get upd) (member n d get upd)"
  "same_reader c d \<Longrightarrow> same_field (omitempty n c get upd) (omitempty n d get upd)"
  by (auto simp: same_reader_def same_field_def member_def omitempty_def set_field_def fun_eq_iff)

lemma find_same:
  "list_all2 same_field fs gs \<Longrightarrow> (\<And>f g. same_field f g \<Longrightarrow> p f = p g) \<Longrightarrow> rel_option same_field (find p fs) (find p gs)"
  by (induction fs gs rule: list_all2_induct) auto

lemma same_reader_struct:
  assumes "list_all2 same_field fs gs"
  shows "same_reader (struct_codec fs z) (struct_codec gs z)"
proof -
  have "rel_option same_field (find_field fs k) (find_field gs k)" for k
    using find_same [OF assms, of "\<lambda>f. fl_name f = k"] find_same [OF assms, of "\<lambda>f. EqualFold (fl_name f) k"]
    by (auto simp: find_field_def same_field_def elim!: option.rel_cases split: option.splits)
  note r = this
  have "dec_members fs ms x = dec_members gs ms x" for ms x
  proof (induction ms arbitrary: x)
    case (Cons m ms)
    obtain k j where m: "m = (k, j)" by (cases m)
    show ?case
    proof (cases "find_field fs k")
      case None
      then have "find_field gs k = None" using r [of k] by (simp add: rel_option_iff split: option.splits)
      then show ?thesis using None Cons.IH m by simp
    next
      case (Some f)
      then obtain g where "find_field gs k = Some g" "fl_dec f = fl_dec g"
        using r [of k] by (auto simp: rel_option_iff same_field_def split: option.splits)
      then show ?thesis using Some Cons.IH m by (simp cong: bind_option_cong)
    qed
  qed simp
  then show ?thesis by (simp add: same_reader_def struct_codec_def fun_eq_iff split: json.split)
qed

lemmas same_steps = same_field_member same_reader_refl same_reader_ptr same_reader_slice

lemma same_AutoIncident: "same_reader (AutoIncident_codec nl) (AutoIncident_codec nl')"
  unfolding AutoIncident_codec_def AutoIncident_fields_def
  by (intro same_reader_struct list_all2_Cons [THEN iffD2] conjI list_all2_Nil [THEN iffD2] refl same_steps)

lemma same_AutoCaptureHealth: "same_reader (AutoCaptureHealth_codec nl) (AutoCaptureHealth_codec nl')"
  unfolding AutoCaptureHealth_codec_def AutoCaptureHealth_fields_def
  by (intro same_reader_struct list_all2_Cons [THEN iffD2] conjI list_all2_Nil [THEN iffD2] refl same_steps)

lemma same_Health: "same_reader (Health_codec nl) (Health_codec nl')"
  unfolding Health_codec_def Health_fields_def
  by (intro same_reader_struct list_all2_Cons [THEN iffD2] conjI list_all2_Nil [THEN iffD2] refl same_steps same_AutoCaptureHealth)

lemma same_RecordingSettings: "same_reader (RecordingSettings_codec nl) (RecordingSettings_codec nl')"
  unfolding RecordingSettings_codec_def RecordingSettings_fields_def
  by (intro same_reader_struct list_all2_Cons [THEN iffD2] conjI list_all2_Nil [THEN iffD2] refl same_steps)

lemma same_Manifest: "same_reader (Manifest_codec nl) (Manifest_codec nl')"
  unfolding Manifest_codec_def Manifest_fields_def
  by (intro same_reader_struct list_all2_Cons [THEN iffD2] conjI list_all2_Nil [THEN iffD2] refl same_steps same_AutoIncident same_Health same_RecordingSettings)

end
