(* ===== verification/Container.thy ===== *)
theory Container
  imports CaptureJson CaptureCheck
begin

text \<open>
  The versioned container of a capture (\<open>internal/capture/capture.go\<close>): one JSON entry for the
  manifest, the host, each segment and the completion marker, in a tar archive compressed by a
  third-party zstd.  The model is at the level of archive entries: what \<open>Write\<close> hands to the tar
  writer and what the tar reader yields to \<open>Read\<close>.
\<close>

definition tarBlockBytes :: int where "tarBlockBytes = 512"
definition tarEndBytes :: int where "tarEndBytes = 2 * tarBlockBytes"

text \<open>A zero \<open>Limits\<close> stands for the default ones.\<close>

definition Container_limits :: "CaptureLimits \<Rightarrow> CaptureLimits" where
  "Container_limits l =
     (if l = \<lparr>cl_CompressionWindowBytes = 0, cl_MaxDecodedBytes = 0, cl_MaxEntries = 0\<rparr>
      then cf_Capture Default else l)"

record footer =
  ft_Segments :: int

definition footer_fields :: "footer field list" where
  "footer_fields = [member ''segments'' int_codec ft_Segments ft_Segments_update]"

definition footer_codec :: "footer codec" where
  "footer_codec = struct_codec footer_fields \<lparr>ft_Segments = 0\<rparr>"

text \<open>\<open>%08d\<close> of a segment's index.\<close>

definition segment_name :: "int \<Rightarrow> string" where
  "segment_name i =
     ''segments/'' @ (if i < 0 then CHR ''-'' # pad_zero 7 (show_nat (nat (- i))) else pad_zero 8 (show_nat (nat i)))
     @ ''.json''"

section \<open>Writing\<close>

text \<open>
  The errors of the layers below, by call: creating the compressor, the header and the data of the
  entry at an index, and the two \<open>Close\<close>.
\<close>

record write_env =
  we_zstd :: "go_error option"
  we_header :: "nat \<Rightarrow> go_error option"
  we_data :: "nat \<Rightarrow> go_error option"
  we_tar_close :: "go_error option"
  we_zstd_close :: "go_error option"

definition no_errors :: write_env where
  "no_errors = \<lparr>we_zstd = None, we_header = (\<lambda>_. None), we_data = (\<lambda>_. None), we_tar_close = None,
     we_zstd_close = None\<rparr>"

type_synonym entries = "(string \<times> string) list"

definition entry_cost :: "string \<Rightarrow> int" where
  "entry_cost b = tarBlockBytes + (int (length b) + tarBlockBytes - 1) div tarBlockBytes * tarBlockBytes"

text \<open>
  The closure \<open>entry\<close>: the entries written so far, the running size and the error.  The caller
  makes no further call once there is an error.
\<close>

type_synonym write_state = "entries \<times> int \<times> go_error option"

definition write_entry :: "write_env \<Rightarrow> CaptureLimits \<Rightarrow> string \<Rightarrow> json option \<Rightarrow> write_state \<Rightarrow> write_state" where
  "write_entry env limits name j st =
     (case st of (es, used, err) \<Rightarrow>
        if err \<noteq> None then st
        else case j of
          None \<Rightarrow> (es, used, Some (External ''json: marshal''))
        | Some j \<Rightarrow>
            let b = show_json j; used' = used + entry_cost b
            in if cl_MaxDecodedBytes limits < used'
               then (es, used', Some (Errorf ''capture exceeds decoded size limit''))
               else case we_header env (length es) of
                 Some e \<Rightarrow> (es, used', Some e)
               | None \<Rightarrow> (es @ [(name, b)], used', we_data env (length es)))"

fun write_segments :: "write_env \<Rightarrow> CaptureLimits \<Rightarrow> int \<Rightarrow> Segment list \<Rightarrow> write_state \<Rightarrow> write_state" where
  "write_segments env limits i [] st = st"
| "write_segments env limits i (s # ss) st =
     write_segments env limits (i + 1) ss
       (write_entry env limits (segment_name i) (cd_enc Segment_codec s) st)"

definition write_all :: "(string \<Rightarrow> bool) \<Rightarrow> write_env \<Rightarrow> CaptureLimits \<Rightarrow> Capture \<Rightarrow> write_state" where
  "write_all nl env limits c =
     (let st = ([], tarEndBytes, None);
          st = write_entry env limits ''manifest.json'' (cd_enc (Manifest_codec nl) (cp_Manifest c)) st;
          st = write_entry env limits ''host.json'' (cd_enc Host_codec (cp_Host c)) st;
          st = write_segments env limits 0 (cp_Segments c) st
      in write_entry env limits ''complete.json''
           (cd_enc footer_codec \<lparr>ft_Segments = int (length (cp_Segments c))\<rparr>) st)"

text \<open>\<open>Container.Write\<close>: the entries handed to the archive and the error.\<close>

definition Container_Write :: "(string \<Rightarrow> bool) \<Rightarrow> write_env \<Rightarrow> CaptureLimits \<Rightarrow> Capture \<Rightarrow> entries \<times> go_error option" where
  "Container_Write nl env l c =
     (let limits = Container_limits l in
      case CaptureLimits_Validate limits of
        Some e \<Rightarrow> ([], Some e)
      | None \<Rightarrow>
        if mf_FormatVersion (cp_Manifest c) \<noteq> FormatVersion then
          ([], Some (Errorf (''writer requires capture format '' @ show_int FormatVersion @ '', got ''
             @ show_int (mf_FormatVersion (cp_Manifest c)))))
        else case ValidateClock (cp_Host c) of
          Some e \<Rightarrow> ([], Some e)
        | None \<Rightarrow>
          if cl_MaxEntries limits - 3 < int (length (cp_Segments c)) then
            ([], Some (Errorf ''too many capture entries''))
          else case we_zstd env of
            Some e \<Rightarrow> ([], Some e)
          | None \<Rightarrow>
              (case write_all nl env limits c of (es, _, err) \<Rightarrow>
                 (es, if err \<noteq> None then err
                      else if we_tar_close env \<noteq> None then we_tar_close env else we_zstd_close env)))"

section \<open>Reading\<close>

text \<open>
  What the archive layers yield: the entries, each with the bytes of its content that can be read
  and the error that stops the reading; the error of \<open>Next\<close> after them, if it is not the end; the
  error of draining the rest; and what is then left of the limit on decoded bytes.
\<close>

record tar_entry =
  te_name :: string
  te_regular :: bool
  te_size :: int
  te_data :: string
  te_error :: "go_error option"

record archive =
  ar_entries :: "tar_entry list"
  ar_next :: "go_error option"
  ar_drain :: "go_error option"
  ar_left :: int

record read_state =
  rd_capture :: Capture
  rd_seen :: "string list"
  rd_total :: int
  rd_completed :: bool
  rd_expected :: int

text \<open>The value at the head of an entry and what follows it, or the error of the decoder.\<close>

definition json_error :: go_error where
  "json_error = External ''json: decode''"

definition decode_entry :: "'a codec \<Rightarrow> string \<Rightarrow> go_error + 'a \<times> string" where
  "decode_entry c s =
     (case parse_json s of
        None \<Rightarrow> Inl json_error
      | Some (j, rest) \<Rightarrow>
          (case cd_dec c j (cd_zero c) of None \<Rightarrow> Inl json_error | Some x \<Rightarrow> Inr (x, rest)))"

text \<open>
  \<open>skipJSONValue\<close> reads tokens: a number token must fit \<open>float64\<close>, which rounds to infinity from
  \<open>2^1024 - 2^970\<close> on.
\<close>

definition number_finite :: "string \<Rightarrow> bool" where
  "number_finite s =
     (let s1 = filter (\<lambda>c. c \<noteq> CHR ''-'') (takeWhile (\<lambda>c. c \<noteq> CHR ''e'' \<and> c \<noteq> CHR ''E'') s);
          exp_text = drop 1 (dropWhile (\<lambda>c. c \<noteq> CHR ''e'' \<and> c \<noteq> CHR ''E'') s);
          whole = takeWhile is_digit s1; frac = drop 1 (dropWhile is_digit s1);
          m = (case digits_value 0 (whole @ frac) of Some n \<Rightarrow> n | None \<Rightarrow> 0);
          e = (case digits_value 0 (filter is_digit exp_text) of Some n \<Rightarrow> n | None \<Rightarrow> 0);
          e = (if HasPrefix exp_text ''-'' then - int e else int e) - int (length frac);
          limit = 2 ^ 1024 - 2 ^ 970
      in if 0 \<le> e then m = 0 \<or> m * 10 ^ nat e < limit else m < limit * 10 ^ nat (- e))"

fun skip_ok :: "json \<Rightarrow> bool" where
  "skip_ok (JNum s) \<longleftrightarrow> number_finite s"
| "skip_ok (JArr js) \<longleftrightarrow> (\<forall>j \<in> set js. skip_ok j)"
| "skip_ok (JObj ms) \<longleftrightarrow> (\<forall>m \<in> set ms. skip_ok (snd m))"
| "skip_ok _ \<longleftrightarrow> True"

text \<open>\<open>decodeArray\<close>: each element into a fresh variable.\<close>

definition decodeArray :: "'a codec \<Rightarrow> json \<Rightarrow> 'a list option" where
  "decodeArray c j =
     (case j of
        JNull \<Rightarrow> Some []
      | JArr js \<Rightarrow> enc_list (\<lambda>j. cd_dec c j (cd_zero c)) js
      | _ \<Rightarrow> None)"

definition decode_segment_member :: "string \<Rightarrow> json \<Rightarrow> Segment \<Rightarrow> Segment option" where
  "decode_segment_member k j s =
     (if EqualFold k ''start_mono_ns'' then set_field uint_codec sg_StartMonoNS sg_StartMonoNS_update j s
      else if EqualFold k ''end_mono_ns'' then set_field uint_codec sg_EndMonoNS sg_EndMonoNS_update j s
      else if EqualFold k ''events'' then map_option (\<lambda>es. s\<lparr>sg_Events := es\<rparr>) (decodeArray Event_codec j)
      else if EqualFold k ''metrics'' then map_option (\<lambda>ms. s\<lparr>sg_Metrics := ms\<rparr>) (decodeArray Metric_codec j)
      else if skip_ok j then Some s else None)"

fun decode_segment_members :: "(string \<times> json) list \<Rightarrow> Segment \<Rightarrow> Segment option" where
  "decode_segment_members [] s = Some s"
| "decode_segment_members ((k, j) # ms) s =
     do { s' \<leftarrow> decode_segment_member k j s; decode_segment_members ms s' }"

definition decodeSegment :: "json \<Rightarrow> Segment option" where
  "decodeSegment j =
     (case j of
        JNull \<Rightarrow> Some zero_Segment
      | JObj ms \<Rightarrow> decode_segment_members ms zero_Segment
      | _ \<Rightarrow> None)"

text \<open>\<open>consumeJSONTail\<close>: only white space may follow, and the entry must have all its bytes.\<close>

definition consumeJSONTail :: "string \<Rightarrow> tar_entry \<Rightarrow> go_error option" where
  "consumeJSONTail rest h =
     (if skip_ws rest \<noteq> [] then Some (Errorf ''entry contains trailing JSON data'')
      else if te_error h \<noteq> None then te_error h
      else if int (length (te_data h)) \<noteq> te_size h then Some (External ''unexpected EOF'')
      else None)"

text \<open>The index that \<open>Sscanf\<close> finds in the name, when printing it gives the name.\<close>

definition scan_index :: "string \<Rightarrow> int option" where
  "scan_index name =
     (if \<not> HasPrefix name ''segments/'' then None
      else let s = take 8 (drop 9 name);
               sign = (case s of c # _ \<Rightarrow> if c = CHR ''-'' then [c] else [] | [] \<Rightarrow> []);
               i = ParseInt (sign @ takeWhile is_digit (drop (length sign) s))
           in case i of None \<Rightarrow> None | Some i \<Rightarrow> if name = segment_name i then Some i else None)"

definition decode_failed :: "string \<Rightarrow> go_error \<Rightarrow> go_error" where
  "decode_failed name e = Wrapf (''decode '' @ name) e"

text \<open>
  The \<open>switch\<close> on the name and the error of the decoder.  A name occurs once, so each value is
  decoded over the zero one; what a slice's nil is written as does not matter to the reader.
\<close>

definition read_content :: "tar_entry \<Rightarrow> read_state \<Rightarrow> go_error + read_state \<times> string" where
  "read_content h st =
     (let name = te_name h; c = rd_capture st; s = te_data h in
      if name = ''manifest.json'' then
        (case decode_entry (Manifest_codec (\<lambda>_. False)) s of
           Inl e \<Rightarrow> Inl (decode_failed name e)
         | Inr (m, rest) \<Rightarrow>
             (case CheckReadableFormat (mf_FormatVersion m) of
                Some e \<Rightarrow> Inl (decode_failed name e)
              | None \<Rightarrow> Inr (st\<lparr>rd_capture := c\<lparr>cp_Manifest := m\<rparr>\<rparr>, rest)))
      else if name = ''host.json'' then
        (case decode_entry Host_codec s of
           Inl e \<Rightarrow> Inl (decode_failed name e)
         | Inr (x, rest) \<Rightarrow> Inr (st\<lparr>rd_capture := c\<lparr>cp_Host := x\<rparr>\<rparr>, rest))
      else if name = ''complete.json'' then
        (case decode_entry footer_codec s of
           Inl e \<Rightarrow> Inl (decode_failed name e)
         | Inr (f, rest) \<Rightarrow> Inr (st\<lparr>rd_completed := True, rd_expected := ft_Segments f\<rparr>, rest))
      else
        (case scan_index name of
           None \<Rightarrow> Inl (Errorf (''unknown capture entry '' @ Quote name))
         | Some i \<Rightarrow>
             if i \<noteq> int (length (cp_Segments c)) then Inl (Errorf ''invalid segment sequence'')
             else (case parse_json s of
                None \<Rightarrow> Inl (decode_failed name json_error)
              | Some (j, rest) \<Rightarrow>
                  (case decodeSegment j of
                     None \<Rightarrow> Inl (decode_failed name json_error)
                   | Some x \<Rightarrow> Inr (st\<lparr>rd_capture := c\<lparr>cp_Segments := cp_Segments c @ [x]\<rparr>\<rparr>, rest)))))"

definition read_entry :: "CaptureLimits \<Rightarrow> tar_entry \<Rightarrow> read_state \<Rightarrow> go_error + read_state" where
  "read_entry limits h st =
     (let name = te_name h; seen = rd_seen st in
      if rd_completed st then Inl (Errorf ''entry after completion marker'')
      else if \<not> te_regular h \<or> name \<in> set seen \<or> te_size h < 0
          \<or> cl_MaxDecodedBytes limits - rd_total st < te_size h
        then Inl (Errorf (''invalid or oversized capture entry '' @ Quote name))
      else if cl_MaxEntries limits \<le> int (length seen) then Inl (Errorf ''too many capture entries'')
      else if length seen = 0 \<and> name \<noteq> ''manifest.json'' then Inl (Errorf ''manifest must be the first capture entry'')
      else if length seen = 1 \<and> name \<noteq> ''host.json'' then Inl (Errorf ''host must follow capture manifest'')
      else
        (case read_content h (st\<lparr>rd_seen := seen @ [name], rd_total := rd_total st + te_size h\<rparr>) of
           Inl e \<Rightarrow> Inl e
         | Inr (st', rest) \<Rightarrow>
             (case consumeJSONTail rest h of
                Some e \<Rightarrow> Inl (decode_failed name e)
              | None \<Rightarrow> Inr st')))"

fun read_entries :: "CaptureLimits \<Rightarrow> tar_entry list \<Rightarrow> read_state \<Rightarrow> go_error + read_state" where
  "read_entries limits [] st = Inr st"
| "read_entries limits (h # hs) st =
     (case read_entry limits h st of Inl e \<Rightarrow> Inl e | Inr st' \<Rightarrow> read_entries limits hs st')"

definition start_read :: read_state where
  "start_read = \<lparr>rd_capture = \<lparr>cp_Manifest = zero_Manifest, cp_Host = zero_Host, cp_Segments = []\<rparr>,
     rd_seen = [], rd_total = 0, rd_completed = False, rd_expected = 0\<rparr>"

text \<open>After the last entry; the checks of the capture itself are \<open>capture_error\<close>.\<close>

definition finish_read :: "archive \<Rightarrow> read_state \<Rightarrow> go_error + Capture" where
  "finish_read a st =
     (let c = rd_capture st in
      case ar_next a of
        Some e \<Rightarrow> Inl (Wrapf ''read capture'' e)
      | None \<Rightarrow>
        (case ar_drain a of
           Some e \<Rightarrow> Inl e
         | None \<Rightarrow>
           if ar_left a \<le> 0 then Inl (Errorf ''capture exceeds decoded size limit'')
           else if \<not> rd_completed st \<or> rd_expected st \<noteq> int (length (cp_Segments c))
             then Inl (Errorf ''incomplete capture'')
           else if ''manifest.json'' \<notin> set (rd_seen st) \<or> ''host.json'' \<notin> set (rd_seen st)
             then Inl (Errorf ''capture missing manifest or host'')
           else case capture_error c of Some e \<Rightarrow> Inl e | None \<Rightarrow> Inr c))"

text \<open>
  \<open>Container.Read\<close> of a file, given what the compression and the archive make of its bytes under
  the limit, or why the decompressor cannot be made.
\<close>

definition Container_Read ::
  "(CaptureLimits \<Rightarrow> string \<Rightarrow> go_error + archive) \<Rightarrow> CaptureLimits \<Rightarrow> string \<Rightarrow> go_error + Capture"
where
  "Container_Read unpack l bytes =
     (let limits = Container_limits l in
      case CaptureLimits_Validate limits of
        Some e \<Rightarrow> Inl e
      | None \<Rightarrow>
        (case unpack limits bytes of
           Inl e \<Rightarrow> Inl e
         | Inr a \<Rightarrow>
             (case read_entries limits (ar_entries a) start_read of
                Inl e \<Rightarrow> Inl e
              | Inr st \<Rightarrow> finish_read a st)))"

end
