(* ===== verification/Container_Lemmas.thy ===== *)
theory Container_Lemmas
  imports Container
begin

text \<open>
  What \<open>Write\<close> has written when it succeeds, when it succeeds, and how \<open>Read\<close> takes such entries back one
  by one; and the invariants of the variables the reader decodes into.
\<close>

section \<open>What a successful write has written\<close>

definition framed :: "entries \<Rightarrow> int" where
  "framed es = tarEndBytes + sum_list (map (\<lambda>e. entry_cost (snd e)) es)"

lemma round_up_le: "0 < k \<Longrightarrow> x \<le> (x + (k - 1)) div k * (k :: int)"
  using div_mult_mod_eq [of "x + (k - 1)" k] pos_mod_bound [of k "x + (k - 1)"] by linarith

lemma entry_cost_bounds: "tarBlockBytes + int (length b) \<le> entry_cost b" "0 < entry_cost b"
proof -
  have "int (length b) \<le> (int (length b) + 511) div 512 * 512"
    using round_up_le [of 512 "int (length b)"] by simp
  then show "tarBlockBytes + int (length b) \<le> entry_cost b" by (simp add: entry_cost_def tarBlockBytes_def)
  then show "0 < entry_cost b" by (simp add: tarBlockBytes_def)
qed

lemma framed_snoc: "framed (es @ [(n, b)]) = framed es + entry_cost b"
  by (simp add: framed_def)

lemma framed_append: "framed (xs @ ys) = framed xs + sum_list (map (\<lambda>e. entry_cost (snd e)) ys)"
  by (simp add: framed_def)

text \<open>The running size counts at least what was written, and nothing is written past the limit.\<close>

definition within :: "CaptureLimits \<Rightarrow> write_state \<Rightarrow> bool" where
  "within limits st \<longleftrightarrow> (case st of (es, used, err) \<Rightarrow> framed es \<le> used \<and> framed es \<le> cl_MaxDecodedBytes limits)"

lemma write_entry_within: "within limits st \<Longrightarrow> within limits (write_entry env limits n j st)"
  using entry_cost_bounds(2)
  by (auto simp: within_def write_entry_def framed_snoc Let_def split: prod.splits option.splits intro: less_imp_le)
    (smt (verit) entry_cost_bounds(2))+

lemma write_segments_within: "within limits st \<Longrightarrow> within limits (write_segments env limits i ss st)"
  by (induction ss arbitrary: i st) (simp_all add: write_entry_within)

lemma write_entry_done:
  assumes "write_entry env limits n j st = (es', used', None)"
  shows "\<exists>es used v. st = (es, used, None) \<and> j = Some v \<and> es' = es @ [(n, show_json v)]"
  using assms by (auto simp: write_entry_def Let_def split: prod.splits option.splits if_splits)

fun segment_entries :: "int \<Rightarrow> json list \<Rightarrow> entries" where
  "segment_entries i [] = []"
| "segment_entries i (j # js) = (segment_name i, show_json j) # segment_entries (i + 1) js"

lemma write_segments_done:
  "write_segments env limits i ss st = (es', used', None) \<Longrightarrow>
   \<exists>es used js. st = (es, used, None) \<and> enc_list (cd_enc Segment_codec) ss = Some js \<and> es' = es @ segment_entries i js"
proof (induction ss arbitrary: i st)
  case (Cons s ss)
  have "\<exists>es used js. write_entry env limits (segment_name i) (cd_enc Segment_codec s) st = (es, used, None)
      \<and> enc_list (cd_enc Segment_codec) ss = Some js \<and> es' = es @ segment_entries (i + 1) js"
    by (rule Cons.IH) (use Cons.prems in simp)
  then obtain es used js where *: "write_entry env limits (segment_name i) (cd_enc Segment_codec s) st = (es, used, None)"
    "enc_list (cd_enc Segment_codec) ss = Some js" "es' = es @ segment_entries (i + 1) js"
    by blast
  show ?case using write_entry_done [OF *(1)] *(2,3) by auto
qed simp

lemma Container_Write_done:
  assumes "Container_Write nl env l c = (es, None)"
  shows "CaptureLimits_Validate (Container_limits l) = None"
    "int (length (cp_Segments c)) \<le> cl_MaxEntries (Container_limits l) - 3"
    "framed es \<le> cl_MaxDecodedBytes (Container_limits l)"
    "\<exists>m h js f. cd_enc (Manifest_codec nl) (cp_Manifest c) = Some m \<and> cd_enc Host_codec (cp_Host c) = Some h
      \<and> enc_list (cd_enc Segment_codec) (cp_Segments c) = Some js
      \<and> cd_enc footer_codec \<lparr>ft_Segments = int (length (cp_Segments c))\<rparr> = Some f
      \<and> es = [(''manifest.json'', show_json m), (''host.json'', show_json h)] @ segment_entries 0 js
          @ [(''complete.json'', show_json f)]"
proof -
  let ?l = "Container_limits l"
  obtain used where w: "write_all nl env ?l c = (es, used, None)"
    and v: "CaptureLimits_Validate ?l = None" and n: "int (length (cp_Segments c)) \<le> cl_MaxEntries ?l - 3"
    using assms by (auto simp: Container_Write_def Let_def split: option.splits if_splits prod.splits)
  show "CaptureLimits_Validate ?l = None" "int (length (cp_Segments c)) \<le> cl_MaxEntries ?l - 3" by fact+
  have "within ?l ([], tarEndBytes, None)"
    using v by (auto simp: within_def framed_def tarEndBytes_def tarBlockBytes_def CaptureLimits_Validate_def
        MinMemory_def split: if_splits)
  then have "within ?l (es, used, None)"
    using w unfolding write_all_def Let_def by (metis write_entry_within write_segments_within)
  then show "framed es \<le> cl_MaxDecodedBytes ?l" by (simp add: within_def)
  show "\<exists>m h js f. cd_enc (Manifest_codec nl) (cp_Manifest c) = Some m \<and> cd_enc Host_codec (cp_Host c) = Some h
      \<and> enc_list (cd_enc Segment_codec) (cp_Segments c) = Some js
      \<and> cd_enc footer_codec \<lparr>ft_Segments = int (length (cp_Segments c))\<rparr> = Some f
      \<and> es = [(''manifest.json'', show_json m), (''host.json'', show_json h)] @ segment_entries 0 js
          @ [(''complete.json'', show_json f)]"
    using w unfolding write_all_def Let_def
    by (auto dest!: write_entry_done write_segments_done)
qed

text \<open>Without errors from below, a write fails only for what the capture is.\<close>

lemma write_entry_fits:
  "framed es + entry_cost (show_json j) \<le> cl_MaxDecodedBytes limits \<Longrightarrow>
   write_entry no_errors limits n (Some j) (es, framed es, None) = (es @ [(n, show_json j)], framed (es @ [(n, show_json j)]), None)"
  by (simp add: write_entry_def no_errors_def framed_snoc Let_def)

lemma framed_mono: "framed xs \<le> framed (xs @ ys)"
  using entry_cost_bounds(2) by (auto simp: framed_append less_imp_le intro!: sum_list_nonneg)

lemma write_segments_fits:
  "enc_list (cd_enc Segment_codec) ss = Some js \<Longrightarrow> framed (es @ segment_entries i js) \<le> cl_MaxDecodedBytes limits \<Longrightarrow>
   write_segments no_errors limits i ss (es, framed es, None) = (es @ segment_entries i js, framed (es @ segment_entries i js), None)"
proof (induction ss arbitrary: i js es)
  case (Cons s ss)
  then obtain j js' where j: "cd_enc Segment_codec s = Some j" "enc_list (cd_enc Segment_codec) ss = Some js'" "js = j # js'"
    by (auto split: bind_splits)
  let ?es = "es @ [(segment_name i, show_json j)]"
  have "framed ?es \<le> framed (?es @ segment_entries (i + 1) js')" by (rule framed_mono)
  then have "framed es + entry_cost (show_json j) \<le> cl_MaxDecodedBytes limits"
    using Cons.prems(2) j(3) by (simp add: framed_snoc)
  then show ?case using Cons.IH [OF j(2), of ?es "i + 1"] Cons.prems(2) j by (simp add: write_entry_fits)
qed simp

lemma write_all_fits:
  assumes "cd_enc (Manifest_codec nl) (cp_Manifest c) = Some m" "cd_enc Host_codec (cp_Host c) = Some h"
    and "enc_list (cd_enc Segment_codec) (cp_Segments c) = Some js"
    and "cd_enc footer_codec \<lparr>ft_Segments = int (length (cp_Segments c))\<rparr> = Some f"
    and es: "es = [(''manifest.json'', show_json m), (''host.json'', show_json h)] @ segment_entries 0 js
      @ [(''complete.json'', show_json f)]"
    and fits: "framed es \<le> cl_MaxDecodedBytes limits"
  shows "write_all nl no_errors limits c = (es, framed es, None)"
proof -
  let ?m = "(''manifest.json'', show_json m)" and ?h = "(''host.json'', show_json h)"
    and ?f = "(''complete.json'', show_json f)" and ?s = "segment_entries 0 js"
  have steps: "framed [?m] \<le> framed es" "framed [?m, ?h] \<le> framed es" "framed ([?m, ?h] @ ?s) \<le> framed es"
    using framed_mono [of "[?m]" "[?h] @ ?s @ [?f]"] framed_mono [of "[?m, ?h]" "?s @ [?f]"]
      framed_mono [of "[?m, ?h] @ ?s" "[?f]"] by (simp_all add: es)
  have "framed [] = tarEndBytes" by (simp add: framed_def)
  then show ?thesis
    unfolding write_all_def Let_def assms(1,2,4)
    using write_entry_fits [of "[]" m limits] write_entry_fits [of "[?m]" h limits]
      write_segments_fits [OF assms(3), of "[?m, ?h]" 0 limits] write_entry_fits [of "[?m, ?h] @ ?s" f limits]
      steps fits framed_snoc [of "[]"] framed_snoc [of "[?m]"] framed_snoc [of "[?m, ?h] @ ?s"]
    by (simp add: es)
qed

section \<open>Segments\<close>

lemma digits_value_zeros: "digits_value 0 (replicate k (CHR ''0'') @ s) = digits_value 0 s"
  by (induction k) (simp_all add: is_digit_def digit_value_def)

lemma show_nat_length: "n < 10 ^ Suc w \<Longrightarrow> length (show_nat n) \<le> Suc w"
proof (induction w arbitrary: n)
  case 0
  then show ?case by (simp add: show_nat_digit)
next
  case (Suc w)
  show ?case
  proof (cases "n < 10")
    case False
    have "length (show_nat (n div 10)) \<le> Suc w" using Suc by (intro Suc.IH) simp
    then show ?thesis using False show_nat_step [of n] by simp
  qed (simp add: show_nat_digit)
qed

lemma pad_zero_props:
  assumes "n < 10 ^ 8"
  shows "length (pad_zero 8 (show_nat n)) = 8" "list_all is_digit (pad_zero 8 (show_nat n))"
    "digits_value 0 (pad_zero 8 (show_nat n)) = Some n"
  using show_nat_length [of n 7] assms show_nat_digits digits_value_zeros digits_value_show_nat_0
  by (auto simp: pad_zero_def list_all_iff is_digit_def)

lemma scan_segment_name:
  assumes "0 \<le> i" "i < 10 ^ 8"
  shows "scan_index (segment_name i) = Some i"
proof -
  define p where "p = pad_zero 8 (show_nat (nat i))"
  have lim: "nat i < 10 ^ 8" using assms by (simp add: nat_less_iff)
  note p = pad_zero_props [OF lim, folded p_def]
  obtain c cs where c: "p = c # cs" using p(1) by (cases p) auto
  have "is_digit c" using p(2) c by simp
  then have d: "c \<noteq> CHR ''-''" "c \<noteq> CHR ''+''" by (auto simp: is_digit_def)
  have name: "segment_name i = ''segments/'' @ p @ ''.json''"
    using assms by (simp add: segment_name_def p_def)
  have "take 8 (drop 9 (segment_name i)) = p" using p(1) by (simp add: name)
  moreover have "takeWhile is_digit p = p" using p(2) by (simp add: list_all_iff takeWhile_eq_all_conv)
  moreover have "ParseInt p = Some i"
    using p(3) c d assms by (simp add: ParseInt_def)
  moreover have "HasPrefix (segment_name i) ''segments/''" by (simp add: name HasPrefix_def)
  ultimately show ?thesis using c d by (simp add: scan_index_def)
qed

lemma segment_name_other:
  "segment_name i \<noteq> ''manifest.json''" "segment_name i \<noteq> ''host.json''" "segment_name i \<noteq> ''complete.json''"
  by (simp_all add: segment_name_def)

text \<open>A segment that was encoded is what the streaming decoder makes of its value.\<close>

lemma decodeArray_enc:
  assumes "json_codec c P" "list_all P xs" "enc_list (cd_enc c) xs = Some js"
  shows "decodeArray c (JArr js) = Some xs" "elems_ok js"
proof -
  have "elems_ok js \<and> enc_list (\<lambda>j. cd_dec c j (cd_zero c)) js = Some xs"
    using assms(2,3)
  proof (induction xs arbitrary: js)
    case (Cons x xs)
    then obtain j js' where j: "cd_enc c x = Some j" "enc_list (cd_enc c) xs = Some js'" "js = j # js'"
      by (auto split: bind_splits)
    then show ?case using Cons json_codecD [OF assms(1), of x] by auto
  qed simp
  then show "decodeArray c (JArr js) = Some xs" "elems_ok js" by (simp_all add: decodeArray_def)
qed

lemma segment_keys:
  "EqualFold ''start_mono_ns'' ''start_mono_ns''" "\<not> EqualFold ''end_mono_ns'' ''start_mono_ns''"
  "EqualFold ''end_mono_ns'' ''end_mono_ns''" "\<not> EqualFold ''events'' ''start_mono_ns''"
  "\<not> EqualFold ''events'' ''end_mono_ns''" "EqualFold ''events'' ''events''"
  "\<not> EqualFold ''metrics'' ''start_mono_ns''" "\<not> EqualFold ''metrics'' ''end_mono_ns''"
  "\<not> EqualFold ''metrics'' ''events''" "EqualFold ''metrics'' ''metrics''"
  by code_simp+

lemma decodeSegment_enc:
  assumes "Segment_ok s" "cd_enc Segment_codec s = Some j"
  shows "json_ok j" "decodeSegment j = Some s"
proof -
  show "json_ok j" using json_codecD [OF Segment_law assms(1)] assms(2) by simp
  obtain ms where j: "j = JObj ms" and ms: "enc_fields Segment_fields s = Some ms"
    using assms(2) by (auto simp: Segment_codec_def struct_codec_def)
  have u: "cd_dec uint_codec (JNum (show_nat (unat w))) v = Some w" for w v :: u64
    using json_codecD [OF uint_law, of w] by (simp add: uint_codec_def dec_scalar_def)
  have ok: "list_all Event_ok (sg_Events s)" "list_all Metric_ok (sg_Metrics s)"
    using assms(1) by (simp_all add: Segment_ok_def)
  define em where "em = (if sg_Events s = [] then Some [] else
      map_option (\<lambda>j. [(''events'', JArr j)]) (enc_list (cd_enc Event_codec) (sg_Events s)))"
  define mm where "mm = (if sg_Metrics s = [] then Some [] else
      map_option (\<lambda>j. [(''metrics'', JArr j)]) (enc_list (cd_enc Metric_codec) (sg_Metrics s)))"
  obtain e m where em: "em = Some e" and mm: "mm = Some m"
    and ms': "ms = [(''start_mono_ns'', JNum (show_nat (unat (sg_StartMonoNS s)))),
      (''end_mono_ns'', JNum (show_nat (unat (sg_EndMonoNS s))))] @ e @ m"
    using ms by (auto simp: Segment_fields_def member_def omitempty_def slice_codec_def uint_codec_def em_def mm_def
        option.map_comp o_def split: bind_splits if_splits)
  have e: "decode_segment_members (e @ m) t = decode_segment_members m (t\<lparr>sg_Events := sg_Events s\<rparr>)"
    if "sg_Events t = []" for t :: Segment
    using em that decodeArray_enc(1) [OF Event_law ok(1)]
    by (cases t; cases "sg_Events s = []") (auto simp: em_def decode_segment_member_def segment_keys)
  have m: "decode_segment_members m t = Some (t\<lparr>sg_Metrics := sg_Metrics s\<rparr>)" if "sg_Metrics t = []" for t :: Segment
    using mm that decodeArray_enc(1) [OF Metric_law ok(2)]
    by (cases t; cases "sg_Metrics s = []") (auto simp: mm_def decode_segment_member_def segment_keys)
  show "decodeSegment j = Some s"
    by (cases s) (simp add: j ms' decodeSegment_def decode_segment_member_def segment_keys set_field_def u e m zero_Segment_def)
qed

section \<open>Reading what was written\<close>

text \<open>
  What the archive layers yield for entries that were written: regular files with all their bytes,
  then the end, in a stream as long as the tar framing.
\<close>

definition stored :: "string \<times> string \<Rightarrow> tar_entry" where
  "stored e = \<lparr>te_name = fst e, te_regular = True, te_size = int (length (snd e)), te_data = snd e, te_error = None\<rparr>"

definition archive_of :: "CaptureLimits \<Rightarrow> entries \<Rightarrow> archive" where
  "archive_of limits es = \<lparr>ar_entries = map stored es, ar_next = None, ar_drain = None,
     ar_left = cl_MaxDecodedBytes limits + 1 - framed es\<rparr>"

text \<open>The values the codec keeps.\<close>

definition Capture_ok :: "Capture \<Rightarrow> bool" where
  "Capture_ok c \<longleftrightarrow> Manifest_ok (cp_Manifest c) \<and> Host_ok (cp_Host c) \<and> list_all Segment_ok (cp_Segments c)"

lemma footer_law: "json_codec footer_codec (\<lambda>f. in_int64 (ft_Segments f))"
  unfolding footer_codec_def
proof (rule struct_law)
  show "distinct (map fl_name footer_fields)" by (simp add: footer_fields_def)
  show "fields_law footer_fields x \<lparr>ft_Segments = 0\<rparr>" if "in_int64 (ft_Segments x)" for x
    using that unfolding footer_fields_def
    by (cases x) (rule member_step omitempty_step codec_laws | simp add: codec_zeros ascii_text)+
qed

interpretation footer_json: json_codec footer_codec "\<lambda>f. in_int64 (ft_Segments f)"
  by (rule footer_law)

lemma parse_shown: "json_ok j \<Longrightarrow> parse_json (show_json j) = Some (j, [])"
  using parse_json_show [of j "[]"] by (simp add: delimited_def)

lemma decode_entry_enc:
  assumes "json_codec c P" "P x" "cd_enc c x = Some j" "same_reader c d"
  shows "decode_entry d (show_json j) = Inr (x, [])"
proof -
  have "json_ok j" "cd_dec c j (cd_zero c) = Some x" using json_codecD [OF assms(1,2)] assms(3) by auto
  then show ?thesis using assms(4) by (simp add: decode_entry_def parse_shown same_reader_def)
qed

lemma skip_ws_Nil [simp]: "skip_ws [] = []"
  by (simp add: skip_ws_def)

text \<open>An entry that passes the guards of the loop is the effect of its content.\<close>

lemma read_entry_stored:
  assumes "\<not> rd_completed st" "n \<notin> set (rd_seen st)"
    and "rd_total st + int (length b) \<le> cl_MaxDecodedBytes limits" "int (length (rd_seen st)) < cl_MaxEntries limits"
    and "length (rd_seen st) = 0 \<Longrightarrow> n = ''manifest.json''" "length (rd_seen st) = 1 \<Longrightarrow> n = ''host.json''"
    and "read_content (stored (n, b)) (st\<lparr>rd_seen := rd_seen st @ [n], rd_total := rd_total st + int (length b)\<rparr>) = Inr (st', [])"
  shows "read_entry limits (stored (n, b)) st = Inr st'"
  using assms by (auto simp: read_entry_def Let_def stored_def consumeJSONTail_def)

lemma read_entries_append:
  "read_entries limits (xs @ ys) st =
     (case read_entries limits xs st of Inl e \<Rightarrow> Inl e | Inr st' \<Rightarrow> read_entries limits ys st')"
  by (induction xs arbitrary: st) (auto split: sum.split)

definition content :: "entries \<Rightarrow> int" where
  "content es = sum_list (map (\<lambda>e. int (length (snd e))) es)"

lemma content_le: "content es \<le> sum_list (map (\<lambda>e. entry_cost (snd e)) es)"
  unfolding content_def
proof (rule sum_list_mono)
  fix e assume "e \<in> set es"
  show "int (length (snd e)) \<le> entry_cost (snd e)"
    using entry_cost_bounds(1) [of "snd e"] by (simp add: tarBlockBytes_def)
qed

lemma content_simps [simp]: "content [] = 0" "content (e # es) = int (length (snd e)) + content es"
  "content (xs @ ys) = content xs + content ys"
  by (simp_all add: content_def)

lemma content_nonneg: "0 \<le> content es"
  by (auto simp: content_def intro!: sum_list_nonneg)

lemma disjoint_insert_less: "A \<inter> B = {} \<Longrightarrow> C \<subseteq> B \<Longrightarrow> x \<notin> C \<Longrightarrow> insert x A \<inter> C = {}"
  by blast

lemma read_segments_stored:
  assumes "list_all Segment_ok ss" "enc_list (cd_enc Segment_codec) ss = Some js"
    and "\<not> rd_completed st" "int (length (rd_seen st)) = 2 + k" "k = int (length (cp_Segments (rd_capture st)))"
    and "set (rd_seen st) \<inter> segment_name ` {k..<10 ^ 8} = {}" "k + int (length ss) < 10 ^ 8"
    and "rd_total st + content (segment_entries k js) \<le> cl_MaxDecodedBytes limits"
    and "2 + k + int (length ss) \<le> cl_MaxEntries limits"
  shows "\<exists>seen. read_entries limits (map stored (segment_entries k js)) st =
     Inr (st\<lparr>rd_capture := rd_capture st\<lparr>cp_Segments := cp_Segments (rd_capture st) @ ss\<rparr>, rd_seen := rd_seen st @ seen,
       rd_total := rd_total st + content (segment_entries k js)\<rparr>)
     \<and> length seen = length ss \<and> set seen \<subseteq> range segment_name"
  using assms
proof (induction ss arbitrary: js st k)
  case (Cons s ss)
  obtain j js' where j: "cd_enc Segment_codec s = Some j" "enc_list (cd_enc Segment_codec) ss = Some js'" "js = j # js'"
    using Cons.prems(2) by (auto split: bind_splits)
  let ?n = "segment_name k" and ?b = "show_json j" and ?c = "rd_capture st"
  define st1 where "st1 = st\<lparr>rd_capture := ?c\<lparr>cp_Segments := cp_Segments ?c @ [s]\<rparr>, rd_seen := rd_seen st @ [?n],
      rd_total := rd_total st + int (length ?b)\<rparr>"
  have k: "0 \<le> k" "k < 10 ^ 8" using Cons.prems(5,7) by auto
  note dec = decodeSegment_enc [OF _ j(1)]
  have s: "Segment_ok s" using Cons.prems(1) by simp
  have 1: "read_entry limits (stored (?n, ?b)) st = Inr st1"
  proof (rule read_entry_stored)
    show "?n \<notin> set (rd_seen st)"
      using Cons.prems(6) imageI [of k "{k..<10 ^ 8}" segment_name] k by auto
    show "rd_total st + int (length ?b) \<le> cl_MaxDecodedBytes limits"
      using Cons.prems(8) content_nonneg [of "segment_entries (k + 1) js'"] j(3) by simp
    show "read_content (stored (?n, ?b)) (st\<lparr>rd_seen := rd_seen st @ [?n], rd_total := rd_total st + int (length ?b)\<rparr>)
        = Inr (st1, [])"
      using segment_name_other scan_segment_name [OF k] dec [OF s] Cons.prems(5)
      by (simp add: read_content_def Let_def stored_def parse_shown st1_def)
  qed (use Cons.prems k in auto)
  have "set (rd_seen st1) \<inter> segment_name ` {k + 1..<10 ^ 8} = {}"
  proof -
    have "?n \<noteq> segment_name i" if "k + 1 \<le> i" "i < 10 ^ 8" for i
      using scan_segment_name [OF k] scan_segment_name [of i] that k by auto
    note other = this
    have "?n \<notin> segment_name ` {k + 1..<10 ^ 8}"
    proof
      assume "?n \<in> segment_name ` {k + 1..<10 ^ 8}"
      then obtain i where "?n = segment_name i" "k + 1 \<le> i" "i < 10 ^ 8" by auto
      then show False using other by blast
    qed
    moreover have "segment_name ` {k + 1..<10 ^ 8} \<subseteq> segment_name ` {k..<10 ^ 8}"
      by (rule image_mono) simp
    moreover have "set (rd_seen st1) = insert ?n (set (rd_seen st))" by (simp add: st1_def)
    ultimately show ?thesis using disjoint_insert_less [OF Cons.prems(6)] by simp
  qed
  then obtain seen where "read_entries limits (map stored (segment_entries (k + 1) js')) st1 =
     Inr (st1\<lparr>rd_capture := rd_capture st1\<lparr>cp_Segments := cp_Segments (rd_capture st1) @ ss\<rparr>, rd_seen := rd_seen st1 @ seen,
       rd_total := rd_total st1 + content (segment_entries (k + 1) js')\<rparr>)"
     "length seen = length ss" "set seen \<subseteq> range segment_name"
    using Cons.IH [OF _ j(2), of st1 "k + 1"] Cons.prems j(3) by (auto simp: st1_def)
  then show ?case
    using 1 j(3) by (intro exI [of _ "?n # seen"]) (auto simp: st1_def add.assoc)
qed simp

section \<open>A written capture\<close>

text \<open>The archive of a successful write is read back, given that the capture is a valid one.\<close>

lemma read_written:
  assumes w: "Container_Write nl env l c = (es, None)" and ok: "Capture_ok c" and valid: "capture_error c = None"
  shows "\<exists>st. read_entries (Container_limits l) (map stored es) start_read = Inr st
    \<and> finish_read (archive_of (Container_limits l) es) st = Inr c"
proof -
  let ?l = "Container_limits l" and ?ss = "cp_Segments c"
  note wr = Container_Write_done [OF w]
  obtain m h js f where enc: "cd_enc (Manifest_codec nl) (cp_Manifest c) = Some m" "cd_enc Host_codec (cp_Host c) = Some h"
    "enc_list (cd_enc Segment_codec) ?ss = Some js" "cd_enc footer_codec \<lparr>ft_Segments = int (length ?ss)\<rparr> = Some f"
    and es: "es = [(''manifest.json'', show_json m), (''host.json'', show_json h)] @ segment_entries 0 js
      @ [(''complete.json'', show_json f)]"
    using wr(4) by blast
  have entries: "int (length ?ss) + 3 \<le> cl_MaxEntries ?l" "cl_MaxEntries ?l \<le> 1000000" "3 \<le> cl_MaxEntries ?l"
    using wr(1,2) by (auto simp: CaptureLimits_Validate_def MaxCaptureEntries_def split: if_splits)
  have "content es < framed es"
    using content_le [of es] by (simp add: framed_def tarEndBytes_def tarBlockBytes_def)
  then have size: "content es \<le> cl_MaxDecodedBytes ?l" using wr(3) by simp
  note nonneg = content_nonneg [of "segment_entries 0 js"]
  have okc: "Manifest_ok (cp_Manifest c)" "Host_ok (cp_Host c)" "list_all Segment_ok ?ss" "in_int64 (int (length ?ss))"
    using ok entries by (simp_all add: Capture_ok_def in_int64_def)
  define st1 where "st1 = start_read\<lparr>rd_capture := rd_capture start_read\<lparr>cp_Manifest := cp_Manifest c\<rparr>,
      rd_seen := [''manifest.json''], rd_total := int (length (show_json m))\<rparr>"
  define st2 where "st2 = st1\<lparr>rd_capture := rd_capture st1\<lparr>cp_Host := cp_Host c\<rparr>,
      rd_seen := [''manifest.json'', ''host.json''], rd_total := rd_total st1 + int (length (show_json h))\<rparr>"
  have 1: "read_entry ?l (stored (''manifest.json'', show_json m)) start_read = Inr st1"
  proof (rule read_entry_stored)
    have "CheckReadableFormat (mf_FormatVersion (cp_Manifest c)) = None" using valid capture_error_None by simp
    then show "read_content (stored (''manifest.json'', show_json m)) (start_read\<lparr>rd_seen := rd_seen start_read @ [''manifest.json''],
        rd_total := rd_total start_read + int (length (show_json m))\<rparr>) = Inr (st1, [])"
      using decode_entry_enc [OF Manifest_law okc(1) enc(1) same_Manifest]
      by (simp add: read_content_def Let_def stored_def st1_def start_read_def)
  qed (use size es nonneg entries in \<open>auto simp: start_read_def\<close>)
  have 2: "read_entry ?l (stored (''host.json'', show_json h)) st1 = Inr st2"
  proof (rule read_entry_stored)
    show "read_content (stored (''host.json'', show_json h)) (st1\<lparr>rd_seen := rd_seen st1 @ [''host.json''],
        rd_total := rd_total st1 + int (length (show_json h))\<rparr>) = Inr (st2, [])"
      using decode_entry_enc [OF Host_law okc(2) enc(2) same_reader_refl]
      by (simp add: read_content_def Let_def stored_def st1_def st2_def)
  qed (use size es nonneg entries in \<open>auto simp: st1_def start_read_def\<close>)
  have seen2: "set (rd_seen st2) \<inter> segment_name ` {0..<10 ^ 8} = {}"
    by (auto simp: st2_def segment_name_other [symmetric])
  have "\<exists>seen. read_entries ?l (map stored (segment_entries 0 js)) st2 =
     Inr (st2\<lparr>rd_capture := rd_capture st2\<lparr>cp_Segments := cp_Segments (rd_capture st2) @ ?ss\<rparr>, rd_seen := rd_seen st2 @ seen,
       rd_total := rd_total st2 + content (segment_entries 0 js)\<rparr>)
     \<and> length seen = length ?ss \<and> set seen \<subseteq> range segment_name"
    by (rule read_segments_stored [OF okc(3) enc(3) _ _ _ seen2])
      (use size es entries in \<open>auto simp: st1_def st2_def start_read_def\<close>)
  then obtain seen where 3: "read_entries ?l (map stored (segment_entries 0 js)) st2 =
     Inr (st2\<lparr>rd_capture := c, rd_seen := rd_seen st2 @ seen, rd_total := rd_total st2 + content (segment_entries 0 js)\<rparr>)"
    and seen: "length seen = length ?ss" "set seen \<subseteq> range segment_name"
    by (cases c) (auto simp: st1_def st2_def start_read_def)
  define st3 where "st3 = st2\<lparr>rd_capture := c, rd_seen := rd_seen st2 @ seen,
      rd_total := rd_total st2 + content (segment_entries 0 js)\<rparr>"
  define st4 where "st4 = st3\<lparr>rd_completed := True, rd_expected := int (length ?ss),
      rd_seen := rd_seen st3 @ [''complete.json''], rd_total := rd_total st3 + int (length (show_json f))\<rparr>"
  have 4: "read_entry ?l (stored (''complete.json'', show_json f)) st3 = Inr st4"
  proof (rule read_entry_stored)
    show "''complete.json'' \<notin> set (rd_seen st3)"
      using seen(2) by (auto simp: st3_def st2_def segment_name_other [symmetric])
    show "read_content (stored (''complete.json'', show_json f)) (st3\<lparr>rd_seen := rd_seen st3 @ [''complete.json''],
        rd_total := rd_total st3 + int (length (show_json f))\<rparr>) = Inr (st4, [])"
      using decode_entry_enc [OF footer_law _ enc(4) same_reader_refl] okc(4)
      by (simp add: read_content_def Let_def stored_def st4_def)
  qed (use size es seen(1) entries in \<open>auto simp: st1_def st2_def st3_def start_read_def\<close>)
  have "read_entries ?l (map stored es) start_read = Inr st4"
    using 1 2 3 4 by (simp add: es read_entries_append st3_def)
  moreover have "finish_read (archive_of ?l es) st4 = Inr c"
    using valid wr(3) by (simp add: finish_read_def archive_of_def st4_def st3_def st2_def)
  ultimately show ?thesis by blast
qed

text \<open>Only the completion marker completes a capture.\<close>

lemma read_entry_Inr:
  assumes "read_entry limits h st = Inr st'"
  shows "\<not> rd_completed st \<and> te_name h \<notin> set (rd_seen st) \<and> int (length (rd_seen st)) < cl_MaxEntries limits
    \<and> (\<exists>rest. read_content h (st\<lparr>rd_seen := rd_seen st @ [te_name h], rd_total := rd_total st + te_size h\<rparr>) = Inr (st', rest))"
  using assms unfolding read_entry_def Let_def
  by (simp split: if_split_asm sum.split_asm prod.split_asm option.split_asm)

lemma read_content_completed:
  "read_content h st = Inr (st', rest) \<Longrightarrow> te_name h \<noteq> ''complete.json'' \<Longrightarrow> rd_completed st' = rd_completed st"
  unfolding read_content_def Let_def
  by (auto split: if_split_asm sum.split_asm prod.split_asm option.split_asm)

lemma read_entry_completed: "read_entry limits h st = Inr st' \<Longrightarrow> te_name h \<noteq> ''complete.json'' \<Longrightarrow> \<not> rd_completed st'"
  using read_entry_Inr [of limits h st st'] read_content_completed by fastforce

lemma read_entries_completed:
  "read_entries limits hs st = Inr st' \<Longrightarrow> \<not> rd_completed st \<Longrightarrow> \<forall>h \<in> set hs. te_name h \<noteq> ''complete.json'' \<Longrightarrow>
   \<not> rd_completed st'"
  by (induction hs arbitrary: st) (auto split: sum.splits dest: read_entry_completed)

lemma segment_entries_names: "e \<in> set (segment_entries i js) \<Longrightarrow> fst e \<in> range segment_name"
  by (induction js arbitrary: i) auto

lemma unmarked_prefix:
  assumes "Container_Write nl env l c = (es, None)" "k < length es" "e \<in> set (take k es)"
  shows "fst e \<noteq> ''complete.json''"
proof -
  obtain m h js f where es: "es = [(''manifest.json'', show_json m), (''host.json'', show_json h)] @ segment_entries 0 js
      @ [(''complete.json'', show_json f)]"
    using Container_Write_done(4) [OF assms(1)] by blast
  define body where "body = [(''manifest.json'', show_json m), (''host.json'', show_json h)] @ segment_entries 0 js"
  have "es = body @ [(''complete.json'', show_json f)]" by (simp add: es body_def)
  then have "take k es = take k body" using assms(2) by simp
  then have "e \<in> set body" using assms(3) by (metis in_set_takeD)
  then have "e \<in> set ([(''manifest.json'', show_json m), (''host.json'', show_json h)] @ segment_entries 0 js)"
    by (simp add: body_def)
  then show ?thesis using segment_entries_names [of e 0 js] by (auto simp: segment_name_other [symmetric])
qed

section \<open>Types\<close>

text \<open>An invariant of the variable that every field's decoder keeps holds of what a struct decodes to.\<close>

definition field_keeps :: "('x \<Rightarrow> bool) \<Rightarrow> 'x field \<Rightarrow> bool" where
  "field_keeps I f \<longleftrightarrow> (\<forall>j x x'. I x \<longrightarrow> fl_dec f j x = Some x' \<longrightarrow> I x')"

lemma field_keeps_intro:
  assumes "\<And>j x v. I x \<Longrightarrow> cd_dec c j (get x) = Some v \<Longrightarrow> I (upd (\<lambda>_. v) x)"
  shows "field_keeps I (member n c get upd)" "field_keeps I (omitempty n c get upd)"
  using assms by (auto simp: field_keeps_def member_def omitempty_def set_field_def)

lemma dec_members_inv:
  assumes "list_all (field_keeps I) fs"
  shows "I x \<Longrightarrow> dec_members fs ms x = Some x' \<Longrightarrow> I x'"
proof (induction ms arbitrary: x)
  case (Cons m ms)
  obtain k j where m: "m = (k, j)" by (cases m)
  show ?case
  proof (cases "find_field fs k")
    case None
    then show ?thesis using Cons m by simp
  next
    case (Some f)
    then have "f \<in> set fs" by (auto simp: find_field_def find_Some_iff split: option.splits)
    then have "field_keeps I f" using assms by (simp add: list_all_iff)
    moreover obtain y where "fl_dec f j x = Some y" "dec_members fs ms y = Some x'"
      using Cons.prems Some m by (auto split: bind_splits)
    ultimately show ?thesis using Cons.IH Cons.prems(1) unfolding field_keeps_def by blast
  qed
qed simp

lemma dec_array_length: "dec_array f z js old = Some xs \<Longrightarrow> length xs = length old"
  by (induction f z js old arbitrary: xs rule: dec_array.induct) (auto split: bind_splits)

lemma decoded_histogram:
  assumes "cd_dec Metric_codec j zero_Metric = Some m"
  shows "histogram_wf (mt_Histogram m)"
proof -
  have z: "histogram_wf (mt_Histogram zero_Metric)"
    by (simp add: zero_Metric_def histogram_wf_def zero_histogram_def)
  have hist: "length v = HistogramBuckets"
    if "cd_dec (array_codec HistogramBuckets uint_codec) j old = Some v" "length old = HistogramBuckets"
    for j and old v :: Histogram
    using that dec_array_length by (cases j) (fastforce simp: array_codec_def)+
  have "list_all (field_keeps (\<lambda>x. histogram_wf (mt_Histogram x))) Metric_fields"
    unfolding Metric_fields_def list.pred_inject
    by (intro conjI TrueI field_keeps_intro) (simp_all add: histogram_wf_def hist)
  note inv = dec_members_inv [OF this]
  show ?thesis
    using assms z inv by (cases j) (auto simp: Metric_codec_def struct_codec_def)
qed

definition metrics_typed :: "Segment \<Rightarrow> bool" where
  "metrics_typed s \<longleftrightarrow> list_all (\<lambda>m. histogram_wf (mt_Histogram m)) (sg_Metrics s)"

lemma enc_list_all: "enc_list f js = Some xs \<Longrightarrow> (\<And>j x. f j = Some x \<Longrightarrow> P x) \<Longrightarrow> list_all P xs"
  by (induction js arbitrary: xs) (auto split: bind_splits)

lemma decode_member_typed:
  assumes "decode_segment_member k j s = Some s'" "metrics_typed s"
  shows "metrics_typed s'"
proof -
  have "list_all (\<lambda>m. histogram_wf (mt_Histogram m)) ms" if "decodeArray Metric_codec j = Some ms" for ms
    using that decoded_histogram
    by (auto simp: decodeArray_def codec_zeros split: json.splits elim!: enc_list_all)
  then show ?thesis
    using assms by (auto simp: decode_segment_member_def metrics_typed_def set_field_def split: if_splits)
qed

lemma decode_segment_typed: "decodeSegment j = Some s \<Longrightarrow> metrics_typed s"
proof -
  have "decode_segment_members ms s = Some s' \<Longrightarrow> metrics_typed s \<Longrightarrow> metrics_typed s'" for ms s s'
    by (induction ms s rule: decode_segment_members.induct)
      (auto dest: decode_member_typed split: bind_splits)
  moreover have "metrics_typed zero_Segment" by (simp add: metrics_typed_def zero_Segment_def)
  ultimately show "decodeSegment j = Some s \<Longrightarrow> metrics_typed s"
    by (auto simp: decodeSegment_def split: json.splits)
qed

definition segments_typed :: "read_state \<Rightarrow> bool" where
  "segments_typed st \<longleftrightarrow> list_all metrics_typed (cp_Segments (rd_capture st))"

lemma read_content_typed:
  "read_content h st = Inr (st', rest) \<Longrightarrow> segments_typed st \<Longrightarrow> segments_typed st'"
  unfolding read_content_def Let_def segments_typed_def
  by (auto dest: decode_segment_typed split: if_split_asm sum.split_asm prod.split_asm option.split_asm)

lemma read_entries_typed:
  "read_entries limits hs st = Inr st' \<Longrightarrow> segments_typed st \<Longrightarrow> segments_typed st'"
proof (induction hs arbitrary: st)
  case (Cons h hs)
  then obtain st1 where st1: "read_entry limits h st = Inr st1" "read_entries limits hs st1 = Inr st'"
    by (auto split: sum.splits)
  have "segments_typed st1"
    using read_entry_Inr [OF st1(1)] Cons.prems(2) read_content_typed by (fastforce simp: segments_typed_def)
  then show ?case using Cons.IH st1(2) by blast
qed simp

end
