(* ===== verification/Container_Example.thy ===== *)
theory Container_Example
  imports Container_Lemmas
begin

text \<open>A small capture and one archive format, at which the properties of the container are applied.\<close>

section \<open>A concrete archive and a concrete capture\<close>

text \<open>Entries as texts behind their length in unary: one format that keeps what is put in.\<close>

definition frame_text :: "string \<Rightarrow> string" where
  "frame_text s = replicate (length s) (CHR ''1'') @ CHR ''0'' # s"

definition unframe_text :: "string \<Rightarrow> string \<times> string" where
  "unframe_text t =
     (let n = length (takeWhile (\<lambda>c. c = CHR ''1'') t); r = drop (n + 1) t in (take n r, drop n r))"

lemma unframe_frame: "unframe_text (frame_text s @ t) = (s, t)"
proof -
  have "takeWhile (\<lambda>c. c = CHR ''1'') (frame_text s @ t) = replicate (length s) (CHR ''1'')"
    by (simp add: frame_text_def takeWhile_append)
  then show ?thesis by (simp add: unframe_text_def frame_text_def Let_def)
qed

fun pack_entries :: "entries \<Rightarrow> string" where
  "pack_entries [] = []"
| "pack_entries ((n, b) # es) = frame_text n @ frame_text b @ pack_entries es"

lemma unframe_shorter: "t \<noteq> [] \<Longrightarrow> length (snd (unframe_text t)) < length t"
  by (cases t) (auto simp: unframe_text_def Let_def)

lemma unframe_le: "length (snd (unframe_text t)) \<le> length t"
  by (simp add: unframe_text_def Let_def)

function unpack_entries :: "string \<Rightarrow> entries" where
  "unpack_entries t =
     (if t = [] then []
      else let (n, r) = unframe_text t; (b, r2) = unframe_text r in (n, b) # unpack_entries r2)"
  by pat_completeness auto

termination
proof (relation "measure length", goal_cases)
  case (2 t x n r y b r2)
  then have "length r2 \<le> length r" "length r < length t"
    using unframe_shorter [of t] unframe_le [of r] by (metis snd_conv)+
  then show ?case by simp
qed simp

declare unpack_entries.simps [simp del]

lemma frame_not_Nil: "frame_text s \<noteq> []"
  by (simp add: frame_text_def)

lemma unpack_pack: "unpack_entries (pack_entries es) = es"
  by (induction es rule: pack_entries.induct)
    (simp_all add: unpack_entries.simps unframe_frame frame_not_Nil)

definition unary_unpack :: "CaptureLimits \<Rightarrow> string \<Rightarrow> go_error + archive" where
  "unary_unpack limits bytes = Inr (archive_of limits (unpack_entries bytes))"

text \<open>One event of an out-of-memory kill, and the incident it triggered.\<close>

definition small_incident :: AutoIncident where
  "small_incident = \<lparr>ai_DetectedMonoNS = 6, ai_EndMonoNS = 9, ai_BeforeNS = 5, ai_AfterNS = 3,
     ai_Triggers = [\<lparr>at_Family = ''oom'', at_Reason = ''oom_victim'', at_Count = 1, at_ThresholdNS = 0,
       at_FirstIntervalStartNS = 1, at_LastIntervalEndNS = 6\<rparr>]\<rparr>"

definition small_capture :: Capture where
  "small_capture = \<lparr>
     cp_Manifest = zero_Manifest\<lparr>mf_FormatVersion := 1, mf_StartMonoNS := 1, mf_EndMonoNS := 9,
       mf_AutoIncident := Some small_incident\<rparr>,
     cp_Host = zero_Host\<lparr>ho_ClockSource := ''boottime'', ho_AnchorWall := 63113904000000000000\<rparr>,
     cp_Segments = [zero_Segment\<lparr>sg_StartMonoNS := 1, sg_EndMonoNS := 9,
       sg_Events := [zero_Event\<lparr>ev_MonoNS := 5, ev_Type := ''oom''\<rparr>]\<rparr>]\<rparr>"

lemma quote_body_plain: "list_all (\<lambda>c. ascii c \<and> escape c = [c]) s \<Longrightarrow> quote_body s = s"
proof (induction s)
  case Nil
  show ?case by (simp add: quote_body.simps)
next
  case (Cons c s)
  then have "ascii c" "escape c = [c]" by simp_all
  moreover from this have "rune_len (c # s) = 1" by (simp add: ascii_def rune_size_def)
  ultimately show ?case using Cons
    by (subst quote_body.simps)
      (simp add: escape_rune_def line_separator_def paragraph_separator_def del: rune_len.simps)
qed

lemma small_time: "time_text 63113904000000000000 = Some ''2001-01-01T00:00:00Z''"
  by code_simp

lemma small_numbers: "show_nat 0 = ''0''" "show_nat 1 = ''1''" "show_nat 9 = ''9''" "show_nat 5 = ''5''"
  "show_nat 3 = ''3''" "show_nat 6 = ''6''"
  "show_nat (Suc 0) = ''1''" "show_int 0 = ''0''" "show_int 1 = ''1''"
  by code_simp+

lemma small_ok: "Capture_ok small_capture"
  by (simp add: Capture_ok_def Manifest_ok_def Host_ok_def Segment_ok_def Event_ok_def RecordingSettings_ok_def
      Health_ok_def in_int64_def utf8_ok_ascii ascii_text small_capture_def zero_Manifest_def zero_Host_def
      zero_Segment_def zero_Event_def zero_RecordingSettings_def zero_Health_def utf8_ok.simps [of "[]"] time_ok_def small_time
      small_incident_def AutoIncident_ok_def AutoTrigger_ok_def)

lemma small_valid: "capture_error small_capture = None"
  by code_simp

lemmas codec_defs = struct_codec_def member_def omitempty_def uint_codec_def int_codec_def string_codec_def
  bool_codec_def time_codec_def slice_codec_def ptr_codec_def

lemma small_manifest:
  "\<exists>j. cd_enc (Manifest_codec (\<lambda>_. False)) (cp_Manifest small_capture) = Some j \<and> length (show_json j) \<le> 2000"
  by (simp add: small_capture_def small_incident_def Manifest_codec_def Manifest_fields_def codec_defs
      AutoIncident_codec_def AutoIncident_fields_def AutoTrigger_codec_def AutoTrigger_fields_def RecordingSettings_codec_def
      RecordingSettings_fields_def Health_codec_def Health_fields_def zero_Manifest_def zero_RecordingSettings_def zero_Health_def
      small_numbers quote_body_plain ascii_text escape_def quotation_def backslash_def del: show_int_nat)

lemma small_host: "\<exists>j. cd_enc Host_codec (cp_Host small_capture) = Some j \<and> length (show_json j) \<le> 2000"
  by (simp add: small_capture_def Host_codec_def Host_fields_def codec_defs zero_Host_def small_time
      small_numbers quote_body_plain ascii_text escape_def quotation_def backslash_def del: show_int_nat)

lemma small_segment:
  "\<exists>j. enc_list (cd_enc Segment_codec) (cp_Segments small_capture) = Some [j] \<and> length (show_json j) \<le> 2000"
  by (simp add: small_capture_def Segment_codec_def Segment_fields_def Event_codec_def Event_fields_def codec_defs
      zero_Segment_def zero_Event_def
      small_numbers quote_body_plain ascii_text escape_def quotation_def backslash_def del: show_int_nat)

lemma small_footer:
  "\<exists>j. cd_enc footer_codec \<lparr>ft_Segments = int (length (cp_Segments small_capture))\<rparr> = Some j \<and> length (show_json j) \<le> 2000"
  by (simp add: small_capture_def footer_codec_def footer_fields_def codec_defs
      small_numbers quote_body_plain ascii_text escape_def quotation_def backslash_def del: show_int_nat)

lemma entry_cost_le: "length b \<le> 2000 \<Longrightarrow> entry_cost b \<le> 2560"
  using div_mult_mod_eq [of "int (length b) + 512 - 1" 512] pos_mod_sign [of 512 "int (length b) + 512 - 1"]
  unfolding entry_cost_def tarBlockBytes_def by simp

lemma small_written: "\<exists>es. Container_Write (\<lambda>_. False) no_errors (cf_Capture Default) small_capture = (es, None) \<and> length es = 4
  \<and> length (pack_entries es) < 20000"
proof -
  let ?l = "Container_limits (cf_Capture Default)"
  obtain m h j f where enc: "cd_enc (Manifest_codec (\<lambda>_. False)) (cp_Manifest small_capture) = Some m"
      "cd_enc Host_codec (cp_Host small_capture) = Some h" "enc_list (cd_enc Segment_codec) (cp_Segments small_capture) = Some [j]"
      "cd_enc footer_codec \<lparr>ft_Segments = int (length (cp_Segments small_capture))\<rparr> = Some f"
    and len: "length (show_json m) \<le> 2000" "length (show_json h) \<le> 2000" "length (show_json j) \<le> 2000" "length (show_json f) \<le> 2000"
    using small_manifest small_host small_segment small_footer by blast
  define es where "es = [(''manifest.json'', show_json m), (''host.json'', show_json h)] @ segment_entries 0 [j]
      @ [(''complete.json'', show_json f)]"
  have l: "CaptureLimits_Validate ?l = None" "11264 \<le> cl_MaxDecodedBytes ?l" "4 \<le> cl_MaxEntries ?l" by code_simp+
  have "framed es \<le> cl_MaxDecodedBytes ?l"
    using entry_cost_le [OF len(1)] entry_cost_le [OF len(2)] entry_cost_le [OF len(3)] entry_cost_le [OF len(4)] l(2)
    by (simp add: es_def framed_def tarEndBytes_def tarBlockBytes_def)
  then have "write_all (\<lambda>_. False) no_errors ?l small_capture = (es, framed es, None)"
    using write_all_fits [OF enc es_def] by simp
  moreover have "mf_FormatVersion (cp_Manifest small_capture) = FormatVersion" "ValidateClock (cp_Host small_capture) = None"
    "length (cp_Segments small_capture) = 1"
    by code_simp+
  ultimately have "Container_Write (\<lambda>_. False) no_errors (cf_Capture Default) small_capture = (es, None)"
    using l by (simp add: Container_Write_def Let_def no_errors_def)
  moreover have "length (pack_entries es) < 20000"
    using len by (simp add: es_def frame_text_def segment_name_def pad_zero_def small_numbers)
  ultimately show ?thesis by (auto simp: es_def)
qed

lemma unary_unpack_pack: "unary_unpack l (pack_entries es) = Inr (archive_of l es)"
  by (simp add: unary_unpack_def unpack_pack)

end
