(* ===== verification/Container_Theorems.thy ===== *)
theory Container_Theorems
  imports Container_Example
begin

text \<open>
  What the container promises: a capture that was written is read back as it was, a truncated
  archive is refused, and only well-formed captures are accepted.
\<close>

text \<open>C0: A capture that \<open>Write\<close> accepts, with text the codec keeps and a window the reader accepts, is
  what \<open>Read\<close> gives back under the same limits, whatever archive format carries the entries, as long
  as it yields the entries that were put in.\<close>

theorem container_roundtrip:
  assumes "Container_Write nl env l c = (es, None)" and "Capture_ok c" and "capture_error c = None"
    and "unpack (Container_limits l) (pack es) = Inr (archive_of (Container_limits l) es)"
  shows "Container_Read unpack l (pack es) = Inr c"
  using read_written [OF assms(1-3)] Container_Write_done(1) [OF assms(1)] assms(4)
  by (auto simp: Container_Read_def Let_def archive_of_def)

theorem container_roundtrip_witness:
  "\<exists>es. Container_Write (\<lambda>_. False) no_errors (cf_Capture Default) small_capture = (es, None)
     \<and> Container_Read unary_unpack (cf_Capture Default) (pack_entries es) = Inr small_capture"
  using small_written container_roundtrip [where unpack = unary_unpack and pack = pack_entries, OF _ small_ok small_valid unary_unpack_pack] by blast

text \<open>C0: An archive that carries only the first entries of a capture is refused, wherever it was cut.\<close>

theorem truncated_capture_refused:
  assumes "Container_Write nl env l c = (es, None)" and "k < length es"
    and "unpack (Container_limits l) (pack (take k es)) = Inr (archive_of (Container_limits l) (take k es))"
  shows "\<exists>e. Container_Read unpack l (pack (take k es)) = Inl e"
proof (cases "read_entries (Container_limits l) (map stored (take k es)) start_read")
  case (Inl e)
  then show ?thesis
    using Container_Write_done(1) [OF assms(1)] assms(3) by (simp add: Container_Read_def Let_def archive_of_def)
next
  case (Inr st)
  have "\<not> rd_completed st"
    using read_entries_completed [OF Inr] unmarked_prefix [OF assms(1,2)] by (auto simp: start_read_def stored_def)
  then show ?thesis
    using Inr Container_Write_done(1) [OF assms(1)] assms(3)
    by (simp add: Container_Read_def Let_def archive_of_def finish_read_def)
qed

theorem truncated_capture_refused_witness:
  "\<exists>es e. Container_Write (\<lambda>_. False) no_errors (cf_Capture Default) small_capture = (es, None)
     \<and> Container_Read unary_unpack (cf_Capture Default) (pack_entries (take 3 es)) = Inl e"
proof -
  obtain es where w: "Container_Write (\<lambda>_. False) no_errors (cf_Capture Default) small_capture = (es, None)" "3 < length es"
    using small_written by auto
  then show ?thesis
    using truncated_capture_refused [where unpack = unary_unpack and pack = pack_entries, OF w unary_unpack_pack] by blast
qed



end
