(* ===== verification/Files.thy ===== *)
theory Files
  imports Container
begin

text \<open>
  Publication of a capture as a file (\<open>internal/capture/capture.go\<close>): a staging file that is
  written, read back, synced and only then linked to its name.

  One directory is the state.  Between two calls other processes may change it and any call may
  fail: the script holds, for each call to come, what happens before it and whether it fails; a
  context is the answers of \<open>ctx.Err()\<close>, and once it is cancelled it stays so.
\<close>

section \<open>A directory shared with other processes\<close>

record inode =
  fi_regular :: bool
  fi_content :: string
  fi_modified :: Time

definition fi_size :: "inode \<Rightarrow> int" where
  "fi_size f = int (length (fi_content f))"

type_synonym dir = "string \<rightharpoonup> inode"
type_synonym turn = "(dir \<Rightarrow> dir) \<times> string option"

record os =
  os_dir :: dir
  os_script :: "turn list"
  os_ctx :: "go_error option list"
  os_statfs :: "(go_error + u64 \<times> u64 \<times> u64) list"

type_synonym step = "os \<Rightarrow> go_error option \<times> os"

text \<open>A call that does nothing itself: the environment's turn, and its failure.\<close>

definition enter :: step where
  "enter w =
     (case os_script w of
        [] \<Rightarrow> (None, w)
      | (g, e) # script \<Rightarrow> (map_option External e, w\<lparr>os_dir := g (os_dir w), os_script := script\<rparr>))"

definition ctx_err :: step where
  "ctx_err w =
     (case os_ctx w of
        [] \<Rightarrow> (None, w)
      | None # ctx \<Rightarrow> (None, w\<lparr>os_ctx := ctx\<rparr>)
      | Some e # _ \<Rightarrow> (Some e, w))"

text \<open>Steps in order, up to the first error.\<close>

fun run_steps :: "step list \<Rightarrow> step" where
  "run_steps [] w = (None, w)"
| "run_steps (s # ss) w = (case s w of (None, w) \<Rightarrow> run_steps ss w | (Some e, w) \<Rightarrow> (Some e, w))"

definition wrapped :: "string \<Rightarrow> step \<Rightarrow> step" where
  "wrapped msg s w = (case s w of (e, w) \<Rightarrow> (map_option (Wrapf msg) e, w))"

text \<open>\<open>Root.Lstat\<close>, \<open>Root.Remove\<close>, exclusive creation and \<open>Root.Link\<close>.\<close>

definition Lstat :: "string \<Rightarrow> os \<Rightarrow> (go_error + inode) \<times> os" where
  "Lstat name w =
     (case enter w of
        (Some e, w) \<Rightarrow> (Inl e, w)
      | (None, w) \<Rightarrow> (case os_dir w name of None \<Rightarrow> Inl NotExist | Some f \<Rightarrow> Inr f, w))"

definition Remove :: "string \<Rightarrow> step" where
  "Remove name w =
     (case enter w of
        (Some e, w) \<Rightarrow> (Some e, w)
      | (None, w) \<Rightarrow>
          if os_dir w name = None then (Some NotExist, w)
          else (None, w\<lparr>os_dir := (os_dir w)(name := None)\<rparr>))"

definition file_exists :: go_error where
  "file_exists = External ''file exists''"

definition CreateExclusive :: "Time \<Rightarrow> string \<Rightarrow> step" where
  "CreateExclusive now name w =
     (case enter w of
        (Some e, w) \<Rightarrow> (Some e, w)
      | (None, w) \<Rightarrow>
          if os_dir w name \<noteq> None then (Some file_exists, w)
          else (None, w\<lparr>os_dir := (os_dir w)(name \<mapsto> \<lparr>fi_regular = True, fi_content = [], fi_modified = now\<rparr>)\<rparr>))"

definition Link :: "string \<Rightarrow> string \<Rightarrow> step" where
  "Link old new w =
     (case enter w of
        (Some e, w) \<Rightarrow> (Some e, w)
      | (None, w) \<Rightarrow>
          (case os_dir w old of
             None \<Rightarrow> (Some NotExist, w)
           | Some f \<Rightarrow>
               if os_dir w new \<noteq> None then (Some file_exists, w)
               else (None, w\<lparr>os_dir := (os_dir w)(new \<mapsto> f)\<rparr>)))"

text \<open>
  Writing through the descriptor of a created file: the bytes written and the error.  The name shows
  them unless it has been removed meanwhile.
\<close>

type_synonym write_fn = "os \<Rightarrow> (string \<times> go_error option) \<times> os"

definition write_file :: "Time \<Rightarrow> string \<Rightarrow> write_fn \<Rightarrow> write_fn" where
  "write_file now name write w =
     (case write w of
        ((bytes, e), w) \<Rightarrow>
          ((bytes, e),
           if os_dir w name = None then w
           else w\<lparr>os_dir := (os_dir w)(name \<mapsto> \<lparr>fi_regular = True, fi_content = bytes, fi_modified = now\<rparr>)\<rparr>))"

section \<open>Publication\<close>

type_synonym unpack = "CaptureLimits \<Rightarrow> string \<Rightarrow> go_error + archive"

text \<open>The staged bytes are read back through a \<open>contextReader\<close>.\<close>

definition contextReader_Read :: step where
  "contextReader_Read = run_steps [ctx_err, enter]"

definition validate :: "unpack \<Rightarrow> CaptureLimits \<Rightarrow> string \<Rightarrow> step" where
  "validate unpack limits bytes =
     run_steps [contextReader_Read,
       \<lambda>w. (case Container_Read unpack limits bytes of Inl e \<Rightarrow> Some e | Inr c \<Rightarrow> None, w)]"

text \<open>A failed link is reported as the cancellation that interrupted it, if there is one.\<close>

definition publish_step :: "step \<Rightarrow> step" where
  "publish_step publish w =
     (case publish w of
        (None, w) \<Rightarrow> (None, w)
      | (Some e, w) \<Rightarrow>
          (case ctx_err w of
             (Some c, w) \<Rightarrow> (Some c, w)
           | (None, w) \<Rightarrow> (Some (Wrapf ''publish capture (destination must not exist)'' e), w)))"

definition finishPublication :: "unpack \<Rightarrow> CaptureLimits \<Rightarrow> string \<Rightarrow> step \<Rightarrow> step" where
  "finishPublication unpack limits bytes publish =
     run_steps [
       enter,
       wrapped ''validate capture before publication'' (validate unpack limits bytes),
       ctx_err,
       enter,
       enter,
       publish_step publish,
       wrapped ''sync capture directory after publication (destination may exist)'' enter]"

text \<open>
  The part both publications share: write the staging file, open its directory, finish.  \<open>around\<close> is
  what the caller makes of the error of the last part.
\<close>

definition stage :: "(step \<Rightarrow> step) \<Rightarrow> unpack \<Rightarrow> CaptureLimits \<Rightarrow> Time \<Rightarrow> string \<Rightarrow> string \<Rightarrow> write_fn \<Rightarrow> step" where
  "stage around unpack limits now temp name write w =
     (case write_file now temp write w of
        ((bytes, Some e), w) \<Rightarrow> (Some e, w)
      | ((bytes, None), w) \<Rightarrow>
          run_steps [enter, around (finishPublication unpack limits bytes (run_steps [ctx_err, Link temp name]))] w)"

text \<open>The deferred removal of the staging file, whose error is ignored.\<close>

definition removing :: "string \<Rightarrow> step \<Rightarrow> step" where
  "removing temp s w = (case s w of (e, w) \<Rightarrow> (e, snd (Remove temp w)))"

text \<open>\<open>filepath.Base(name) == name\<close>.\<close>

definition plain_name :: "string \<Rightarrow> bool" where
  "plain_name name \<longleftrightarrow> name = ''/'' \<or> name \<noteq> [] \<and> CHR ''/'' \<notin> set name"

definition PublishInRootWithLimits :: "unpack \<Rightarrow> CaptureLimits \<Rightarrow> Time \<Rightarrow> string \<Rightarrow> write_fn \<Rightarrow> step" where
  "PublishInRootWithLimits unpack limits now name write w =
     (if \<not> plain_name name then (Some (Errorf ''capture name must not contain a directory''), w)
      else let temp = ''.'' @ name @ ''.partial'' in
        case CreateExclusive now temp w of
          (Some e, w) \<Rightarrow> (Some e, w)
        | (None, w) \<Rightarrow> removing temp (stage (\<lambda>s. s) unpack limits now temp name write) w)"

text \<open>
  \<open>PublishWithContext\<close> in the directory of the path: \<open>CreateTemp\<close> tries random names until one is
  free, so the one it creates is given; \<open>Chmod\<close> is a call that may fail, and writes go through a
  \<open>contextWriter\<close>.
\<close>

definition PublishWithContext :: "unpack \<Rightarrow> CaptureLimits \<Rightarrow> Time \<Rightarrow> string \<Rightarrow> string \<Rightarrow> string \<Rightarrow> write_fn \<Rightarrow> step" where
  "PublishWithContext unpack limits now path random name write w =
     (case ctx_err w of
        (Some e, w) \<Rightarrow> (Some e, w)
      | (None, w) \<Rightarrow>
        let temp = ''.blackbox-'' @ random in
        (case CreateExclusive now temp w of
           (Some e, w) \<Rightarrow> (Some e, w)
         | (None, w) \<Rightarrow>
             removing temp
               (run_steps [enter, stage (wrapped (''capture '' @ path)) unpack limits now temp name write]) w))"

text \<open>The chunks an encoder hands to a writer, until one is refused.\<close>

fun write_chunks ::
  "(string \<Rightarrow> 'w \<Rightarrow> go_error option \<times> 'w) \<Rightarrow> string list \<Rightarrow> 'w \<Rightarrow> (string \<times> go_error option) \<times> 'w"
where
  "write_chunks put [] w = (([], None), w)"
| "write_chunks put (p # ps) w =
     (case put p w of
        (Some e, w) \<Rightarrow> (([], Some e), w)
      | (None, w) \<Rightarrow> (case write_chunks put ps w of ((bytes, e), w) \<Rightarrow> ((p @ bytes, e), w)))"

definition contextWriter_Write :: "string \<Rightarrow> step" where
  "contextWriter_Write p = run_steps [ctx_err, enter]"

text \<open>
  \<open>Container.Write\<close> into such a writer: \<open>chunks\<close> are the compressor's blocks for the entries it was
  given.  A refused chunk makes the writer fail; otherwise the error is \<open>Write\<close>'s own.
\<close>

definition write_container ::
  "(entries \<Rightarrow> string list) \<Rightarrow> (string \<Rightarrow> bool) \<Rightarrow> CaptureLimits \<Rightarrow> Capture \<Rightarrow> (string \<Rightarrow> 'w \<Rightarrow> go_error option \<times> 'w) \<Rightarrow>
   'w \<Rightarrow> (string \<times> go_error option) \<times> 'w"
where
  "write_container chunks nl limits c put w =
     (case Container_Write nl no_errors limits c of
        (es, err) \<Rightarrow>
          (case write_chunks put (chunks es) w of
             ((bytes, Some e), w) \<Rightarrow> ((bytes, Some e), w)
           | ((bytes, None), w) \<Rightarrow> ((bytes, err), w)))"

definition WriteFileWithLimits ::
  "unpack \<Rightarrow> (entries \<Rightarrow> string list) \<Rightarrow> (string \<Rightarrow> bool) \<Rightarrow> Time \<Rightarrow> string \<Rightarrow> string \<Rightarrow> string \<Rightarrow> Capture \<Rightarrow> CaptureLimits \<Rightarrow> step" where
  "WriteFileWithLimits unpack chunks nl now path random name c limits =
     PublishWithContext unpack limits now path random name
       (write_container chunks nl limits c contextWriter_Write)"

text \<open>\<open>ReadFileWithLimits\<close> of a file of the directory.\<close>

definition ReadFileWithLimits :: "unpack \<Rightarrow> CaptureLimits \<Rightarrow> string \<Rightarrow> os \<Rightarrow> (go_error + Capture) \<times> os" where
  "ReadFileWithLimits unpack limits name w =
     (case enter w of
        (Some e, w) \<Rightarrow> (Inl e, w)
      | (None, w) \<Rightarrow>
          (case os_dir w name of
             None \<Rightarrow> (Inl NotExist, w)
           | Some f \<Rightarrow> (Container_Read unpack limits (fi_content f), w)))"

end
