(* ===== verification/Files_Theorems.thy ===== *)
theory Files_Theorems
  imports Files Container_Example
begin

text \<open>
  Publication is atomic and never overwrites: whatever fails and whatever other processes do
  elsewhere, the name keeps what it had or holds a capture that was read back whole.
\<close>

section \<open>Steps that leave names alone\<close>

text \<open>The environment's turns do not touch the names of \<open>N\<close>.\<close>

definition spares :: "string set \<Rightarrow> os \<Rightarrow> bool" where
  "spares N w \<longleftrightarrow> (\<forall>t \<in> set (os_script w). \<forall>d. \<forall>n \<in> N. fst t d n = d n)"

definition same_on :: "string set \<Rightarrow> os \<Rightarrow> os \<Rightarrow> bool" where
  "same_on N w w' \<longleftrightarrow> spares N w' \<and> (\<forall>n \<in> N. os_dir w' n = os_dir w n)"

definition keeps :: "string set \<Rightarrow> (os \<Rightarrow> 'a \<times> os) \<Rightarrow> bool" where
  "keeps N s \<longleftrightarrow> (\<forall>w. spares N w \<longrightarrow> same_on N w (snd (s w)))"

lemma keepsD: "keeps N s \<Longrightarrow> spares N w \<Longrightarrow> s w = (r, w') \<Longrightarrow> spares N w' \<and> (\<forall>n \<in> N. os_dir w' n = os_dir w n)"
  by (metis keeps_def same_on_def snd_conv)

lemma keepsI: "(\<And>w r w'. spares N w \<Longrightarrow> s w = (r, w') \<Longrightarrow> spares N w' \<and> (\<forall>n \<in> N. os_dir w' n = os_dir w n)) \<Longrightarrow> keeps N s"
  unfolding keeps_def same_on_def by (metis prod.collapse)

named_theorems keeping "steps that leave names alone"

lemma keeps_enter [keeping]: "keeps N enter"
  by (rule keepsI) (auto simp: enter_def spares_def split: list.splits prod.splits)

lemma keeps_ctx_err [keeping]: "keeps N ctx_err"
  by (rule keepsI) (auto simp: ctx_err_def spares_def split: list.splits option.splits)

lemma keeps_run_steps [keeping]: "list_all (keeps N) ss \<Longrightarrow> keeps N (run_steps ss)"
proof (induction ss)
  case (Cons s ss)
  then have s: "keeps N s" and ss: "keeps N (run_steps ss)" by simp_all
  show ?case
  proof (rule keepsI)
    fix w r w' assume w: "spares N w" "run_steps (s # ss) w = (r, w')"
    obtain e w1 where 1: "s w = (e, w1)" by (cases "s w")
    note k = keepsD [OF s w(1) 1]
    show "spares N w' \<and> (\<forall>n \<in> N. os_dir w' n = os_dir w n)"
      using w(2) 1 k keepsD [OF ss, of w1 r w'] by (cases e) auto
  qed
qed (auto simp: keeps_def same_on_def)

lemma keeps_wrapped [keeping]: "keeps N s \<Longrightarrow> keeps N (wrapped msg s)"
  by (auto simp: keeps_def wrapped_def split: prod.split)

lemma keeps_result [keeping]: "keeps N (\<lambda>w. (e, w))"
  by (simp add: keeps_def same_on_def)

lemma keeps_validate [keeping]: "keeps N (validate unpack limits bytes)"
  by (simp add: validate_def contextReader_Read_def keeping)

lemma keeps_Remove: "n \<notin> N \<Longrightarrow> keeps N (Remove n)"
  by (rule keepsI) (auto simp: Remove_def spares_def dest: keepsD [OF keeps_enter, unfolded spares_def] split: prod.splits option.splits if_splits)

lemma keeps_chunks [keeping]: "(\<And>p. keeps N (put p)) \<Longrightarrow> keeps N (write_chunks put ps)"
proof (induction ps)
  case (Cons p ps)
  show ?case
  proof (rule keepsI)
    fix w r w' assume w: "spares N w" "write_chunks put (p # ps) w = (r, w')"
    obtain e w1 where 1: "put p w = (e, w1)" by (cases "put p w")
    obtain r2 w2 where 2: "write_chunks put ps w1 = (r2, w2)" by (cases "write_chunks put ps w1")
    note k = keepsD [OF Cons.prems w(1) 1] and k2 = keepsD [OF Cons.IH [OF Cons.prems], of w1 r2 w2]
    show "spares N w' \<and> (\<forall>n \<in> N. os_dir w' n = os_dir w n)"
      using w(2) 1 2 k k2 by (cases e) (auto split: prod.splits)
  qed
qed (simp add: keeps_def same_on_def)

lemma keeps_write_container [keeping]: "(\<And>p. keeps N (put p)) \<Longrightarrow> keeps N (write_container chunks nl limits c put)"
  using keeps_chunks [of N put]
  by (auto simp: keeps_def write_container_def split: prod.splits option.splits) (metis snd_conv)+

lemma keeps_contextWriter [keeping]: "keeps N (contextWriter_Write p)"
  by (simp add: contextWriter_Write_def keeping)

section \<open>Publication\<close>

text \<open>The outcome of an attempt to give a name to staged bytes.\<close>

definition published :: "unpack \<Rightarrow> CaptureLimits \<Rightarrow> string \<Rightarrow> string \<Rightarrow> os \<Rightarrow> go_error option \<Rightarrow> os \<Rightarrow> bool" where
  "published unpack limits name bytes w e w' \<longleftrightarrow>
     e \<noteq> None \<and> os_dir w' name = os_dir w name
     \<or> os_dir w name = None \<and> (\<exists>f c. os_dir w' name = Some f \<and> fi_regular f \<and> fi_content f = bytes
         \<and> Container_Read unpack limits bytes = Inr c)"

lemma run_steps_None:
  "run_steps ss w = (None, w') \<Longrightarrow> s \<in> set ss \<Longrightarrow> \<exists>v v'. s v = (None, v')"
  by (induction ss arbitrary: w) (auto split: prod.splits option.splits)

lemma validate_None: "validate unpack limits bytes w = (None, w') \<Longrightarrow> \<exists>c. Container_Read unpack limits bytes = Inr c"
  by (auto simp: validate_def split: prod.splits option.splits sum.splits)

lemma link_cases:
  assumes "spares N w" "temp \<in> N" "name \<in> N" "os_dir w temp = Some f"
    and "publish_step (run_steps [ctx_err, Link temp name]) w = (e, w')"
  shows "spares N w' \<and> (\<forall>n \<in> N - {name}. os_dir w' n = os_dir w n)
    \<and> (e \<noteq> None \<and> os_dir w' name = os_dir w name \<or> e = None \<and> os_dir w name = None \<and> os_dir w' name = Some f)"
proof -
  obtain e1 w1 where 1: "ctx_err w = (e1, w1)" by (cases "ctx_err w")
  note k1 = keepsD [OF keeps_ctx_err assms(1) 1]
  obtain e2 w2 where 2: "enter w1 = (e2, w2)" by (cases "enter w1")
  note k2 = keepsD [OF keeps_enter _ 2, of N]
  have c: "spares N v \<Longrightarrow> spares N (snd (ctx_err v)) \<and> (\<forall>n \<in> N. os_dir (snd (ctx_err v)) n = os_dir v n)" for v
    using keeps_ctx_err by (auto simp: keeps_def same_on_def)
  have u: "spares N (v\<lparr>os_dir := d\<rparr>) = spares N v" for v d by (simp add: spares_def)
  show ?thesis
  proof (cases "e1 = None \<and> e2 = None \<and> os_dir w name = None")
    case True
    then have "os_dir w2 name = None" "os_dir w2 temp = Some f" using k1 k2 assms(2-4) by auto
    then have "e = None \<and> w' = w2\<lparr>os_dir := (os_dir w2)(name \<mapsto> f)\<rparr>"
      using assms(5) 1 2 True by (simp add: publish_step_def Link_def)
    then show ?thesis using k1 k2 True by (auto simp: u)
  next
    case False
    obtain e3 w3 where 3: "run_steps [ctx_err, Link temp name] w = (Some e3, w3)" "spares N w3" "\<forall>n \<in> N. os_dir w3 n = os_dir w n"
      using False 1 2 k1 k2 assms(2-4) by (cases e1; cases e2) (auto simp: Link_def split: option.splits)
    then show ?thesis using assms(3,5) c [OF 3(2)]
      by (auto simp: publish_step_def split: prod.splits option.splits)
  qed
qed

lemma finish_cases:
  assumes "spares N w" "temp \<in> N" "name \<in> N" "os_dir w temp = Some f" "fi_regular f" "fi_content f = bytes"
    and "finishPublication unpack limits bytes (run_steps [ctx_err, Link temp name]) w = (e, w')"
  shows "spares N w' \<and> (\<forall>n \<in> N - {name}. os_dir w' n = os_dir w n) \<and> published unpack limits name bytes w e w'"
proof -
  define pre where "pre = [enter, wrapped ''validate capture before publication'' (validate unpack limits bytes), ctx_err, enter, enter]"
  define link where "link = publish_step (run_steps [ctx_err, Link temp name])"
  define sync where "sync = wrapped ''sync capture directory after publication (destination may exist)'' enter"
  have split: "run_steps (xs @ ys) v = (case run_steps xs v of (None, v) \<Rightarrow> run_steps ys v | (Some e, v) \<Rightarrow> (Some e, v))" for xs ys v
    by (induction xs arbitrary: v) (auto split: prod.splits option.splits)
  have run: "run_steps (pre @ [link, sync]) w = (e, w')"
    using assms(7) by (simp add: finishPublication_def pre_def link_def sync_def)
  have kp: "keeps N (run_steps pre)" by (simp add: pre_def keeping)
  have ks: "keeps N sync" by (simp add: sync_def keeping)
  obtain e1 w1 where 1: "run_steps pre w = (e1, w1)" by (cases "run_steps pre w")
  note k1 = keepsD [OF kp assms(1) 1]
  show ?thesis
  proof (cases e1)
    case (Some x)
    then show ?thesis using run 1 k1 assms(3) by (auto simp: split published_def)
  next
    case None
    have "wrapped ''validate capture before publication'' (validate unpack limits bytes) \<in> set pre" by (simp add: pre_def)
    then have valid: "\<exists>c. Container_Read unpack limits bytes = Inr c"
      using run_steps_None 1 None validate_None by (fastforce simp: wrapped_def split: prod.splits)
    obtain e2 w2 where 2: "link w1 = (e2, w2)" by (cases "link w1")
    have f: "os_dir w1 temp = Some f" using k1 assms(2,4) by auto
    note k2 = link_cases [OF _ assms(2,3) f 2 [unfolded link_def]]
    obtain e3 w3 where 3: "sync w2 = (e3, w3)" by (cases "sync w2")
    show ?thesis
    proof (cases e2)
      case (Some x)
      then have "e = Some x" "w' = w2" using run 1 None 2 by (auto simp: split)
      then show ?thesis using Some k1 k2 assms(3) by (auto simp: published_def)
    next
      case None2: None
      then have "e = e3" "w' = w3" using run 1 None 2 3 by (auto simp: split split: option.splits)
      then show ?thesis
        using None2 k1 k2 keepsD [OF ks _ 3] valid assms(3,5,6) by (auto simp: published_def)
    qed
  qed
qed

text \<open>A wrapped error is an error; the steps before the link may fail as well.\<close>

lemma published_error: "published unpack limits name bytes w e w' \<Longrightarrow> published unpack limits name bytes w (map_option g e) w'"
  by (auto simp: published_def)

definition around_ok :: "(step \<Rightarrow> step) \<Rightarrow> bool" where
  "around_ok around \<longleftrightarrow> (\<forall>s. \<exists>g. \<forall>w. around s w = (map_option g (fst (s w)), snd (s w)))"

lemma around_ok_intro: "around_ok (\<lambda>s. s)" "around_ok (wrapped msg)"
proof -
  have "w = (map_option (\<lambda>e. e) (fst w), snd w)" for w :: "go_error option \<times> os"
    by (simp add: option.map_ident)
  then show "around_ok (\<lambda>s. s)" unfolding around_ok_def by blast
  have "wrapped msg s w = (map_option (Wrapf msg) (fst (s w)), snd (s w))" for s w
    by (simp add: wrapped_def split: prod.split)
  then show "around_ok (wrapped msg)" unfolding around_ok_def by blast
qed

lemma spares_dir [simp]: "spares N (w\<lparr>os_dir := d\<rparr>) = spares N w"
  by (simp add: spares_def)

lemma write_file_cases:
  assumes "spares N w" "temp \<in> N" "os_dir w temp \<noteq> None" "keeps N write"
    and "write_file now temp write w = ((bytes, e), w')"
  shows "spares N w' \<and> (\<forall>n \<in> N - {temp}. os_dir w' n = os_dir w n)
    \<and> os_dir w' temp = Some \<lparr>fi_regular = True, fi_content = bytes, fi_modified = now\<rparr>"
proof -
  obtain r w1 where 1: "write w = (r, w1)" by (cases "write w")
  note k = keepsD [OF assms(4,1) 1]
  then show ?thesis using assms(2,3,5) 1 by (cases r) (auto simp: write_file_def split: if_splits)
qed

lemma stage_cases:
  assumes "spares N w" "temp \<in> N" "name \<in> N" "temp \<noteq> name" "os_dir w temp \<noteq> None" "keeps N write" "around_ok around"
    and "stage around unpack limits now temp name write w = (e, w')"
  shows "spares N w' \<and> (\<forall>n \<in> N - {name, temp}. os_dir w' n = os_dir w n) \<and> (\<exists>bytes. published unpack limits name bytes w e w')"
proof -
  obtain bytes we w1 where 1: "write_file now temp write w = ((bytes, we), w1)" by (metis prod.collapse)
  note k1 = write_file_cases [OF assms(1,2,5,6) 1]
  show ?thesis
  proof (cases we)
    case (Some x)
    then show ?thesis using assms(3,4,8) 1 k1 by (auto simp: stage_def published_def)
  next
    case None
    let ?fin = "finishPublication unpack limits bytes (run_steps [ctx_err, Link temp name])"
    obtain e2 w2 where 2: "enter w1 = (e2, w2)" by (cases "enter w1")
    note k2 = keepsD [OF keeps_enter _ 2, of N]
    show ?thesis
    proof (cases e2)
      case (Some x)
      then show ?thesis using assms(3,4,8) 1 2 None k1 k2 by (auto simp: stage_def published_def)
    next
      case None2: None
      obtain e3 w3 where 3: "?fin w2 = (e3, w3)" by (cases "?fin w2")
      have f: "os_dir w2 temp = Some \<lparr>fi_regular = True, fi_content = bytes, fi_modified = now\<rparr>"
        using k1 k2 assms(2) by auto
      have s2: "spares N w2" using k1 k2 by simp
      have p: "spares N w3 \<and> (\<forall>n \<in> N - {name}. os_dir w3 n = os_dir w2 n) \<and> published unpack limits name bytes w2 e3 w3"
        by (rule finish_cases [OF s2 assms(2,3) f _ _ 3]) simp_all
      obtain g where "around ?fin w2 = (map_option g e3, w3)" using assms(7) 3 unfolding around_ok_def by (metis fst_conv snd_conv)
      then have e: "e = map_option g e3" "w' = w3"
        using assms(8) 1 2 None None2 by (auto simp: stage_def split: option.splits)
      have "published unpack limits name bytes w2 e w'" using p published_error e by blast
      then have "published unpack limits name bytes w e w'"
        using k1 k2 assms(3,4) by (auto simp: published_def)
      then show ?thesis using p e k1 k2 by auto
    qed
  qed
qed

lemma staged_cases:
  assumes "spares N w" "temp \<in> N" "name \<in> N" "temp \<noteq> name" "keeps N write" "around_ok around"
    and "CreateExclusive now temp w = (None, w0)"
    and "removing temp (run_steps (pre @ [stage around unpack limits now temp name write])) w0 = (e, w')"
    and "list_all (keeps N) pre"
  shows "spares (N - {temp}) w' \<and> (\<forall>n \<in> N - {name, temp}. os_dir w' n = os_dir w n) \<and> (\<exists>bytes. published unpack limits name bytes w e w')"
proof -
  obtain e1 w1 where "enter w = (e1, w1)" by (cases "enter w")
  then have w0: "spares N w0" "\<forall>n \<in> N - {temp}. os_dir w0 n = os_dir w n" "os_dir w0 temp \<noteq> None"
    using keepsD [OF keeps_enter assms(1)] assms(7) by (auto simp: CreateExclusive_def split: option.splits if_splits)
  obtain ep w2 where 2: "run_steps pre w0 = (ep, w2)" by (cases "run_steps pre w0")
  note k2 = keepsD [OF keeps_run_steps [OF assms(9)] w0(1) 2]
  let ?stage = "stage around unpack limits now temp name write"
  have split: "run_steps (xs @ [s]) v = (case run_steps xs v of (None, v) \<Rightarrow> s v | (Some e, v) \<Rightarrow> (Some e, v))" for xs v and s :: step
    by (induction xs arbitrary: v) (auto split: prod.splits option.splits)
  obtain e3 w3 where 3: "run_steps (pre @ [?stage]) w0 = (e3, w3)" by (cases "run_steps (pre @ [?stage]) w0")
  have r: "spares N w3 \<and> (\<forall>n \<in> N - {name, temp}. os_dir w3 n = os_dir w n) \<and> (\<exists>bytes. published unpack limits name bytes w e3 w3)"
  proof (cases ep)
    case (Some x)
    then show ?thesis using 2 3 k2 w0(2) assms(3,4) by (auto simp: split published_def)
  next
    case None
    then have s: "?stage w2 = (e3, w3)" using 2 3 by (simp add: split)
    have "os_dir w2 temp \<noteq> None" using k2 w0(3) assms(2) by auto
    note c = stage_cases [OF _ assms(2,3,4) this assms(5,6) s]
    then show ?thesis using k2 w0(2) assms(3,4) by (auto simp: published_def)
  qed
  have "keeps (N - {temp}) (Remove temp)" by (rule keeps_Remove) simp
  moreover have "spares (N - {temp}) w3" using r by (auto simp: spares_def)
  moreover have e: "e = e3" "w' = snd (Remove temp w3)" using assms(8) 3 by (auto simp: removing_def)
  ultimately have "spares (N - {temp}) w'" "\<forall>n \<in> N - {temp}. os_dir w' n = os_dir w3 n"
    using keepsD [of "N - {temp}" "Remove temp" w3] by (metis prod.collapse)+
  then show ?thesis using r e(1) assms(3,4) by (auto simp: published_def)
qed

lemma partial_name: "''.'' @ name @ ''.partial'' \<noteq> name"
  by (rule notI, drule arg_cong [where f = length]) simp

text \<open>C0: Publication inside the automatic directory is atomic and never overwrites.  Whatever call
  fails, whenever the context is cancelled, and whatever other processes do to other names, the name
  has what it had before and an error is returned, or it was free and now holds a regular file that
  \<open>Read\<close> accepts; every other name is left alone.\<close>

theorem publish_in_root_atomic:
  assumes "spares N w" "name \<in> N" "''.'' @ name @ ''.partial'' \<in> N" "keeps N write"
    and "PublishInRootWithLimits unpack limits now name write w = (e, w')"
  shows "(e \<noteq> None \<and> os_dir w' name = os_dir w name
      \<or> os_dir w name = None \<and> (\<exists>f c. os_dir w' name = Some f \<and> fi_regular f \<and> Container_Read unpack limits (fi_content f) = Inr c))
    \<and> (\<forall>n \<in> N - {name, ''.'' @ name @ ''.partial''}. os_dir w' n = os_dir w n)"
proof (cases "plain_name name")
  case False
  then show ?thesis using assms(5) by (auto simp: PublishInRootWithLimits_def)
next
  case True
  let ?temp = "''.'' @ name @ ''.partial''"
  obtain e0 w0 where c: "CreateExclusive now ?temp w = (e0, w0)" by (cases "CreateExclusive now ?temp w")
  obtain e1 w1 where 1: "enter w = (e1, w1)" by (cases "enter w")
  note k1 = keepsD [OF keeps_enter assms(1) 1]
  show ?thesis
  proof (cases e0)
    case (Some x)
    then have "e \<noteq> None" "os_dir w0 = os_dir w1" "w' = w0"
      using c 1 assms(5) True by (auto simp: PublishInRootWithLimits_def CreateExclusive_def Let_def split: option.splits if_splits)
    then show ?thesis using k1 assms(2) by auto
  next
    case None
    then have c': "CreateExclusive now ?temp w = (None, w0)" using c by simp
    have r: "removing ?temp (run_steps ([] @ [stage (\<lambda>s. s) unpack limits now ?temp name write])) w0 = (e, w')"
    proof -
      have "run_steps ([] @ [s]) = s" for s :: step by (rule ext) (auto split: prod.splits option.splits)
      then show ?thesis using assms(5) c' True by (simp add: PublishInRootWithLimits_def Let_def)
    qed
    show ?thesis
      using staged_cases [OF assms(1,3,2) partial_name assms(4) around_ok_intro(1) c' r]
      by (auto simp: published_def)
  qed
qed

definition empty_directory :: os where
  "empty_directory = \<lparr>os_dir = Map.empty, os_script = [], os_ctx = [], os_statfs = []\<rparr>"

text \<open>A directory in which another process removes a file before the second call, and the fourth one fails.\<close>

definition busy_directory :: os where
  "busy_directory = \<lparr>os_dir = [''old'' \<mapsto> \<lparr>fi_regular = True, fi_content = ''x'', fi_modified = 1\<rparr>],
     os_script = [(\<lambda>d. d, None), (\<lambda>d. d(''old'' := None), None), (\<lambda>d. d, None), (\<lambda>d. d, Some ''input/output error'')],
     os_ctx = [], os_statfs = []\<rparr>"

definition small_write :: write_fn where
  "small_write = write_container (\<lambda>es. [pack_entries es]) (\<lambda>_. False) (cf_Capture Default) small_capture contextWriter_Write"

theorem publish_in_root_atomic_witness:
  "\<exists>e w'. PublishInRootWithLimits unary_unpack (cf_Capture Default) 5 ''a'' small_write busy_directory = (e, w')
    \<and> (e \<noteq> None \<and> os_dir w' ''a'' = None
      \<or> (\<exists>f c. os_dir w' ''a'' = Some f \<and> fi_regular f \<and> Container_Read unary_unpack (cf_Capture Default) (fi_content f) = Inr c))"
proof -
  obtain e w' where r: "PublishInRootWithLimits unary_unpack (cf_Capture Default) 5 ''a'' small_write busy_directory = (e, w')"
    by (metis prod.collapse)
  have "spares {''a'', ''.a.partial''} busy_directory" by (simp add: spares_def busy_directory_def)
  moreover have "keeps {''a'', ''.a.partial''} small_write" unfolding small_write_def by (intro keeping)
  moreover have "os_dir busy_directory ''a'' = None" by (simp add: busy_directory_def)
  ultimately show ?thesis using publish_in_root_atomic [OF _ _ _ _ r, of "{''a'', ''.a.partial''}"] r by auto
qed

text \<open>A capture file that \<open>WriteFile\<close> saved without interference is read back as the capture.\<close>

theorem write_file_roundtrip:
  assumes "os_script w = []" "os_ctx w = []" "os_dir w name = None" "os_dir w (''.blackbox-'' @ random) = None"
    and "name \<noteq> ''.blackbox-'' @ random"
    and "Container_Write nl no_errors limits c = (es, None)" "Capture_ok c" "capture_error c = None"
    and "unpack (Container_limits limits) (concat (chunks es)) = Inr (archive_of (Container_limits limits) es)"
  shows "\<exists>w'. WriteFileWithLimits unpack chunks nl now path random name c limits w = (None, w')
    \<and> fst (ReadFileWithLimits unpack limits name w') = Inr c"
proof -
  let ?temp = "''.blackbox-'' @ random"
  have idle: "enter v = (None, v)" "ctx_err v = (None, v)" if "os_script v = []" "os_ctx v = []" for v
    using that by (simp_all add: enter_def ctx_err_def)
  have chunks: "write_chunks contextWriter_Write ps v = ((concat ps, None), v)" if "os_script v = []" "os_ctx v = []" for ps v
    using that by (induction ps) (simp_all add: contextWriter_Write_def idle)
  have read: "Container_Read unpack limits (concat (chunks es)) = Inr c"
    using read_written [OF assms(6-8)] Container_Write_done(1) [OF assms(6)] assms(9)
    by (auto simp: Container_Read_def Let_def archive_of_def)
  let ?f = "\<lparr>fi_regular = True, fi_content = concat (chunks es), fi_modified = now\<rparr>"
  have "WriteFileWithLimits unpack chunks nl now path random name c limits w
      = (None, w\<lparr>os_dir := ((os_dir w)(?temp \<mapsto> ?f, name \<mapsto> ?f))(?temp := None)\<rparr>)"
    using assms(1-6) read
    by (simp add: WriteFileWithLimits_def PublishWithContext_def Let_def idle CreateExclusive_def removing_def stage_def
        write_file_def write_container_def chunks finishPublication_def wrapped_def validate_def contextReader_Read_def
        publish_step_def Link_def Remove_def fun_upd_twist)
  then show ?thesis using assms(1,2,5) read by (simp add: ReadFileWithLimits_def idle)
qed

theorem write_file_roundtrip_witness:
  "\<exists>w'. WriteFileWithLimits unary_unpack (\<lambda>es. [pack_entries es]) (\<lambda>_. False) 5 ''/tmp/a'' ''1'' ''a'' small_capture (cf_Capture Default)
      empty_directory = (None, w')
    \<and> fst (ReadFileWithLimits unary_unpack (cf_Capture Default) ''a'' w') = Inr small_capture"
proof -
  obtain es where w: "Container_Write (\<lambda>_. False) no_errors (cf_Capture Default) small_capture = (es, None)"
    using small_written by blast
  show ?thesis
    by (rule write_file_roundtrip [OF _ _ _ _ _ w small_ok small_valid])
      (simp_all add: empty_directory_def unary_unpack_pack)
qed

end
