(* ===== verification/Store.thy ===== *)
theory Store
  imports Files
begin

text \<open>
  The store of automatic captures (\<open>internal/autocapture/store.go\<close> and its platform files): a private
  directory, locked against other daemons, scanned before each capture; the capture is published and
  only then the oldest ones are removed.  The directory and its other users are those of \<open>Files\<close>.
\<close>

section \<open>Names\<close>

definition is_hex :: "char \<Rightarrow> bool" where
  "is_hex c \<longleftrightarrow> is_digit c \<or> between 97 102 c"

text \<open>The regular expression, as fields at fixed offsets.\<close>

definition automaticName :: "string \<Rightarrow> bool" where
  "automaticName s \<longleftrightarrow> length s = 51 \<and> sub_text 0 14 s = ''blackbox-auto-''
     \<and> list_all is_digit (sub_text 14 22 s) \<and> sub_text 22 23 s = ''T''
     \<and> list_all is_digit (sub_text 23 29 s) \<and> sub_text 29 31 s = ''Z-''
     \<and> list_all is_hex (sub_text 31 47 s) \<and> sub_text 47 51 s = ''.bbx''"

definition partialName :: "string \<Rightarrow> bool" where
  "partialName name \<longleftrightarrow> HasPrefix name ''.'' \<and> HasSuffix name ''.partial''
     \<and> automaticName (TrimSuffix (TrimPrefix name ''.'') ''.partial'')"

text \<open>\<open>Format("20060102T150405Z")\<close> in UTC, and \<open>hex.EncodeToString\<close>.\<close>

definition compact_time :: "Time \<Rightarrow> string" where
  "compact_time t =
     (let secs = t div Second; (y, m, d) = civil_date (secs div 86400 + 306); s = secs mod 86400;
          two = (\<lambda>n. pad_zero 2 (show_int n));
          year = (if y < 0 then CHR ''-'' # pad_zero 4 (show_int (- y)) else pad_zero 4 (show_int y))
      in year @ two m @ two d @ ''T'' @ two (s div 3600) @ two (s mod 3600 div 60) @ two (s mod 60) @ ''Z'')"

definition hex_text :: "u8 list \<Rightarrow> string" where
  "hex_text bs = concat (map (\<lambda>b. [hex_digit (unat b div 16), hex_digit (unat b mod 16)]) bs)"

definition auto_name :: "Time \<Rightarrow> u8 list \<Rightarrow> string" where
  "auto_name now random = ''blackbox-auto-'' @ compact_time now @ ''-'' @ hex_text random @ ''.bbx''"

section \<open>Scanning the directory\<close>

record storedFile =
  sf_name :: string
  sf_size :: int
  sf_modified :: Time

text \<open>The batches of \<open>ReadDir\<close>: names and what follows them.\<close>

datatype dir_status = More | End | Failed go_error
type_synonym listing = "(string list \<times> dir_status) list"

text \<open>The variables of the scan: the files, their total size and the entries seen.\<close>

type_synonym scan_state = "storedFile list \<times> int \<times> int"

definition max_int64 :: int where "max_int64 = 2 ^ 63 - 1"

definition remove_partial :: "string \<Rightarrow> step" where
  "remove_partial name w =
     (case Remove name w of (e, w) \<Rightarrow> (if e = Some NotExist then None else e, w))"

definition scan_entry :: "string \<Rightarrow> scan_state \<Rightarrow> os \<Rightarrow> (go_error + scan_state) \<times> os" where
  "scan_entry name st w =
     (case st of (files, total_size, seen) \<Rightarrow>
      case ctx_err w of
        (Some e, w) \<Rightarrow> (Inl e, w)
      | (None, w) \<Rightarrow>
        let seen = seen + 1 in
        if AutoDirectoryEntries < seen then (Inl (Errorf ''automatic directory entry limit exceeded''), w)
        else if \<not> automaticName name \<and> \<not> partialName name then (Inr (files, total_size, seen), w)
        else case Lstat name w of
          (Inl e, w) \<Rightarrow> (if e = NotExist then Inr (files, total_size, seen) else Inl e, w)
        | (Inr info, w) \<Rightarrow>
          if \<not> fi_regular info then (Inl (Errorf (''managed capture is not a regular file: '' @ name)), w)
          else if partialName name then
            (case remove_partial name w of
               (Some e, w) \<Rightarrow> (Inl e, w)
             | (None, w) \<Rightarrow> (Inr (files, total_size, seen), w))
          else if fi_size info < 0 \<or> max_int64 - total_size < fi_size info then
            (Inl (Errorf ''managed captures exceed supported storage accounting''), w)
          else
            (Inr (files @ [\<lparr>sf_name = name, sf_size = fi_size info, sf_modified = fi_modified info\<rparr>],
                  total_size + fi_size info, seen), w))"

fun scan_names :: "string list \<Rightarrow> scan_state \<Rightarrow> os \<Rightarrow> (go_error + scan_state) \<times> os" where
  "scan_names [] st w = (Inr st, w)"
| "scan_names (n # ns) st w =
     (case scan_entry n st w of
        (Inl e, w) \<Rightarrow> (Inl e, w)
      | (Inr st, w) \<Rightarrow> scan_names ns st w)"

fun scan_batches :: "listing \<Rightarrow> scan_state \<Rightarrow> os \<Rightarrow> (go_error + scan_state) \<times> os" where
  "scan_batches [] st w = (Inr st, w)"
| "scan_batches ((names, status) # rest) st w =
     (case enter w of
        (Some e, w) \<Rightarrow> (Inl e, w)
      | (None, w) \<Rightarrow>
        (case status of
           Failed e \<Rightarrow> (Inl e, w)
         | _ \<Rightarrow>
           (case scan_names names st w of
              (Inl e, w) \<Rightarrow> (Inl e, w)
            | (Inr st, w) \<Rightarrow> if status = End then (Inr st, w) else scan_batches rest st w)))"

text \<open>By age, files of the same time by name.\<close>

definition by_age :: "storedFile list \<Rightarrow> storedFile list" where
  "by_age files = sort_key sf_modified (sort_key sf_name files)"

definition scan :: "listing \<Rightarrow> os \<Rightarrow> (go_error + storedFile list \<times> int) \<times> os" where
  "scan batches w =
     (case scan_batches batches ([], 0, 0) w of
        (Inl e, w) \<Rightarrow> (Inl e, w)
      | (Inr (files, total_size, _), w) \<Rightarrow> (Inr (by_age files, total_size), w))"

section \<open>Rotation\<close>

definition over_quota :: "AutoCapture \<Rightarrow> int \<Rightarrow> int \<Rightarrow> storedFile list \<Rightarrow> int \<Rightarrow> bool" where
  "over_quota limits added incoming files total_size \<longleftrightarrow>
     ac_MaxFiles limits - incoming < int (length files) \<or> ac_MaxStorage limits < total_size
     \<or> ac_MaxStorage limits - total_size < added"

text \<open>The loop: what is left of the files and their size, whether one was removed, and the error.\<close>

type_synonym rotation = "(storedFile list \<times> int \<times> bool \<times> go_error option) \<times> os"

fun rotate_loop :: "AutoCapture \<Rightarrow> int \<Rightarrow> int \<Rightarrow> storedFile list \<Rightarrow> int \<Rightarrow> bool \<Rightarrow> os \<Rightarrow> rotation" where
  "rotate_loop limits added incoming [] total_size removed w =
     (([], total_size, removed,
       if over_quota limits added incoming [] total_size then Some (Errorf ''automatic storage budget exhausted'') else None), w)"
| "rotate_loop limits added incoming (old # files) total_size removed w =
     (if \<not> over_quota limits added incoming (old # files) total_size then ((old # files, total_size, removed, None), w)
      else case Lstat (sf_name old) w of
        (Inl e, w) \<Rightarrow>
          if e = NotExist then rotate_loop limits added incoming files (total_size - sf_size old) removed w
          else ((old # files, total_size, removed, Some e), w)
      | (Inr info, w) \<Rightarrow>
          if \<not> fi_regular info \<or> fi_size info \<noteq> sf_size old \<or> fi_modified info \<noteq> sf_modified old then
            ((old # files, total_size, removed, Some (Errorf (''managed capture changed during rotation: '' @ sf_name old))), w)
          else case Remove (sf_name old) w of
            (Some e, w) \<Rightarrow>
              if e = NotExist then rotate_loop limits added incoming files (total_size - sf_size old) True w
              else ((old # files, total_size, removed, Some e), w)
          | (None, w) \<Rightarrow> rotate_loop limits added incoming files (total_size - sf_size old) True w)"

text \<open>\<open>errors.Join\<close> of an error that may be nil.\<close>

definition Join_error :: "go_error option \<Rightarrow> go_error \<Rightarrow> go_error" where
  "Join_error e f = Joined ((case e of None \<Rightarrow> [] | Some e \<Rightarrow> [e]) @ [f])"

definition rotate :: "storedFile list \<Rightarrow> int \<Rightarrow> int \<Rightarrow> int \<Rightarrow> AutoCapture \<Rightarrow> os \<Rightarrow> (storedFile list \<times> int \<times> go_error option) \<times> os" where
  "rotate files total_size added incoming limits w =
     (case rotate_loop limits added incoming files total_size False w of
        ((files, total_size, removed, err), w) \<Rightarrow>
          if \<not> removed then ((files, total_size, err), w)
          else case enter w of
            (None, w) \<Rightarrow> ((files, total_size, err), w)
          | (Some e, w) \<Rightarrow>
              ((files, total_size, Some (Join_error err (Wrapf ''sync automatic capture directory after rotation'' e))), w))"

section \<open>The writer's budget\<close>

definition availableBytes :: "u64 \<Rightarrow> u64 \<Rightarrow> u64 \<Rightarrow> u64" where
  "availableBytes blocks fragmentSize blockSize = blocks * (if fragmentSize = 0 then blockSize else fragmentSize)"

text \<open>\<open>Fstatfs\<close>: free blocks, fragment size and block size.\<close>

definition freeBytes :: "os \<Rightarrow> (go_error + u64) \<times> os" where
  "freeBytes w =
     (case os_statfs w of
        [] \<Rightarrow> (Inr (- 1), w)
      | Inl e # rest \<Rightarrow> (Inl e, w\<lparr>os_statfs := rest\<rparr>)
      | Inr (blocks, frag, blk) # rest \<Rightarrow> (Inr (availableBytes blocks frag blk), w\<lparr>os_statfs := rest\<rparr>))"

text \<open>\<open>storageWriter.Write\<close> with the bytes written before, and what it accepts.\<close>

definition storageWriter_Write :: "int \<Rightarrow> int \<Rightarrow> string \<Rightarrow> step" where
  "storageWriter_Write maxFile written p w =
     (case ctx_err w of
        (Some e, w) \<Rightarrow> (Some e, w)
      | (None, w) \<Rightarrow>
        let n = int (length p) in
        if maxFile - written < n then (Some (Errorf ''automatic capture exceeds single-file storage budget''), w)
        else case freeBytes w of
          (Inl e, w) \<Rightarrow> (Some e, w)
        | (Inr free, w) \<Rightarrow>
          if free < to_u64 (AutoMinFreeBytes + n) then
            (Some (Errorf (''insufficient free space for automatic capture (keep at least ''
               @ show_int AutoMinFreeBytes @ '' bytes free)'')), w)
          else enter w)"

fun budget_chunks :: "int \<Rightarrow> int \<Rightarrow> string list \<Rightarrow> write_fn" where
  "budget_chunks maxFile written [] w = (([], None), w)"
| "budget_chunks maxFile written (p # ps) w =
     (case storageWriter_Write maxFile written p w of
        (Some e, w) \<Rightarrow> (([], Some e), w)
      | (None, w) \<Rightarrow>
          (case budget_chunks maxFile (written + int (length p)) ps w of ((bytes, e), w) \<Rightarrow> ((p @ bytes, e), w)))"

text \<open>The closure given to the publication: \<open>Container.Write\<close> into the budget.\<close>

definition budget_write ::
  "(entries \<Rightarrow> string list) \<Rightarrow> (string \<Rightarrow> bool) \<Rightarrow> CaptureLimits \<Rightarrow> Capture \<Rightarrow> int \<Rightarrow> write_fn" where
  "budget_write chunks nl limits c maxFile w =
     (case Container_Write nl no_errors limits c of
        (es, err) \<Rightarrow>
          (case budget_chunks maxFile 0 (chunks es) w of
             ((bytes, Some e), w) \<Rightarrow> ((bytes, Some e), w)
           | ((bytes, None), w) \<Rightarrow> ((bytes, err), w)))"

section \<open>Saving\<close>

text \<open>What the directory and the lock are found to be, the randomness and the time.\<close>

record save_env =
  se_isdir :: bool
  se_perm :: u32
  se_uid :: int
  se_euid :: int
  se_owner_perm :: u32
  se_busy :: "go_error option"
  se_listing :: listing
  se_random :: "go_error + u8 list"
  se_now :: Time

definition private_perm :: "u32 \<Rightarrow> bool" where
  "private_perm p \<longleftrightarrow> p AND 63 = 0"

definition check_directory :: "save_env \<Rightarrow> step" where
  "check_directory env =
     run_steps [enter, enter,
       \<lambda>w. (if \<not> se_isdir env \<or> \<not> private_perm (se_perm env)
            then Some (Errorf ''automatic capture directory must be private (0700), not a symlink'') else None, w),
       enter, enter]"

definition checkOwner :: "save_env \<Rightarrow> step" where
  "checkOwner env =
     run_steps [enter,
       \<lambda>w. (if se_uid env \<noteq> se_euid env \<or> \<not> private_perm (se_owner_perm env)
            then Some (Errorf ''automatic capture directory must be private and owned by the daemon user'') else None, w)]"

definition check_lock :: step where
  "check_lock w =
     (case Lstat ''.lock'' w of
        (Inr st, w) \<Rightarrow>
          (if \<not> fi_regular st then Some (Errorf ''automatic capture lock is not a regular file'') else None, w)
      | (Inl e, w) \<Rightarrow> (if e = NotExist then None else Some e, w))"

definition open_lock :: "Time \<Rightarrow> step" where
  "open_lock now w =
     (case enter w of
        (Some e, w) \<Rightarrow> (Some e, w)
      | (None, w) \<Rightarrow>
          (None, if os_dir w ''.lock'' = None
                 then w\<lparr>os_dir := (os_dir w)(''.lock'' \<mapsto> \<lparr>fi_regular = True, fi_content = [], fi_modified = now\<rparr>)\<rparr>
                 else w))"

definition lockDirectory :: "save_env \<Rightarrow> step" where
  "lockDirectory env = wrapped ''automatic capture directory is busy'' (\<lambda>w. (se_busy env, w))"

definition prepare :: "save_env \<Rightarrow> step" where
  "prepare env =
     run_steps [ctx_err, check_directory env, checkOwner env, check_lock, open_lock (se_now env), lockDirectory env]"

text \<open>A quota that is exceeded already is repaired first.\<close>

definition repair :: "AutoCapture \<Rightarrow> storedFile list \<Rightarrow> int \<Rightarrow> os \<Rightarrow> (go_error + storedFile list \<times> int) \<times> os" where
  "repair a files total_size w =
     (if ac_MaxFiles a < int (length files) \<or> ac_MaxStorage a < total_size then
        (case rotate files total_size 0 0 a w of
           ((files, total_size, Some e), w) \<Rightarrow> (Inl (Wrapf ''automatic storage quota remains exceeded'' e), w)
         | ((files, total_size, None), w) \<Rightarrow> (Inr (files, total_size), w))
      else (Inr (files, total_size), w))"

text \<open>\<open>filepath.Join\<close> of the cleaned directory and a plain name.\<close>

definition Join_path :: "string \<Rightarrow> string \<Rightarrow> string" where
  "Join_path directory name = (if HasSuffix directory ''/'' then directory @ name else directory @ ''/'' @ name)"

text \<open>
  \<open>Store.save\<close> with \<open>rotate\<close>: the path, empty when nothing was published, and the error.  The bytes
  the budget has counted are those of the published file.
\<close>

definition save ::
  "unpack \<Rightarrow> (entries \<Rightarrow> string list) \<Rightarrow> (string \<Rightarrow> bool) \<Rightarrow> save_env \<Rightarrow> Config \<Rightarrow> Capture \<Rightarrow> os \<Rightarrow> (string \<times> go_error option) \<times> os"
where
  "save unpack chunks nl env cfg c w =
     (let a = cf_AutoCapture cfg; m = cp_Manifest c in
      if mf_AutoIncident m = None \<or> \<not> AutoIncident_Valid (mf_AutoIncident m) (mf_EndMonoNS m) then
        (([], Some (Errorf ''automatic capture requires trigger metadata'')), w)
      else case prepare env w of
        (Some e, w) \<Rightarrow> (([], Some e), w)
      | (None, w) \<Rightarrow>
        (case scan (se_listing env) w of
           (Inl e, w) \<Rightarrow> (([], Some e), w)
         | (Inr (files, total_size), w) \<Rightarrow>
           (case repair a files total_size w of
              (Inl e, w) \<Rightarrow> (([], Some e), w)
            | (Inr (files, total_size), w) \<Rightarrow>
              (case se_random env of
                 Inl e \<Rightarrow> (([], Some e), w)
               | Inr random \<Rightarrow>
                 let name = auto_name (se_now env) random;
                     maxFile = min (ac_MaxStorage a) (cn_MaxCaptureBytes (cf_Control cfg));
                     path = Join_path (ac_Directory a) name
                 in case PublishInRootWithLimits unpack (cf_Capture cfg) (se_now env) name
                           (budget_write chunks nl (cf_Capture cfg) c maxFile) w of
                      (Some e, w) \<Rightarrow> (([], Some (Wrapf (''automatic capture '' @ path) e)), w)
                    | (None, w) \<Rightarrow>
                      let written = int (length (concat (chunks (fst (Container_Write nl no_errors (cf_Capture cfg) c)))))
                      in case rotate files total_size written 1 a w of
                           ((_, _, Some e), w) \<Rightarrow>
                             ((path, Some (Wrapf (''capture published at '' @ path @ '' but automatic rotation failed'') e)), w)
                         | ((_, _, None), w) \<Rightarrow> ((path, None), w)))))"

end
