(* ===== verification/Store_Lemmas.thy ===== *)
theory Store_Lemmas
  imports Store Files_Theorems "HOL-Library.Multiset"
begin

text \<open>
  What scanning, rotation and publication do to the managed files of the directory while other
  processes may remove captures at any time, and do what they like to other names.
\<close>

section \<open>Other processes only remove captures\<close>

definition ours :: "string \<Rightarrow> bool" where
  "ours n \<longleftrightarrow> automaticName n \<or> partialName n"

definition shrinks :: "os \<Rightarrow> bool" where
  "shrinks w \<longleftrightarrow> (\<forall>t \<in> set (os_script w). \<forall>d n. ours n \<longrightarrow> fst t d n = None \<or> fst t d n = d n)"

definition below :: "os \<Rightarrow> os \<Rightarrow> bool" where
  "below w w' \<longleftrightarrow> shrinks w' \<and> (\<forall>n. ours n \<longrightarrow> os_dir w' n = None \<or> os_dir w' n = os_dir w n)"

definition shrinking :: "(os \<Rightarrow> 'a \<times> os) \<Rightarrow> bool" where
  "shrinking s \<longleftrightarrow> (\<forall>w. shrinks w \<longrightarrow> below w (snd (s w)))"

lemma below_refl: "shrinks w \<Longrightarrow> below w w"
  by (simp add: below_def)

lemma below_trans: "below w w1 \<Longrightarrow> below w1 w2 \<Longrightarrow> below w w2"
  by (force simp: below_def)

lemma below_shrinks: "below w w' \<Longrightarrow> shrinks w'"
  by (simp add: below_def)

lemma shrinkingD: "shrinking s \<Longrightarrow> shrinks w \<Longrightarrow> s w = (r, w') \<Longrightarrow> below w w'"
  by (metis shrinking_def snd_conv)

lemma shrinkingI: "(\<And>w r w'. shrinks w \<Longrightarrow> s w = (r, w') \<Longrightarrow> below w w') \<Longrightarrow> shrinking s"
  unfolding shrinking_def by (metis prod.collapse)

lemma shrinks_dir [simp]: "shrinks (w\<lparr>os_dir := d\<rparr>) = shrinks w"
  by (simp add: shrinks_def)

text \<open>A change of the directory that only removes, or touches other names only.\<close>

lemma below_update: "below w w1 \<Longrightarrow> (\<And>n. ours n \<Longrightarrow> d n = None \<or> d n = os_dir w1 n) \<Longrightarrow> below w (w1\<lparr>os_dir := d\<rparr>)"
  by (force simp: below_def)

named_theorems shrinks_steps "steps that only remove managed files"

lemma shrinking_enter [shrinks_steps]: "shrinking enter"
  by (rule shrinkingI) (auto simp: enter_def below_def shrinks_def split: list.splits prod.splits)

lemma shrinking_ctx_err [shrinks_steps]: "shrinking ctx_err"
  by (rule shrinkingI) (auto simp: ctx_err_def below_def shrinks_def split: list.splits option.splits)

lemma shrinking_run_steps [shrinks_steps]: "list_all shrinking ss \<Longrightarrow> shrinking (run_steps ss)"
proof (induction ss)
  case (Cons s ss)
  then have s: "shrinking s" and ss: "shrinking (run_steps ss)" by simp_all
  show ?case
  proof (rule shrinkingI)
    fix w r w' assume w: "shrinks w" "run_steps (s # ss) w = (r, w')"
    obtain e w1 where 1: "s w = (e, w1)" by (cases "s w")
    note b = shrinkingD [OF s w(1) 1]
    show "below w w'"
      using w(2) 1 b shrinkingD [OF ss below_shrinks [OF b]] below_trans [OF b] by (cases e) auto
  qed
qed (simp add: shrinking_def below_refl)

lemma shrinking_wrapped [shrinks_steps]: "shrinking s \<Longrightarrow> shrinking (wrapped msg s)"
  by (auto simp: shrinking_def wrapped_def split: prod.split)

lemma shrinking_result [shrinks_steps]: "shrinking (\<lambda>w. (f, w))"
  by (simp add: shrinking_def below_refl)

lemma shrinking_Lstat [shrinks_steps]: "shrinking (Lstat n)"
  using shrinking_enter by (auto simp: shrinking_def Lstat_def split: prod.splits option.splits)

lemma shrinking_Remove [shrinks_steps]: "shrinking (Remove n)"
proof (rule shrinkingI)
  fix w r w' assume w: "shrinks w" "Remove n w = (r, w')"
  obtain e w1 where 1: "enter w = (e, w1)" by (cases "enter w")
  note b = shrinkingD [OF shrinking_enter w(1) 1]
  show "below w w'"
    using w(2) 1 b below_update [OF b, of "(os_dir w1)(n := None)"]
    by (auto simp: Remove_def split: option.splits if_splits)
qed

lemma shrinking_remove_partial [shrinks_steps]: "shrinking (remove_partial n)"
  using shrinking_Remove [of n] by (auto simp: shrinking_def remove_partial_def split: prod.split)

lemma shrinking_validate [shrinks_steps]: "shrinking (validate unpack limits bytes)"
  by (simp add: validate_def contextReader_Read_def shrinks_steps)

lemma shrinking_freeBytes [shrinks_steps]: "shrinking freeBytes"
  by (rule shrinkingI) (auto simp: freeBytes_def below_def shrinks_def split: list.splits sum.splits prod.splits)

lemma shrinking_storageWriter [shrinks_steps]: "shrinking (storageWriter_Write maxFile written p)"
proof (rule shrinkingI)
  fix w r w' assume w: "shrinks w" "storageWriter_Write maxFile written p w = (r, w')"
  obtain e1 w1 where 1: "ctx_err w = (e1, w1)" by (cases "ctx_err w")
  obtain e2 w2 where 2: "freeBytes w1 = (e2, w2)" by (cases "freeBytes w1")
  obtain e3 w3 where 3: "enter w2 = (e3, w3)" by (cases "enter w2")
  note b1 = shrinkingD [OF shrinking_ctx_err w(1) 1]
  note b2 = below_trans [OF b1 shrinkingD [OF shrinking_freeBytes below_shrinks [OF b1] 2]]
  note b3 = below_trans [OF b2 shrinkingD [OF shrinking_enter below_shrinks [OF b2] 3]]
  show "below w w'"
    using w(2) 1 2 3 b1 b2 b3
    by (auto simp: storageWriter_Write_def Let_def split: option.splits sum.splits if_splits)
qed

lemma shrinking_budget_chunks [shrinks_steps]: "shrinking (budget_chunks maxFile written ps)"
proof (induction ps arbitrary: written)
  case (Cons p ps)
  show ?case
  proof (rule shrinkingI)
    fix w r w' assume w: "shrinks w" "budget_chunks maxFile written (p # ps) w = (r, w')"
    obtain e w1 where 1: "storageWriter_Write maxFile written p w = (e, w1)" by (cases "storageWriter_Write maxFile written p w")
    note b = shrinkingD [OF shrinking_storageWriter w(1) 1]
    obtain r2 w2 where 2: "budget_chunks maxFile (written + int (length p)) ps w1 = (r2, w2)"
      by (cases "budget_chunks maxFile (written + int (length p)) ps w1")
    show "below w w'"
      using w(2) 1 2 b below_trans [OF b shrinkingD [OF Cons.IH below_shrinks [OF b] 2]]
      by (cases e) (auto split: prod.splits)
  qed
qed (simp add: shrinking_def below_refl)

lemma shrinking_budget_write [shrinks_steps]: "shrinking (budget_write chunks nl limits c maxFile)"
  using shrinking_budget_chunks [of maxFile 0]
  by (auto simp: shrinking_def budget_write_def split: prod.splits option.splits) (metis snd_conv)+

lemma lock_not_ours: "\<not> ours ''.lock''"
  by (simp add: ours_def automaticName_def partialName_def HasSuffix_def)

lemma shrinking_prepare [shrinks_steps]: "shrinking (prepare env)"
proof -
  have "shrinking check_lock"
    using shrinking_Lstat [of "''.lock''"]
    by (auto simp: shrinking_def check_lock_def split: prod.splits sum.splits)
  moreover have "shrinking (open_lock now)" for now
  proof (rule shrinkingI)
    fix w r w' assume w: "shrinks w" "open_lock now w = (r, w')"
    obtain e w1 where 1: "enter w = (e, w1)" by (cases "enter w")
    note b = shrinkingD [OF shrinking_enter w(1) 1]
    show "below w w'"
      using w(2) 1 b lock_not_ours
      by (auto simp: open_lock_def split: option.splits if_splits intro!: below_update)
  qed
  ultimately show ?thesis
    by (simp add: prepare_def check_directory_def checkOwner_def lockDirectory_def shrinks_steps)
qed

section \<open>The books\<close>

text \<open>Every managed file of the directory whose name is in \<open>N\<close> is in the list with its size.\<close>

definition accounts :: "string set \<Rightarrow> storedFile list \<Rightarrow> os \<Rightarrow> bool" where
  "accounts N files w \<longleftrightarrow>
     (\<forall>n \<in> N. \<forall>f. automaticName n \<longrightarrow> os_dir w n = Some f \<longrightarrow> (\<exists>s \<in> set files. sf_name s = n \<and> sf_size s = fi_size f))"

definition sizes :: "storedFile list \<Rightarrow> int" where
  "sizes files = sum_list (map sf_size files)"

lemma sizes_simps [simp]: "sizes [] = 0" "sizes (s # files) = sf_size s + sizes files" "sizes (xs @ ys) = sizes xs + sizes ys"
  by (simp_all add: sizes_def)

lemma accounts_below: "accounts N files w \<Longrightarrow> below w w' \<Longrightarrow> accounts N files w'"
  unfolding accounts_def below_def ours_def by (metis option.discI)

lemma accounts_mono: "accounts N files w \<Longrightarrow> set files \<subseteq> set files' \<Longrightarrow> accounts N files' w"
  unfolding accounts_def by blast

lemma accounts_Un: "accounts M files w \<Longrightarrow> accounts N files w \<Longrightarrow> accounts (M \<union> N) files w"
  unfolding accounts_def by blast

subsection \<open>Scanning\<close>

lemma Lstat_NotExist: "Lstat n w = (Inl NotExist, w') \<Longrightarrow> os_dir w' n = None"
  by (auto simp: Lstat_def enter_def split: prod.splits option.splits list.splits)

lemma partial_not_automatic:
  assumes "partialName n"
  shows "\<not> automaticName n"
proof
  assume "automaticName n"
  then have "take 14 n = ''blackbox-auto-''" by (simp add: automaticName_def sub_text_def)
  then have "take 1 (take 14 n) = ''b''" by simp
  moreover have "take 1 n = ''.''" using assms by (simp add: partialName_def HasPrefix_def)
  ultimately show False by simp
qed

lemma scan_entry_accounts:
  assumes "shrinks w" "scan_entry n (files, t, seen) w = (Inr (files', t', seen'), w')"
  shows "below w w' \<and> set files \<subseteq> set files' \<and> t' - sizes files' = t - sizes files \<and> accounts {n} files' w'
    \<and> (\<forall>s \<in> set files'. s \<in> set files \<or> 0 \<le> sf_size s)"
proof -
  obtain e1 w1 where 1: "ctx_err w = (e1, w1)" by (cases "ctx_err w")
  note b1 = shrinkingD [OF shrinking_ctx_err assms(1) 1]
  obtain i w2 where 2: "Lstat n w1 = (i, w2)" by (cases "Lstat n w1")
  note b2 = below_trans [OF b1 shrinkingD [OF shrinking_Lstat below_shrinks [OF b1] 2]]
  obtain e3 w3 where 3: "remove_partial n w2 = (e3, w3)" by (cases "remove_partial n w2")
  note b3 = below_trans [OF b2 shrinkingD [OF shrinking_remove_partial below_shrinks [OF b2] 3]]
  have e1: "e1 = None" using assms(2) 1 by (auto simp: scan_entry_def split: option.splits)
  show ?thesis
  proof (cases "automaticName n")
    case False
    then have "accounts {n} files'' v" for files'' v by (simp add: accounts_def)
    then show ?thesis
      using assms(2) 1 2 3 e1 b1 b2 b3 False
      by (auto simp: scan_entry_def Let_def split: if_splits option.splits sum.splits)
  next
    case True
    show ?thesis
    proof (cases i)
      case (Inl e)
      then have r: "e = NotExist" "w' = w2" "files' = files" "t' = t"
        using assms(2) 1 2 e1 True by (auto simp: scan_entry_def Let_def split: if_splits)
      have "os_dir w2 n = None" using Lstat_NotExist 2 Inl r(1) by blast
      then show ?thesis using r b2 by (simp add: accounts_def)
    next
      case (Inr f)
      then have f: "os_dir w2 n = Some f"
        using 2 by (auto simp: Lstat_def split: prod.splits option.splits)
      show ?thesis
        using assms(2) 1 2 e1 True Inr f b2 partial_not_automatic [of n]
        by (auto simp: scan_entry_def Let_def accounts_def fi_size_def split: if_splits)
    qed
  qed
qed

text \<open>The books of a whole scan: sizes are counted once, never negative, and cover the names that were seen.\<close>

definition scanned :: "string set \<Rightarrow> scan_state \<Rightarrow> os \<Rightarrow> scan_state \<Rightarrow> os \<Rightarrow> bool" where
  "scanned N st w st' w' \<longleftrightarrow> below w w' \<and> set (fst st) \<subseteq> set (fst st')
     \<and> fst (snd st') - sizes (fst st') = fst (snd st) - sizes (fst st) \<and> accounts N (fst st') w'
     \<and> (\<forall>s \<in> set (fst st'). s \<in> set (fst st) \<or> 0 \<le> sf_size s)"

lemma scanned_trans:
  assumes "scanned M st w st1 w1" "scanned N st1 w1 st2 w2"
  shows "scanned (M \<union> N) st w st2 w2"
proof -
  have "below w w2" using assms below_trans unfolding scanned_def by blast
  moreover have "accounts M (fst st2) w2"
    using assms accounts_mono accounts_below unfolding scanned_def by metis
  ultimately show ?thesis using assms accounts_Un unfolding scanned_def by auto
qed

lemma scanned_refl: "shrinks w \<Longrightarrow> scanned {} st w st w"
  by (simp add: scanned_def below_refl accounts_def)

lemma scanned_below: "below w w1 \<Longrightarrow> scanned {} st w st w1"
  by (simp add: scanned_def accounts_def)

lemma scanned_shrinks: "scanned N st w st' w' \<Longrightarrow> shrinks w'"
  by (auto simp: scanned_def below_def)

lemma scan_names_scanned:
  "shrinks w \<Longrightarrow> scan_names ns st w = (Inr st', w') \<Longrightarrow> scanned (set ns) st w st' w'"
proof (induction ns arbitrary: st w)
  case (Cons n ns)
  obtain r w1 where 1: "scan_entry n st w = (r, w1)" by (cases "scan_entry n st w")
  then obtain st1 where r: "r = Inr st1" using Cons.prems(2) by (cases r) auto
  have s: "scanned {n} st w st1 w1"
    using scan_entry_accounts [OF Cons.prems(1), of n "fst st" "fst (snd st)" "snd (snd st)"] 1 r
    by (cases st1) (auto simp: scanned_def)
  have "scanned (set ns) st1 w1 st' w'"
    using Cons.IH [OF scanned_shrinks [OF s]] Cons.prems(2) 1 r by simp
  then show ?case using scanned_trans [OF s] by simp
qed (simp add: scanned_refl)

text \<open>The names a scan reads: every batch up to the end.\<close>

fun listed_names :: "listing \<Rightarrow> string list" where
  "listed_names [] = []"
| "listed_names ((names, status) # rest) = names @ (if status = End then [] else listed_names rest)"

lemma scan_batches_scanned:
  "shrinks w \<Longrightarrow> scan_batches batches st w = (Inr st', w') \<Longrightarrow> scanned (set (listed_names batches)) st w st' w'"
proof (induction batches arbitrary: st w)
  case (Cons b batches)
  obtain names status where b: "b = (names, status)" by (cases b)
  obtain e w1 where 1: "enter w = (e, w1)" by (cases "enter w")
  note s1 = scanned_below [OF shrinkingD [OF shrinking_enter Cons.prems(1) 1], of st]
  obtain r w2 where 2: "scan_names names st w1 = (r, w2)" by (cases "scan_names names st w1")
  then obtain st2 where st2: "e = None" "r = Inr st2" "\<forall>e. status \<noteq> Failed e"
    using Cons.prems(2) b 1 by (cases e; cases status; cases r) auto
  note s2 = scanned_trans [OF s1 scan_names_scanned [OF scanned_shrinks [OF s1], of names st st2 w2]]
  have s: "scanned (set names) st w st2 w2" using s2 2 st2 by simp
  show ?case
  proof (cases "status = End")
    case True
    then show ?thesis using Cons.prems(2) b 1 2 st2 s by simp
  next
    case False
    then have "scan_batches batches st2 w2 = (Inr st', w')"
      using Cons.prems(2) b 1 2 st2 by (cases status) auto
    then have "scanned (set (listed_names batches)) st2 w2 st' w'"
      using Cons.IH [OF scanned_shrinks [OF s]] by blast
    then show ?thesis using scanned_trans [OF s] False b by simp
  qed
qed (simp add: scanned_refl)

lemma by_age_props [simp]: "set (by_age files) = set files" "sizes (by_age files) = sizes files" "length (by_age files) = length files"
proof -
  have m: "mset (by_age files) = mset files" by (simp add: by_age_def)
  then show "set (by_age files) = set files" "length (by_age files) = length files"
    by (metis set_mset_mset, metis size_mset)
  have "sum_mset (image_mset sf_size (mset (by_age files))) = sum_mset (image_mset sf_size (mset files))" using m by simp
  then show "sizes (by_age files) = sizes files" by (simp add: sizes_def sum_mset_sum_list flip: mset_map)
qed

definition nonnegative :: "storedFile list \<Rightarrow> bool" where
  "nonnegative files \<longleftrightarrow> (\<forall>s \<in> set files. 0 \<le> sf_size s)"

text \<open>The books of the store: sizes add up and every managed file that can be there is accounted for.\<close>

definition books :: "string set \<Rightarrow> storedFile list \<Rightarrow> int \<Rightarrow> os \<Rightarrow> bool" where
  "books N files t w \<longleftrightarrow> shrinks w \<and> t = sizes files \<and> nonnegative files \<and> accounts N files w"

lemma books_below: "books N files t w \<Longrightarrow> below w w' \<Longrightarrow> books N files t w'"
  using accounts_below below_shrinks unfolding books_def by blast

lemma scan_books:
  assumes "shrinks w" "scan batches w = (Inr (files, t), w')"
  shows "below w w' \<and> books (set (listed_names batches)) files t w'"
proof -
  obtain files0 seen where s: "scan_batches batches ([], 0, 0) w = (Inr (files0, t, seen), w')" "files = by_age files0"
    using assms(2) by (auto simp: scan_def split: prod.splits sum.splits)
  note sc = scan_batches_scanned [OF assms(1) s(1)]
  then show ?thesis
    using s(2) by (auto simp: scanned_def books_def nonnegative_def accounts_def below_def)
qed

subsection \<open>Rotation\<close>

lemma accounts_drop:
  assumes "accounts N (s # files) w" "os_dir w (sf_name s) = None"
  shows "accounts N files w"
  unfolding accounts_def
proof (intro ballI allI impI)
  fix n f assume n: "n \<in> N" "automaticName n" "os_dir w n = Some f"
  then obtain s' where "s' \<in> set (s # files)" "sf_name s' = n" "sf_size s' = fi_size f"
    using assms(1) unfolding accounts_def by blast
  moreover have "n \<noteq> sf_name s" using n(3) assms(2) by auto
  ultimately show "\<exists>s \<in> set files. sf_name s = n \<and> sf_size s = fi_size f" by auto
qed

lemma books_drop: "books N (s # files) t w \<Longrightarrow> os_dir w (sf_name s) = None \<Longrightarrow> books N files (t - sf_size s) w"
  using accounts_drop by (auto simp: books_def nonnegative_def)

lemma Remove_gone:
  "Remove n w = (e, w') \<Longrightarrow> e = None \<or> e = Some NotExist \<Longrightarrow> os_dir w' n = None"
  by (auto simp: Remove_def enter_def split: prod.splits option.splits list.splits if_splits)

lemma rotate_loop_books:
  "books N files t w \<Longrightarrow> rotate_loop limits added incoming files t removed w = ((files', t', removed', e), w') \<Longrightarrow>
   below w w' \<and> books N files' t' w' \<and> (e = None \<longrightarrow> \<not> over_quota limits added incoming files' t')"
proof (induction files arbitrary: t removed w)
  case Nil
  then show ?case by (auto simp: below_def books_def split: if_splits)
next
  case (Cons s files)
  have sh: "shrinks w" using Cons.prems(1) by (simp add: books_def)
  show ?case
  proof (cases "over_quota limits added incoming (s # files) t")
    case False
    then show ?thesis using Cons.prems sh below_refl by auto
  next
    case True
    obtain i w1 where 1: "Lstat (sf_name s) w = (i, w1)" by (cases "Lstat (sf_name s) w")
    obtain r w2 where 2: "Remove (sf_name s) w1 = (r, w2)" by (cases "Remove (sf_name s) w1")
    note b1 = shrinkingD [OF shrinking_Lstat sh 1]
    note b2 = below_trans [OF b1 shrinkingD [OF shrinking_Remove below_shrinks [OF b1] 2]]
    note k1 = books_below [OF Cons.prems(1) b1] and k2 = books_below [OF Cons.prems(1) b2]
    have next1: ?thesis if "i = Inl NotExist"
    proof -
      have "books N files (t - sf_size s) w1" using books_drop [OF k1] Lstat_NotExist [of "sf_name s" w w1] 1 that by simp
      then have "below w1 w' \<and> books N files' t' w' \<and> (e = None \<longrightarrow> \<not> over_quota limits added incoming files' t')"
        using Cons.IH Cons.prems(2) True 1 that by auto
      then show ?thesis using below_trans [OF b1] by blast
    qed
    have next2: ?thesis if "rotate_loop limits added incoming files (t - sf_size s) True w2 = ((files', t', removed', e), w')"
      "r = None \<or> r = Some NotExist"
    proof -
      have "books N files (t - sf_size s) w2" using books_drop [OF k2] Remove_gone [OF 2 that(2)] by blast
      then have "below w2 w' \<and> books N files' t' w' \<and> (e = None \<longrightarrow> \<not> over_quota limits added incoming files' t')"
        using Cons.IH that(1) by blast
      then show ?thesis using below_trans [OF b2] by blast
    qed
    have stop: ?thesis if "(files', t', removed') = (s # files, t, removed)" "e \<noteq> None" "w' = w1 \<or> w' = w2"
      using that b1 b2 k1 k2 by auto
    show ?thesis
    proof (cases i)
      case (Inl x)
      then show ?thesis using Cons.prems(2) True 1 next1 stop by (cases "x = NotExist") auto
    next
      case (Inr f)
      show ?thesis
      proof (cases "\<not> fi_regular f \<or> fi_size f \<noteq> sf_size s \<or> fi_modified f \<noteq> sf_modified s")
        case True2: True
        then show ?thesis using Cons.prems(2) True 1 Inr by (intro stop) auto
      next
        case False
        then show ?thesis
          using Cons.prems(2) True 1 2 Inr next2 stop by (cases r) (auto split: if_splits)
      qed
    qed
  qed
qed

lemma rotate_books:
  assumes "books N files t w" "rotate files t added incoming limits w = ((files', t', e), w')"
  shows "below w w' \<and> books N files' t' w' \<and> (e = None \<longrightarrow> \<not> over_quota limits added incoming files' t')"
proof -
  obtain f1 t1 r1 e1 w1 where 1: "rotate_loop limits added incoming files t False w = ((f1, t1, r1, e1), w1)"
    by (metis prod_cases4 surj_pair)
  note k = rotate_loop_books [OF assms(1) 1]
  obtain e2 w2 where 2: "enter w1 = (e2, w2)" by (cases "enter w1")
  have "shrinks w1" using k by (simp add: books_def)
  note b = shrinkingD [OF shrinking_enter this 2]
  show ?thesis
    using assms(2) 1 2 k b below_trans [OF _ b] books_below [OF _ b]
    by (auto simp: rotate_def split: if_splits option.splits)
qed

subsection \<open>Publication\<close>

lemma partial_of_automatic: "automaticName name \<Longrightarrow> partialName (''.'' @ name @ ''.partial'')"
  by (simp add: partialName_def HasPrefix_def TrimPrefix_def HasSuffix_def TrimSuffix_def)

lemma run_steps_append:
  "run_steps (xs @ ys) v = (case run_steps xs v of (None, v) \<Rightarrow> run_steps ys v | (Some e, v) \<Rightarrow> (Some e, v))"
  by (induction xs arbitrary: v) (auto split: prod.splits option.splits)

lemma link_managed:
  assumes "shrinks w" "run_steps [ctx_err, Link temp name] w = (None, w')" "ours temp"
  shows "shrinks w' \<and> (\<exists>f. os_dir w temp = Some f \<and> os_dir w' name = Some f)
    \<and> (\<forall>n. ours n \<longrightarrow> n \<noteq> name \<longrightarrow> os_dir w' n = None \<or> os_dir w' n = os_dir w n)"
proof -
  obtain e1 w1 where 1: "ctx_err w = (e1, w1)" by (cases "ctx_err w")
  obtain e2 w2 where 2: "enter w1 = (e2, w2)" by (cases "enter w1")
  note b1 = shrinkingD [OF shrinking_ctx_err assms(1) 1]
  note b2 = below_trans [OF b1 shrinkingD [OF shrinking_enter below_shrinks [OF b1] 2]]
  have e: "e1 = None" "e2 = None" using assms(2) 1 2 by (auto simp: Link_def split: option.splits)
  then obtain f where f: "os_dir w2 temp = Some f" "w' = w2\<lparr>os_dir := (os_dir w2)(name \<mapsto> f)\<rparr>"
    using assms(2) 1 2 by (auto simp: Link_def split: option.splits if_splits)
  moreover have "os_dir w temp = Some f" using b2 f(1) assms(3) by (auto simp: below_def)
  ultimately show ?thesis using b2 by (auto simp: below_def)
qed

lemma finish_managed:
  assumes "shrinks w" "ours temp" "finishPublication unpack limits bytes (run_steps [ctx_err, Link temp name]) w = (None, w')"
  shows "shrinks w' \<and> (\<exists>f. os_dir w temp = Some f \<and> (os_dir w' name = None \<or> os_dir w' name = Some f \<or> \<not> ours name))
    \<and> (\<forall>n. ours n \<longrightarrow> n \<noteq> name \<longrightarrow> os_dir w' n = None \<or> os_dir w' n = os_dir w n)"
proof -
  define pre where "pre = [enter, wrapped ''validate capture before publication'' (validate unpack limits bytes), ctx_err, enter, enter]"
  define sync where "sync = wrapped ''sync capture directory after publication (destination may exist)'' enter"
  let ?link = "run_steps [ctx_err, Link temp name]"
  have run: "run_steps (pre @ [publish_step ?link, sync]) w = (None, w')"
    using assms(3) by (simp add: finishPublication_def pre_def sync_def)
  have sp: "shrinking (run_steps pre)" and ss: "shrinking sync" by (simp_all add: pre_def sync_def shrinks_steps)
  obtain e1 w1 where 1: "run_steps pre w = (e1, w1)" by (cases "run_steps pre w")
  obtain e2 w2 where 2: "publish_step ?link w1 = (e2, w2)" by (cases "publish_step ?link w1")
  obtain e3 w3 where 3: "sync w2 = (e3, w3)" by (cases "sync w2")
  have e: "e1 = None" "e2 = None" "w' = w3" using run 1 2 3 by (auto simp: run_steps_append split: option.splits)
  note b1 = shrinkingD [OF sp assms(1) 1]
  have link: "?link w1 = (None, w2)"
    using 2 e(2) by (auto simp: publish_step_def simp del: run_steps.simps split: prod.splits option.splits)
  note k = link_managed [OF below_shrinks [OF b1] link assms(2)]
  then obtain f where f: "os_dir w1 temp = Some f" "os_dir w2 name = Some f" by blast
  have b3: "below w2 w3" using shrinkingD [OF ss _ 3] k by blast
  have "os_dir w temp = Some f" using b1 f(1) assms(2) by (auto simp: below_def)
  then show ?thesis using k b1 b3 f e(3) by (force simp: below_def)
qed

lemma publish_managed:
  assumes "shrinks w" "automaticName name" "shrinking write"
    and "PublishInRootWithLimits unpack limits now name write w = (None, w')"
  shows "shrinks w' \<and> (\<forall>n. automaticName n \<longrightarrow> n \<noteq> name \<longrightarrow> os_dir w' n = None \<or> os_dir w' n = os_dir w n)
    \<and> (\<exists>v bytes v'. write v = ((bytes, None), v') \<and> (\<forall>f. os_dir w' name = Some f \<longrightarrow> fi_content f = bytes))"
proof -
  let ?temp = "''.'' @ name @ ''.partial''"
  have temp: "ours ?temp" "\<not> automaticName ?temp"
    using partial_of_automatic [OF assms(2)] partial_not_automatic by (auto simp: ours_def)
  have name: "ours name" "name \<noteq> ?temp" using assms(2) partial_name by (auto simp: ours_def)
  obtain w0 where c: "CreateExclusive now ?temp w = (None, w0)" "plain_name name"
    using assms(4) by (auto simp: PublishInRootWithLimits_def Let_def split: prod.splits option.splits if_splits)
  obtain w3 where st: "stage (\<lambda>s. s) unpack limits now ?temp name write w0 = (None, w3)" "w' = snd (Remove ?temp w3)"
    using assms(4) c by (auto simp: PublishInRootWithLimits_def Let_def removing_def split: prod.splits)
  obtain e1 w1 where 1: "enter w = (e1, w1)" by (cases "enter w")
  note b1 = shrinkingD [OF shrinking_enter assms(1) 1]
  have w0: "shrinks w0" "\<forall>n. n \<noteq> ?temp \<longrightarrow> os_dir w0 n = os_dir w1 n"
    using c(1) 1 b1 by (auto simp: CreateExclusive_def below_def split: option.splits if_splits)
  obtain bytes we wa where wr: "write w0 = ((bytes, we), wa)" by (metis prod.collapse)
  note ba = shrinkingD [OF assms(3) w0(1) wr]
  define wb where "wb = (if os_dir wa ?temp = None then wa
     else wa\<lparr>os_dir := (os_dir wa)(?temp \<mapsto> \<lparr>fi_regular = True, fi_content = bytes, fi_modified = now\<rparr>)\<rparr>)"
  have wf: "write_file now ?temp write w0 = ((bytes, we), wb)" by (simp add: write_file_def wr wb_def)
  have wb: "shrinks wb" "\<forall>n. n \<noteq> ?temp \<longrightarrow> os_dir wb n = os_dir wa n" "\<forall>f. os_dir wb ?temp = Some f \<longrightarrow> fi_content f = bytes"
    using ba by (auto simp: wb_def below_def)
  obtain ec wc where enc: "enter wb = (ec, wc)" by (cases "enter wb")
  note bc = shrinkingD [OF shrinking_enter wb(1) enc]
  have n: "we = None" "ec = None" "finishPublication unpack limits bytes (run_steps [ctx_err, Link ?temp name]) wc = (None, w3)"
    using st(1) wf enc by (auto simp: stage_def simp del: run_steps.simps(2) split: option.splits prod.splits) (auto split: option.splits prod.splits)
  note k = finish_managed [OF below_shrinks [OF bc] temp(1) n(3)]
  then obtain f where f: "os_dir wc ?temp = Some f" "os_dir w3 name = None \<or> os_dir w3 name = Some f" using name(1) by blast
  have "fi_content f = bytes" using wb(3) bc f(1) temp(1) by (auto simp: below_def)
  have b4: "below w3 w'" using shrinking_Remove k st(2) by (auto simp: shrinking_def)
  have "\<forall>f. os_dir w' name = Some f \<longrightarrow> fi_content f = bytes"
    using b4 f(2) name(1) \<open>fi_content f = bytes\<close> by (force simp: below_def)
  moreover have "os_dir w' n = None \<or> os_dir w' n = os_dir w n" if "automaticName n" "n \<noteq> name" for n
  proof -
    have o: "ours n" "n \<noteq> ?temp" using that(1) temp(2) by (auto simp: ours_def)
    have "os_dir w1 n = None \<or> os_dir w1 n = os_dir w n" "os_dir w0 n = os_dir w1 n"
      "os_dir wa n = None \<or> os_dir wa n = os_dir w0 n" "os_dir wb n = os_dir wa n"
      "os_dir wc n = None \<or> os_dir wc n = os_dir wb n" "os_dir w3 n = None \<or> os_dir w3 n = os_dir wc n"
      "os_dir w' n = None \<or> os_dir w' n = os_dir w3 n"
      using b1 w0(2) ba wb(2) bc k b4 o that(2) unfolding below_def by blast+
    then show ?thesis by metis
  qed
  ultimately show ?thesis using b4 wr n(1) by (auto simp: below_def)
qed

end
