(* ===== verification/Store_Spares.thy ===== *)
theory Store_Spares
  imports Store_Lemmas "HOL-Library.Sublist"
begin

text \<open>
  What the steps of the store do to a managed file that the other processes leave alone: it stays
  where it is, unless it is listed, unchanged and over the quota.
\<close>

section \<open>What stays\<close>

text \<open>A name that the other processes leave alone and its file.\<close>

definition holds :: "string \<Rightarrow> inode \<Rightarrow> os \<Rightarrow> bool" where
  "holds n f w \<longleftrightarrow> spares {n} w \<and> os_dir w n = Some f"

definition holding :: "string \<Rightarrow> inode \<Rightarrow> (os \<Rightarrow> 'a \<times> os) \<Rightarrow> bool" where
  "holding n f s \<longleftrightarrow> (\<forall>w. holds n f w \<longrightarrow> holds n f (snd (s w)))"

lemma holdingD: "holding n f s \<Longrightarrow> holds n f w \<Longrightarrow> s w = (r, w') \<Longrightarrow> holds n f w'"
  by (metis holding_def snd_conv)

lemma holdingI: "(\<And>w r w'. holds n f w \<Longrightarrow> s w = (r, w') \<Longrightarrow> holds n f w') \<Longrightarrow> holding n f s"
  unfolding holding_def by (metis prod.collapse)

lemma holding_keeps: "keeps {n} s \<Longrightarrow> holding n f s"
  by (auto simp: keeps_def same_on_def holding_def holds_def)

lemma holds_dir: "holds n f w \<Longrightarrow> d n = Some f \<Longrightarrow> holds n f (w\<lparr>os_dir := d\<rparr>)"
  by (simp add: holds_def)

named_theorems holding_steps "steps that leave a file where it is"

lemma holding_basic [holding_steps]: "holding n f enter" "holding n f ctx_err" "holding n f (\<lambda>w. (e, w))"
  "holding n f (validate unpack limits bytes)"
  by (rule holding_keeps, rule keeping)+

lemma holding_run_steps [holding_steps]: "list_all (holding n f) ss \<Longrightarrow> holding n f (run_steps ss)"
proof (induction ss)
  case (Cons s ss)
  then have s: "holding n f s" and ss: "holding n f (run_steps ss)" by simp_all
  show ?case
  proof (rule holdingI)
    fix w r w' assume w: "holds n f w" "run_steps (s # ss) w = (r, w')"
    obtain e w1 where 1: "s w = (e, w1)" by (cases "s w")
    show "holds n f w'"
      using w(2) 1 holdingD [OF s w(1) 1] holdingD [OF ss] by (cases e) auto
  qed
qed (simp add: holding_def)

lemma holding_wrapped [holding_steps]: "holding n f s \<Longrightarrow> holding n f (wrapped msg s)"
  by (auto simp: holding_def wrapped_def split: prod.split)

lemma holding_publish_step [holding_steps]: "holding n f s \<Longrightarrow> holding n f (publish_step s)"
proof (rule holdingI)
  fix w r w' assume s: "holding n f s" and w: "holds n f w" "publish_step s w = (r, w')"
  obtain e w1 where 1: "s w = (e, w1)" by (cases "s w")
  obtain e2 w2 where 2: "ctx_err w1 = (e2, w2)" by (cases "ctx_err w1")
  note h = holdingD [OF s w(1) 1]
  show "holds n f w'"
    using w(2) 1 2 h holdingD [OF holding_basic(2) h 2] by (auto simp: publish_step_def split: option.splits)
qed

lemma holding_Lstat [holding_steps]: "holding n f (Lstat m)"
  using holding_basic(1) [of n f] by (auto simp: holding_def Lstat_def split: prod.splits option.splits)

lemma holding_Remove [holding_steps]: "m \<noteq> n \<Longrightarrow> holding n f (Remove m)"
  by (rule holding_keeps, rule keeps_Remove) simp

lemma holding_Link [holding_steps]: "holding n f (Link old new)"
proof (rule holdingI)
  fix w r w' assume w: "holds n f w" "Link old new w = (r, w')"
  obtain e w1 where 1: "enter w = (e, w1)" by (cases "enter w")
  note h = holdingD [OF holding_basic(1) w(1) 1]
  then show "holds n f w'"
    using w(2) 1 by (auto simp: Link_def holds_def split: option.splits if_splits)
qed

lemma holding_CreateExclusive [holding_steps]: "holding n f (CreateExclusive now m)"
proof (rule holdingI)
  fix w r w' assume w: "holds n f w" "CreateExclusive now m w = (r, w')"
  obtain e w1 where 1: "enter w = (e, w1)" by (cases "enter w")
  note h = holdingD [OF holding_basic(1) w(1) 1]
  then show "holds n f w'"
    using w(2) 1 by (auto simp: CreateExclusive_def holds_def split: option.splits if_splits)
qed

lemma holding_finish [holding_steps]: "holding n f (finishPublication unpack limits bytes (run_steps [ctx_err, Link temp name]))"
  by (simp add: finishPublication_def holding_steps del: run_steps.simps)

lemma holding_stage [holding_steps]:
  assumes "holding n f write" "temp \<noteq> n"
  shows "holding n f (stage (\<lambda>s. s) unpack limits now temp name write)"
proof (rule holdingI)
  fix w r w' assume w: "holds n f w" "stage (\<lambda>s. s) unpack limits now temp name write w = (r, w')"
  obtain bytes e w1 where 1: "write w = ((bytes, e), w1)" by (metis prod.collapse)
  note h = holdingD [OF assms(1) w(1) 1]
  have h2: "holds n f (snd (write_file now temp write w))"
    using h assms(2) by (auto simp: write_file_def 1 holds_def)
  have "holding n f (run_steps [enter, finishPublication unpack limits bytes (run_steps [ctx_err, Link temp name])])"
    by (simp add: holding_steps del: run_steps.simps)
  then show "holds n f w'"
    using w(2) 1 h2 holdingD by (auto simp: stage_def write_file_def simp del: run_steps.simps split: option.splits)
qed

lemma holding_publish [holding_steps]:
  assumes "holding n f write" "''.'' @ name @ ''.partial'' \<noteq> n"
  shows "holding n f (PublishInRootWithLimits unpack limits now name write)"
proof (rule holdingI)
  fix w r w' assume w: "holds n f w" "PublishInRootWithLimits unpack limits now name write w = (r, w')"
  let ?temp = "''.'' @ name @ ''.partial''"
  obtain e w1 where 1: "CreateExclusive now ?temp w = (e, w1)" by (cases "CreateExclusive now ?temp w")
  note h = holdingD [OF holding_CreateExclusive w(1) 1]
  obtain e2 w2 where 2: "stage (\<lambda>s. s) unpack limits now ?temp name write w1 = (e2, w2)"
    by (cases "stage (\<lambda>s. s) unpack limits now ?temp name write w1")
  note h2 = holdingD [OF holding_stage [OF assms] h 2]
  have "holds n f (snd (Remove ?temp w2))" using holding_Remove [OF assms(2)] h2 by (auto simp: holding_def)
  then show "holds n f w'"
    using w 1 2 h by (auto simp: PublishInRootWithLimits_def Let_def removing_def split: if_splits option.splits)
qed

lemma keeps_freeBytes: "keeps N freeBytes"
  by (rule keepsI) (auto simp: freeBytes_def spares_def split: list.splits sum.splits prod.splits)

lemma holding_storageWriter [holding_steps]: "holding n f (storageWriter_Write maxFile written p)"
proof (rule holdingI)
  fix w r w' assume w: "holds n f w" "storageWriter_Write maxFile written p w = (r, w')"
  obtain e1 w1 where 1: "ctx_err w = (e1, w1)" by (cases "ctx_err w")
  obtain e2 w2 where 2: "freeBytes w1 = (e2, w2)" by (cases "freeBytes w1")
  obtain e3 w3 where 3: "enter w2 = (e3, w3)" by (cases "enter w2")
  note h1 = holdingD [OF holding_basic(2) w(1) 1]
  note h2 = holdingD [OF holding_keeps [OF keeps_freeBytes] h1 2]
  note h3 = holdingD [OF holding_basic(1) h2 3]
  show "holds n f w'"
    using w(2) 1 2 3 h1 h2 h3
    by (auto simp: storageWriter_Write_def Let_def split: option.splits sum.splits if_splits)
qed

lemma holding_budget_write [holding_steps]: "holding n f (budget_write chunks nl limits c maxFile)"
proof -
  have "holding n f (budget_chunks maxFile k ps)" for k ps
  proof (induction ps arbitrary: k)
    case (Cons p ps)
    show ?case
    proof (rule holdingI)
      fix w r w' assume w: "holds n f w" "budget_chunks maxFile k (p # ps) w = (r, w')"
      obtain e w1 where 1: "storageWriter_Write maxFile k p w = (e, w1)" by (cases "storageWriter_Write maxFile k p w")
      obtain r2 w2 where 2: "budget_chunks maxFile (k + int (length p)) ps w1 = (r2, w2)"
        by (cases "budget_chunks maxFile (k + int (length p)) ps w1")
      note h = holdingD [OF holding_storageWriter w(1) 1]
      show "holds n f w'" using w(2) 1 2 h holdingD [OF Cons.IH h 2] by (cases e) (auto split: prod.splits)
    qed
  qed (simp add: holding_def)
  from this [of 0] show ?thesis
    by (auto simp: holding_def budget_write_def split: prod.splits option.splits) (metis snd_conv)+
qed

section \<open>Scanning, preparing and rotating\<close>

lemma automatic_not_dot: "automaticName n \<Longrightarrow> n \<noteq> ''.lock'' \<and> \<not> partialName n \<and> n \<noteq> ''.'' @ m @ ''.partial''"
proof -
  assume a: "automaticName n"
  then have "take 14 n = ''blackbox-auto-''" by (simp add: automaticName_def sub_text_def)
  then have "take 1 (take 14 n) = ''b''" by simp
  then have "n \<noteq> ''.'' @ m'" for m' by auto
  from this [of "''lock''"] this [of "m @ ''.partial''"] show ?thesis using partial_not_automatic a by auto
qed

lemma holding_remove_partial: "m \<noteq> n \<Longrightarrow> holding n f (remove_partial m)"
  using holding_Remove [of m n f] by (auto simp: holding_def remove_partial_def split: prod.split)

lemma holding_scan_entry:
  assumes "automaticName n"
  shows "holding n f (scan_entry m st)"
proof (rule holdingI)
  fix w r w' assume w: "holds n f w" "scan_entry m st w = (r, w')"
  obtain e1 w1 where 1: "ctx_err w = (e1, w1)" by (cases "ctx_err w")
  obtain i w2 where 2: "Lstat m w1 = (i, w2)" by (cases "Lstat m w1")
  obtain e3 w3 where 3: "remove_partial m w2 = (e3, w3)" by (cases "remove_partial m w2")
  note h1 = holdingD [OF holding_basic(2) w(1) 1]
  note h2 = holdingD [OF holding_Lstat h1 2]
  have h3: "holds n f w3" if "partialName m"
  proof -
    have "m \<noteq> n" using that assms automatic_not_dot by blast
    then show ?thesis using holdingD [OF holding_remove_partial h2 3] by blast
  qed
  show "holds n f w'"
    using w(2) 1 2 3 h1 h2 h3
    by (auto simp: scan_entry_def Let_def split: prod.splits option.splits sum.splits if_splits)
qed

lemma holding_scan:
  assumes "automaticName n"
  shows "holding n f (scan batches)"
proof -
  have names: "holding n f (scan_names ns st)" for ns st
  proof (induction ns arbitrary: st)
    case (Cons m ns)
    show ?case
    proof (rule holdingI)
      fix w r w' assume w: "holds n f w" "scan_names (m # ns) st w = (r, w')"
      obtain x w1 where 1: "scan_entry m st w = (x, w1)" by (cases "scan_entry m st w")
      note h = holdingD [OF holding_scan_entry [OF assms] w(1) 1]
      show "holds n f w'" using w(2) 1 h holdingD [OF Cons.IH h] by (cases x) auto
    qed
  qed (simp add: holding_def)
  have "holding n f (scan_batches bs st)" for bs st
  proof (induction bs arbitrary: st)
    case (Cons b bs)
    obtain ns status where b: "b = (ns, status)" by (cases b)
    show ?case
    proof (rule holdingI)
      fix w r w' assume w: "holds n f w" "scan_batches (b # bs) st w = (r, w')"
      obtain e w1 where 1: "enter w = (e, w1)" by (cases "enter w")
      obtain x w2 where 2: "scan_names ns st w1 = (x, w2)" by (cases "scan_names ns st w1")
      note h1 = holdingD [OF holding_basic(1) w(1) 1]
      note h2 = holdingD [OF names h1 2]
      show "holds n f w'"
        using w(2) b 1 2 h1 h2 holdingD [OF Cons.IH h2]
        by (cases e; cases status; cases x) auto
    qed
  qed (simp add: holding_def)
  then show ?thesis
    by (auto simp: holding_def scan_def split: prod.splits sum.splits) (metis snd_conv)+
qed

lemma holding_prepare:
  assumes "automaticName n"
  shows "holding n f (prepare env)"
proof -
  have l: "holding n f check_lock"
    using holding_Lstat [of n f "''.lock''"]
    by (auto simp: holding_def check_lock_def split: prod.splits sum.splits)
  have o: "holding n f (open_lock now)" for now
  proof (rule holdingI)
    fix w r w' assume w: "holds n f w" "open_lock now w = (r, w')"
    obtain e w1 where 1: "enter w = (e, w1)" by (cases "enter w")
    note h = holdingD [OF holding_basic(1) w(1) 1]
    then show "holds n f w'"
      using w(2) 1 automatic_not_dot [OF assms]
      by (auto simp: open_lock_def holds_def split: option.splits if_splits)
  qed
  show ?thesis
    using l o by (simp add: prepare_def check_directory_def checkOwner_def lockDirectory_def holding_steps)
qed

text \<open>A file that is not in the list, or not as the list has it.\<close>

definition unlisted :: "string \<Rightarrow> inode \<Rightarrow> storedFile list \<Rightarrow> bool" where
  "unlisted n f files \<longleftrightarrow> (\<forall>s \<in> set files. sf_name s = n \<longrightarrow>
     \<not> (fi_regular f \<and> fi_size f = sf_size s \<and> fi_modified f = sf_modified s))"

lemma Lstat_holds: "holds n f w \<Longrightarrow> Lstat n w = (Inr info, w') \<Longrightarrow> info = f"
  using keepsD [OF keeps_enter] by (force simp: Lstat_def holds_def split: prod.splits option.splits)

lemma rotate_loop_holds:
  "holds n f w \<Longrightarrow> unlisted n f files \<Longrightarrow> rotate_loop limits added incoming files t removed w = (r, w') \<Longrightarrow> holds n f w'"
proof (induction files arbitrary: t removed w)
  case (Cons s files)
  obtain i w1 where 1: "Lstat (sf_name s) w = (i, w1)" by (cases "Lstat (sf_name s) w")
  obtain e w2 where 2: "Remove (sf_name s) w1 = (e, w2)" by (cases "Remove (sf_name s) w1")
  note h1 = holdingD [OF holding_Lstat Cons.prems(1) 1]
  have u: "unlisted n f files" using Cons.prems(2) by (simp add: unlisted_def)
  note ih1 = Cons.IH [OF h1 u]
  have h2: "holds n f w2 \<and> (\<forall>t removed. rotate_loop limits added incoming files t removed w2 = (r, w') \<longrightarrow> holds n f w')"
    if "sf_name s \<noteq> n"
    using holdingD [OF holding_Remove [OF that] h1 2] Cons.IH [OF _ u] by blast
  have changed: "\<not> fi_regular info \<or> fi_size info \<noteq> sf_size s \<or> fi_modified info \<noteq> sf_modified s"
    if "sf_name s = n" "i = Inr info" for info
    using Lstat_holds [OF Cons.prems(1)] 1 that Cons.prems(2) by (auto simp: unlisted_def)
  show ?case
  proof (cases "sf_name s = n")
    case True
    then show ?thesis
      using Cons.prems(1,3) 1 h1 ih1 changed by (auto split: if_splits sum.splits)
  next
    case False
    then show ?thesis
      using Cons.prems(1,3) 1 2 h1 h2 ih1 by (auto split: if_splits sum.splits option.splits)
  qed
qed (auto simp: holding_def)

lemma rotate_holds:
  assumes "holds n f w" "unlisted n f files" "rotate files t added incoming limits w = (r, w')"
  shows "holds n f w'"
proof -
  obtain x w1 where 1: "rotate_loop limits added incoming files t False w = (x, w1)"
    by (cases "rotate_loop limits added incoming files t False w")
  note h = rotate_loop_holds [OF assms(1,2) 1]
  obtain e w2 where 2: "enter w1 = (e, w2)" by (cases "enter w1")
  show ?thesis
    using assms(3) 1 2 h holdingD [OF holding_basic(1) h 2]
    by (auto simp: rotate_def split: prod.splits if_splits option.splits)
qed

section \<open>What a scan lists was there\<close>

text \<open>The files added to the list: managed files of the directory \<open>w\<close>, for names of \<open>ns\<close> in their order.\<close>

definition found_in :: "os \<Rightarrow> string list \<Rightarrow> storedFile list \<Rightarrow> bool" where
  "found_in w ns files \<longleftrightarrow> subseq (map sf_name files) ns
     \<and> (\<forall>s \<in> set files. automaticName (sf_name s) \<and> (\<exists>f. os_dir w (sf_name s) = Some f \<and> sf_size s = fi_size f))"

lemma found_in_append: "found_in w ms xs \<Longrightarrow> found_in w ns ys \<Longrightarrow> found_in w (ms @ ns) (xs @ ys)"
  by (auto simp: found_in_def intro: list_emb_append_mono)

lemma scan_entry_found:
  assumes "below w v" "scan_entry n st v = (Inr st', v')"
  shows "below w v' \<and> (\<exists>new. fst st' = fst st @ new \<and> found_in w [n] new)"
proof -
  obtain files t seen where st: "st = (files, t, seen)" by (cases st)
  obtain files' t' seen' where st': "st' = (files', t', seen')" by (cases st')
  have b: "below w v'"
    using scan_entry_accounts [OF below_shrinks [OF assms(1)], of n files t seen files' t' seen' v'] assms st st' below_trans
    by blast
  obtain e1 w1 where 1: "ctx_err v = (e1, w1)" by (cases "ctx_err v")
  obtain i w2 where 2: "Lstat n w1 = (i, w2)" by (cases "Lstat n w1")
  note b1 = below_trans [OF assms(1) shrinkingD [OF shrinking_ctx_err below_shrinks [OF assms(1)] 1]]
  note b2 = below_trans [OF b1 shrinkingD [OF shrinking_Lstat below_shrinks [OF b1] 2]]
  have r: "files' = files \<or> (\<exists>f. i = Inr f \<and> automaticName n
      \<and> files' = files @ [\<lparr>sf_name = n, sf_size = fi_size f, sf_modified = fi_modified f\<rparr>])"
    using assms(2) 1 2 st st'
    by (auto simp: scan_entry_def Let_def split: option.splits sum.splits if_splits prod.splits)
  have "os_dir w n = Some f" if "i = Inr f" "automaticName n" for f
  proof -
    have "os_dir w2 n = Some f" using that(1) 2 by (auto simp: Lstat_def split: prod.splits option.splits)
    then show ?thesis using b2 that(2) unfolding below_def ours_def by (metis option.discI)
  qed
  then show ?thesis using b r st st' by (auto simp: found_in_def)
qed

lemma scan_names_found:
  "below w v \<Longrightarrow> scan_names ns st v = (Inr st', v') \<Longrightarrow> below w v' \<and> (\<exists>new. fst st' = fst st @ new \<and> found_in w ns new)"
proof (induction ns arbitrary: st v)
  case (Cons n ns)
  obtain x w1 where 1: "scan_entry n st v = (x, w1)" by (cases "scan_entry n st v")
  then obtain st1 where x: "x = Inr st1" using Cons.prems(2) by (cases x) auto
  obtain new where new: "below w w1" "fst st1 = fst st @ new" "found_in w [n] new"
    using scan_entry_found Cons.prems(1) 1 x by blast
  have "scan_names ns st1 w1 = (Inr st', v')" using Cons.prems(2) 1 x by simp
  then obtain new2 where "below w v'" "fst st' = fst st1 @ new2" "found_in w ns new2"
    using Cons.IH [OF new(1)] by blast
  then show ?case using new found_in_append [of w "[n]" new ns new2] by auto
qed (auto simp: found_in_def)

lemma scan_batches_found:
  "below w v \<Longrightarrow> scan_batches bs st v = (Inr st', v') \<Longrightarrow>
   below w v' \<and> (\<exists>new. fst st' = fst st @ new \<and> found_in w (listed_names bs) new)"
proof (induction bs arbitrary: st v)
  case (Cons b bs)
  obtain ns status where b: "b = (ns, status)" by (cases b)
  obtain e w1 where 1: "enter v = (e, w1)" by (cases "enter v")
  note b1 = below_trans [OF Cons.prems(1) shrinkingD [OF shrinking_enter below_shrinks [OF Cons.prems(1)] 1]]
  obtain x w2 where 2: "scan_names ns st w1 = (x, w2)" by (cases "scan_names ns st w1")
  obtain st2 where x: "x = Inr st2" "e = None" "\<forall>e. status \<noteq> Failed e"
    using Cons.prems(2) b 1 2 by (cases e; cases status; cases x) auto
  obtain new where new: "below w w2" "fst st2 = fst st @ new" "found_in w ns new"
    using scan_names_found [OF b1] 2 x by blast
  show ?case
  proof (cases "status = End")
    case True
    then show ?thesis using Cons.prems(2) b 1 2 x new by auto
  next
    case False
    then have "scan_batches bs st2 w2 = (Inr st', v')"
      using Cons.prems(2) b 1 2 x by (cases status) auto
    then obtain new2 where "below w v'" "fst st' = fst st2 @ new2" "found_in w (listed_names bs) new2"
      using Cons.IH [OF new(1)] by blast
    then show ?thesis using new found_in_append [of w ns new "listed_names bs" new2] b False by auto
  qed
qed (auto simp: found_in_def)

end
