(* ===== verification/Store_Theorems.thy ===== *)
theory Store_Theorems
  imports Store_Spares
begin

text \<open>
  The promises of the automatic store: a saved capture leaves the directory within its quota, and
  only captures that were listed and have not changed are ever removed.
\<close>

section \<open>The name of a new capture is a managed one\<close>

lemma list_all_digits_pad: "0 \<le> x \<Longrightarrow> list_all is_digit (pad_zero w (show_int x))"
  using show_nat_digits by (auto simp: pad_zero_def show_int_nat list_all_iff is_digit_def)

lemma pad_two: "0 \<le> x \<Longrightarrow> x \<le> k \<Longrightarrow> k \<le> 99 \<Longrightarrow> length (pad_zero 2 (show_int x)) = 2"
  using pad_2 [of "nat x"] by (simp add: show_int_nat)

lemma compact_time_fields:
  assumes "time_ok now"
  shows "\<exists>ds ts. compact_time now = ds @ ''T'' @ ts @ ''Z'' \<and> length ds = 8 \<and> length ts = 6 \<and> list_all is_digit ds \<and> list_all is_digit ts"
proof -
  define secs where "secs = now div Second"
  define s where "s = secs mod 86400"
  obtain y m d where c: "civil_date (secs div 86400 + 306) = (y, m, d)" by (metis prod_cases3)
  note p = civil_date_props [OF c]
  have y: "0 \<le> y" "y \<le> 9999"
    using assms c by (auto simp: time_ok_def time_text_def Let_def secs_def split: if_splits)
  have s: "0 \<le> s" "s < 86400" by (simp_all add: s_def)
  note f = clock_fields [OF s]
  have d: "d \<le> 31" using p(4) by (auto simp: daysIn_def split: if_splits)
  define ds where "ds = pad_zero 4 (show_int y) @ pad_zero 2 (show_int m) @ pad_zero 2 (show_int d)"
  define ts where "ts = pad_zero 2 (show_int (s div 3600)) @ pad_zero 2 (show_int (s mod 3600 div 60)) @ pad_zero 2 (show_int (s mod 60))"
  have "compact_time now = ds @ ''T'' @ ts @ ''Z''"
    using y c by (simp add: compact_time_def Let_def ds_def ts_def s_def secs_def [symmetric])
  moreover have "length (pad_zero 4 (show_int y)) = 4" using pad_4 [of "nat y"] y by (simp add: show_int_nat)
  moreover have "length (pad_zero 2 (show_int m)) = 2" "length (pad_zero 2 (show_int d)) = 2"
    using pad_two [OF _ p(2)] pad_two [OF _ d] p(1,3) by simp_all
  moreover have "length (pad_zero 2 (show_int (s div 3600))) = 2" "length (pad_zero 2 (show_int (s mod 3600 div 60))) = 2"
    "length (pad_zero 2 (show_int (s mod 60))) = 2"
    using pad_two [OF f(1,2)] pad_two [OF f(3,4)] pad_two [OF f(5,6)] by simp_all
  moreover have "list_all is_digit ds"
    using list_all_digits_pad y(1) p(1,3) by (simp add: ds_def)
  moreover have "list_all is_digit ts"
    unfolding ts_def list_all_append using f(1,3,5) by (intro conjI list_all_digits_pad)
  ultimately show ?thesis
    by (intro exI [of _ ds] exI [of _ ts]) (simp only: ds_def ts_def length_append, simp)
qed

lemma hex_text_fields: "length (hex_text bs) = 2 * length bs" "list_all is_hex (hex_text bs)"
proof -
  have "is_hex (hex_digit k)" if "k < 16" for k
    using that by (auto simp: is_hex_def hex_digit_def is_digit_def between_def byte_def)
  moreover have "unat b div 16 < 16" for b :: u8
  proof -
    have "unat b < 2 ^ LENGTH(8)" by (rule unsigned_less)
    then show ?thesis by (simp add: less_mult_imp_div_less)
  qed
  ultimately show "length (hex_text bs) = 2 * length bs" "list_all is_hex (hex_text bs)"
    by (induction bs) (simp_all add: hex_text_def)
qed

lemma auto_name_automatic:
  assumes "time_ok now" "length random = 8"
  shows "automaticName (auto_name now random)"
proof -
  obtain ds ts where c: "compact_time now = ds @ ''T'' @ ts @ ''Z''" "length ds = 8" "length ts = 6" "list_all is_digit ds" "list_all is_digit ts"
    using compact_time_fields [OF assms(1)] by blast
  define h where "h = hex_text random"
  have h: "length h = 16" "list_all is_hex h" using hex_text_fields assms(2) by (simp_all add: h_def)
  show ?thesis
    using c(2-5) h by (simp add: automaticName_def auto_name_def c(1) h_def [symmetric] sub_text_def)
qed

section \<open>The quota\<close>

definition managed :: "os \<Rightarrow> string set" where
  "managed w = {n. automaticName n \<and> os_dir w n \<noteq> None}"

definition managed_size :: "os \<Rightarrow> int" where
  "managed_size w = (\<Sum>n \<in> managed w. fi_size (the (os_dir w n)))"

lemma covered_sum:
  assumes "finite A" "nonnegative files" "\<And>n. n \<in> A \<Longrightarrow> \<exists>s \<in> set files. sf_name s = n \<and> sf_size s = g n"
  shows "card A \<le> length files \<and> sum g A \<le> sizes files"
  using assms
proof (induction files arbitrary: A)
  case Nil
  then have "A = {}" by auto
  then show ?case by simp
next
  case (Cons s files)
  define B where "B = {n \<in> A. \<exists>s \<in> set files. sf_name s = n \<and> sf_size s = g n}"
  have B: "card B \<le> length files \<and> sum g B \<le> sizes files"
    using Cons.prems unfolding B_def by (intro Cons.IH) (auto simp: nonnegative_def)
  have fin: "finite B" using Cons.prems(1) by (simp add: B_def)
  show ?case
  proof (cases "A \<subseteq> B")
    case True
    then have "A = B" by (auto simp: B_def)
    then show ?thesis using B Cons.prems(2) by (auto simp: nonnegative_def)
  next
    case False
    have "A \<subseteq> insert (sf_name s) B"
    proof
      fix n assume "n \<in> A"
      then obtain s' where "s' \<in> set (s # files)" "sf_name s' = n" "sf_size s' = g n" using Cons.prems(3) by blast
      then show "n \<in> insert (sf_name s) B" using \<open>n \<in> A\<close> by (auto simp: B_def)
    qed
    then have A: "A = insert (sf_name s) B" "sf_name s \<notin> B" using False by (auto simp: B_def)
    then obtain s' where "s' \<in> set (s # files)" "sf_name s' = sf_name s" "sf_size s' = g (sf_name s)"
      using Cons.prems(3) by blast
    moreover have "s' \<notin> set files" using calculation A by (auto simp: B_def)
    ultimately have "sf_size s = g (sf_name s)" by simp
    then have "sum g A = sf_size s + sum g B" "card A = Suc (card B)"
      using A(2) fin by (simp_all add: A(1))
    then show ?thesis using B by simp
  qed
qed

lemma budget_write_bytes:
  assumes "budget_write chunks nl limits c maxFile v = ((bytes, None), v')"
  shows "bytes = concat (chunks (fst (Container_Write nl no_errors limits c)))"
proof -
  have "budget_chunks maxFile k ps v = ((bytes, None), v') \<Longrightarrow> bytes = concat ps" for k ps v v' bytes
    by (induction ps arbitrary: k v bytes) (fastforce split: prod.splits option.splits)+
  then show ?thesis
    using assms by (auto simp: budget_write_def split: prod.splits option.splits)
qed

text \<open>C0: After an automatic capture has been saved without an error, the captures in the directory are
  within both quotas, even though other processes may remove captures, and change any other file, between
  any two calls; provided the listing has every capture of the directory and names come from 8 random
  bytes and a year of four digits.\<close>

theorem saved_within_quota:
  assumes "save unpack chunks nl env cfg c w = ((path, None), w')"
    and "shrinks w" "managed w \<subseteq> set (listed_names (se_listing env))"
    and "time_ok (se_now env)" "\<forall>r. se_random env = Inr r \<longrightarrow> length r = 8"
  shows "int (card (managed w')) \<le> ac_MaxFiles (cf_AutoCapture cfg) \<and> managed_size w' \<le> ac_MaxStorage (cf_AutoCapture cfg)"
proof -
  let ?a = "cf_AutoCapture cfg"
  obtain w1 files1 t1 w2 files2 t2 w3 r w4 files3 t3 where
    prep: "prepare env w = (None, w1)" and sc: "scan (se_listing env) w1 = (Inr (files1, t1), w2)"
    and rep: "repair ?a files1 t1 w2 = (Inr (files2, t2), w3)" and rnd: "se_random env = Inr r"
    and pub: "PublishInRootWithLimits unpack (cf_Capture cfg) (se_now env) (auto_name (se_now env) r)
      (budget_write chunks nl (cf_Capture cfg) c (min (ac_MaxStorage ?a) (cn_MaxCaptureBytes (cf_Control cfg)))) w3 = (None, w4)"
    and rot: "rotate files2 t2 (int (length (concat (chunks (fst (Container_Write nl no_errors (cf_Capture cfg) c)))))) 1 ?a w4
      = ((files3, t3, None), w')"
    using assms(1) unfolding save_def Let_def
    by (auto split: if_split_asm prod.split_asm option.split_asm sum.split_asm)
  let ?name = "auto_name (se_now env) r" and ?N = "set (listed_names (se_listing env))"
  define bytes where "bytes = concat (chunks (fst (Container_Write nl no_errors (cf_Capture cfg) c)))"
  have name: "automaticName ?name" using auto_name_automatic assms(4,5) rnd by blast
  note b1 = shrinkingD [OF shrinking_prepare assms(2) prep]
  have k2: "below w1 w2 \<and> books ?N files1 t1 w2" by (rule scan_books [OF below_shrinks [OF b1] sc])
  have b2: "below w w2" using b1 k2 below_trans by blast
  have "books UNIV files1 t1 w2"
  proof -
    have "n \<in> ?N" if "automaticName n" "os_dir w2 n \<noteq> None" for n
    proof -
      have "os_dir w n \<noteq> None" using that b2 unfolding below_def ours_def by metis
      then show ?thesis using assms(3) that(1) by (auto simp: managed_def)
    qed
    then show ?thesis using k2 unfolding books_def accounts_def by blast
  qed
  then have k3: "books UNIV files2 t2 w3"
    using rep rotate_books [of UNIV files1 t1 w2 0 0 ?a files2 t2 None w3]
    by (auto simp: repair_def split: if_splits prod.splits option.splits)
  have sh: "shrinks w3" using k3 by (simp add: books_def)
  note k4 = publish_managed [OF sh name shrinking_budget_write pub]
  then have new: "\<forall>f. os_dir w4 ?name = Some f \<longrightarrow> fi_content f = bytes"
    using budget_write_bytes unfolding bytes_def by metis
  have "books (UNIV - {?name}) files2 t2 w4"
    using k3 k4 unfolding books_def accounts_def by (metis DiffD2 UNIV_I option.discI singletonI)
  note k5 = rotate_books [OF this rot, folded bytes_def]
  then have books: "books (UNIV - {?name}) files3 t3 w'" and b5: "below w4 w'" by blast+
  have quota: "int (length files3) + 1 \<le> ac_MaxFiles ?a" "sizes files3 + int (length bytes) \<le> ac_MaxStorage ?a"
    using k5 by (auto simp: over_quota_def books_def)
  have new': "\<forall>f. os_dir w' ?name = Some f \<longrightarrow> fi_size f = int (length bytes)"
    using new b5 name by (force simp: below_def ours_def fi_size_def)
  let ?A = "managed w' - {?name}" and ?g = "\<lambda>n. fi_size (the (os_dir w' n))"
  have cover: "\<exists>s \<in> set files3. sf_name s = n \<and> sf_size s = ?g n" if "n \<in> ?A" for n
    using books that unfolding books_def accounts_def managed_def by auto
  then have "?A \<subseteq> sf_name ` set files3" by force
  then have fin: "finite ?A" using finite_subset by blast
  have c: "card ?A \<le> length files3 \<and> sum ?g ?A \<le> sizes files3"
    using books cover by (intro covered_sum [OF fin]) (auto simp: books_def)
  show ?thesis
  proof (cases "?name \<in> managed w'")
    case True
    then have "managed w' = insert ?name ?A" by blast
    then have "card (managed w') = Suc (card ?A)" "managed_size w' = ?g ?name + sum ?g ?A"
      using fin unfolding managed_size_def by (metis card_insert_disjoint Diff_iff insertI1, metis sum.insert Diff_iff insertI1)
    moreover have "?g ?name = int (length bytes)" using True new' by (auto simp: managed_def)
    ultimately show ?thesis using c quota by simp
  next
    case False
    then have "?A = managed w'" by simp
    then show ?thesis using c quota unfolding managed_size_def by simp
  qed
qed

definition auto_example_name :: string where
  "auto_example_name = ''blackbox-auto-20000101T000000Z-0000000000000000.bbx''"

definition old_capture :: inode where
  "old_capture = \<lparr>fi_regular = True, fi_content = ''old'', fi_modified = 1\<rparr>"

definition one_file :: Config where
  "one_file = Default\<lparr>cf_AutoCapture := (cf_AutoCapture Default)\<lparr>ac_MaxFiles := 1\<rparr>\<rparr>"

definition example_env :: save_env where
  "example_env = \<lparr>se_isdir = True, se_perm = 448, se_uid = 0, se_euid = 0, se_owner_perm = 448, se_busy = None,
     se_listing = [([auto_example_name], End)], se_random = Inr (replicate 8 7), se_now = 63113904000000000000\<rparr>"

definition example_directory :: os where
  "example_directory = \<lparr>os_dir = [auto_example_name \<mapsto> old_capture], os_script = [], os_ctx = [], os_statfs = []\<rparr>"

lemma example_names: "automaticName auto_example_name" "\<not> partialName auto_example_name"
  "auto_name 63113904000000000000 (replicate 8 7) = ''blackbox-auto-20010101T000000Z-0707070707070707.bbx''"
  by code_simp+

definition idle_os :: "os \<Rightarrow> bool" where
  "idle_os w \<longleftrightarrow> os_script w = [] \<and> os_ctx w = [] \<and> os_statfs w = []"

lemma idle_calls:
  assumes "idle_os v"
  shows "enter v = (None, v)" "ctx_err v = (None, v)" "freeBytes v = (Inr (- 1), v)"
  using assms by (simp_all add: idle_os_def enter_def ctx_err_def freeBytes_def)

lemma idle_dir [simp]: "idle_os (v\<lparr>os_dir := d\<rparr>) = idle_os v"
  by (simp add: idle_os_def)

text \<open>A publication that nothing disturbs.\<close>

lemma publish_idle:
  assumes "idle_os w" "plain_name name" "os_dir w name = None" "os_dir w (''.'' @ name @ ''.partial'') = None"
    and "\<And>v. idle_os v \<Longrightarrow> write v = ((bytes, None), v)" "Container_Read unpack limits bytes = Inr c"
  shows "PublishInRootWithLimits unpack limits now name write w
    = (None, w\<lparr>os_dir := (os_dir w)(name \<mapsto> \<lparr>fi_regular = True, fi_content = bytes, fi_modified = now\<rparr>)\<rparr>)"
proof -
  define temp where "temp = ''.'' @ name @ ''.partial''"
  have t: "temp \<noteq> name" "os_dir w temp = None" using partial_name assms(4) by (simp_all add: temp_def)
  have F: "CHR ''.'' # name @ ''.partial'' = temp" by (simp add: temp_def)
  have u: "((os_dir w)(temp \<mapsto> f, name \<mapsto> f))(temp := None) = (os_dir w)(name \<mapsto> f)" for f
    using t by auto
  show ?thesis
    using assms(1-3,5,6) t
    by (simp add: PublishInRootWithLimits_def Let_def F idle_calls CreateExclusive_def removing_def stage_def
        write_file_def finishPublication_def wrapped_def validate_def contextReader_Read_def publish_step_def Link_def Remove_def u)
qed

lemma budget_write_idle:
  assumes "idle_os v" "Container_Write nl no_errors limits c = (es, None)" "chunks es = [bytes]"
    and "int (length bytes) \<le> maxFile"
  shows "budget_write chunks nl limits c maxFile v = ((bytes, None), v)"
proof -
  have "\<not> (- 1 :: u64) < x" for x by (simp add: not_less)
  then show ?thesis
    using assms by (simp add: budget_write_def storageWriter_Write_def Let_def idle_calls)
qed

lemma old_capture_simps: "fi_size old_capture = 3" "fi_modified old_capture = 1" "fi_regular old_capture"
  by (simp_all add: old_capture_def fi_size_def)

lemma example_scan:
  "\<exists>w1. idle_os w1 \<and> os_dir w1 = [auto_example_name \<mapsto> old_capture,
      ''.lock'' \<mapsto> \<lparr>fi_regular = True, fi_content = [], fi_modified = 63113904000000000000\<rparr>]
    \<and> prepare example_env example_directory = (None, w1)
    \<and> scan (se_listing example_env) w1 = (Inr ([\<lparr>sf_name = auto_example_name, sf_size = 3, sf_modified = 1\<rparr>], 3), w1)"
proof -
  have lock: "auto_example_name \<noteq> ''.lock''" by (simp add: auto_example_name_def)
  define w1 where "w1 = example_directory\<lparr>os_dir :=
      (os_dir example_directory)(''.lock'' \<mapsto> \<lparr>fi_regular = True, fi_content = [], fi_modified = 63113904000000000000\<rparr>)\<rparr>"
  have i0: "idle_os example_directory" by (simp add: idle_os_def example_directory_def)
  then have i1: "idle_os w1" by (simp add: w1_def)
  have none: "os_dir example_directory ''.lock'' = None" using lock by (simp add: example_directory_def)
  have prep: "prepare example_env example_directory = (None, w1)"
    using none i0 by (simp add: prepare_def check_directory_def checkOwner_def check_lock_def Lstat_def open_lock_def lockDirectory_def
        wrapped_def idle_calls example_env_def private_perm_def w1_def)
  have old: "os_dir w1 auto_example_name = Some old_capture" using lock by (simp add: w1_def example_directory_def)
  define old_file where "old_file = \<lparr>sf_name = auto_example_name, sf_size = 3, sf_modified = 1\<rparr>"
  have limit: "\<not> AutoDirectoryEntries < 1" by code_simp
  have sc: "scan (se_listing example_env) w1 = (Inr ([old_file], 3), w1)"
    using i1 old old_capture_simps example_names(1,2)
    by (simp add: scan_def example_env_def scan_entry_def idle_calls Lstat_def by_age_def old_file_def max_int64_def limit del: One_nat_def)
  show ?thesis
    using i1 prep sc by (intro exI [of _ w1]) (simp add: old_file_def, simp add: w1_def example_directory_def)
qed

text \<open>With a quota of one file, saving a capture replaces the old one.\<close>

lemma example_saved:
  "\<exists>path w'. save unary_unpack (\<lambda>es. [pack_entries es]) (\<lambda>_. False) example_env one_file small_capture example_directory
    = ((path, None), w')"
proof -
  obtain es where w: "Container_Write (\<lambda>_. False) no_errors (cf_Capture Default) small_capture = (es, None)"
    "length (pack_entries es) < 20000"
    using small_written by blast
  have read: "Container_Read unary_unpack (cf_Capture Default) (pack_entries es) = Inr small_capture"
    using read_written [OF w(1) small_ok small_valid] Container_Write_done(1) [OF w(1)]
    by (auto simp: Container_Read_def Let_def unary_unpack_pack archive_of_def)
  have lim: "cf_Capture one_file = cf_Capture Default" "ac_MaxFiles (cf_AutoCapture one_file) = 1"
    "20003 \<le> ac_MaxStorage (cf_AutoCapture one_file)" "20000 \<le> cn_MaxCaptureBytes (cf_Control one_file)"
    by code_simp+
  have incident: "mf_AutoIncident (cp_Manifest small_capture) \<noteq> None"
    "AutoIncident_Valid (mf_AutoIncident (cp_Manifest small_capture)) (mf_EndMonoNS (cp_Manifest small_capture))"
    by code_simp+
  obtain w1 where i1: "idle_os w1" and w1: "os_dir w1 = [auto_example_name \<mapsto> old_capture,
      ''.lock'' \<mapsto> \<lparr>fi_regular = True, fi_content = [], fi_modified = 63113904000000000000\<rparr>]"
    and prep: "prepare example_env example_directory = (None, w1)"
    and sc: "scan (se_listing example_env) w1 = (Inr ([\<lparr>sf_name = auto_example_name, sf_size = 3, sf_modified = 1\<rparr>], 3), w1)"
    using example_scan by blast
  have old: "os_dir w1 auto_example_name = Some old_capture" by (simp add: w1 auto_example_name_def)
  note size = old_capture_simps
  let ?name = "auto_name (se_now example_env) (replicate 8 7)"
  let ?bytes = "pack_entries es" and ?max = "min (ac_MaxStorage (cf_AutoCapture one_file)) (cn_MaxCaptureBytes (cf_Control one_file))"
  let ?f = "\<lparr>fi_regular = True, fi_content = ?bytes, fi_modified = se_now example_env\<rparr>"
  have now: "se_now example_env = 63113904000000000000" by (simp add: example_env_def)
  have name: "plain_name ?name" "os_dir w1 ?name = None" "os_dir w1 (''.'' @ ?name @ ''.partial'') = None" "?name \<noteq> auto_example_name"
    by (simp_all add: now example_names plain_name_def w1 auto_example_name_def)
  have pub: "PublishInRootWithLimits unary_unpack (cf_Capture one_file) (se_now example_env) ?name
      (budget_write (\<lambda>es. [pack_entries es]) (\<lambda>_. False) (cf_Capture one_file) small_capture ?max) w1
      = (None, w1\<lparr>os_dir := (os_dir w1)(?name \<mapsto> ?f)\<rparr>)"
    using w(1) w(2) lim by (intro publish_idle [OF i1 name(1-3) _ read [folded lim(1)]] budget_write_idle) simp_all
  have rot: "\<exists>w'. rotate [\<lparr>sf_name = auto_example_name, sf_size = 3, sf_modified = 1\<rparr>] 3 (int (length ?bytes)) 1 (cf_AutoCapture one_file) (w1\<lparr>os_dir := (os_dir w1)(?name \<mapsto> ?f)\<rparr>)
      = (([], 0, None), w')"
    using i1 old size name(4) lim w(2)
    by (simp add: rotate_def over_quota_def Lstat_def Remove_def idle_calls)
  show ?thesis
    using incident prep sc pub rot lim w(1)
    by (auto simp: save_def Let_def repair_def example_env_def)
qed

theorem saved_within_quota_witness:
  "\<exists>path w'. save unary_unpack (\<lambda>es. [pack_entries es]) (\<lambda>_. False) example_env one_file small_capture example_directory
      = ((path, None), w')
    \<and> int (card (managed w')) \<le> ac_MaxFiles (cf_AutoCapture one_file)
    \<and> managed_size w' \<le> ac_MaxStorage (cf_AutoCapture one_file)"
proof -
  obtain path w' where s: "save unary_unpack (\<lambda>es. [pack_entries es]) (\<lambda>_. False) example_env one_file small_capture example_directory
      = ((path, None), w')"
    using example_saved by blast
  have "shrinks example_directory" by (simp add: shrinks_def example_directory_def)
  moreover have "managed example_directory \<subseteq> set (listed_names (se_listing example_env))"
    by (auto simp: managed_def example_directory_def example_env_def split: if_splits)
  moreover have "time_ok (se_now example_env)" by (simp add: example_env_def time_ok_def small_time)
  moreover have "\<forall>r. se_random example_env = Inr r \<longrightarrow> length r = 8" by (simp add: example_env_def)
  ultimately show ?thesis using s saved_within_quota [OF s] by blast
qed


section \<open>Captures are not lost\<close>

lemma found_within:
  assumes "found_in w names files" "distinct names" "finite (managed w)"
  shows "length files \<le> card (managed w) \<and> sizes files \<le> managed_size w"
proof -
  let ?g = "\<lambda>n. fi_size (the (os_dir w n))"
  have d: "distinct (map sf_name files)"
    using assms(1,2) unfolding found_in_def by (metis subseq_conv_nths distinct_nthsI)
  have sub: "sf_name ` set files \<subseteq> managed w"
    using assms(1) by (auto simp: found_in_def managed_def)
  have "length files = card (sf_name ` set files)"
    using d distinct_card [of "map sf_name files"] by simp
  moreover have "sizes files = sum_list (map ?g (map sf_name files))"
    using assms(1) unfolding sizes_def by (intro arg_cong [where f = sum_list]) (force simp: found_in_def)
  then have "sizes files = sum ?g (sf_name ` set files)"
    using sum_list_distinct_conv_sum_set [OF d, of ?g] by simp
  moreover have "0 \<le> ?g n" for n by (simp add: fi_size_def)
  ultimately show ?thesis
    using card_mono [OF assms(3) sub] sum_mono2 [OF assms(3) sub, of ?g] by (simp add: managed_size_def)
qed


text \<open>C0: A failed save loses no automatic capture.  If \<open>save\<close> returns an error and no path while the
  directory was within its quotas, every managed capture that other processes leave alone is still there,
  whatever call failed.\<close>

theorem failed_save_keeps_captures:
  assumes "save unpack chunks nl env cfg c w = (([], Some e), w')"
    and "shrinks w" "finite (managed w)" "distinct (listed_names (se_listing env))"
    and "int (card (managed w)) \<le> ac_MaxFiles (cf_AutoCapture cfg)" "managed_size w \<le> ac_MaxStorage (cf_AutoCapture cfg)"
    and "automaticName n" "os_dir w n = Some f" "spares {n} w"
  shows "os_dir w' n = Some f"
proof -
  let ?a = "cf_AutoCapture cfg"
  have h0: "holds n f w" using assms(8,9) by (simp add: holds_def)
  obtain p w1 where prep: "prepare env w = (p, w1)" by (cases "prepare env w")
  note h1 = holdingD [OF holding_prepare [OF assms(7)] h0 prep]
  obtain s w2 where sc: "scan (se_listing env) w1 = (s, w2)" by (cases "scan (se_listing env) w1")
  note h2 = holdingD [OF holding_scan [OF assms(7)] h1 sc]
  have fits: "length files \<le> card (managed w) \<and> t \<le> managed_size w" if found: "s = Inr (files, t)" for files t
  proof -
    note b = shrinkingD [OF shrinking_prepare assms(2) prep]
    obtain files0 seen where f: "scan_batches (se_listing env) ([], 0, 0) w1 = (Inr (files0, t, seen), w2)" "files = by_age files0"
      using sc found by (auto simp: scan_def split: prod.splits sum.splits)
    have "found_in w (listed_names (se_listing env)) files0" using scan_batches_found [OF b f(1)] by auto
    then have "length files0 \<le> card (managed w) \<and> sizes files0 \<le> managed_size w"
      using found_within assms(3,4) by blast
    moreover have "t = sizes files" using scan_books [OF below_shrinks [OF b]] sc found by (auto simp: books_def)
    moreover have "sizes files = sizes files0" "length files = length files0"
      by (simp_all add: f(2) by_age_def sizes_def flip: sum_mset_sum_list)
    ultimately show ?thesis by simp
  qed
  have h3: "repair ?a files t w2 = (Inr (files, t), w2)" if "s = Inr (files, t)" for files t
    using fits [OF that] assms(5,6) by (simp add: repair_def)
  have pub: "holds n f w4" if "PublishInRootWithLimits unpack (cf_Capture cfg) (se_now env) name
      (budget_write chunks nl (cf_Capture cfg) c m) w2 = (r, w4)" for name m r w4
    by (rule holdingD [OF holding_publish [OF holding_budget_write] h2 that]) (use automatic_not_dot [OF assms(7)] in blast)
  have path: "Join_path d (auto_name t r) \<noteq> []" for d t r by (simp add: Join_path_def auto_name_def)
  have "holds n f w'"
    using assms(1) h0 h1 h2 prep sc h3 pub path unfolding save_def Let_def
    by (fastforce split: if_split_asm prod.split_asm option.split_asm sum.split_asm)
  then show ?thesis by (simp add: holds_def)
qed


definition no_entropy :: save_env where
  "no_entropy = example_env\<lparr>se_random := Inl (External ''no entropy'')\<rparr>"

theorem failed_save_keeps_captures_witness:
  "\<exists>w'. save unary_unpack (\<lambda>es. [pack_entries es]) (\<lambda>_. False) no_entropy Default small_capture example_directory
      = (([], Some (External ''no entropy'')), w')
    \<and> os_dir w' auto_example_name = Some old_capture"
proof -
  have env: "prepare no_entropy = prepare example_env" "se_listing no_entropy = se_listing example_env"
    by (simp_all add: no_entropy_def fun_eq_iff prepare_def check_directory_def checkOwner_def lockDirectory_def)
  have lim: "2 \<le> ac_MaxFiles (cf_AutoCapture Default)" "3 \<le> ac_MaxStorage (cf_AutoCapture Default)" by code_simp+
  have incident: "mf_AutoIncident (cp_Manifest small_capture) \<noteq> None"
    "AutoIncident_Valid (mf_AutoIncident (cp_Manifest small_capture)) (mf_EndMonoNS (cp_Manifest small_capture))"
    by code_simp+
  obtain w1 where w1: "prepare example_env example_directory = (None, w1)"
    "scan (se_listing example_env) w1 = (Inr ([\<lparr>sf_name = auto_example_name, sf_size = 3, sf_modified = 1\<rparr>], 3), w1)"
    using example_scan by blast
  have s: "save unary_unpack (\<lambda>es. [pack_entries es]) (\<lambda>_. False) no_entropy Default small_capture example_directory
      = (([], Some (External ''no entropy'')), w1)"
    using incident lim w1 env by (auto simp: save_def Let_def repair_def) (simp add: no_entropy_def)
  have m: "managed example_directory = {auto_example_name}"
    by (auto simp: managed_def example_directory_def example_names split: if_splits)
  have dir: "os_dir example_directory auto_example_name = Some old_capture" "os_script example_directory = []"
    by (simp_all add: example_directory_def)
  have size: "managed_size example_directory = 3"
    by (simp add: managed_size_def m dir old_capture_simps)
  have "os_dir w1 auto_example_name = Some old_capture"
    by (rule failed_save_keeps_captures [OF s])
      (use lim in \<open>simp_all add: m size dir example_names shrinks_def spares_def no_entropy_def example_env_def\<close>)
  then show ?thesis using s by blast
qed


text \<open>Rotation never removes a capture it does not know.  A file that other processes leave alone
  stays, whatever the quota and whatever fails, if no entry of the list has both its name and its size and
  time.\<close>

theorem rotation_spares:
  assumes "rotate files t added incoming limits w = (r, w')" "os_dir w n = Some f" "spares {n} w"
    and "\<forall>s \<in> set files. sf_name s = n \<longrightarrow> \<not> (fi_regular f \<and> fi_size f = sf_size s \<and> fi_modified f = sf_modified s)"
  shows "os_dir w' n = Some f"
proof -
  have h: "holds n f w" using assms(2,3) by (simp add: holds_def)
  have u: "unlisted n f files" using assms(4) by (simp only: unlisted_def)
  have "holds n f w'" by (rule rotate_holds [OF h u assms(1)])
  then show ?thesis by (simp add: holds_def)
qed

text \<open>A file that was replaced after the scan: the quota is exceeded, and the rotation stops.\<close>

theorem rotation_spares_witness:
  "\<exists>r w'. rotate [\<lparr>sf_name = auto_example_name, sf_size = 3, sf_modified = 0\<rparr>] 3 0 1 (cf_AutoCapture one_file) example_directory = (r, w')
    \<and> os_dir w' auto_example_name = Some old_capture"
proof -
  obtain r w' where r: "rotate [\<lparr>sf_name = auto_example_name, sf_size = 3, sf_modified = 0\<rparr>] 3 0 1 (cf_AutoCapture one_file)
      example_directory = (r, w')"
    by (rule prod.exhaust)
  have "os_dir w' auto_example_name = Some old_capture"
    by (rule rotation_spares [OF r])
      (simp_all add: old_capture_def spares_def example_directory_def)
  then show ?thesis using r by blast
qed

lemma rotate_loop_minimal:
  "rotate_loop limits added incoming files t removed w = ((files', t', removed', e), w') \<Longrightarrow>
   \<exists>k \<le> length files. files' = drop k files \<and> t' = t - sizes (take k files)
     \<and> (\<forall>j < k. over_quota limits added incoming (drop j files) (t - sizes (take j files)))
     \<and> (e = None \<longrightarrow> \<not> over_quota limits added incoming files' t')"
proof (induction files arbitrary: t removed w)
  case (Cons s files)
  show ?case
  proof (cases "over_quota limits added incoming (s # files) t")
    case True
    show ?thesis
    proof (cases "files' = s # files \<and> t' = t \<and> e \<noteq> None")
      case False
      then obtain removed v where "rotate_loop limits added incoming files (t - sf_size s) removed v = ((files', t', removed', e), w')"
        using Cons.prems True by (auto split: prod.splits sum.splits option.splits if_splits)
      from Cons.IH [OF this] obtain k where k: "k \<le> length files" "files' = drop k files" "t' = t - sf_size s - sizes (take k files)"
        "\<forall>j < k. over_quota limits added incoming (drop j files) (t - sf_size s - sizes (take j files))"
        "e = None \<longrightarrow> \<not> over_quota limits added incoming files' t'" by blast
      have "over_quota limits added incoming (drop j (s # files)) (t - sizes (take j (s # files)))" if "j < Suc k" for j
        using True k(4) that by (cases j) (simp_all add: diff_diff_eq)
      then show ?thesis using k by (intro exI [of _ "Suc k"]) (simp add: diff_diff_eq)
    qed (auto intro: exI [of _ 0])
  qed (use Cons.prems in \<open>auto intro: exI [of _ 0]\<close>)
qed auto



end
