(* ===== verification/Terminal.thy ===== *)
theory Terminal
  imports Utf8
begin

text \<open>
  Human output (\<open>internal/terminal/theme.go\<close>): colours, wrapping, panels and tables.  A writer is the
  list of the lines printed into it; texts are UTF-8, and a rune is its encoding.
\<close>

section \<open>Characters\<close>

definition middot :: string where "middot = [CHR 0xC2, CHR 0xB7]"
definition em_dash :: string where "em_dash = [CHR 0xE2, CHR 0x80, CHR 0x94]"
definition arrow :: string where "arrow = [CHR 0xE2, CHR 0x86, CHR 0x92]"
definition both_arrow :: string where "both_arrow = [CHR 0xE2, CHR 0x86, CHR 0x94]"
definition at_least :: string where "at_least = [CHR 0xE2, CHR 0x89, CHR 0xA5]"
definition check_mark :: string where "check_mark = [CHR 0xE2, CHR 0x9C, CHR 0x93]"
definition cross_mark :: string where "cross_mark = [CHR 0xE2, CHR 0x9C, CHR 0x95]"
definition bar :: string where "bar = [CHR 0xE2, CHR 0x94, CHR 0x80]"
definition side :: string where "side = [CHR 0xE2, CHR 0x94, CHR 0x82]"
definition corner_tl :: string where "corner_tl = [CHR 0xE2, CHR 0x95, CHR 0xAD]"
definition corner_tr :: string where "corner_tr = [CHR 0xE2, CHR 0x95, CHR 0xAE]"
definition corner_br :: string where "corner_br = [CHR 0xE2, CHR 0x95, CHR 0xAF]"
definition corner_bl :: string where "corner_bl = [CHR 0xE2, CHR 0x95, CHR 0xB0]"
definition tab :: char where "tab = CHR 0x09"
definition escape_char :: char where "escape_char = CHR 0x1B"

lemmas glyph_defs = middot_def em_dash_def arrow_def both_arrow_def at_least_def check_mark_def cross_mark_def
  bar_def side_def corner_tl_def corner_tr_def corner_br_def corner_bl_def

text \<open>\<open>" \<middot> "\<close>, the separator of the output.\<close>

definition dot :: string where "dot = '' '' @ middot @ '' ''"

section \<open>Tones\<close>

datatype Tone = Neutral | Good | Warning | Critical | Info | Muted

definition MinWidth :: int where "MinWidth = 40"
definition DefaultWidth :: int where "DefaultWidth = 80"
definition MaxAutoWidth :: int where "MaxAutoWidth = 100"

record Theme =
  th_Color :: bool
  th_Width :: int

definition ValidMode :: "string \<Rightarrow> bool" where
  "ValidMode mode \<longleftrightarrow> mode = ''auto'' \<or> mode = ''always'' \<or> mode = ''never''"

text \<open>
  \<open>For\<close>: what the writer is (a file descriptor with its columns and whether it is a terminal, or
  none) and the two environment variables.
\<close>

definition For :: "(int \<times> bool) option \<Rightarrow> string \<Rightarrow> string \<Rightarrow> string \<Rightarrow> Theme" where
  "For fd no_color term_name mode =
     (case fd of
        None \<Rightarrow> \<lparr>th_Color = (mode = ''always''), th_Width = DefaultWidth\<rparr>
      | Some (n, is_terminal) \<Rightarrow>
          \<lparr>th_Color = (if mode = ''auto'' then is_terminal \<and> no_color = [] \<and> term_name \<noteq> ''dumb'' else mode = ''always''),
           th_Width = (if 0 < n then min MaxAutoWidth (max MinWidth n) else DefaultWidth)\<rparr>)"

definition Theme_width :: "Theme \<Rightarrow> int" where
  "Theme_width t = (if th_Width t = 0 then DefaultWidth else max MinWidth (th_Width t))"

definition tone_code :: "Tone \<Rightarrow> string" where
  "tone_code tone =
     (case tone of Good \<Rightarrow> ''1;32'' | Warning \<Rightarrow> ''1;33'' | Critical \<Rightarrow> ''1;31'' | Info \<Rightarrow> ''1;36'' | Muted \<Rightarrow> ''2''
      | Neutral \<Rightarrow> ''0'')"

definition Paint :: "Theme \<Rightarrow> Tone \<Rightarrow> string \<Rightarrow> string" where
  "Paint t tone s =
     (if \<not> th_Color t \<or> tone = Neutral then s
      else escape_char # ''['' @ tone_code tone @ ''m'' @ s @ escape_char # ''[0m'')"

definition Mark :: "Tone \<Rightarrow> string" where
  "Mark tone =
     (case tone of Good \<Rightarrow> check_mark | Warning \<Rightarrow> ''!'' | Critical \<Rightarrow> cross_mark | Info \<Rightarrow> ''?'' | _ \<Rightarrow> middot)"

section \<open>Clean text\<close>

text \<open>\<open>unicode.IsControl\<close> and \<open>unicode.IsSpace\<close>.\<close>

definition IsControl :: "string \<Rightarrow> bool" where
  "IsControl r =
     (case r of
        [c] \<Rightarrow> byte c < 0x20 \<or> byte c = 0x7F
      | [a, b] \<Rightarrow> byte a = 0xC2 \<and> byte b < 0xA0
      | _ \<Rightarrow> False)"

definition IsSpace :: "string \<Rightarrow> bool" where
  "IsSpace r =
     (case r of
        [c] \<Rightarrow> between 9 13 c \<or> byte c = 32
      | [a, b] \<Rightarrow> byte a = 0xC2 \<and> (byte b = 0x85 \<or> byte b = 0xA0)
      | [a, b, c] \<Rightarrow>
          byte a = 0xE1 \<and> byte b = 0x9A \<and> byte c = 0x80
          \<or> byte a = 0xE2 \<and> byte b = 0x80 \<and> (between 0x80 0x8A c \<or> byte c \<in> {0xA8, 0xA9, 0xAF})
          \<or> byte a = 0xE2 \<and> byte b = 0x81 \<and> byte c = 0x9F
          \<or> byte a = 0xE3 \<and> byte b = 0x80 \<and> byte c = 0x80
      | _ \<Rightarrow> False)"

definition clean_rune :: "string \<Rightarrow> string" where
  "clean_rune r = (if IsControl r then '' '' else r)"

definition clean_runes :: "string \<Rightarrow> string list" where
  "clean_runes s = map clean_rune (runes s)"

definition Clean :: "string \<Rightarrow> string" where
  "Clean s = concat (clean_runes s)"

section \<open>Wrapping\<close>

text \<open>\<open>strings.Fields\<close>, over runes.\<close>

fun Fields :: "string list \<Rightarrow> string list \<Rightarrow> string list list" where
  "Fields word [] = (if word = [] then [] else [word])"
| "Fields word (r # rs) =
     (if IsSpace r then (if word = [] then Fields [] rs else word # Fields [] rs)
      else Fields (word @ [r]) rs)"

text \<open>The inner loop of \<open>Wrap\<close>: a word wider than the line is cut.\<close>

function cut_word :: "nat \<Rightarrow> string list \<Rightarrow> string list list \<Rightarrow> string list \<Rightarrow> string list list \<times> string list \<times> string list" where
  "cut_word width line lines word =
     (if width < length word \<and> 0 < width then
        cut_word width [] ((if line \<noteq> [] then lines @ [line] else lines) @ [take width word]) (drop width word)
      else (lines, line, word))"
  by pat_completeness auto

termination by (relation "measure (\<lambda>(width, line, lines, word). length word)") auto

declare cut_word.simps [simp del]

fun wrap_words :: "nat \<Rightarrow> string list list \<Rightarrow> string list \<Rightarrow> string list list \<Rightarrow> string list list" where
  "wrap_words width lines line [] = (if line \<noteq> [] then lines @ [line] else lines)"
| "wrap_words width lines line (word # ws) =
     (let (lines, line) = (if line \<noteq> [] \<and> width < length line + 1 + length word then (lines @ [line], []) else (lines, line));
          (lines, line, word) = cut_word width line lines word;
          line = (if line \<noteq> [] then line @ ['' ''] else line)
      in wrap_words width lines (line @ word) ws)"

definition Wrap :: "string \<Rightarrow> int \<Rightarrow> string list" where
  "Wrap s width =
     (let lines = wrap_words (nat (max 1 width)) [] [] (Fields [] (runes (Clean s)))
      in if lines = [] then [[]] else map concat lines)"

section \<open>Lines\<close>

definition Repeat :: "string \<Rightarrow> int \<Rightarrow> string" where
  "Repeat s n = concat (replicate (nat n) s)"

definition Panel :: "Theme \<Rightarrow> Tone \<Rightarrow> string \<Rightarrow> string list \<Rightarrow> string list" where
  "Panel t tone title ls =
     (let width = Theme_width t - 4;
          padding = (\<lambda>line. Repeat '' '' (max 0 (width - int (RuneCount line))))
      in [Paint t Info (corner_tl @ bar @ '' BLACKBOX '' @ Repeat bar (Theme_width t - 13) @ corner_tr)]
         @ map (\<lambda>line. Paint t Info (side @ '' '') @ Paint t tone line @ padding line @ Paint t Info ('' '' @ side))
             (Wrap (Mark tone @ '' '' @ title) width)
         @ map (\<lambda>line. Paint t Info (side @ '' '') @ line @ padding line @ Paint t Info ('' '' @ side))
             (concat (map (\<lambda>s. Wrap s width) ls))
         @ [Paint t Info (corner_bl @ Repeat bar (Theme_width t - 2) @ corner_br)])"

definition Section :: "Theme \<Rightarrow> string \<Rightarrow> string list" where
  "Section t title =
     [[], Paint t Info (''  '' @ title @ '' '' @ Repeat bar (max 0 (Theme_width t - int (RuneCount title) - 3)))]"

definition Line :: "Theme \<Rightarrow> Tone \<Rightarrow> string \<Rightarrow> string \<Rightarrow> string list" where
  "Line t tone indent s = map (\<lambda>line. indent @ Paint t tone line) (Wrap s (Theme_width t - int (RuneCount indent)))"

definition Notice :: "Theme \<Rightarrow> Tone \<Rightarrow> string \<Rightarrow> string list \<Rightarrow> string list" where
  "Notice t tone title ls =
     Line t tone ''  '' (Mark tone @ '' '' @ title) @ concat (map (Line t Neutral ''    '') ls)"

section \<open>Tables\<close>

text \<open>\<open>strings.Split\<close> at a character.\<close>

fun split_at :: "char \<Rightarrow> string \<Rightarrow> string \<Rightarrow> string list" where
  "split_at c acc [] = [acc]"
| "split_at c acc (x # xs) = (if x = c then acc # split_at c [] xs else split_at c (acc @ [x]) xs)"

text \<open>The cells of a row, cleaned; \<open>cleanCells\<close> joins them with tabs again.\<close>

definition clean_cells :: "string \<Rightarrow> string list" where
  "clean_cells row = map Clean (split_at tab [] row)"

text \<open>
  \<open>text/tabwriter\<close> with a padding of 3: a column is a block of consecutive rows that have a cell ended
  by a tab there, as wide as its widest cell; the last cell of a row is not padded.
\<close>

definition has_column :: "nat \<Rightarrow> string list \<Rightarrow> bool" where
  "has_column j cells \<longleftrightarrow> Suc j < length cells"

definition column_block :: "nat \<Rightarrow> string list list \<Rightarrow> nat \<Rightarrow> string list list" where
  "column_block j rows i = takeWhile (has_column j) (rev (take i rows)) @ takeWhile (has_column j) (drop i rows)"

definition column_width :: "nat \<Rightarrow> string list list \<Rightarrow> nat \<Rightarrow> nat" where
  "column_width j rows i = fold max (map (\<lambda>cells. RuneCount (cells ! j) + 3) (column_block j rows i)) 0"

definition aligned_row :: "string list list \<Rightarrow> nat \<Rightarrow> string" where
  "aligned_row rows i =
     (let cells = rows ! i in
      concat (map (\<lambda>j. if has_column j cells
                       then cells ! j @ Repeat '' '' (int (column_width j rows i) - int (RuneCount (cells ! j)))
                       else cells ! j) [0..<length cells]))"

definition aligned :: "string list list \<Rightarrow> string list" where
  "aligned rows = map (aligned_row rows) [0..<length rows]"

text \<open>The fallback: each row as labelled fields.\<close>

definition labelled :: "string list \<Rightarrow> string list \<Rightarrow> string" where
  "labelled headers cells =
     join_with dot (map (\<lambda>j. (if j < length headers then headers ! j @ '': '' else []) @ cells ! j) [0..<length cells])"

definition Table :: "Theme \<Rightarrow> string \<Rightarrow> string list \<Rightarrow> Tone list \<Rightarrow> string list" where
  "Table t header rows tones =
     (let cells = clean_cells header # map clean_cells rows; ls = aligned cells;
          tone_of = (\<lambda>i. if i < length tones then tones ! i else Neutral)
      in if \<exists>line \<in> set ls. Theme_width t < int (RuneCount line) + 2 then
           concat (map (\<lambda>i. (if 0 < i then [[]] else [])
              @ Line t (tone_of i) ''  '' (labelled (clean_cells header) (clean_cells (rows ! i)))) [0..<length rows])
         else
           map (\<lambda>i. ''  '' @ Paint t (if i = 0 then Muted else tone_of (i - 1)) (ls ! i)) [0..<length ls])"

section \<open>Words\<close>

text \<open>\<open>Count\<close>: the digits in groups of three, from the right.\<close>

function group_digits :: "string \<Rightarrow> nat \<Rightarrow> string" where
  "group_digits s i = (if 0 < i then group_digits (take i s @ '','' @ drop i s) (i - 3) else s)"
  by pat_completeness auto

termination by (relation "measure snd") auto

declare group_digits.simps [simp del]

definition Count :: "u64 \<Rightarrow> string" where
  "Count n = (let s = show_u64 n in group_digits s (length s - 3))"

definition Sensor_label :: "string \<Rightarrow> string" where
  "Sensor_label s =
     (if s = ''block_io'' then ''Block I/O''
      else if s = ''scheduler'' then ''Scheduler''
      else if s = ''tcp'' then ''TCP''
      else if s = ''oom'' then ''OOM''
      else Clean s)"

end
