(* ===== verification/Render.thy ===== *)
theory Render
  imports Config Analyzer Terminal
begin

text \<open>
  The text report (\<open>internal/analyzer/render.go\<close>): the lines printed for a report of the analyzer, or
  \<open>None\<close> where the code would panic on an index out of range.
\<close>

record RenderOptions =
  ro_Theme :: Theme
  ro_Verbose :: bool
  ro_EventLimit :: int
  ro_ProcessLimit :: int

section \<open>Numbers and times\<close>

text \<open>\<open>fmt.Sprintf("%.pf", float64(n)/b)\<close> for \<open>0 \<le> n\<close>, without the sign.\<close>

definition float_fixed :: "nat \<Rightarrow> int \<Rightarrow> int \<Rightarrow> string" where
  "float_fixed p b n =
     (let x = float64_of n; s = float_scale x b 1; m = round_div (x * s) b; q = round_div (10 ^ p * m) s
      in show_int (q div 10 ^ p) @ ''.'' @ pad_zero p (show_int (q mod 10 ^ p)))"

definition trim_point :: "string \<Rightarrow> string" where
  "trim_point s = rev (dropWhile (\<lambda>c. c = CHR ''.'') (rev s))"

definition latency :: "u64 \<Rightarrow> string" where
  "latency ns =
     (if ns = 0 then em_dash
      else if ns < 1000000 then float_fixed 1 1000 (uint ns) @ [CHR 0xC2, CHR 0xB5] @ ''s''
      else if ns < 1000000000 then trim_point (trim_zeros (float_fixed 2 1000000 (uint ns))) @ ''ms''
      else float_fixed 2 1000000000 (uint ns) @ ''s'')"

definition two_digits :: "int \<Rightarrow> string" where
  "two_digits n = pad_zero 2 (show_int n)"

definition date_part :: "Time \<Rightarrow> string" where
  "date_part t =
     (let (y, m, d) = civil_date (t div Second div 86400 + 306);
          year = (if y < 0 then CHR ''-'' # pad_zero 4 (show_int (- y)) else pad_zero 4 (show_int y))
      in year @ ''-'' @ two_digits m @ ''-'' @ two_digits d)"

definition clock_part :: "Time \<Rightarrow> string" where
  "clock_part t =
     (let s = t div Second mod 86400
      in two_digits (s div 3600) @ '':'' @ two_digits (s mod 3600 div 60) @ '':'' @ two_digits (s mod 60))"

definition millis_part :: "Time \<Rightarrow> string" where
  "millis_part t = ''.'' @ pad_zero 3 (show_int (t mod Second div 1000000))"

definition second_time :: "Time \<Rightarrow> string" where
  "second_time t = date_part t @ '' '' @ clock_part t"

definition reportTime :: "Time \<Rightarrow> string" where
  "reportTime t = date_part t @ '' '' @ clock_part t @ millis_part t"

section \<open>Words\<close>

definition severityTone :: "string \<Rightarrow> Tone" where
  "severityTone s = (if s = ''critical'' then Critical else if s = ''warning'' then Warning else Info)"

definition assessmentTone :: "Assessment \<Rightarrow> Tone" where
  "assessmentTone a = (if as_Code a = ''no_anomalies_observed'' then Good else severityTone (as_Severity a))"

definition reasonContext :: "CoverageReason \<Rightarrow> string" where
  "reasonContext n =
     (if cr_Sensor n \<noteq> [] then Sensor_label (cr_Sensor n) @ dot else [])
     @ (if cr_Scope n = ''window'' then ''this window''
        else if cr_Scope n = ''requested_window'' then ''requested window''
        else if cr_Scope n = ''retained_events'' then ''retained details in this window''
        else if cr_Scope n = ''lifetime_window_unknown'' then ''since daemon start; window impact unknown''
        else ''since daemon start'')
     @ (case cr_LifetimeCount n of None \<Rightarrow> [] | Some k \<Rightarrow> dot @ Count k @ '' since daemon start'')"

definition JoinHostPort :: "string \<Rightarrow> string \<Rightarrow> string" where
  "JoinHostPort host port =
     (if CHR '':'' \<in> set host then ''['' @ host @ '']:'' @ port else host @ '':'' @ port)"

definition tcpEndpoint :: "string \<Rightarrow> u16 \<Rightarrow> string" where
  "tcpEndpoint ip port = (if ip = [] then ''unavailable'' else JoinHostPort (Clean ip) (show_nat (unat port)))"

definition name_text :: "string \<Rightarrow> string" where
  "name_text s = (if s = [] then ''unknown'' else Clean s)"

definition eventName :: "string \<Rightarrow> string" where
  "eventName s =
     (if s = ''block_io'' then ''I/O''
      else if s = ''scheduler'' then ''Scheduler''
      else if s = ''tcp_reset'' then ''TCP reset''
      else if s = ''tcp_retransmit'' then ''TCP retry''
      else if s = ''oom'' then ''OOM''
      else Clean s)"

section \<open>Signals\<close>

text \<open>The retained events of a signal, and its worst latency with its process.\<close>

definition shows_signal :: "Summary \<Rightarrow> Event \<Rightarrow> bool" where
  "shows_signal s e \<longleftrightarrow>
     sm_Family s = ''oom'' \<and> ev_Type e = ''oom''
     \<or> sm_Family s = ''tcp'' \<and> (ev_Type e = ''tcp_reset'' \<or> ev_Type e = ''tcp_retransmit'')
     \<or> sm_Family s = ev_Type e \<and> 0 < ev_LatencyNS e"

fun retained_events :: "Summary \<Rightarrow> Event list \<Rightarrow> u64 \<times> u64 \<times> string \<times> u32 \<Rightarrow> u64 \<times> u64 \<times> string \<times> u32" where
  "retained_events s [] st = st"
| "retained_events s (e # es) (retained, worst, worstProcess, worstPID) =
     retained_events s es
       (if shows_signal s e then
          if worst < ev_LatencyNS e then (retained + 1, ev_LatencyNS e, name_text (ev_Comm e), ev_PID e)
          else (retained + 1, worst, worstProcess, worstPID)
        else (retained, worst, worstProcess, worstPID))"

type_synonym view = "Tone \<times> string \<times> string"

definition latency_view :: "AnalyzerReport \<Rightarrow> Summary \<Rightarrow> string \<Rightarrow> u64 \<times> u64 \<times> string \<times> u32 \<Rightarrow> view" where
  "latency_view r s coverage st =
     (let (retained, worst, worstProcess, worstPID) = st; settings = mf_Settings (rp_Manifest r);
          scheduler = (sm_Family s = ''scheduler'');
          unit = (if scheduler then ''runnable waits'' else ''I/O requests'');
          singular = (if scheduler then ''runnable wait'' else ''I/O request'');
          empty = (if scheduler then ''No runnable waits measured'' else ''No completed I/O requests measured'');
          threshold = (if scheduler then rs_SchedulerThresholdNS settings else rs_BlockThresholdNS settings);
          critical = criticalCount r s; loss = sm_Loss s
      in if sm_Anomalies s = 0 \<and> 0 < retained then
           (if 0 < critical then Critical else Warning,
            quantity retained (''retained slow '' @ singular) (''retained slow '' @ unit),
            coverage @ dot @ Count (sm_Count s) @ '' aggregate measurements; individual slow events appear below'')
         else if sm_Count s = 0 then
           (if 0 < ct_Unmatched loss then
              (Warning, Count (ct_Unmatched loss) @ '' untimed completions / no measured latency'',
               coverage @ dot @ ''no matching start records; latency cannot be assessed'')
            else (Info, empty, coverage @ dot @ ''latency unavailable''))
         else
           let slow = 0 < sm_Anomalies s; untimed = 0 < ct_Unmatched loss;
               tone = (if slow \<or> untimed \<or> 0 < ct_TrackingFailures loss then Warning else Good);
               headline = (if slow then quantity (sm_Anomalies s) (''slow '' @ singular) (''slow '' @ unit) else ''No slow '' @ unit)
                 @ '' / '' @ Count (sm_Count s) @ '' measured''
                 @ (if untimed then dot @ Count (ct_Unmatched loss) @ '' untimed'' else [])
                 @ (if 0 < threshold then '' ('' @ at_least @ latency threshold @ '')'' else []);
               detail = ''p50 '' @ percentile (sm_Histogram s) 50 @ dot @ ''p95 '' @ percentile (sm_Histogram s) 95
                 @ dot @ ''p99 '' @ percentile (sm_Histogram s) 99 @ dot @ coverage
                 @ (if untimed then dot @ ''percentiles cover measured observations only'' else [])
                 @ (if 0 < worst then dot @ ''worst retained '' @ latency worst @ '' ('' @ worstProcess @ '', PID '' @ show_u32 worstPID @ '')''
                    else [])
                 @ (if 0 < critical then dot @ Count critical @ '' critical ('' @ at_least
                      @ latency (criticalThreshold settings (sm_Family s)) @ '')'' else [])
           in (if 0 < critical then Critical else tone, headline, detail))"

definition tcp_view :: "Summary \<Rightarrow> string \<Rightarrow> u64 \<Rightarrow> view" where
  "tcp_view s coverage retained =
     (if 0 < sm_Retransmits s + sm_Resets s then
        (Warning, Count (sm_Retransmits s) @ '' retransmits'' @ dot @ Count (sm_Resets s) @ '' ''
           @ (if sm_Resets s = 1 then ''reset observation'' else ''reset observations''),
         coverage @ dot @ ''connection events to review; resets can be expected'')
      else if 0 < retained then
        (Warning, Count retained @ '' retained TCP events'', coverage @ dot @ ''individual connection events appear below'')
      else (Good, ''No retransmissions or resets observed'', coverage))"

definition oom_view :: "Summary \<Rightarrow> string \<Rightarrow> u64 \<Rightarrow> view" where
  "oom_view s coverage retained =
     (let n = max (sm_Count s) retained
      in if 0 < n then
           (Critical, Count n @ '' OOM victim events'',
            coverage @ dot @ ''the kernel selected processes as out-of-memory victims'')
         else (Good, ''No OOM victims observed'', coverage))"

definition signalView :: "AnalyzerReport \<Rightarrow> Summary \<Rightarrow> view" where
  "signalView r s =
     (let st = retained_events s (rp_Timeline r) (0, 0, [], 0); retained = fst st
      in if sm_State s = ''disabled'' then (Muted, ''Disabled'', ''Excluded by recording configuration.'')
         else if sm_State s \<noteq> ''healthy'' then
           (Warning, ''Coverage unavailable or incomplete'',
            ''Sensor '' @ sm_State s @ ''. '' @ sm_Reason s
              @ (if 0 < sm_CoveredNS s then '' Earlier metrics: '' @ seconds_1f (sm_CoveredNS s) @ ''s.'' else []))
         else
           let coverage = seconds_1f (sm_CoveredNS s) @ ''s monitored''
           in if sm_CoveredNS s = 0 then
                (if 0 < retained then
                   (if sm_Family s = ''oom'' \<or> 0 < criticalCount r s then Critical else Warning,
                    Count retained @ '' retained events to review'',
                    ''Direct event evidence available; no full aggregate interval retained.'')
                 else (Info, ''No complete metrics to assess'', ''No full aggregate interval retained.''))
              else if sm_Family s = ''block_io'' \<or> sm_Family s = ''scheduler'' then latency_view r s coverage st
              else if sm_Family s = ''tcp'' then tcp_view s coverage retained
              else if sm_Family s = ''oom'' then oom_view s coverage retained
              else (Info, ''No interpretation available'', coverage))"

definition capability_note :: "CoverageReason \<Rightarrow> bool" where
  "capability_note n \<longleftrightarrow> \<not> cr_Limited n \<and> cr_Scope n = ''sensor_capability''"

definition signal_lines :: "Theme \<Rightarrow> AnalyzerReport \<Rightarrow> Assessment \<Rightarrow> Summary \<Rightarrow> string list" where
  "signal_lines t r a s =
     (let (tone, headline, detail) = signalView r s
      in Notice t tone (Sensor_label (sm_Family s) @ '' '' @ em_dash @ '' '' @ headline) [detail]
         @ concat (map (\<lambda>note. Line t Muted ''    '' (''Capability: '' @ cr_Explanation note))
             (filter (\<lambda>note. capability_note note \<and> cr_Sensor note = sm_Family s) (as_Reasons a))))"

section \<open>Reasons and events\<close>

fun reason_lines :: "Theme \<Rightarrow> bool \<Rightarrow> CoverageReason list \<Rightarrow> string list" where
  "reason_lines t shown [] = []"
| "reason_lines t shown (n # ns) =
     (if capability_note n then reason_lines t shown ns
      else (if shown then [[]] else Section t ''EVIDENCE TO REVIEW'')
        @ Notice t (severityTone (cr_Severity n)) (cr_Title n) [cr_Explanation n]
        @ Line t Muted ''    '' (reasonContext n)
        @ reason_lines t True ns)"

definition is_critical :: "RecordingSettings \<Rightarrow> Event \<Rightarrow> bool" where
  "is_critical settings e \<longleftrightarrow>
     0 < criticalThreshold settings (ev_Type e) \<and> criticalThreshold settings (ev_Type e) \<le> ev_LatencyNS e"

definition is_tcp :: "Event \<Rightarrow> bool" where
  "is_tcp e \<longleftrightarrow> ev_Type e = ''tcp_retransmit'' \<or> ev_Type e = ''tcp_reset''"

definition legacy_reset :: "Event \<Rightarrow> bool" where
  "legacy_reset e \<longleftrightarrow> ev_Type e = ''tcp_reset'' \<and> ev_TCPDirection e \<noteq> ''sent'' \<and> ev_TCPDirection e \<noteq> ''received''"

definition event_signal :: "Event \<Rightarrow> string" where
  "event_signal e =
     (if ev_Type e = ''tcp_reset'' \<and> ev_TCPDirection e = ''sent'' then ''TCP reset sent''
      else if ev_Type e = ''tcp_reset'' \<and> ev_TCPDirection e = ''received'' then ''TCP reset received''
      else eventName (ev_Type e))"

definition event_process :: "Event \<Rightarrow> string" where
  "event_process e =
     (if ev_Type e = ''oom'' \<and> ev_PIDOnly e then em_dash
      else if is_tcp e \<and> ev_Comm e = [] \<and> ev_PID e = 0 then em_dash
      else name_text (ev_Comm e))"

definition event_detail :: "bool \<Rightarrow> Event \<Rightarrow> string" where
  "event_detail verbose e =
     (if ev_Type e = ''scheduler'' then ''CPU '' @ show_u32 (ev_CPU e)
      else if ev_Type e = ''block_io'' then
        Clean (ev_Operation e) @ '' '' @ show_u32 (ev_Major e) @ '':'' @ show_u32 (ev_Minor e) @ dot @ show_u64 (ev_Bytes e) @ '' B''
      else if ev_Type e = ''oom'' then
        ''OOM victim'' @ (if ev_PIDOnly e then dot @ ''PID only; process identity unavailable'' else [])
      else if is_tcp e then
        (if ev_SourceIP e = [] \<and> ev_DestinationIP e = [] then ''Endpoints unavailable''
         else tcpEndpoint (ev_SourceIP e) (ev_SourcePort e) @ '' '' @ (if legacy_reset e then both_arrow else arrow) @ '' ''
           @ tcpEndpoint (ev_DestinationIP e) (ev_DestinationPort e))
        @ (if ev_SocketContext e = ''none'' then dot @ ''no associated socket'' else [])
        @ (if verbose \<and> ev_EndpointSource e = ''packet_header'' then dot @ ''packet header'' else [])
      else [])"

definition event_tone :: "RecordingSettings \<Rightarrow> Event \<Rightarrow> Tone" where
  "event_tone settings e =
     (if (ev_Type e = ''scheduler'' \<or> ev_Type e = ''block_io'') \<and> is_critical settings e \<or> ev_Type e = ''oom'' then Critical
      else Warning)"

definition event_row :: "bool \<Rightarrow> Host \<Rightarrow> Event \<Rightarrow> string" where
  "event_row verbose host e =
     (let at = Host_Wall host (ev_MonoNS e)
      in clock_part at @ millis_part at @ [tab] @ event_process e @ [tab]
         @ (if ev_PID e \<noteq> 0 then show_u32 (ev_PID e) else em_dash) @ [tab] @ event_signal e @ [tab]
         @ latency (ev_LatencyNS e) @ [tab] @ event_detail verbose e)"

definition tabs :: "string list \<Rightarrow> string" where
  "tabs cells = join_with [tab] cells"

definition process_lines :: "AnalyzerReport \<Rightarrow> RenderOptions \<Rightarrow> string list" where
  "process_lines r options =
     (let limit = (if 0 < ro_ProcessLimit options then ro_ProcessLimit options
                   else if ro_Verbose options then Config.Report.rp_VerboseProcesses (cf_Report Default)
                   else Config.Report.rp_Processes (cf_Report Default));
          rows = take (nat limit) (map (\<lambda>p. tabs [name_text (pr_Comm p), show_u32 (pr_TGID p), Count (to_u64 (pr_Details p))])
            (filter (\<lambda>p. pr_TGID p \<noteq> 0) (rp_Processes r)))
      in if rows = [] then []
         else Section (ro_Theme options) (''AFFECTED PROCESSES'' @ dot @ ''RETAINED EVENTS'')
           @ Table (ro_Theme options) (tabs [''Process'', ''TGID'', ''Events'']) rows [])"

definition event_lines :: "AnalyzerReport \<Rightarrow> RenderOptions \<Rightarrow> string list" where
  "event_lines r options =
     (let t = ro_Theme options; m = rp_Manifest r in
      if rp_Timeline r \<noteq> [] then
        let limit = (if 0 < ro_EventLimit options then ro_EventLimit options
                     else if ro_Verbose options then rp_VerboseEvents (cf_Report Default)
                     else rp_Events (cf_Report Default));
            shown = take (nat limit) (rp_Timeline r)
        in Section t (''EVENTS'' @ dot @ ''UTC'')
           @ Table t (tabs [''Time'', ''Process'', ''PID'', ''Signal'', ''Latency'', ''Detail''])
               (map (event_row (ro_Verbose options) (rp_Host r)) shown) (map (event_tone (mf_Settings m)) shown)
           @ (if limit < int (length (rp_Timeline r)) then
                Line t Muted ''  '' (Count (to_u64 (int (length (rp_Timeline r)) - limit))
                  @ '' more events. Text event limit reached; adjust report limits or use --json for all.'')
              else [])
           @ (if \<exists>e \<in> set shown. ev_Type e = ''block_io'' then
                Line t Muted ''  '' ''I/O process names identify dispatch context, which may be a kernel worker.'' else [])
           @ (if \<exists>e \<in> set shown. is_tcp e then
                Line t Muted ''  '' ''TCP process ownership is not collected. Sent/received counts are kernel observations; loopback can observe the same reset at both ends.''
                @ (if \<exists>e \<in> set shown. legacy_reset e then
                     Line t Muted ''  '' (''Legacy reset direction was not recorded; endpoint pairs ('' @ both_arrow @ '') are shown as saved.'')
                   else [])
              else [])
           @ process_lines r options
      else
        [] # (if mf_StartMonoNS m < mf_AggregateOnlyUntilNS m then
                Line t Muted ''  '' ''No individual event details retained. Older observations are available as aggregates above.''
              else
                Line t Muted ''  '' ''No individual event details retained. Normal activity is summarized above.''))"

section \<open>Diagnostics\<close>

definition loss_cells :: "(u64 \<Rightarrow> string) \<Rightarrow> Counters \<Rightarrow> string list" where
  "loss_cells f c = [f (ct_RingFailures c), f (ct_Suppressed c), f (ct_DetailFailures c), f (ct_TrackingFailures c),
     f (ct_Unmatched c), f (ct_DecodeFailures c)]"

definition diagnostics_header :: string where
  "diagnostics_header = tabs [''Sensor'', ''State'', ''Buffer rejected'', ''Rate limited'', ''Quota failed'', ''Start unsaved'',
     ''Start missing'', ''Detail invalid'']"

definition sensor_diagnostics :: "Theme \<Rightarrow> SensorHealth \<Rightarrow> string list" where
  "sensor_diagnostics t s =
     concat (map (\<lambda>n. Line t Muted ''  '' (Sensor_label (sh_Name s) @ '': '' @ cn_Title n @ ''. '' @ cn_Explanation n))
       (CounterNotes (sh_Name s) (sh_Loss s)))
     @ (if 0 < sh_BudgetPruneFailures s then
          Line t Muted ''  '' (Sensor_label (sh_Name s) @ '': detail quota cleanup failures since daemon start: ''
            @ show_u64 (sh_BudgetPruneFailures s)
            @ ''; aggregate metrics continued. Actual missing details are counted separately as quota failures.'')
        else [])
     @ (if 0 < sh_BookkeepingCompletions s then
          Line t Muted ''  '' (Sensor_label (sh_Name s) @ '': '' @ Count (sh_BookkeepingCompletions s)
            @ '' zero-byte logical WRITE completions excluded from device I/O counts. Flush-sequence bookkeeping is not missing latency evidence; dispatched cache flushes are still measured.'')
        else [])"

definition recorder_counters :: "Health \<Rightarrow> string list" where
  "recorder_counters h =
     [tabs [''Ingress detail drops'', show_u64 (he_IngressDrops h)],
      tabs [''Recorder observation drops'', show_u64 (he_RecorderDrops h)],
      tabs [''Detailed segments removed'', show_u64 (he_EvictedSegments h)],
      tabs [''Aggregate history evictions'', show_u64 (he_AggregateEvictions h)],
      tabs [''Unresolved process identities'', show_u64 (he_MetadataFailures h)],
      tabs [''Snapshot write failures'', show_u64 (he_SnapshotFailures h)]]"

definition diagnostics :: "Theme \<Rightarrow> AnalyzerReport \<Rightarrow> string list" where
  "diagnostics t r =
     (let h = mf_Health (rp_Manifest r) in
      Section t (''DIAGNOSTICS'' @ dot @ ''SINCE DAEMON START'')
      @ Table t diagnostics_header
          (map (\<lambda>s. tabs (Sensor_label (sh_Name s) # sh_State s # loss_cells Count (sh_Loss s))) (he_Sensors h)) []
      @ Line t Muted ''  '' ''These totals include activity outside this window; they are not additional window losses.''
      @ concat (map (sensor_diagnostics t) (he_Sensors h))
      @ Table t (tabs [''Recorder counter'', ''Lifetime total''])
          (recorder_counters h @ [tabs [''Clock discontinuities'', show_u64 (he_ClockChanges h)]]) []
      @ (if 0 < he_MetadataFailures h then
           Line t Muted ''  '' ''Unresolved process metadata does not discard the kernel observation.'' else []))"

section \<open>The report\<close>

fun worst_highlight :: "LatencyHighlight \<Rightarrow> LatencyHighlight list \<Rightarrow> LatencyHighlight" where
  "worst_highlight w [] = w"
| "worst_highlight w (h # hs) = worst_highlight (if lh_LatencyNS w < lh_LatencyNS h then h else w) hs"

text \<open>The line about the largest latency: none, or \<open>None\<close> for an index outside the timeline.\<close>

definition highlight_line :: "AnalyzerReport \<Rightarrow> Assessment \<Rightarrow> string list option" where
  "highlight_line r a =
     (case as_Highlights a of
        [] \<Rightarrow> Some []
      | h # hs \<Rightarrow>
          let worst = worst_highlight h hs; i = lh_EventIndex worst
          in if i < 0 \<or> int (length (rp_Timeline r)) \<le> i then None
             else let e = rp_Timeline r ! nat i
               in Some [''Largest retained latency: '' @ Sensor_label (lh_Family worst) @ '' '' @ latency (lh_LatencyNS worst)
                    @ dot @ name_text (ev_Comm e) @ '' PID '' @ show_u32 (ev_PID e) @ ''.''])"

definition window_lines :: "Theme \<Rightarrow> AnalyzerReport \<Rightarrow> string list" where
  "window_lines t r =
     (let m = rp_Manifest r; h = rp_Host r; ms = (\<lambda>d. Duration_String (Duration_Round (sint d) Millisecond)) in
      Line t Muted ''  '' (Clean (ho_Hostname h) @ dot @ ''Linux '' @ Clean (ho_Kernel h) @ dot @ Clean (ho_Architecture h)
        @ dot @ Clean (mf_Mode m) @ dot @ ''Blackbox '' @ Clean (mf_ApplicationVersion m))
      @ Line t Muted ''  '' (reportTime (Host_Wall h (mf_StartMonoNS m)) @ '' '' @ arrow @ '' ''
          @ reportTime (Host_Wall h (mf_EndMonoNS m)) @ '' UTC'' @ dot @ ms (mf_EndMonoNS m - mf_StartMonoNS m))
      @ (if mf_StartMonoNS m < mf_RequestedStartMonoNS m then
           Line t Muted ''  '' (''Window starts '' @ ms (mf_RequestedStartMonoNS m - mf_StartMonoNS m)
             @ '' before the request to preserve a complete aggregate interval.'')
         else [])
      @ (case he_LastClockChange (mf_Health m) of
           None \<Rightarrow> []
         | Some latest \<Rightarrow> Notice t Warning ''Clock changed during this daemon run''
             [''Latest detected '' @ second_time (cd_DetectedAt latest) @ '' UTC'' @ dot @ ''offset change ''
              @ Duration_String (cd_OffsetChangeNS latest)
              @ ''. UTC event times use the capture-time clock sample; times before the change may be shifted.''])
      @ (if mf_Mode m = ''synthetic-demo'' then
           Notice t Info ''Synthetic demonstration'' [''These observations were generated; no host was recorded.'']
         else []))"

definition trigger_text :: "AutoTrigger \<Rightarrow> string" where
  "trigger_text g =
     (if at_Reason g = ''critical_latency'' then
        Sensor_label (at_Family g) @ '': '' @ Count (at_Count g) @ '' critical latency observations ('' @ at_least
          @ Duration_String (sint (at_ThresholdNS g)) @ '')''
      else Sensor_label (at_Family g) @ '': '' @ Count (at_Count g) @ '' OOM victims'')"

definition incident_lines :: "Theme \<Rightarrow> AnalyzerReport \<Rightarrow> string list" where
  "incident_lines t r =
     (case mf_AutoIncident (rp_Manifest r) of
        None \<Rightarrow> []
      | Some incident \<Rightarrow>
          Section t ''AUTOMATIC CAPTURE''
          @ Notice t Info (''Incident detected at '' @ reportTime (Host_Wall (rp_Host r) (ai_DetectedMonoNS incident)) @ '' UTC'')
              [''Detection uses polled aggregates, not an exact event timestamp. Related triggers are grouped in this capture.'']
          @ concat (map (\<lambda>g. Line t Muted ''    '' (trigger_text g)) (ai_Triggers incident)))"

definition correlation_lines :: "Theme \<Rightarrow> AnalyzerReport \<Rightarrow> string list" where
  "correlation_lines t r =
     concat (map (\<lambda>f. [] # Notice t Info ''Signals coincided for the same process or cgroup''
         [''Retained events occurred within one second. This timing does not establish a cause.''])
       (filter (\<lambda>f. fn_Category f = ''correlation'') (rp_Findings r)))"

text \<open>\<open>RenderWithOptions\<close>: the lines written to the writer.\<close>

definition RenderWithOptions :: "AnalyzerReport \<Rightarrow> RenderOptions \<Rightarrow> string list option" where
  "RenderWithOptions r options =
     (let t = ro_Theme options;
          a = (if as_Code (rp_Assessment r) = [] then assess r else rp_Assessment r)
      in map_option (\<lambda>largest.
           Panel t (assessmentTone a) (as_Title a) ([as_Signals a, as_Evidence a] @ largest)
           @ window_lines t r
           @ incident_lines t r
           @ Section t ''SIGNALS''
           @ concat (map (signal_lines t r a) (rp_Signals r))
           @ Line t Muted ''  '' ''Latency percentiles are histogram bounds. Conclusions apply to captured evidence.''
           @ reason_lines t False (as_Reasons a)
           @ event_lines r options
           @ correlation_lines t r
           @ (if ro_Verbose options then diagnostics t r else [])
           @ [[]]
           @ (if \<not> ro_Verbose options then
                Line t Muted ''  '' (''--verbose: lifetime counters and diagnostics'' @ dot @ ''--json: complete evidence'')
              else [])) (highlight_line r a))"

text \<open>\<open>Render\<close>, for callers that select no theme.\<close>

definition Render :: "AnalyzerReport \<Rightarrow> string list option" where
  "Render r = RenderWithOptions r
     \<lparr>ro_Theme = \<lparr>th_Color = False, th_Width = 0\<rparr>, ro_Verbose = False, ro_EventLimit = 0, ro_ProcessLimit = 0\<rparr>"

end
