(* ===== verification/Terminal_Theorems.thy ===== *)
theory Terminal_Theorems
  imports Terminal
begin

text \<open>
  What reaches the terminal: whatever the texts of a capture hold, a line has no control character but
  the colours of the theme, it fits the width, and wrapping loses nothing but white space.
\<close>

section \<open>Printable text\<close>

definition plain_rune :: "string \<Rightarrow> bool" where
  "plain_rune r \<longleftrightarrow> is_rune r \<and> \<not> IsControl r"

definition plain :: "string \<Rightarrow> bool" where
  "plain s \<longleftrightarrow> (\<exists>rs. s = concat rs \<and> list_all plain_rune rs)"

lemma plain_Nil [simp]: "plain []"
  by (auto simp: plain_def intro: exI [of _ "[]"])

lemma plain_append [intro]: "plain a \<Longrightarrow> plain b \<Longrightarrow> plain (a @ b)"
  unfolding plain_def by (metis concat_append list_all_append)

lemma plain_concat: "list_all plain xs \<Longrightarrow> plain (concat xs)"
  by (induction xs) auto

lemma plain_runes: "list_all plain_rune rs \<Longrightarrow> plain (concat rs)"
  by (auto simp: plain_def)

lemma runes_plain: "plain s \<Longrightarrow> list_all plain_rune (runes s) \<and> concat (runes s) = s"
  unfolding plain_def plain_rune_def by (auto simp: list_all_iff runes_concat)

lemma RuneCount_concat: "list_all is_rune rs \<Longrightarrow> RuneCount (concat rs) = length rs"
  by (simp add: RuneCount_def runes_concat)

lemma RuneCount_append: "plain a \<Longrightarrow> RuneCount (a @ b) = RuneCount a + RuneCount b"
  by (auto simp: plain_def plain_rune_def RuneCount_def runes_concat_append runes_concat list_all_iff)

text \<open>Texts the program prints itself: ASCII with the glyphs above.\<close>

definition plain_ascii :: "string \<Rightarrow> bool" where
  "plain_ascii s \<longleftrightarrow> list_all (\<lambda>c. between 0x20 0x7E c) s"

lemma plain_ascii: "plain_ascii s \<Longrightarrow> plain s"
proof (induction s)
  case (Cons c s)
  then have "plain_rune [c]" "plain s"
    by (auto simp: plain_ascii_def plain_rune_def IsControl_def is_rune_ascii between_def)
  then show ?case using plain_append [of "[c]" s] plain_runes [of "[[c]]"] by simp
qed simp

lemma RuneCount_ascii: "plain_ascii s \<Longrightarrow> RuneCount s = length s"
proof -
  assume "plain_ascii s"
  then have "list_all (\<lambda>c. byte c < 0x80) s" by (auto simp: plain_ascii_def between_def list_all_iff)
  then show ?thesis using ascii_runes [of s] by (simp add: RuneCount_def)
qed

lemma glyph_runes: "list_all plain_rune
  [middot, em_dash, arrow, both_arrow, at_least, check_mark, cross_mark, bar, side, corner_tl, corner_tr, corner_br, corner_bl,
   replacement, '' '', [CHR 0xC2, CHR 0xB5]]"
  by code_simp

lemma glyph_plain [simp]: "plain middot" "plain em_dash" "plain arrow" "plain both_arrow" "plain at_least" "plain check_mark"
  "plain cross_mark" "plain bar" "plain side" "plain corner_tl" "plain corner_tr" "plain corner_br" "plain corner_bl"
  using glyph_runes plain_runes [of "[r]" for r] by simp_all

lemma glyph_count [simp]: "RuneCount middot = 1" "RuneCount bar = 1" "RuneCount side = 1" "RuneCount corner_tl = 1"
  "RuneCount corner_tr = 1" "RuneCount corner_br = 1" "RuneCount corner_bl = 1"
  using glyph_runes RuneCount_concat [of "[r]" for r] by (simp_all add: plain_rune_def)

lemma plain_Repeat: "plain s \<Longrightarrow> plain (Repeat s n)"
  by (auto simp: Repeat_def list_all_iff intro: plain_concat)

lemma RuneCount_Repeat: "plain s \<Longrightarrow> RuneCount (Repeat s n) = nat n * RuneCount s"
proof -
  assume s: "plain s"
  have "RuneCount (concat (replicate k s)) = k * RuneCount s" for k
    by (induction k) (simp_all add: RuneCount_append [OF s], simp add: RuneCount_def)
  then show ?thesis by (simp add: Repeat_def)
qed

lemma clean_rune_plain: "is_rune r \<Longrightarrow> plain_rune (clean_rune r)"
  using glyph_runes by (auto simp: clean_rune_def plain_rune_def)

lemma clean_runes_plain: "list_all plain_rune (clean_runes s)"
  using runes_are_runes [of s] clean_rune_plain by (auto simp: clean_runes_def list_all_iff)

lemma Clean_plain [simp, intro]: "plain (Clean s)"
  unfolding Clean_def by (rule plain_runes [OF clean_runes_plain])

lemma runes_Clean: "runes (Clean s) = clean_runes s"
  using clean_runes_plain [of s] by (simp add: Clean_def runes_concat plain_rune_def list_all_iff)

section \<open>Wrapping\<close>

lemma Fields_spec:
  "\<forall>r \<in> set word. \<not> IsSpace r \<Longrightarrow>
   concat (Fields word rs) = word @ filter (\<lambda>r. \<not> IsSpace r) rs \<and> [] \<notin> set (Fields word rs)"
proof (induction rs arbitrary: word)
  case (Cons r rs)
  show ?case
  proof (cases "IsSpace r")
    case True
    then show ?thesis using Cons.IH [of "[]"] Cons.prems by auto
  next
    case False
    then show ?thesis using Cons.IH [of "word @ [r]"] Cons.prems by auto
  qed
qed simp

lemma cut_word_spec:
  assumes "0 < width" "cut_word width line lines word = (lines', line', word')" "\<forall>l \<in> set lines. length l \<le> width" "length line \<le> width"
  shows "length word' \<le> width \<and> (\<forall>l \<in> set lines'. length l \<le> width) \<and> (line' = [] \<or> line' = line \<and> word' = word)
    \<and> concat lines' @ line' @ word' = concat lines @ line @ word"
  using assms
proof (induction width line lines word rule: cut_word.induct)
  case (1 width line lines word)
  note eq = cut_word.simps [of width line lines word]
  show ?case
  proof (cases "width < length word")
    case True
    let ?lines = "(if line \<noteq> [] then lines @ [line] else lines) @ [take width word]"
    have cut: "cut_word width [] ?lines (drop width word) = (lines', line', word')"
      using 1(3) True 1(2) unfolding eq by simp
    have ls: "\<forall>l \<in> set ?lines. length l \<le> width" using 1(4,5) by auto
    have "length word' \<le> width \<and> (\<forall>l \<in> set lines'. length l \<le> width) \<and> (line' = [] \<or> line' = [] \<and> word' = drop width word)
      \<and> concat lines' @ line' @ word' = concat ?lines @ [] @ drop width word"
      by (rule 1(1) [OF conjI [OF True 1(2)] 1(2) cut ls]) simp
    then show ?thesis by auto
  next
    case False
    then show ?thesis using 1(3-5) unfolding eq by simp
  qed
qed

lemma wrap_words_spec:
  assumes "0 < width" "\<forall>l \<in> set lines. length l \<le> width" "length line \<le> width"
  shows "(\<forall>l \<in> set (wrap_words width lines line ws). length l \<le> width)
    \<and> filter (\<lambda>r. \<not> IsSpace r) (concat (wrap_words width lines line ws))
      = filter (\<lambda>r. \<not> IsSpace r) (concat lines @ line @ concat ws)"
  using assms
proof (induction ws arbitrary: lines line)
  case (Cons word ws)
  define b where "b = (line \<noteq> [] \<and> width < length line + 1 + length word)"
  define lines1 where "lines1 = (if b then lines @ [line] else lines)"
  define line1 where "line1 = (if b then [] else line)"
  obtain lines2 line2 word2 where c: "cut_word width line1 lines1 word = (lines2, line2, word2)" by (metis prod_cases3)
  have l1: "\<forall>l \<in> set lines1. length l \<le> width" "length line1 \<le> width"
    using Cons.prems(2,3) by (auto simp: lines1_def line1_def)
  note s = cut_word_spec [OF Cons.prems(1) c l1]
  define line3 where "line3 = (if line2 \<noteq> [] then line2 @ ['' ''] else line2) @ word2"
  have "length line3 \<le> width"
    using s by (auto simp: line3_def line1_def b_def)
  note IH = Cons.IH [OF Cons.prems(1) _ this, of lines2]
  have e: "wrap_words width lines line (word # ws) = wrap_words width lines2 line3 ws"
  proof (cases b)
    case True
    then show ?thesis using c by (auto simp: lines1_def line1_def line3_def b_def)
  next
    case False
    then have "\<not> (line \<noteq> [] \<and> width < length line + 1 + length word)" by (simp only: b_def not_False_eq_True)
    then show ?thesis using c False by (simp only: lines1_def line1_def line3_def wrap_words.simps if_False Let_def prod.case)
  qed
  have sp: "IsSpace '' ''" by code_simp
  have "filter (\<lambda>r. \<not> IsSpace r) (concat lines2 @ line3) = filter (\<lambda>r. \<not> IsSpace r) (concat lines2 @ line2 @ word2)"
    using sp by (simp add: line3_def)
  also have "\<dots> = filter (\<lambda>r. \<not> IsSpace r) (concat lines @ line @ word)"
    using s by (auto simp: lines1_def line1_def simp del: filter_append)
  finally show ?case using IH s unfolding e by simp
qed simp

lemma wrap_words_runes:
  assumes "list_all (list_all P) lines" "list_all P line" "list_all (list_all P) ws" "P '' ''"
  shows "list_all (list_all P) (wrap_words width lines line ws)"
  using assms
proof (induction ws arbitrary: lines line)
  case (Cons word ws)
  have cut: "cut_word width line lines word = (lines', line', word') \<Longrightarrow> list_all (list_all P) lines \<Longrightarrow> list_all P line \<Longrightarrow> list_all P word
    \<Longrightarrow> list_all (list_all P) lines' \<and> list_all P line' \<and> list_all P word'" for line lines word lines' line' word'
  proof (induction width line lines word rule: cut_word.induct)
    case (1 width line lines word)
    have "list_all P (take width word)" "list_all P (drop width word)"
      using 1(5) set_take_subset [of width word] set_drop_subset [of width word] by (auto simp: list_all_iff)
    then show ?case
      using 1 by (subst (asm) (2) cut_word.simps) (auto split: if_splits)
  qed
  show ?case
    using Cons by (auto simp: Let_def split: prod.splits if_splits dest!: cut)
qed simp


lemma Fields_runes: "list_all P word \<Longrightarrow> list_all P rs \<Longrightarrow> list_all (list_all P) (Fields word rs)"
  by (induction word rs rule: Fields.induct) auto

lemma Wrap_runes:
  obtains ls where "Wrap s width = (if ls = [] then [[]] else map concat ls)" "list_all (list_all plain_rune) ls"
    "\<forall>l \<in> set ls. int (length l) \<le> max 1 width"
    "filter (\<lambda>r. \<not> IsSpace r) (concat ls) = filter (\<lambda>r. \<not> IsSpace r) (clean_runes s)"
proof -
  let ?w = "nat (max 1 width)"
  define rs where "rs = Fields [] (clean_runes s)"
  define ls where "ls = wrap_words ?w [] [] rs"
  note spec = wrap_words_spec [of ?w "[]" "[]" rs, folded ls_def]
  have "concat rs = filter (\<lambda>r. \<not> IsSpace r) (clean_runes s)"
    using Fields_spec [of "[]" "clean_runes s"] by (simp add: rs_def)
  then have "filter (\<lambda>r. \<not> IsSpace r) (concat ls) = filter (\<lambda>r. \<not> IsSpace r) (clean_runes s)" using spec by simp
  moreover have "list_all (list_all plain_rune) ls"
    unfolding ls_def rs_def using clean_runes_plain glyph_runes by (intro wrap_words_runes Fields_runes) simp_all
  moreover have "Wrap s width = (if ls = [] then [[]] else map concat ls)"
    by (simp add: Wrap_def runes_Clean ls_def rs_def Let_def)
  ultimately show thesis using that spec by (simp add: le_nat_iff)
qed

lemma Wrap_lines:
  assumes "l \<in> set (Wrap s width)"
  shows "plain l \<and> int (RuneCount l) \<le> max 1 width"
proof -
  obtain ls where ls: "Wrap s width = (if ls = [] then [[]] else map concat ls)" "list_all (list_all plain_rune) ls"
    "\<forall>l \<in> set ls. int (length l) \<le> max 1 width" by (rule Wrap_runes)
  show ?thesis
  proof (cases "ls = []")
    case True
    then show ?thesis using assms ls(1) by (simp add: RuneCount_def)
  next
    case False
    then obtain k where k: "k \<in> set ls" "l = concat k" using assms ls(1) by auto
    then have "list_all plain_rune k" "int (length k) \<le> max 1 width" using ls by (auto simp: list_all_iff)
    then show ?thesis using k(2) by (simp add: plain_runes RuneCount_concat list_all_iff plain_rune_def)
  qed
qed

section \<open>Lines with colours\<close>

text \<open>
  A line the terminal may get and the text seen on it: printable runes and, with colours on, stretches of
  them between an SGR sequence of a tone and the one that resets it.
\<close>

inductive painted :: "bool \<Rightarrow> string \<Rightarrow> string \<Rightarrow> bool" for color where
  painted_plain: "plain s \<Longrightarrow> painted color s s"
| painted_tone: "color \<Longrightarrow> plain s \<Longrightarrow> tone \<noteq> Neutral \<Longrightarrow>
    painted color (escape_char # ''['' @ tone_code tone @ ''m'' @ s @ escape_char # ''[0m'') s"
| painted_append: "painted color a v \<Longrightarrow> painted color b w \<Longrightarrow> painted color (a @ b) (v @ w)"

inductive_simps painted_False: "painted False l v"

text \<open>What is left of a line without the SGR sequences.\<close>

fun visible :: "bool \<Rightarrow> string \<Rightarrow> string" where
  "visible inside [] = []"
| "visible inside (c # s) =
     (if inside then visible (c \<noteq> CHR ''m'') s
      else if c = escape_char then visible True s
      else c # visible False s)"

lemma painted_uncoloured: "painted False l v \<Longrightarrow> l = v"
  by (induction rule: painted.induct) auto

lemma rune_bytes:
  assumes "plain_rune r" "c \<in> set r"
  shows "c \<noteq> escape_char"
proof
  assume e: "c = escape_char"
  then have low: "byte c < 0x80" "byte c < 0x20" by (simp_all add: escape_char_def byte_def)
  then have "length r = 1" using rune_high_bytes [of r c] assms by (auto simp: plain_rune_def)
  then show False using assms low by (cases r) (auto simp: plain_rune_def IsControl_def)
qed

lemma visible_plain: "plain s \<Longrightarrow> visible False (s @ x) = s @ visible False x"
proof -
  assume "plain s"
  then obtain rs where s: "s = concat rs" "\<forall>r \<in> set rs. plain_rune r" by (auto simp: plain_def list_all_iff)
  have "\<forall>c \<in> set s. c \<noteq> escape_char"
  proof
    fix c assume "c \<in> set s"
    then obtain r where "r \<in> set rs" "c \<in> set r" using s(1) by auto
    then show "c \<noteq> escape_char" using rune_bytes s(2) by blast
  qed
  then show ?thesis by (induction s) auto
qed

lemma visible_painted: "painted color l v \<Longrightarrow> plain v \<and> visible False (l @ x) = v @ visible False x"
proof (induction arbitrary: x rule: painted.induct)
  case (painted_tone s tone)
  have "visible True (tone_code tone @ ''m'' @ y) = visible False y" for y
    by (cases tone) (simp_all add: tone_code_def)
  then show ?case using painted_tone(2) by (simp add: visible_plain)
qed (auto simp: visible_plain)

definition good_line :: "Theme \<Rightarrow> string \<Rightarrow> bool" where
  "good_line t l \<longleftrightarrow> painted (th_Color t) l (visible False l) \<and> int (RuneCount (visible False l)) \<le> Theme_width t"

lemma good_lineI: "painted (th_Color t) l v \<Longrightarrow> int (RuneCount v) \<le> Theme_width t \<Longrightarrow> good_line t l"
  using visible_painted [of "th_Color t" l v "[]"] by (simp add: good_line_def)

lemma painted_Paint: "plain s \<Longrightarrow> painted (th_Color t) (Paint t tone s) s"
  using painted_plain [of s] painted_tone [of "th_Color t" s tone] by (simp add: Paint_def)

lemma width_at_least: "40 \<le> Theme_width t"
  by (simp add: Theme_width_def MinWidth_def DefaultWidth_def)

lemma good_empty [simp]: "good_line t []"
  using width_at_least [of t] good_lineI [of t "[]" "[]"] painted_plain [of "[]"] by (simp add: RuneCount_def)

abbreviation good :: "Theme \<Rightarrow> string list \<Rightarrow> bool" where
  "good t ls \<equiv> list_all (good_line t) ls"

lemma good_concat: "(\<And>x. x \<in> set xs \<Longrightarrow> good t (f x)) \<Longrightarrow> good t (concat (map f xs))"
  by (induction xs) auto

lemma good_Line:
  assumes "plain_ascii indent" "length indent < 40"
  shows "good t (Line t tone indent s)"
proof -
  have i: "plain indent" "RuneCount indent = length indent" using assms(1) plain_ascii RuneCount_ascii by auto
  have "good_line t (indent @ Paint t tone l)" if "l \<in> set (Wrap s (Theme_width t - int (RuneCount indent)))" for l
  proof (rule good_lineI)
    note w = Wrap_lines [OF that]
    show "painted (th_Color t) (indent @ Paint t tone l) (indent @ l)"
      using w i(1) by (intro painted_append painted_plain painted_Paint) simp_all
    show "int (RuneCount (indent @ l)) \<le> Theme_width t"
      using w assms(2) i width_at_least [of t] by (simp add: RuneCount_append)
  qed
  then show ?thesis by (simp add: Line_def list_all_iff)
qed

lemma good_Lines [simp]: "good t (Line t tone ''  '' s)" "good t (Line t tone ''    '' s)"
  by (rule good_Line, code_simp, simp)+

lemma good_Notice [simp]: "good t (Notice t tone title ls)"
  unfolding Notice_def by (auto intro: good_concat)

lemma good_Section:
  assumes "plain title" "RuneCount title \<le> 37"
  shows "good t (Section t title)"
proof -
  let ?n = "max 0 (Theme_width t - int (RuneCount title) - 3)"
  let ?s = "''  '' @ title @ '' '' @ Repeat bar ?n"
  have sp: "plain ''  ''" "plain '' ''" "RuneCount ''  '' = 2" "RuneCount '' '' = 1"
    using plain_ascii [of "''  ''"] plain_ascii [of "'' ''"] RuneCount_ascii [of "''  ''"] RuneCount_ascii [of "'' ''"]
    by (simp_all add: plain_ascii_def between_def byte_def)
  have "plain ?s" by (intro plain_append assms(1) sp plain_Repeat glyph_plain)
  moreover have "RuneCount ?s = 2 + (RuneCount title + (1 + nat ?n * 1))"
    by (simp only: RuneCount_append [OF sp(1)] RuneCount_append [OF sp(2)] RuneCount_append [OF assms(1)] sp(3,4)
        RuneCount_Repeat [OF glyph_plain(8)] glyph_count)
  then have "int (RuneCount ?s) \<le> Theme_width t" using assms(2) width_at_least [of t] by simp
  ultimately show ?thesis by (simp only: Section_def list.pred_inject good_empty good_lineI [OF painted_Paint] simp_thms)
qed


section \<open>Panels\<close>

lemma panel_row:
  assumes "plain l" "int (RuneCount l) \<le> Theme_width t - 4" "painted (th_Color t) p l"
  shows "\<exists>v. painted (th_Color t) (Paint t Info (side @ '' '') @ p @ Repeat '' '' (max 0 (Theme_width t - 4 - int (RuneCount l)))
      @ Paint t Info ('' '' @ side)) v \<and> int (RuneCount v) = Theme_width t"
proof -
  let ?n = "max 0 (Theme_width t - 4 - int (RuneCount l))"
  have sp: "plain '' ''" "RuneCount '' '' = 1"
    using plain_ascii [of "'' ''"] RuneCount_ascii [of "'' ''"] by (simp_all add: plain_ascii_def between_def byte_def)
  have e: "plain (side @ '' '')" "plain ('' '' @ side)" by (intro plain_append glyph_plain sp)+
  have rep: "plain (Repeat '' '' ?n)" by (rule plain_Repeat [OF sp(1)])
  let ?v = "(side @ '' '') @ l @ Repeat '' '' ?n @ ('' '' @ side)"
  have "RuneCount ?v = (1 + 1) + (RuneCount l + (nat ?n * 1 + (1 + 1)))"
    by (simp only: RuneCount_append [OF e(1)] RuneCount_append [OF assms(1)] RuneCount_append [OF rep]
        RuneCount_append [OF glyph_plain(9)] RuneCount_append [OF sp(1)] RuneCount_Repeat [OF sp(1)] sp(2) glyph_count)
  then have "int (RuneCount ?v) = Theme_width t" using assms(2) by simp
  moreover have "painted (th_Color t) (Paint t Info (side @ '' '') @ p @ Repeat '' '' ?n @ Paint t Info ('' '' @ side)) ?v"
    by (intro painted_append painted_Paint painted_plain e assms(3) rep)
  ultimately show ?thesis by blast
qed

lemma panel_edge:
  assumes "plain a" "RuneCount a = k" "plain b" "RuneCount b = 1" "int k + 1 \<le> Theme_width t"
  shows "painted (th_Color t) (Paint t Info (a @ Repeat bar (Theme_width t - int k - 1) @ b)) (a @ Repeat bar (Theme_width t - int k - 1) @ b)
    \<and> int (RuneCount (a @ Repeat bar (Theme_width t - int k - 1) @ b)) = Theme_width t"
proof -
  have rep: "plain (Repeat bar n)" for n by (rule plain_Repeat [OF glyph_plain(8)])
  have "RuneCount (a @ Repeat bar n @ b) = k + (nat n * 1 + 1)" for n
    by (simp only: RuneCount_append [OF assms(1)] RuneCount_append [OF rep] RuneCount_Repeat [OF glyph_plain(8)] assms glyph_count)
  moreover have "plain (a @ Repeat bar n @ b)" for n by (intro plain_append rep assms)
  ultimately show ?thesis using assms(5) painted_Paint by simp
qed

lemma panel_lines: "\<forall>l \<in> set (Panel t tone title ls). \<exists>v. painted (th_Color t) l v \<and> int (RuneCount v) = Theme_width t"
proof
  fix l assume l: "l \<in> set (Panel t tone title ls)"
  let ?w = "Theme_width t - 4"
  have w: "max 1 ?w = ?w" "40 \<le> Theme_width t" using width_at_least [of t] by simp_all
  have black: "plain '' BLACKBOX ''" "RuneCount '' BLACKBOX '' = 10"
    using plain_ascii [of "'' BLACKBOX ''"] RuneCount_ascii [of "'' BLACKBOX ''"] by (simp_all add: plain_ascii_def between_def byte_def)
  have edge1: "plain (corner_tl @ bar @ '' BLACKBOX '')" by (intro plain_append glyph_plain black)
  have "RuneCount (corner_tl @ bar @ '' BLACKBOX '') = 1 + (1 + 10)"
    by (simp only: RuneCount_append [OF glyph_plain(10)] RuneCount_append [OF glyph_plain(8)] black(2) glyph_count)
  then have edge: "RuneCount (corner_tl @ bar @ '' BLACKBOX '') = 12" by (simp only: numeral_plus_one one_plus_numeral) simp
  have row: "\<exists>v. painted (th_Color t) (Paint t Info (side @ '' '') @ p @ Repeat '' '' (max 0 (?w - int (RuneCount k)))
      @ Paint t Info ('' '' @ side)) v \<and> int (RuneCount v) = Theme_width t"
    if "k \<in> set (Wrap s ?w)" "p = k \<or> p = Paint t tone k" for k s p
    using Wrap_lines [OF that(1)] w(1) that(2) painted_plain painted_Paint by (intro panel_row) auto
  from l consider
      (top) "l = Paint t Info ((corner_tl @ bar @ '' BLACKBOX '') @ Repeat bar (Theme_width t - int 12 - 1) @ corner_tr)"
    | (body) k s p where "k \<in> set (Wrap s ?w)" "p = k \<or> p = Paint t tone k"
        "l = Paint t Info (side @ '' '') @ p @ Repeat '' '' (max 0 (?w - int (RuneCount k))) @ Paint t Info ('' '' @ side)"
    | (bottom) "l = Paint t Info (corner_bl @ Repeat bar (Theme_width t - int 1 - 1) @ corner_br)"
    unfolding Panel_def Let_def by (auto simp: diff_diff_eq)
  then show "\<exists>v. painted (th_Color t) l v \<and> int (RuneCount v) = Theme_width t"
  proof cases
    case top
    then show ?thesis using panel_edge [OF edge1 edge glyph_plain(11) glyph_count(5), of t] w(2) by auto
  next
    case body
    then show ?thesis using row by simp
  next
    case bottom
    then show ?thesis using panel_edge [of corner_bl 1 corner_br t] w(2) by auto
  qed
qed


lemma good_Panel [simp]: "good t (Panel t tone title ls)"
  using panel_lines [of t tone title ls] good_lineI by (fastforce simp: list_all_iff)

section \<open>Tables\<close>

lemma aligned_plain:
  assumes "list_all (list_all plain) rows"
  shows "list_all plain (aligned rows)"
proof -
  have "plain (aligned_row rows i)" if "i < length rows" for i
  proof -
    have sp: "plain '' ''" using plain_ascii [of "'' ''"] by (simp add: plain_ascii_def between_def byte_def)
    have "plain (rows ! i ! j)" if "j < length (rows ! i)" for j
      using assms \<open>i < length rows\<close> that by (simp add: list_all_length)
    then show ?thesis
      using plain_Repeat [OF sp] by (auto simp: aligned_row_def Let_def list_all_iff intro!: plain_concat plain_append)
  qed
  then show ?thesis by (simp add: aligned_def list_all_iff)
qed

lemma good_Table [simp]: "good t (Table t header rows tones)"
proof -
  define cells where "cells = clean_cells header # map clean_cells rows"
  have plain: "list_all plain (aligned cells)"
    by (rule aligned_plain) (auto simp: cells_def clean_cells_def list_all_iff)
  have row: "good_line t (''  '' @ Paint t tone line)" if "line \<in> set (aligned cells)" "int (RuneCount line) + 2 \<le> Theme_width t" for line tone
  proof (rule good_lineI)
    have sp: "plain ''  ''" "RuneCount ''  '' = 2"
      using plain_ascii [of "''  ''"] RuneCount_ascii [of "''  ''"] by (simp_all add: plain_ascii_def between_def byte_def)
    show "painted (th_Color t) (''  '' @ Paint t tone line) (''  '' @ line)"
      using plain that(1) by (intro painted_append painted_plain painted_Paint sp(1)) (simp add: list_all_iff)
    show "int (RuneCount (''  '' @ line)) \<le> Theme_width t"
      unfolding RuneCount_append [OF sp(1)] sp(2) using that(2) by simp
  qed
  let ?tone = "\<lambda>i. if i < length tones then tones ! i else Neutral"
  show ?thesis
  proof (cases "\<exists>line \<in> set (aligned cells). Theme_width t < int (RuneCount line) + 2")
    case True
    have "good t (concat (map (\<lambda>i. (if 0 < i then [[]] else [])
        @ Line t (?tone i) ''  '' (labelled (clean_cells header) (clean_cells (rows ! i)))) [0..<length rows]))"
      by (rule good_concat) simp
    then show ?thesis using True by (simp only: Table_def Let_def cells_def [symmetric] if_True)
  next
    case False
    have "good t (map (\<lambda>i. ''  '' @ Paint t (if i = 0 then Muted else ?tone (i - 1)) (aligned cells ! i)) [0..<length (aligned cells)])"
      unfolding list.pred_map
    proof (rule list_all_iff [THEN iffD2], rule ballI)
      fix i assume "i \<in> set [0..<length (aligned cells)]"
      then have "aligned cells ! i \<in> set (aligned cells)" by simp
      then show "(good_line t \<circ> (\<lambda>i. ''  '' @ Paint t (if i = 0 then Muted else ?tone (i - 1)) (aligned cells ! i))) i"
        unfolding comp_def using False by (intro row) (simp_all add: not_less)
    qed
    then show ?thesis using False by (simp only: Table_def Let_def cells_def [symmetric] if_False)
  qed
qed

section \<open>Counts\<close>

lemma group_digits_filter:
  "CHR '','' \<notin> set s \<Longrightarrow> i \<le> length s \<Longrightarrow> filter (\<lambda>c. c \<noteq> CHR '','') (group_digits (s @ t) i) = s @ filter (\<lambda>c. c \<noteq> CHR '','') t"
proof (induction i arbitrary: s t rule: less_induct)
  case (less i)
  have s: "filter (\<lambda>c. c \<noteq> CHR '','') s = s" using less.prems(1) by (induction s) auto
  show ?case
  proof (cases "0 < i")
    case True
    have "CHR '','' \<notin> set (take i s)" "CHR '','' \<notin> set (drop i s)"
      using less.prems(1) by (auto dest: in_set_takeD in_set_dropD)
    then have d: "filter (\<lambda>c. c \<noteq> CHR '','') (drop i s) = drop i s" by (auto simp: filter_id_conv)
    have "filter (\<lambda>c. c \<noteq> CHR '','') (group_digits (take i s @ '','' @ drop i s @ t) (i - 3))
      = take i s @ filter (\<lambda>c. c \<noteq> CHR '','') ('','' @ drop i s @ t)"
      by (rule less.IH) (use True less.prems \<open>CHR '','' \<notin> set (take i s)\<close> in simp_all)
    also have "\<dots> = s @ filter (\<lambda>c. c \<noteq> CHR '','') t" using d by simp
    finally have "filter (\<lambda>c. c \<noteq> CHR '','') (group_digits (take i s @ '','' @ drop i s @ t) (i - 3)) = s @ filter (\<lambda>c. c \<noteq> CHR '','') t" .
    moreover have "group_digits (s @ t) i = group_digits (take i s @ '','' @ drop i s @ t) (i - 3)"
      using group_digits.simps [of "s @ t" i] True less.prems(2) by (simp only: if_True take_append drop_append diff_is_0_eq [THEN iffD2] take0 drop0 append_Nil2 append_assoc)
    ultimately show ?thesis by simp
  next
    case False
    then have "group_digits (s @ t) i = s @ t" using group_digits.simps [of "s @ t" i] by (simp only: if_False)
    then show ?thesis using s by simp
  qed
qed

lemma Count_digits: "filter (\<lambda>c. c \<noteq> CHR '','') (Count n) = show_u64 n"
proof -
  have "CHR '','' \<notin> set (show_u64 n)"
    using show_nat_digits [of "CHR '',''" "unat n"] by (auto simp: show_u64_def is_digit_def)
  then show ?thesis using group_digits_filter [of "show_u64 n" "length (show_u64 n) - 3" "[]"] by (simp add: Count_def Let_def)
qed


section \<open>Properties\<close>

text \<open>C0: \<open>Wrap\<close> fits the width and loses no text.  Every line is printable and has at most the given
  number of runes, and the lines have, in order, exactly the runes of the cleaned text that are not white
  space, even where a word is longer than a line.\<close>

theorem wrap_lossless:
  "list_all (\<lambda>l. plain l \<and> int (RuneCount l) \<le> max 1 width) (Wrap s width)
   \<and> filter (\<lambda>r. \<not> IsSpace r) (concat (map runes (Wrap s width))) = filter (\<lambda>r. \<not> IsSpace r) (runes (Clean s))"
proof -
  obtain ls where ls: "Wrap s width = (if ls = [] then [[]] else map concat ls)" "list_all (list_all plain_rune) ls"
    "filter (\<lambda>r. \<not> IsSpace r) (concat ls) = filter (\<lambda>r. \<not> IsSpace r) (clean_runes s)" by (rule Wrap_runes)
  have "map runes (map concat ls) = ls"
    using ls(2) by (induction ls) (auto simp: plain_rune_def list_all_iff runes_concat)
  then have "concat (map runes (Wrap s width)) = concat ls" by (simp add: ls(1))
  then show ?thesis using Wrap_lines [of _ s width] ls(3) by (simp add: list_all_iff runes_Clean)
qed

text \<open>The panel is a box: with or without colours, every line of it shows exactly as many runes as the
  theme is wide, whatever its title and lines hold.\<close>

theorem panel_aligned:
  "list_all (\<lambda>l. painted (th_Color t) l (visible False l) \<and> int (RuneCount (visible False l)) = Theme_width t)
     (Panel t tone title ls)"
  using panel_lines [of t tone title ls] visible_painted [of "th_Color t" _ _ "[]"] by (fastforce simp: list_all_iff)

end
