(* ===== verification/Render_Theorems.thy ===== *)
theory Render_Theorems
  imports Render Terminal_Theorems Evidence
begin

text \<open>
  The text report of any capture: it is printed without a panic, and every line fits the terminal and
  shows only printable text, whatever the names in the capture hold.
\<close>

lemma good_title: "plain_ascii s \<Longrightarrow> length s \<le> 37 \<Longrightarrow> good t (Section t s)"
  using plain_ascii RuneCount_ascii by (auto intro: good_Section)

lemma good_title_dot:
  assumes "plain_ascii x" "plain_ascii y" "length x + length y \<le> 34"
  shows "good t (Section t (x @ dot @ y))"
proof (rule good_Section)
  have "plain_ascii '' ''" by code_simp
  then have p: "plain x" "plain y" "plain dot"
    unfolding dot_def using assms plain_ascii by (blast intro: plain_append glyph_plain)+
  then show "plain (x @ dot @ y)" by blast
  have "RuneCount dot = 3" by code_simp
  then show "RuneCount (x @ dot @ y) \<le> 37"
    using assms RuneCount_ascii p by (simp add: RuneCount_append)
qed

lemma report_titles:
  "good t (Section t ''AUTOMATIC CAPTURE'')" "good t (Section t ''SIGNALS'')" "good t (Section t ''EVIDENCE TO REVIEW'')"
  "good t (Section t (''EVENTS'' @ dot @ ''UTC''))" "good t (Section t (''AFFECTED PROCESSES'' @ dot @ ''RETAINED EVENTS''))"
  "good t (Section t (''DIAGNOSTICS'' @ dot @ ''SINCE DAEMON START''))"
  by (rule good_title good_title_dot; code_simp)+

lemmas good_simps = list_all_append list.pred_inject good_empty good_Lines good_Notice good_Panel good_Table report_titles simp_thms

lemma good_reason_lines [simp]: "good t (reason_lines t shown ns)"
  by (induction t shown ns rule: reason_lines.induct) (simp_all only: reason_lines.simps good_simps split: if_split, blast)

lemma good_signal_lines [simp]: "good t (signal_lines t r a s)"
  unfolding signal_lines_def by (simp only: good_simps good_concat Let_def prod.split)

lemma good_process_lines: "good (ro_Theme options) (process_lines r options)"
  unfolding process_lines_def Let_def by (simp only: good_simps split: if_split)

lemma good_event_lines: "good (ro_Theme options) (event_lines r options)"
  unfolding event_lines_def Let_def by (simp only: good_simps good_process_lines split: if_split)

lemma good_sensor_diagnostics: "good t (sensor_diagnostics t s)"
  unfolding sensor_diagnostics_def by (simp only: good_simps good_concat split: if_split)

lemma good_diagnostics [simp]: "good t (diagnostics t r)"
  unfolding diagnostics_def Let_def by (simp only: good_simps good_concat good_sensor_diagnostics split: if_split)

lemma good_window_lines [simp]: "good t (window_lines t r)"
  unfolding window_lines_def Let_def by (simp only: good_simps split: if_split option.split)

lemma good_incident_lines [simp]: "good t (incident_lines t r)"
  unfolding incident_lines_def by (simp only: good_simps good_concat split: option.split)

lemma good_correlation_lines [simp]: "good t (correlation_lines t r)"
  unfolding correlation_lines_def by (simp only: good_simps good_concat)

lemma report_good: "RenderWithOptions r options = Some ls \<Longrightarrow> good (ro_Theme options) ls"
  unfolding RenderWithOptions_def Let_def
  by (auto simp only: map_option_eq_Some good_simps good_concat good_event_lines good_diagnostics good_window_lines
      good_incident_lines good_correlation_lines good_reason_lines good_signal_lines split: if_splits)

lemma worst_highlight_in: "worst_highlight w hs \<in> set (w # hs)"
  by (induction w hs rule: worst_highlight.induct) auto

lemma report_rendered:
  assumes "report_ok r"
  shows "\<exists>ls. RenderWithOptions r options = Some ls"
proof -
  define a where "a = (if as_Code (rp_Assessment r) = [] then assess r else rp_Assessment r)"
  have ok: "list_all (highlight_ok (length (rp_Timeline r))) (as_Highlights a)"
    using assms assess_ok [of r] by (auto simp: a_def report_ok_def assessment_ok_def)
  have "highlight_line r a \<noteq> None"
  proof (cases "as_Highlights a")
    case (Cons h hs)
    then have "highlight_ok (length (rp_Timeline r)) (worst_highlight h hs)"
      using ok worst_highlight_in [of h hs] by (auto simp: list_all_iff)
    then show ?thesis using Cons by (simp add: highlight_line_def Let_def highlight_ok_def)
  qed (simp add: highlight_line_def)
  then show ?thesis unfolding RenderWithOptions_def Let_def a_def [symmetric] by auto
qed


text \<open>C0: The report of any capture is printed without a panic and is safe to show.  Whatever the names and
  texts in the capture hold, every line consists of printable runes and, only with colours on, of the
  theme's own colour sequences around such runes; and the text seen on a line is never wider than the
  terminal.\<close>

theorem report_safe:
  "\<exists>ls. RenderWithOptions (Analyze c) options = Some ls
    \<and> list_all (\<lambda>l. painted (th_Color (ro_Theme options)) l (visible False l)
        \<and> int (RuneCount (visible False l)) \<le> Theme_width (ro_Theme options)) ls"
proof -
  obtain ls where "RenderWithOptions (Analyze c) options = Some ls"
    using report_rendered [OF Analyze_ok] by blast
  then show ?thesis using report_good by (force simp: good_line_def list_all_iff)
qed

end
