(* ===== verification/Status.thy ===== *)
theory Status
  imports Settings Render_Theorems
begin

text \<open>
  The \<open>status\<close> command (\<open>internal/cli/status.go\<close>): the lines printed for the health of a daemon, which
  came over the socket and is not trusted.
\<close>

text \<open>\<open>%.2f\<close> of a number of bytes in MiB.\<close>

definition mib :: "int \<Rightarrow> string" where
  "mib n = (if n < 0 then CHR ''-'' # float_fixed 2 (2 ^ 20) (- n) else float_fixed 2 (2 ^ 20) n)"

definition rounded_s :: "u64 \<Rightarrow> string" where
  "rounded_s d = Duration_String (Duration_Round (sint d) Second)"

fun sensorCounts :: "SensorHealth list \<Rightarrow> int \<times> int" where
  "sensorCounts [] = (0, 0)"
| "sensorCounts (s # ss) =
     (case sensorCounts ss of (enabled, active) \<Rightarrow>
        (if sh_State s \<noteq> ''disabled'' then enabled + 1 else enabled, if sh_State s = ''healthy'' then active + 1 else active))"

definition collection_notes :: "Health \<Rightarrow> bool" where
  "collection_notes h \<longleftrightarrow>
     (case he_AutoCapture h of None \<Rightarrow> False | Some a \<Rightarrow> ah_LastError a \<noteq> [] \<or> ah_WriteOverdue a)
     \<or> (\<exists>s \<in> set (he_Sensors h). sh_Loss s \<noteq> zero_Counters \<or> 0 < sh_BudgetPruneFailures s
          \<or> sh_TCPResetCoverage s = TCPResetCoverageUnknown)
     \<or> 0 < he_IngressDrops h + he_RecorderDrops h + he_MetadataFailures h + he_SnapshotFailures h + he_ClockChanges h"

definition status_title :: "int \<Rightarrow> int \<Rightarrow> bool \<Rightarrow> Tone \<times> string" where
  "status_title enabled active notes =
     (if enabled = 0 then (Info, ''RECORDER STATUS UNKNOWN'')
      else if active = 0 then (Critical, ''NO ACTIVE SENSORS'')
      else if active < enabled \<or> notes then (Warning, ''RECORDER ACTIVE'' @ dot @ ''COLLECTION NOTES'')
      else (Good, ''RECORDER ACTIVE''))"

definition status_summary :: "Health \<Rightarrow> RecordingSettings option \<Rightarrow> int \<Rightarrow> int \<Rightarrow> string list" where
  "status_summary h settings enabled active =
     [show_int active @ '' / '' @ show_int enabled @ '' enabled sensors recording'' @ dot @ mib (he_RetainedBytes h) @ '' / ''
        @ mib (he_MaxBytes h) @ '' MiB history retained'']
     @ (if he_RetainedSpanNS h \<noteq> 0 then
          [''Oldest retained segment: '' @ rounded_s (he_RetainedSpanNS h) @ '' ago''
             @ (case settings of
                  None \<Rightarrow> []
                | Some s \<Rightarrow> if 0 < rs_HistoryNS s then dot @ ''history target '' @ DurationText (sint (rs_HistoryNS s)) else [])]
          @ (if 0 < he_DetailedSpanNS h \<and> he_DetailedSpanNS h < he_RetainedSpanNS h then
               [''Individual event details retained for '' @ rounded_s (he_DetailedSpanNS h)
                  @ ''; older history contains aggregates only'']
             else [])
        else [])
     @ [''Counters cover this daemon run. Analyze a snapshot to assess workload signals.'']"

definition sensor_state :: "SensorHealth \<Rightarrow> Tone \<times> string" where
  "sensor_state s =
     (if sh_State s = ''disabled'' then (Muted, ''Disabled by configuration'')
      else if sh_State s \<noteq> ''healthy'' then (Warning, ''Coverage '' @ sh_State s)
      else if sh_TCPResetCoverage s = TCPResetCoverageUnknown then (Warning, ''Recording'' @ dot @ ''reset coverage limited'')
      else (Good, ''Recording''))"

definition sensor_lines :: "Theme \<Rightarrow> SensorHealth \<Rightarrow> string list" where
  "sensor_lines t s =
     (let (tone, state) = sensor_state s;
          detail = (if sh_Reason s \<noteq> [] then sh_Reason s
                    else if sh_KernelBytesKnown s then ''BPF allocation '' @ mib (uint (sh_KernelBytes s)) @ '' MiB'' else [])
      in Notice t tone (Sensor_label (sh_Name s) @ '' '' @ em_dash @ '' '' @ state) []
         @ (if detail \<noteq> [] then Line t Muted ''    '' detail else [])
         @ (if sh_TCPResetCoverage s = TCPResetCoverageLimited then
              Line t Muted ''    '' ''Capability: sent resets without a full socket are not visible on this kernel (socketless, TIME_WAIT, request sockets). Zero observed resets cannot establish their absence.''
            else []))"

definition writer_text :: "AutoCaptureHealth \<Rightarrow> string" where
  "writer_text a =
     ''Snapshot writer held for '' @ DurationText (sint (ah_WritingForNS a)) @ dot @ ''timeout ''
     @ DurationText (sint (ah_WriteTimeoutNS a))
     @ (if ah_WriteOverdue a then '' exceeded; waiting for filesystem, manual snapshots remain busy'' else [])"

definition auto_capture_lines :: "Theme \<Rightarrow> AutoCaptureHealth \<Rightarrow> string list" where
  "auto_capture_lines t a =
     (let tone = (if ah_LastError a \<noteq> [] \<or> ah_State a = ''inactive'' \<or> ah_WriteOverdue a then Warning else Info) in
      Section t ''AUTOMATIC CAPTURES''
      @ Notice t tone (''State: '' @ ah_State a) [''Sources: '' @ join_with '', '' (ah_Sensors a) @ dot @ ah_Directory a]
      @ Line t Muted ''    '' (''Detected '' @ show_u64 (ah_Detected a) @ dot @ ''saved '' @ show_u64 (ah_Saved a) @ dot
          @ ''coalesced '' @ show_u64 (ah_Coalesced a) @ dot @ ''failures '' @ show_u64 (ah_Failures a) @ '' (daemon lifetime)'')
      @ (if 0 < ah_WriteTimeoutNS a then Line t tone ''    '' (writer_text a) else [])
      @ (if ah_PendingUntilNS a \<noteq> 0 then
           Line t Muted ''    '' (if 0 < ah_PendingForNS a then ''Window ends in '' @ rounded_s (ah_PendingForNS a)
                                else ''Window complete; waiting for snapshot writer'')
         else [])
      @ (if ah_LastPath a \<noteq> [] then
           Line t Muted ''    '' (''Last: '' @ ah_LastPath a @ dot @ second_time (ah_LastSavedAt a) @ '' UTC'')
         else [])
      @ (if ah_LastError a \<noteq> [] then Line t Warning ''    '' (''Last failure: '' @ ah_LastError a) else []))"

definition clock_lines :: "Theme \<Rightarrow> Health \<Rightarrow> string list" where
  "clock_lines t h =
     Section t ''CLOCK''
     @ Notice t Warning (show_u64 (he_ClockChanges h) @ '' ''
          @ (if he_ClockChanges h = 1 then ''wall-clock discontinuity'' else ''wall-clock discontinuities'') @ '' detected'')
         [''Recording continued. Capture UTC timestamps use a current clock sample; older timestamps may be shifted.'']
     @ (case he_LastClockChange h of
          None \<Rightarrow> []
        | Some step \<Rightarrow> Line t Muted ''    '' (''Last detected '' @ second_time (cd_DetectedAt step) @ '' UTC'' @ dot @ ''offset change ''
            @ Duration_String (cd_OffsetChangeNS step)))
     @ (case he_ObservedAt h of
          None \<Rightarrow> []
        | Some at \<Rightarrow> Line t Muted ''    '' (''Current UTC (realtime): '' @ second_time at))"

definition sensor_notes :: "Theme \<Rightarrow> SensorHealth \<Rightarrow> string list" where
  "sensor_notes t s =
     (if sh_TCPResetCoverage s = TCPResetCoverageUnknown then
        Notice t Warning ''TCP reset coverage limited''
          [''This kernel's socketless sent-reset capability could not be determined. Zero observed resets cannot establish their absence.'']
        @ [[]]
      else [])
     @ concat (map (\<lambda>n. Notice t Warning (Sensor_label (sh_Name s) @ '': '' @ cn_Title n) [cn_Explanation n] @ [[]])
         (CounterNotes (sh_Name s) (sh_Loss s)))
     @ (if 0 < sh_BudgetPruneFailures s then
          Notice t Warning (Sensor_label (sh_Name s) @ '': detail quota cleanup failures: '' @ show_u64 (sh_BudgetPruneFailures s))
            [''Failed cleanup is retried on the next poll. Aggregate metrics remain available; actual missing event details are counted separately as quota failures.'']
          @ [[]]
        else [])"

definition note_lines :: "Theme \<Rightarrow> Health \<Rightarrow> string list" where
  "note_lines t h =
     Section t (''COLLECTION NOTES'' @ dot @ ''SINCE DAEMON START'')
     @ concat (map (sensor_notes t) (he_Sensors h))
     @ (if 0 < he_IngressDrops h + he_RecorderDrops h then
          Notice t Warning ''Some observations were dropped''
            [Count (he_IngressDrops h) @ '' event details could not enter userspace ingress; '' @ Count (he_RecorderDrops h)
             @ '' observations could not be retained by the recorder. Individual events or metric intervals may be missing.'']
        else [])
     @ (if 0 < he_MetadataFailures h then
          Notice t Info (Count (he_MetadataFailures h) @ '' process identities could not be resolved'')
            [''Kernel observations were retained, but some process context is unavailable.'']
        else [])
     @ (if 0 < he_SnapshotFailures h then
          Notice t Warning (Count (he_SnapshotFailures h) @ '' snapshot writes failed'')
            [''Some requested captures could not be saved. Recording may still be active.'']
        else [])"

definition verbose_lines :: "Theme \<Rightarrow> Health \<Rightarrow> string list" where
  "verbose_lines t h =
     Section t (''DIAGNOSTICS'' @ dot @ ''SINCE DAEMON START'')
     @ Table t diagnostics_header
         (map (\<lambda>s. tabs (Sensor_label (sh_Name s) # sh_State s # loss_cells show_u64 (sh_Loss s))) (he_Sensors h)) []
     @ concat (map (\<lambda>s. if 0 < sh_BookkeepingCompletions s then
           Line t Muted ''  '' (Sensor_label (sh_Name s) @ '': '' @ Count (sh_BookkeepingCompletions s)
             @ '' zero-byte logical WRITE completions excluded as bookkeeping; dispatched cache flushes are still measured.'')
         else []) (he_Sensors h))
     @ Table t (tabs [''Recorder counter'', ''Lifetime total'']) (recorder_counters h) []"

definition renderStatus :: "Health \<Rightarrow> RecordingSettings option \<Rightarrow> Theme \<Rightarrow> bool \<Rightarrow> string list" where
  "renderStatus h settings t verbose =
     (let (enabled, active) = sensorCounts (he_Sensors h); notes = collection_notes h;
          (tone, title) = status_title enabled active notes
      in Panel t tone title (status_summary h settings enabled active)
         @ Section t ''SENSORS''
         @ concat (map (sensor_lines t) (he_Sensors h))
         @ (case he_AutoCapture h of None \<Rightarrow> [] | Some a \<Rightarrow> auto_capture_lines t a)
         @ (if 0 < he_ClockChanges h then clock_lines t h else [])
         @ (if notes then note_lines t h else [])
         @ (if verbose then verbose_lines t h else [])
         @ [[]]
         @ (if \<not> verbose then Line t Muted ''  '' (''--verbose: lifetime counters'' @ dot @ ''--json: machine-readable health'')
            else []))"

section \<open>The output is safe to show\<close>

lemma status_titles:
  "good t (Section t ''SENSORS'')" "good t (Section t ''AUTOMATIC CAPTURES'')" "good t (Section t ''CLOCK'')"
  "good t (Section t (''COLLECTION NOTES'' @ dot @ ''SINCE DAEMON START''))"
  by (rule good_title good_title_dot; code_simp)+

lemma good_sensor_lines: "good t (sensor_lines t s)"
  unfolding sensor_lines_def Let_def by (simp only: good_simps split: if_split prod.split)

lemma good_auto_capture_lines: "good t (auto_capture_lines t a)"
  unfolding auto_capture_lines_def Let_def by (simp only: good_simps status_titles split: if_split)

lemma good_clock_lines: "good t (clock_lines t h)"
  unfolding clock_lines_def by (simp only: good_simps status_titles split: option.split)

lemma good_sensor_notes: "good t (sensor_notes t s)"
  unfolding sensor_notes_def by (simp only: good_simps good_concat split: if_split)

lemma good_note_lines: "good t (note_lines t h)"
  unfolding note_lines_def by (simp only: good_simps good_concat good_sensor_notes status_titles split: if_split)

lemma good_verbose_lines: "good t (verbose_lines t h)"
  unfolding verbose_lines_def by (simp only: good_simps good_concat split: if_split)

text \<open>The status of any health is printable and fits the terminal.\<close>

lemma status_good: "good t (renderStatus h settings t verbose)"
  unfolding renderStatus_def Let_def
  by (simp only: good_simps good_concat good_sensor_lines good_auto_capture_lines good_clock_lines good_note_lines
      good_verbose_lines status_titles split: if_split option.split prod.split)

end
