(* ===== verification/Control.thy ===== *)
theory Control
  imports Engine Files
begin

text \<open>
  The control protocol (\<open>internal/control/control.go\<close>): requests and responses of one line of JSON
  over a private Unix socket, a capture streamed after its response, the accept loop with its bounds,
  and the client.  A connection accepts writes until one fails, perhaps after some of its bytes; what
  the peer has sent, or sends before the deadline, is a text.
\<close>

section \<open>Messages\<close>

record Request =
  rq_Version :: int
  rq_Operation :: string
  rq_LastNS :: int

record Response =
  ra_Version :: int
  ra_Error :: string
  ra_Health :: "Health option"
  ra_Capture :: bool
  ra_Settings :: "RecordingSettings option"

definition zero_Request :: Request where
  "zero_Request = \<lparr>rq_Version = 0, rq_Operation = [], rq_LastNS = 0\<rparr>"

definition zero_Response :: Response where
  "zero_Response = \<lparr>ra_Version = 0, ra_Error = [], ra_Health = None, ra_Capture = False, ra_Settings = None\<rparr>"

definition Request_fields :: "Request field list" where
  "Request_fields = [
     member ''version'' int_codec rq_Version rq_Version_update,
     member ''operation'' string_codec rq_Operation rq_Operation_update,
     omitempty ''last_ns'' int_codec rq_LastNS rq_LastNS_update]"

definition Request_codec :: "Request codec" where
  "Request_codec = struct_codec Request_fields zero_Request"

definition Response_fields :: "(string \<Rightarrow> bool) \<Rightarrow> Response field list" where
  "Response_fields nl = [
     member ''version'' int_codec ra_Version ra_Version_update,
     omitempty ''error'' string_codec ra_Error ra_Error_update,
     omitempty ''health'' (ptr_codec (Health_codec nl)) ra_Health ra_Health_update,
     omitempty ''capture'' bool_codec ra_Capture ra_Capture_update,
     omitempty ''settings'' (ptr_codec (RecordingSettings_codec nl)) ra_Settings ra_Settings_update]"

definition Response_codec :: "(string \<Rightarrow> bool) \<Rightarrow> Response codec" where
  "Response_codec nl = struct_codec (Response_fields nl) zero_Response"

text \<open>\<open>json.Marshal\<close>, and \<open>json.Unmarshal\<close> into a zero variable: one value and nothing after it.\<close>

definition Marshal :: "'a codec \<Rightarrow> 'a \<Rightarrow> string option" where
  "Marshal c x = map_option show_json (cd_enc c x)"

definition Unmarshal :: "'a codec \<Rightarrow> string \<Rightarrow> 'a option" where
  "Unmarshal c s =
     (case parse_json s of
        None \<Rightarrow> None
      | Some (j, rest) \<Rightarrow> if skip_ws rest = [] then cd_dec c j (cd_zero c) else None)"

section \<open>Connections\<close>

record conn =
  co_out :: string
  co_faults :: "(nat \<times> go_error) option list"

definition conn_write :: "string \<Rightarrow> conn \<Rightarrow> go_error option \<times> conn" where
  "conn_write p v =
     (case co_faults v of
        Some (k, e) # rest \<Rightarrow> (Some e, v\<lparr>co_out := co_out v @ take k p, co_faults := rest\<rparr>)
      | rest \<Rightarrow> (None, v\<lparr>co_out := co_out v @ p, co_faults := drop 1 rest\<rparr>))"

text \<open>The line at the head of a text, with its end, if it is there.\<close>

definition head_line :: "string \<Rightarrow> string option" where
  "head_line s = (if newline \<in> set s then Some (takeWhile (\<lambda>c. c \<noteq> newline) s @ [newline]) else None)"

definition marshal_error :: go_error where
  "marshal_error = External ''json: marshal''"

definition writeResponse :: "(string \<Rightarrow> bool) \<Rightarrow> Control \<Rightarrow> Response \<Rightarrow> conn \<Rightarrow> go_error option \<times> conn" where
  "writeResponse nl limits response v =
     (case Marshal (Response_codec nl) (response\<lparr>ra_Version := ProtocolVersion\<rparr>) of
        None \<Rightarrow> (Some marshal_error, v)
      | Some b \<Rightarrow>
          if cn_ResponseBytes limits < int (length b) + 1 then
            let exceeded = zero_Response\<lparr>ra_Version := ProtocolVersion,
                  ra_Error := ''control response exceeds configured header limit''\<rparr>;
                b = (case Marshal (Response_codec nl) exceeded of None \<Rightarrow> [] | Some b \<Rightarrow> b)
            in (case conn_write (b @ [newline]) v of
                  (Some e, v) \<Rightarrow> (Some e, v)
                | (None, v) \<Rightarrow> (Some (Errorf ''response header budget exceeded''), v))
          else conn_write (b @ [newline]) v)"

section \<open>One client\<close>

text \<open>\<open>Engine.Ask\<close>: what each of its two selections waits for comes, or the context or the recorder ends.\<close>

datatype 'a awaited = Arrived 'a | Cancelled go_error | Stopped

definition zero_Result :: Result where
  "zero_Result = \<lparr>qr_Lease = False, qr_Health = zero_Health, qr_Capture = None, qr_Err = None\<rparr>"

definition Ask :: "unit awaited \<Rightarrow> Result awaited \<Rightarrow> Result \<times> go_error option" where
  "Ask sent answered =
     (case sent of
        Cancelled e \<Rightarrow> (zero_Result, Some e)
      | Stopped \<Rightarrow> (zero_Result, Some (Errorf ''recorder stopped''))
      | Arrived _ \<Rightarrow>
          (case answered of
             Arrived r \<Rightarrow> (r, qr_Err r)
           | Cancelled e \<Rightarrow> (zero_Result, Some e)
           | Stopped \<Rightarrow> (zero_Result, Some (Errorf ''recorder stopped''))))"

definition read_request :: "Control \<Rightarrow> string \<Rightarrow> go_error + Request" where
  "read_request limits input =
     (case head_line (take (nat (cn_RequestBytes limits) + 1) input) of
        None \<Rightarrow> Inl (Errorf ''invalid control request'')
      | Some line \<Rightarrow>
          if cn_RequestBytes limits < int (length line) then Inl (Errorf ''invalid control request'')
          else case Unmarshal Request_codec line of
            None \<Rightarrow> Inl json_error
          | Some req \<Rightarrow>
              if rq_Version req \<noteq> ProtocolVersion then Inl (Errorf ''unsupported control protocol'')
              else if rq_Operation req \<noteq> ''status'' \<and> rq_Operation req \<noteq> ''snapshot'' then Inl (Errorf ''unknown operation'')
              else if rq_Operation req = ''snapshot'' \<and> rq_LastNS req \<le> 0 then Inl (Errorf ''last must be positive'')
              else Inr req)"

text \<open>\<open>boundedWriter.Write\<close>, with the bytes remaining.\<close>

definition boundedWriter_Write :: "string \<Rightarrow> int \<times> conn \<Rightarrow> go_error option \<times> int \<times> conn" where
  "boundedWriter_Write p st =
     (case st of (remaining, v) \<Rightarrow>
        if remaining < int (length p) then (Some (Errorf ''capture exceeds configured transport limit''), remaining, v)
        else case conn_write p v of
          (e, v') \<Rightarrow> (e, remaining - (int (length (co_out v')) - int (length (co_out v))), v'))"

text \<open>
  What a client gets and does to the engine: its connection, the query asked for it, whether the lease
  of its capture was released and whether a failure of its stream was counted.
\<close>

record served =
  sr_conn :: conn
  sr_asked :: "Duration option"
  sr_released :: bool
  sr_failed :: bool

definition respond_error :: "(string \<Rightarrow> bool) \<Rightarrow> Control \<Rightarrow> go_error \<Rightarrow> conn \<Rightarrow> conn" where
  "respond_error nl limits e v = snd (writeResponse nl limits (zero_Response\<lparr>ra_Error := error_text e\<rparr>) v)"

definition zero_Capture :: Capture where
  "zero_Capture = \<lparr>cp_Manifest = zero_Manifest, cp_Host = zero_Host, cp_Segments = []\<rparr>"

definition serve_client ::
  "(string \<Rightarrow> bool) \<Rightarrow> (entries \<Rightarrow> string list) \<Rightarrow> Config \<Rightarrow> Control \<Rightarrow> RecordingSettings \<Rightarrow>
   (Duration \<Rightarrow> Result \<times> go_error option) \<Rightarrow> bool \<Rightarrow> string \<Rightarrow> conn \<Rightarrow> served"
where
  "serve_client nl chunks cfg limits settings ask stopping input v =
     (case read_request limits input of
        Inl e \<Rightarrow> \<lparr>sr_conn = respond_error nl limits e v, sr_asked = None, sr_released = False, sr_failed = False\<rparr>
      | Inr req \<Rightarrow>
          let snapshot = (rq_Operation req = ''snapshot''); last_d = (if snapshot then rq_LastNS req else 0)
          in case ask last_d of
               (_, Some e) \<Rightarrow>
                 \<lparr>sr_conn = respond_error nl limits e v, sr_asked = Some last_d, sr_released = False, sr_failed = False\<rparr>
             | (r, None) \<Rightarrow>
                 (case writeResponse nl limits
                    (zero_Response\<lparr>ra_Health := Some (qr_Health r), ra_Settings := Some settings, ra_Capture := snapshot\<rparr>) v of
                    (Some e, v) \<Rightarrow> \<lparr>sr_conn = v, sr_asked = Some last_d, sr_released = qr_Lease r, sr_failed = False\<rparr>
                  | (None, v) \<Rightarrow>
                      if snapshot then
                        (case write_container chunks nl (cf_Capture cfg) (case qr_Capture r of None \<Rightarrow> zero_Capture | Some c \<Rightarrow> c)
                           boundedWriter_Write (cn_MaxCaptureBytes limits, v) of
                           ((_, err), _, v) \<Rightarrow>
                             \<lparr>sr_conn = v, sr_asked = Some last_d, sr_released = qr_Lease r,
                              sr_failed = (err \<noteq> None \<and> \<not> stopping)\<rparr>)
                      else \<lparr>sr_conn = v, sr_asked = Some last_d, sr_released = qr_Lease r, sr_failed = False\<rparr>))"

section \<open>The accept loop\<close>

record listener =
  ls_clients :: int
  ls_retry :: Duration

datatype incoming = Connection | Accept_error bool go_error

datatype accepted = Handle | Refuse | Backoff Duration | Return_accept "go_error option"

text \<open>
  One turn of the loop of \<open>serveListener\<close>; \<open>stopping\<close> tells whether the context has ended, and an error
  of \<open>Accept\<close> carries whether it is temporary or memory pressure.
\<close>

definition accept_step :: "Control \<Rightarrow> bool \<Rightarrow> incoming \<Rightarrow> listener \<Rightarrow> accepted \<times> listener" where
  "accept_step limits stopping i l =
     (case i of
        Connection \<Rightarrow>
          let l = l\<lparr>ls_retry := 0\<rparr>
          in if ls_clients l < cn_MaxClients limits then (Handle, l\<lparr>ls_clients := ls_clients l + 1\<rparr>) else (Refuse, l)
      | Accept_error retryable e \<Rightarrow>
          if stopping then (Return_accept None, l)
          else if retryable then
            let d = (if ls_retry l = 0 then 5 * Millisecond else min (2 * ls_retry l) Second)
            in (Backoff d, l\<lparr>ls_retry := d\<rparr>)
          else (Return_accept (Some e), l))"

text \<open>A refused client is told so.\<close>

definition refuse_client :: "(string \<Rightarrow> bool) \<Rightarrow> Control \<Rightarrow> conn \<Rightarrow> conn" where
  "refuse_client nl limits v = respond_error nl limits (Errorf ''control server is busy; retry later'') v"

text \<open>The states of the loop: turns, and clients that are done.\<close>

inductive listening :: "Control \<Rightarrow> listener \<Rightarrow> bool" for limits where
  listening_start: "listening limits \<lparr>ls_clients = 0, ls_retry = 0\<rparr>"
| listening_turn: "listening limits l \<Longrightarrow> accept_step limits stopping i l = (a, l') \<Longrightarrow> listening limits l'"
| listening_done: "listening limits l \<Longrightarrow> 0 < ls_clients l \<Longrightarrow> listening limits (l\<lparr>ls_clients := ls_clients l - 1\<rparr>)"

section \<open>Taking the socket\<close>

record socket_env =
  so_mkdir :: "go_error option"
  so_stat :: "go_error option"
  so_uid :: int
  so_euid :: int
  so_perm :: u32
  so_lstat :: "go_error + bool"
  so_dial :: "go_error option"
  so_remove :: "go_error option"
  so_listen :: "go_error option"
  so_chmod :: "go_error option"

definition privateDirectory :: "string \<Rightarrow> socket_env \<Rightarrow> go_error option" where
  "privateDirectory path env =
     (case so_stat env of
        Some e \<Rightarrow> Some e
      | None \<Rightarrow>
          if so_uid env \<noteq> so_euid env \<or> so_perm env AND 18 \<noteq> 0 then
            Some (Errorf (''control socket directory must be owned by the daemon user and not group/world writable: '' @ path))
          else None)"

definition ECONNREFUSED :: go_error where
  "ECONNREFUSED = External ''connection refused''"

text \<open>\<open>Serve\<close> up to \<open>serveListener\<close>: the error if it fails, and the calls that change the file system.\<close>

datatype socket_call = Remove_path | Listen_path | Chmod_path

definition zero_Control :: Control where
  "zero_Control = \<lparr>cn_MaxClients = 0, cn_RequestBytes = 0, cn_ResponseBytes = 0, cn_Timeout = 0, cn_QueryTimeout = 0,
     cn_DialTimeout = 0, cn_MaxCaptureBytes = 0\<rparr>"

definition bind_socket :: "socket_env \<Rightarrow> socket_call list \<Rightarrow> go_error option \<times> socket_call list" where
  "bind_socket env calls =
     (case so_listen env of
        Some e \<Rightarrow> (Some e, calls @ [Listen_path])
      | None \<Rightarrow>
          (case so_chmod env of
             Some e \<Rightarrow> (Some e, calls @ [Listen_path, Chmod_path, Remove_path])
           | None \<Rightarrow> (None, calls @ [Listen_path, Chmod_path])))"

definition Serve_limits :: "Control \<Rightarrow> Control" where
  "Serve_limits limits = (if limits = zero_Control then cf_Control Default else limits)"

definition Serve :: "string \<Rightarrow> string \<Rightarrow> Control \<Rightarrow> socket_env \<Rightarrow> go_error option \<times> socket_call list" where
  "Serve directory path limits env =
     (case Control_Validate (Serve_limits limits) of
        Some e \<Rightarrow> (Some e, [])
      | None \<Rightarrow>
        (case so_mkdir env of
           Some e \<Rightarrow> (Some e, [])
         | None \<Rightarrow>
           (case privateDirectory directory env of
              Some e \<Rightarrow> (Some e, [])
            | None \<Rightarrow>
              (case so_lstat env of
                 Inl e \<Rightarrow> if e = NotExist then bind_socket env [] else (Some e, [])
               | Inr is_socket \<Rightarrow>
                   if \<not> is_socket then (Some (Errorf ''control path exists and is not a socket''), [])
                   else case so_dial env of
                     None \<Rightarrow> (Some (Errorf (''daemon already listening on '' @ path)), [])
                   | Some er \<Rightarrow>
                       if er \<noteq> ECONNREFUSED then (Some (Wrapf ''refuse to replace socket'' er), [])
                       else case so_remove env of
                         Some e \<Rightarrow> (Some e, [Remove_path])
                       | None \<Rightarrow> bind_socket env [Remove_path]))))"

section \<open>The client\<close>

text \<open>
  The response the daemon sends, \<open>stream\<close>, and how it ends; the buffer of the reader holds at least 16
  bytes.
\<close>

definition EOF :: go_error where
  "EOF = External ''EOF''"

definition read_response :: "Control \<Rightarrow> string \<Rightarrow> go_error option \<Rightarrow> go_error + string" where
  "read_response limits stream failure =
     (let n = max 16 (nat (cn_ResponseBytes limits)) in
      case head_line (take n stream) of
        None \<Rightarrow>
          Inl (if n \<le> length stream then Errorf ''oversized control response''
               else case failure of None \<Rightarrow> EOF | Some e \<Rightarrow> e)
      | Some line \<Rightarrow>
          if cn_ResponseBytes limits < int (length line) then Inl (Errorf ''oversized control response'') else Inr line)"

definition check_response :: "Response \<Rightarrow> go_error option" where
  "check_response r =
     (if ra_Version r \<noteq> ProtocolVersion then
        Some (Errorf (''unsupported control protocol '' @ show_int (ra_Version r) @ '' (client supports '' @ show_int ProtocolVersion
          @ ''); use matching client and daemon versions''))
      else if ra_Error r \<noteq> [] then Some (Errorf (ra_Error r))
      else None)"

text \<open>\<open>io.Copy\<close> of the rest of the stream: \<open>pieces\<close> is how its bytes arrive, \<open>put\<close> the destination.\<close>

definition copy_capture ::
  "Control \<Rightarrow> (string \<Rightarrow> string list) \<Rightarrow> (string \<Rightarrow> 'w \<Rightarrow> go_error option \<times> 'w) \<Rightarrow> string \<Rightarrow> go_error option \<Rightarrow> 'w \<Rightarrow>
   (string \<times> go_error option) \<times> 'w"
where
  "copy_capture limits pieces put rest failure w =
     (let n = nat (cn_MaxCaptureBytes limits + 1) in
      case write_chunks put (pieces (take n rest)) w of
        ((bytes, err), w) \<Rightarrow>
          ((bytes, if cn_MaxCaptureBytes limits < int (length bytes) then Some (Errorf ''capture exceeds configured transport limit'')
                   else if err \<noteq> None then err
                   else if length rest < n then failure else None), w))"

definition request_line :: "Request \<Rightarrow> string option" where
  "request_line req = map_option (\<lambda>b. b @ [newline]) (Marshal Request_codec (req\<lparr>rq_Version := ProtocolVersion\<rparr>))"

text \<open>
  \<open>CallWithOptions\<close>: the outcome of dialling and of sending the request, and the stream received; the
  response, the bytes handed to the destination and the error.
\<close>

definition CallWithOptions ::
  "string \<Rightarrow> Control \<Rightarrow> (string \<Rightarrow> string list) \<Rightarrow> go_error option \<Rightarrow> go_error option \<Rightarrow> string \<Rightarrow> go_error option \<Rightarrow> Request \<Rightarrow>
   (string \<Rightarrow> 'w \<Rightarrow> go_error option \<times> 'w) option \<Rightarrow> 'w \<Rightarrow> (Response \<times> string \<times> go_error option) \<times> 'w"
where
  "CallWithOptions path limits pieces dial sending stream failure req dst w =
     (case Control_Validate limits of
        Some e \<Rightarrow> ((zero_Response, [], Some e), w)
      | None \<Rightarrow>
        (case dial of
           Some e \<Rightarrow> ((zero_Response, [], Some (Wrapf (''connect daemon at '' @ path) e)), w)
         | None \<Rightarrow>
           (case (request_line req, sending) of
              (None, _) \<Rightarrow> ((zero_Response, [], Some marshal_error), w)
            | (Some _, Some e) \<Rightarrow> ((zero_Response, [], Some e), w)
            | (Some _, None) \<Rightarrow>
              (case read_response limits stream failure of
                 Inl e \<Rightarrow> ((zero_Response, [], Some e), w)
               | Inr line \<Rightarrow>
                 (case Unmarshal (Response_codec (\<lambda>_. False)) line of
                    None \<Rightarrow> ((zero_Response, [], Some json_error), w)
                  | Some response \<Rightarrow>
                    (case check_response response of
                       Some e \<Rightarrow> ((response, [], Some e), w)
                     | None \<Rightarrow>
                       if ra_Capture response then
                         (case dst of
                            None \<Rightarrow> ((response, [], Some (Errorf ''capture destination required'')), w)
                          | Some put \<Rightarrow>
                              (case copy_capture limits pieces put (drop (length line) stream) failure w of
                                 ((bytes, err), w) \<Rightarrow> ((response, bytes, err), w)))
                       else ((response, [], None), w)))))))"

end
