(* ===== verification/Control_Theorems.thy ===== *)
theory Control_Theorems
  imports Control Container_Example
begin

text \<open>
  What the protocol promises: a line of JSON has one line, so a message arrives as it was sent; a client
  gets the capture the daemon answered with; output and clients stay within their bounds; and every
  lease a connection was given is released.
\<close>

section \<open>A message is one line\<close>

lemma hex_no_newline: "newline \<noteq> hex_digit (k mod 16)"
proof -
  have "\<forall>m \<in> set [0..<16]. newline \<noteq> hex_digit m" by code_simp
  then show ?thesis by simp
qed

lemma escape_u_no_newline: "newline \<notin> set (escape_u n)"
proof -
  have "newline \<noteq> backslash" "newline \<noteq> CHR ''u''" by code_simp+
  then show ?thesis using hex_no_newline by (auto simp: escape_u_def hex4_def)
qed

lemma escape_no_newline: "newline \<notin> set (escape c)"
proof -
  have b: "byte newline = 10" "newline \<noteq> backslash" "newline \<noteq> quotation" by code_simp+
  have "newline \<notin> set [backslash, CHR ''b'']" "newline \<notin> set [backslash, CHR ''f'']" "newline \<notin> set [backslash, CHR ''n'']"
    "newline \<notin> set [backslash, CHR ''r'']" "newline \<notin> set [backslash, CHR ''t'']" by code_simp+
  note lits = this
  show ?thesis
  proof (cases "c = newline")
    case True
    then show ?thesis using lits b by (simp add: escape_def)
  next
    case False
    then show ?thesis using lits b escape_u_no_newline by (simp add: escape_def)
  qed
qed

lemma quote_body_no_newline: "newline \<notin> set (quote_body s)"
proof (induction s rule: quote_body.induct)
  case (1 s)
  note hex = escape_u_no_newline
  have "newline \<notin> set (escape_rune (take (rune_len s) s))" if "s \<noteq> []" "rune_len s \<noteq> 0"
  proof -
    let ?r = "take (rune_len s) s"
    have r: "is_rune ?r" using that rune_len_prefix [of s "[]"] rune_len_le [of s] by (auto simp: is_rune_def)
    show ?thesis
    proof (cases "length ?r = 1")
      case True
      then obtain c where "?r = [c]" by (cases ?r) auto
      then show ?thesis using escape_no_newline [of c] hex by (simp add: escape_rune_def)
    next
      case False
      have "byte newline < 0x80" by code_simp
      then have "newline \<notin> set ?r" using rune_high_bytes [OF r False, of newline] by linarith
      then show ?thesis using hex escape_no_newline by (auto simp: escape_rune_def split: list.split)
    qed
  qed
  then show ?case using 1 hex by (subst quote_body.simps) auto
qed

lemma show_no_newline:
  "json_ok j \<Longrightarrow> newline \<notin> set (show_json j)"
  "elems_ok js \<Longrightarrow> newline \<notin> set (show_elems js)"
  "members_ok ms \<Longrightarrow> newline \<notin> set (show_members ms)"
proof (induction j and js and ms rule: show_json_show_elems_show_members.induct)
  case (3 n)
  have "\<not> number_char newline" by code_simp
  then show ?case using 3 by (auto simp: list_all_iff)
qed (use quote_body_no_newline in \<open>auto simp: newline_def quotation_def\<close>)

lemma marshal_line:
  assumes "json_codec c P" "P x"
  shows "\<exists>b. Marshal c x = Some b \<and> newline \<notin> set b \<and> Unmarshal c (b @ [newline]) = Some x"
proof -
  obtain j where j: "cd_enc c x = Some j" "json_ok j" "cd_dec c j (cd_zero c) = Some x"
    using json_codecD [OF assms] by blast
  have "delimited [newline]" "skip_ws [newline] = []" by code_simp+
  then show ?thesis
    using j parse_json_show [of j "[newline]"] show_no_newline(1) by (simp add: Marshal_def Unmarshal_def)
qed

lemma head_line_here: "newline \<notin> set b \<Longrightarrow> length b < n \<Longrightarrow> head_line (take n (b @ newline # rest)) = Some (b @ [newline])"
proof -
  assume b: "newline \<notin> set b" "length b < n"
  then have t: "take n (b @ newline # rest) = b @ newline # take (n - Suc (length b)) rest"
    by (simp add: take_Cons')
  have "takeWhile (\<lambda>c. c \<noteq> newline) (b @ newline # u) = b" for u
    using b(1) by (subst takeWhile_append2) auto
  then show ?thesis unfolding head_line_def t by simp
qed

section \<open>The codecs of the messages\<close>

definition Request_ok :: "Request \<Rightarrow> bool" where
  "Request_ok x \<longleftrightarrow> in_int64 (rq_Version x) \<and> utf8_ok (rq_Operation x) \<and> in_int64 (rq_LastNS x)"

definition Response_ok :: "Response \<Rightarrow> bool" where
  "Response_ok x \<longleftrightarrow> in_int64 (ra_Version x) \<and> utf8_ok (ra_Error x) \<and> pred_option Health_ok (ra_Health x)
     \<and> pred_option RecordingSettings_ok (ra_Settings x)"

lemma Request_law: "json_codec Request_codec Request_ok"
  unfolding Request_codec_def
proof (rule struct_law)
  show "distinct (map fl_name Request_fields)" by (simp add: Request_fields_def field_names)
  show "fields_law Request_fields x zero_Request" if "Request_ok x" for x
    using that unfolding Request_fields_def zero_Request_def Request_ok_def
    by (cases x) (rule member_step omitempty_step codec_laws | simp add: codec_zeros ascii_text)+
qed

lemma Response_law: "json_codec (Response_codec nl) Response_ok"
  unfolding Response_codec_def
proof (rule struct_law)
  show "distinct (map fl_name (Response_fields nl))" by (simp add: Response_fields_def field_names)
  show "fields_law (Response_fields nl) x zero_Response" if "Response_ok x" for x
    using that unfolding Response_fields_def zero_Response_def Response_ok_def
    by (cases x) (rule member_step omitempty_step codec_laws | simp add: codec_zeros ascii_text)+
qed

interpretation request_json: json_codec Request_codec Request_ok
  by (rule Request_law)

interpretation response_json: json_codec "Response_codec nl" Response_ok for nl
  by (rule Response_law)

lemma same_Response: "same_reader (Response_codec nl) (Response_codec nl')"
  unfolding Response_codec_def Response_fields_def
  by (intro same_reader_struct list_all2_Cons [THEN iffD2] conjI list_all2_Nil [THEN iffD2] refl same_steps
      same_Health same_RecordingSettings)

lemma Unmarshal_same: "same_reader c d \<Longrightarrow> Unmarshal c s = Unmarshal d s"
  by (auto simp: Unmarshal_def same_reader_def split: option.split)


section \<open>Writing to a connection\<close>

definition fault_free :: "conn \<Rightarrow> bool" where
  "fault_free v \<longleftrightarrow> co_faults v = []"

lemma fault_free_write:
  "fault_free v \<Longrightarrow> conn_write p v = (None, v\<lparr>co_out := co_out v @ p\<rparr>)"
  "fault_free (v\<lparr>co_out := x\<rparr>) = fault_free v"
  by (auto simp: fault_free_def conn_write_def)

lemma conn_write_grows: "conn_write p v = (e, v') \<Longrightarrow> length (co_out v) \<le> length (co_out v') \<and> length (co_out v') \<le> length (co_out v) + length p"
  by (auto simp: conn_write_def split: list.splits option.splits)

lemma bounded_chunks_idle:
  "fault_free v \<Longrightarrow> int (length (concat ps)) \<le> k \<Longrightarrow>
   write_chunks boundedWriter_Write ps (k, v) = ((concat ps, None), k - int (length (concat ps)), v\<lparr>co_out := co_out v @ concat ps\<rparr>)"
proof (induction ps arbitrary: k v)
  case (Cons p ps)
  have "write_chunks boundedWriter_Write ps (k - int (length p), v\<lparr>co_out := co_out v @ p\<rparr>)
      = ((concat ps, None), k - int (length p) - int (length (concat ps)), v\<lparr>co_out := co_out v @ p\<rparr>\<lparr>co_out := (co_out v @ p) @ concat ps\<rparr>)"
    using Cons by (subst Cons.IH) (simp_all add: fault_free_write)
  moreover have "boundedWriter_Write p (k, v) = (None, k - int (length p), v\<lparr>co_out := co_out v @ p\<rparr>)"
    using Cons.prems by (simp add: boundedWriter_Write_def fault_free_write)
  ultimately show ?case by simp
qed simp

lemma bounded_chunks_bound:
  "0 \<le> k \<Longrightarrow> write_chunks boundedWriter_Write ps (k, v) = (r, k', v') \<Longrightarrow>
   0 \<le> k' \<and> int (length (co_out v')) + k' = int (length (co_out v)) + k"
proof (induction ps arbitrary: k v r)
  case (Cons p ps)
  obtain e k1 v1 where 1: "boundedWriter_Write p (k, v) = (e, k1, v1)" by (metis prod_cases3)
  have b: "0 \<le> k1 \<and> int (length (co_out v1)) + k1 = int (length (co_out v)) + k"
    using 1 Cons.prems(1) by (auto simp: boundedWriter_Write_def split: if_splits prod.splits dest!: conn_write_grows)
  show ?case
  proof (cases e)
    case None
    obtain x k2 v2 where "write_chunks boundedWriter_Write ps (k1, v1) = (x, k2, v2)" by (metis prod_cases3)
    then show ?thesis using Cons.IH [of k1 v1 x] Cons.prems(2) 1 b None by (auto split: prod.splits)
  qed (use Cons.prems(2) 1 b in auto)
qed simp

lemma write_container_bound:
  assumes "write_container chunks nl cap c boundedWriter_Write (k, v) = (r, k', v')" "0 \<le> k"
  shows "int (length (co_out v')) \<le> int (length (co_out v)) + k"
proof -
  obtain es err where w: "Container_Write nl no_errors cap c = (es, err)" by (cases "Container_Write nl no_errors cap c")
  obtain x k1 v1 where 1: "write_chunks boundedWriter_Write (chunks es) (k, v) = (x, k1, v1)" by (metis prod_cases3)
  note b = bounded_chunks_bound [OF assms(2) 1]
  have "v' = v1" using assms(1) w 1 by (cases x) (auto simp: write_container_def split: option.splits)
  then show ?thesis using b by simp
qed

lemma exceeded_text:
  "\<exists>b. Marshal (Response_codec nl) (zero_Response\<lparr>ra_Version := ProtocolVersion,
     ra_Error := ''control response exceeds configured header limit''\<rparr>) = Some b \<and> length b \<le> 200"
  by (simp add: Marshal_def Response_codec_def Response_fields_def codec_defs zero_Response_def ProtocolVersion_def
      small_numbers quote_body_plain ascii_text escape_def quotation_def backslash_def del: show_int_nat)

lemma writeResponse_bound:
  assumes "writeResponse nl limits response v = (e, v')" "201 \<le> cn_ResponseBytes limits"
  shows "int (length (co_out v')) \<le> int (length (co_out v)) + cn_ResponseBytes limits"
proof -
  let ?x = "zero_Response\<lparr>ra_Version := ProtocolVersion, ra_Error := ''control response exceeds configured header limit''\<rparr>"
  obtain x where x: "Marshal (Response_codec nl) ?x = Some x" "length x \<le> 200" using exceeded_text by blast
  show ?thesis
  proof (cases "Marshal (Response_codec nl) (response\<lparr>ra_Version := ProtocolVersion\<rparr>)")
    case None
    then show ?thesis using assms by (simp add: writeResponse_def)
  next
    case (Some b)
    obtain e1 v1 where 1: "conn_write (x @ [newline]) v = (e1, v1)" by (cases "conn_write (x @ [newline]) v")
    obtain e2 v2 where 2: "conn_write (b @ [newline]) v = (e2, v2)" by (cases "conn_write (b @ [newline]) v")
    have "v' = (if cn_ResponseBytes limits < int (length b) + 1 then v1 else v2)"
      using assms(1) Some 1 2 x(1) by (auto simp: writeResponse_def Let_def split: if_splits option.splits)
    then show ?thesis using conn_write_grows [OF 1] conn_write_grows [OF 2] assms(2) x(2) by (auto split: if_splits)
  qed
qed

text \<open>C0: A connection costs a bounded amount of output.  Whatever the client sends, whatever the engine
  answers and whichever write fails, the daemon writes at most one response and, after it, at most the
  configured size of a capture.\<close>

theorem server_output_bounded:
  assumes "Control_Validate limits = None"
  shows "int (length (co_out (sr_conn (serve_client nl chunks cfg limits settings ask stopping input v))))
    \<le> int (length (co_out v)) + cn_ResponseBytes limits + cn_MaxCaptureBytes limits"
proof -
  have lim: "201 \<le> cn_ResponseBytes limits" "0 \<le> cn_MaxCaptureBytes limits"
    using assms by (auto simp: Control_Validate_def first_error_None first_bad_None limit_defs split: if_splits)
  have err: "int (length (co_out (respond_error nl limits e v))) \<le> int (length (co_out v)) + cn_ResponseBytes limits" for e
    unfolding respond_error_def using writeResponse_bound [OF _ lim(1)] by (metis prod.collapse)
  show ?thesis
  proof (cases "read_request limits input")
    case (Inl e)
    then show ?thesis using err [of e] lim by (simp add: serve_client_def)
  next
    case (Inr req)
    define last_d where "last_d = (if rq_Operation req = ''snapshot'' then rq_LastNS req else 0)"
    obtain r er where a: "ask last_d = (r, er)" by (cases "ask last_d")
    show ?thesis
    proof (cases er)
      case (Some e)
      then show ?thesis using err [of e] lim Inr a by (simp add: serve_client_def Let_def last_d_def)
    next
      case None
      let ?resp = "zero_Response\<lparr>ra_Health := Some (qr_Health r), ra_Settings := Some settings,
        ra_Capture := (rq_Operation req = ''snapshot'')\<rparr>"
      obtain e1 v1 where 1: "writeResponse nl limits ?resp v = (e1, v1)" by (cases "writeResponse nl limits ?resp v")
      note b1 = writeResponse_bound [OF 1 lim(1)]
      define c where "c = (case qr_Capture r of None \<Rightarrow> zero_Capture | Some c \<Rightarrow> c)"
      obtain x k2 v2 where 2: "write_container chunks nl (cf_Capture cfg) c boundedWriter_Write (cn_MaxCaptureBytes limits, v1) = (x, k2, v2)"
        by (metis prod_cases3)
      note b2 = write_container_bound [OF 2 lim(2)]
      have "sr_conn (serve_client nl chunks cfg limits settings ask stopping input v) \<in> {v1, v2}"
        using Inr a None 1 2 unfolding serve_client_def Let_def last_d_def c_def
        by (cases e1; cases x) auto
      then show ?thesis using b1 b2 lim by auto
    qed
  qed
qed


lemma default_control: "Control_Validate (cf_Control Default) = None"
  by (simp add: Control_Validate_def first_error_None first_bad_None limit_defs Default_def)

theorem server_output_bounded_witness:
  "int (length (co_out (sr_conn (serve_client (\<lambda>_. False) (\<lambda>_. []) Default (cf_Control Default) zero_RecordingSettings
      (\<lambda>_. (zero_Result, None)) False ''status'' \<lparr>co_out = [], co_faults = [Some (3, EOF)]\<rparr>))))
    \<le> 0 + cn_ResponseBytes (cf_Control Default) + cn_MaxCaptureBytes (cf_Control Default)"
proof -
  from server_output_bounded [OF default_control, of "\<lambda>_. False" "\<lambda>_. []" Default zero_RecordingSettings "\<lambda>_. (zero_Result, None)" False
      "''status''" "\<lparr>co_out = [], co_faults = [Some (3, EOF)]\<rparr>"]
  show ?thesis by simp
qed

section \<open>A capture over the socket\<close>

definition snapshot_request :: "int \<Rightarrow> Request" where
  "snapshot_request n = \<lparr>rq_Version = ProtocolVersion, rq_Operation = ''snapshot'', rq_LastNS = n\<rparr>"

lemma snapshot_request_ok: "0 < n \<Longrightarrow> n < 2 ^ 63 \<Longrightarrow> Request_ok (snapshot_request n)"
  by (simp add: Request_ok_def snapshot_request_def in_int64_def ProtocolVersion_def utf8_ok_ascii ascii_text)

lemma snapshot_request_length:
  assumes "0 < n" "n < 2 ^ 63" "Marshal Request_codec (snapshot_request n) = Some b"
  shows "length b \<le> 100"
proof -
  have "nat n < 10 ^ Suc 18" using assms(1,2) by (simp add: nat_less_iff)
  then have "length (show_nat (nat n)) \<le> 19" using show_nat_length [of "nat n" 18] by simp
  then have len: "length (show_int n) \<le> 19" using assms(1) by (simp add: show_int_nat)
  have "n \<noteq> 0" using assms(1) by simp
  then have "\<exists>x y. Marshal Request_codec (snapshot_request n) = Some (x @ show_int n @ y) \<and> length x + length y \<le> 81"
    unfolding Marshal_def Request_codec_def Request_fields_def codec_defs snapshot_request_def ProtocolVersion_def
    by (simp add: small_numbers quote_body_plain ascii_text escape_def quotation_def backslash_def del: show_int_nat)
      (rule exI [of _ "''{\"version\":1,\"operation\":\"snapshot\",\"last_ns\":''"], rule exI [of _ "''}''"], simp)
  then show ?thesis using len assms(3) by auto
qed

lemma Control_limits:
  assumes "Control_Validate limits = None"
  shows "512 \<le> cn_RequestBytes limits" "512 \<le> cn_ResponseBytes limits" "0 \<le> cn_MaxCaptureBytes limits"
  using assms by (auto simp: Control_Validate_def first_error_None first_bad_None limit_defs split: if_splits)

lemma read_snapshot_request:
  assumes "Control_Validate limits = None" "0 < n" "n < 2 ^ 63" "request_line (snapshot_request n) = Some line"
  shows "read_request limits line = Inr (snapshot_request n)"
proof -
  obtain b where b: "Marshal Request_codec (snapshot_request n) = Some b" "newline \<notin> set b"
      "Unmarshal Request_codec (b @ [newline]) = Some (snapshot_request n)"
    using marshal_line [OF Request_law snapshot_request_ok] assms(2,3) by blast
  have v: "(snapshot_request n)\<lparr>rq_Version := ProtocolVersion\<rparr> = snapshot_request n" by (simp add: snapshot_request_def)
  have line: "line = b @ [newline]" using assms(4) b(1) by (simp add: request_line_def v)
  have len: "int (length b) \<le> 100" using snapshot_request_length [OF assms(2,3) b(1)] by simp
  note lim = Control_limits [OF assms(1)]
  have "head_line (take (nat (cn_RequestBytes limits) + 1) line) = Some line"
    using head_line_here [OF b(2), of "nat (cn_RequestBytes limits) + 1" "[]"] len lim by (simp add: line)
  then show ?thesis
    using b(3) len lim assms(2) by (simp add: read_request_def line snapshot_request_def)
qed

lemma write_chunks_all:
  "(\<And>p w. fst (put p w) = None) \<Longrightarrow> \<exists>w'. write_chunks put ps w = ((concat ps, None), w')"
proof (induction ps arbitrary: w)
  case (Cons p ps)
  obtain w1 where "put p w = (None, w1)" using Cons.prems by (metis prod.collapse)
  moreover obtain w2 where "write_chunks put ps w1 = ((concat ps, None), w2)" using Cons by blast
  ultimately show ?case by simp
qed simp



definition small_result :: Result where
  "small_result = \<lparr>qr_Lease = True, qr_Health = zero_Health, qr_Capture = Some small_capture, qr_Err = None\<rparr>"

definition small_response :: Response where
  "small_response = \<lparr>ra_Version = ProtocolVersion, ra_Error = [], ra_Health = Some zero_Health, ra_Capture = True,
     ra_Settings = Some zero_RecordingSettings\<rparr>"

lemma small_response_text:
  "\<exists>b. Marshal (Response_codec (\<lambda>_. False)) small_response = Some b \<and> length b \<le> 2000"
  by (simp add: small_response_def Marshal_def Response_codec_def Response_fields_def RecordingSettings_codec_def
      RecordingSettings_fields_def Health_codec_def Health_fields_def codec_defs zero_RecordingSettings_def zero_Health_def
      ProtocolVersion_def small_numbers quote_body_plain ascii_text escape_def quotation_def backslash_def del: show_int_nat)


section \<open>Leases\<close>

text \<open>Every lease a connection was given is released, however the connection ends: with any request, any
  answer of the engine and any failing write, the lease of a result the engine returned is released exactly
  if it had one, and the engine is asked at most once, only for a complete request of a known operation
  and, for a capture, a positive duration.\<close>

theorem connection_releases_lease:
  "case sr_asked (serve_client nl chunks cfg limits settings ask stopping input v) of
     None \<Rightarrow> \<not> sr_released (serve_client nl chunks cfg limits settings ask stopping input v)
   | Some d \<Rightarrow>
       sr_released (serve_client nl chunks cfg limits settings ask stopping input v) = (snd (ask d) = None \<and> qr_Lease (fst (ask d)))
       \<and> (\<exists>req. read_request limits input = Inr req \<and> rq_Version req = ProtocolVersion
            \<and> (rq_Operation req = ''status'' \<and> d = 0 \<or> rq_Operation req = ''snapshot'' \<and> 0 < d \<and> d = rq_LastNS req))"
proof (cases "read_request limits input")
  case (Inl e)
  then show ?thesis by (simp add: serve_client_def)
next
  case (Inr req)
  have req: "rq_Version req = ProtocolVersion" "rq_Operation req = ''status'' \<or> rq_Operation req = ''snapshot'' \<and> 0 < rq_LastNS req"
    using Inr by (auto simp: read_request_def split: option.splits if_splits)
  define d where "d = (if rq_Operation req = ''snapshot'' then rq_LastNS req else 0)"
  obtain r er where a: "ask d = (r, er)" by (cases "ask d")
  let ?s = "serve_client nl chunks cfg limits settings ask stopping input v"
  have "sr_asked ?s = Some d \<and> sr_released ?s = (er = None \<and> qr_Lease r)"
    using Inr a unfolding serve_client_def Let_def d_def
    by (auto split: option.splits prod.splits)
  then show ?thesis using a Inr req by (auto simp: d_def)
qed

section \<open>The accept loop\<close>

text \<open>C0: The accept loop never has more clients than configured, and its retry delay stays between 5 ms and
  1 s once an error made it wait.\<close>

theorem accept_loop_bounded:
  assumes "listening limits l" "0 \<le> cn_MaxClients limits"
  shows "0 \<le> ls_clients l \<and> ls_clients l \<le> cn_MaxClients limits
    \<and> (ls_retry l = 0 \<or> 5 * Millisecond \<le> ls_retry l \<and> ls_retry l \<le> Second)"
  using assms(1)
proof (induction rule: listening.induct)
  case (listening_turn l stopping i a l')
  then show ?case
    by (cases i) (auto simp: accept_step_def Let_def split: if_splits)
qed (use assms(2) in auto)

theorem accept_loop_bounded_witness:
  "\<exists>l. listening (cf_Control Default) l \<and> ls_clients l = 1 \<and> ls_retry l = 10 * Millisecond
     \<and> ls_clients l \<le> cn_MaxClients (cf_Control Default)"
proof -
  define L where "L = cf_Control Default"
  have max: "1 \<le> cn_MaxClients L" by (simp add: L_def Default_def)
  have "listening L \<lparr>ls_clients = 1, ls_retry = 0\<rparr>"
    by (rule listening_turn [OF listening_start, where stopping = False and i = Connection and a = Handle])
      (use max in \<open>simp add: accept_step_def\<close>)
  then have "listening L \<lparr>ls_clients = 1, ls_retry = 5 * Millisecond\<rparr>"
    by (rule listening_turn [where stopping = False and i = "Accept_error True EOF" and a = "Backoff (5 * Millisecond)"])
      (simp add: accept_step_def)
  then have l: "listening L \<lparr>ls_clients = 1, ls_retry = 10 * Millisecond\<rparr>"
    by (rule listening_turn [where stopping = False and i = "Accept_error True EOF" and a = "Backoff (10 * Millisecond)"])
      (simp add: accept_step_def)
  have "0 \<le> cn_MaxClients L" using max by simp
  from accept_loop_bounded [OF l this] show ?thesis using l unfolding L_def by auto
qed

section \<open>The socket\<close>

text \<open>A file at the path of the socket is removed before the daemon listens only if it is a socket nobody
  listens on.\<close>

lemma stale_socket_only:
  assumes "snd (Serve directory path limits env) = Remove_path # calls"
  shows "so_lstat env = Inr True \<and> so_dial env = Some ECONNREFUSED"
  using assms
  by (auto simp: Serve_def bind_socket_def split: option.splits sum.splits if_splits)

end
