(* ===== verification/Spec2Isabelle.thy ===== *)
theory Spec2Isabelle
  imports Settings Recorder_Theorems Engine_Theorems Sensor_Theorems Process Evidence
    Container_Theorems Files_Theorems Store_Theorems Render_Theorems Status Control_Theorems
begin

text \<open>
  Verification of the flight recorder.

  The program keeps a bounded rolling history of kernel observations (block I/O, scheduler, TCP, OOM) and writes
  a window of it to a capture file, on request or automatically when something critical is seen; an offline
  analyzer turns a capture into a report.  The sensors deliver detail events and interval metrics; one goroutine,
  the event loop, owns the recorder, the clock and the incident controller; clients and one writer goroutine
  receive selected captures from it; the analyzer only reads captures.

  Theories and the code they model (files under \<open>src/internal\<close>):

  \<^item> \<open>Prelude\<close>, \<open>GoText\<close>, \<open>GoFormat\<close>: widths, errors, decimal text, durations, dates and the formatting of Go's
    standard library that the code uses.
  \<^item> \<open>Model\<close> (\<open>model/model.go\<close>, \<open>autocapture.go\<close>, \<open>format.go\<close>): the records every component exchanges.
  \<^item> \<open>Config\<close>, \<open>Settings\<close> (\<open>config/defaults.go\<close>, \<open>config.go\<close>, \<open>settings.go\<close>): limits, validation, byte quantities,
    the operator's settings and their conversion.
  \<^item> \<open>Recorder\<close> and \<open>Recorder_*\<close>, \<open>Snapshot\<close> (\<open>recorder/recorder.go\<close>): the rolling history.  The state is the record
    \<open>Recorder\<close>; \<open>Advance\<close>, \<open>Recorder_Event\<close>, \<open>Recorder_Metric\<close> and \<open>SnapshotWindow\<close> are the operations.
    \<open>Recorder_Inv\<close> has the locale \<open>retention\<close> (an invariant of the three removals holds of every loop);
    \<open>Recorder_Budget\<close> (byte account), \<open>Recorder_Order\<close> (order in time) and \<open>Recorder_Fold\<close> (conservation of the
    aggregates, locale \<open>rollup_counter\<close>) interpret it; \<open>Snapshot\<close> shows the selection exact and readable.
  \<^item> \<open>CaptureCheck\<close> (\<open>capture/capture.go\<close>): the checks at the end of reading a capture.
  \<^item> \<open>Controller\<close>, \<open>Controller_Inv\<close> (\<open>autocapture/controller.go\<close>): scheduling of automatic incidents.
  \<^item> \<open>Clock\<close> (\<open>app/clock.go\<close>, \<open>clock_linux.go\<close>), \<open>Engine\<close>, \<open>Engine_Inv\<close>, \<open>Engine_Theorems\<close> (\<open>app/app.go\<close>,
    \<open>automatic.go\<close>): the event loop.  Every case of its \<open>select\<close> is a definition; the interleaving with the
    goroutines around it is the step relation \<open>running\<close>, and the properties hold in every state it reaches.
  \<^item> \<open>Decode\<close>, \<open>Sensor\<close>, \<open>Sensor_Theorems\<close> (\<open>sensor/sensor_linux.go\<close>): detail records, interval metrics, the clean-up
    of detail budgets and the start of the sensors; the locale \<open>interval_sensor\<close> is the contract of the \<open>Sensor\<close>
    interface towards the loop, interpreted on the kernel sensor.
  \<^item> \<open>Process\<close> (\<open>process/metadata.go\<close>): the bounded cache of process metadata, refined to an abstract
    least-recently-used cache.
  \<^item> \<open>Correlation\<close> (\<open>analyzer/correlation.go\<close>), \<open>Report\<close> (data of \<open>analyzer/analyzer.go\<close> and \<open>assessment.go\<close>,
    \<open>model/coverage.go\<close>), \<open>Assessment\<close>, \<open>Assessment_Theorems\<close> (\<open>analyzer/assessment.go\<close>), \<open>Analyzer\<close>, \<open>Evidence\<close>
    (\<open>analyzer/analyzer.go\<close>): the report.  The verdict is shown to be earned (a clean verdict means complete evidence
    and nothing observed), every cited reference exists, and the indexed correlation equals the direct search.

  How the code is represented.  A Go integer of fixed unsigned width is a word and wraps; \<open>int\<close>, \<open>int64\<close> and
  durations are integers, wrapped by \<open>i64\<close> where the code can leave the range.  A panic is \<open>None\<close>, an error a value of
  \<open>go_error\<close>.  Slices that are never mutated after being shared are lists; where capacity is charged it is a field.
  Goroutines are steps of a relation; a channel operation that would block the loop is a state the theorems exclude.
  The kernel, the file system, \<open>cilium/ebpf\<close>, YAML and the flag library are parameters: records of the results of
  the calls the code makes, one per call, so that two reads of the same thing may differ.

  Bounds.  The loops of the recorder shorten a list and are total functions; \<open>expire_heads\<close> of the correlation
  advances a head below a length.  The clock sample takes a fixed number of rounds.  No function has fuel.

  Not modelled.  Text layout of the terminal report, the command line, logging, the build tools and the generated BPF
  bindings carry no state of the recording.  The YAML and flag libraries and the reflection over their nodes are
  third-party.  The tar and zstd layers of a capture file, the directory of automatic captures with its rotation, and
  the control socket are the next parts to model: their data (captures, incidents, responses) and the checks of a read
  capture are already here.
\<close>

end
